(* ===== verification/Ding_Prelude.thy ===== *)
theory Ding_Prelude
  imports Main "HOL-Library.List_Lexorder" "HOL-Library.Char_ord"
begin

text \<open>
  Shared vocabulary of the development: the result type of fallible Go
  functions, instants and durations of package \<open>time\<close>, Go strings as byte
  lists, association lists for Go maps that are iterated, and the generic lemmas the
  component theories use.
\<close>

section \<open>Errors as values\<close>

text \<open>
  A Go function returning \<open>(T, error)\<close> becomes a function into
  \<open>err + T\<close>: \<open>Inl\<close> carries the error. \<open>Err\<close> is an error made
  by \<open>fmt.Errorf\<close> (its message without the formatted arguments); the other
  constructors are the sentinel values of package \<open>store\<close> and \<open>watchrun\<close>
  that callers compare with \<open>errors.Is\<close>.
\<close>

datatype err =
    Err string
  | ErrNotFound
  | ErrConflict
  | ErrStale
  | ErrQuota
  | ErrClosed
  | ErrClosing
  | ErrIdempotency
  | ErrProducerExpired
  | ErrDenied

type_synonym 'a result = "err + 'a"

fun bindE :: "'a result \<Rightarrow> ('a \<Rightarrow> 'b result) \<Rightarrow> 'b result" where
  "bindE (Inl e) f = Inl e"
| "bindE (Inr a) f = f a"

lemma bindE_eq_Inr [simp]: "bindE r f = Inr b \<longleftrightarrow> (\<exists>a. r = Inr a \<and> f a = Inr b)"
  by (cases r) auto

lemma bindE_eq_Inl: "bindE r f = Inl e \<longleftrightarrow> r = Inl e \<or> (\<exists>a. r = Inr a \<and> f a = Inl e)"
  by (cases r) auto

lemma bindE_assoc: "bindE (bindE r f) g = bindE r (\<lambda>a. bindE (f a) g)"
  by (cases r) auto

section \<open>Instants and durations\<close>

text \<open>
  A \<open>time.Time\<close> is its nanosecond count since the Unix epoch; the zero value of
  the type is the first instant of year 1. A \<open>time.Duration\<close> is its nanosecond
  count, an \<open>int64\<close>; \<open>Time.Sub\<close> saturates at the ends of that range.
\<close>

type_synonym time = int
type_synonym duration = int

definition second :: duration where "second = 1000000000"
definition millisecond :: duration where "millisecond = 1000000"
definition minute :: duration where "minute = 60 * 1000000000"
definition hour :: duration where "hour = 3600 * 1000000000"

definition zero_time :: time where "zero_time = - 62135596800000000000"

abbreviation is_zero :: "time \<Rightarrow> bool" where "is_zero t \<equiv> t = zero_time"

definition max_duration :: int where "max_duration = 9223372036854775807"
definition min_duration :: int where "min_duration = - 9223372036854775808"

definition time_sub :: "time \<Rightarrow> time \<Rightarrow> duration" where
  "time_sub t u = max min_duration (min max_duration (t - u))"

lemma time_sub_gt: "d < max_duration \<Longrightarrow> min_duration \<le> d \<Longrightarrow> time_sub t u > d \<longleftrightarrow> t - u > d"
  by (auto simp: time_sub_def)

text \<open>\<open>Time.Truncate(time.Second)\<close> counts from the zero time, a whole second, so it
  rounds down to a multiple of a second since the epoch; \<open>Time.Unix\<close> is the floor.\<close>

definition unix :: "time \<Rightarrow> int" where "unix t = t div second"

definition truncate_second :: "time \<Rightarrow> time" where
  "truncate_second t = unix t * second"

lemma truncate_second_le: "truncate_second t \<le> t"
  using div_mult_mod_eq [of t second] pos_mod_sign [of second t]
  by (simp add: truncate_second_def unix_def second_def)

lemma truncate_second_gt: "t < truncate_second t + second"
  using div_mult_mod_eq [of t second] pos_mod_bound [of second t]
  by (simp add: truncate_second_def unix_def second_def)

lemma unix_mono: "t \<le> u \<Longrightarrow> unix t \<le> unix u"
  by (simp add: unix_def second_def zdiv_mono1)

lemma unix_add_seconds: "unix (t + k * second) = unix t + k"
  by (simp add: unix_def second_def)

lemma unix_truncate [simp]: "unix (truncate_second t) = unix t"
  by (simp add: unix_def truncate_second_def second_def)

section \<open>Go strings\<close>

text \<open>
  A Go string is a byte sequence: \<open>string\<close>, one \<open>char\<close> per byte. String
  order is byte-lexicographic, the order of List\_Lexorder over Char\_ord.
\<close>

definition byte :: "char \<Rightarrow> nat" where "byte c = of_char c"

definition is_digit :: "char \<Rightarrow> bool" where
  "is_digit c \<longleftrightarrow> 48 \<le> byte c \<and> byte c \<le> 57"

definition digit_val :: "char \<Rightarrow> nat" where "digit_val c = byte c - 48"

definition is_upper :: "char \<Rightarrow> bool" where
  "is_upper c \<longleftrightarrow> 65 \<le> byte c \<and> byte c \<le> 90"

definition is_lower :: "char \<Rightarrow> bool" where
  "is_lower c \<longleftrightarrow> 97 \<le> byte c \<and> byte c \<le> 122"

definition is_alpha :: "char \<Rightarrow> bool" where
  "is_alpha c \<longleftrightarrow> is_upper c \<or> is_lower c"

fun has_prefix :: "string \<Rightarrow> string \<Rightarrow> bool" where
  "has_prefix [] s = True"
| "has_prefix (p # ps) [] = False"
| "has_prefix (p # ps) (c # s) = (p = c \<and> has_prefix ps s)"

lemma has_prefix_iff: "has_prefix p s \<longleftrightarrow> (\<exists>r. s = p @ r)"
  by (induction p s rule: has_prefix.induct) auto

text \<open>\<open>strings.TrimSpace\<close>: the UTF-8 encodings of the runes \<open>unicode.IsSpace\<close>
  accepts, stripped from the front and, on the reversed string, from the back.\<close>

definition space_encodings :: "string list" where
  "space_encodings =
     [[CHR 0x09], [CHR 0x0A], [CHR 0x0B], [CHR 0x0C], [CHR 0x0D], [CHR 0x20],
      [CHR 0xC2, CHR 0x85], [CHR 0xC2, CHR 0xA0], [CHR 0xE1, CHR 0x9A, CHR 0x80],
      [CHR 0xE2, CHR 0x80, CHR 0x80], [CHR 0xE2, CHR 0x80, CHR 0x81], [CHR 0xE2, CHR 0x80, CHR 0x82],
      [CHR 0xE2, CHR 0x80, CHR 0x83], [CHR 0xE2, CHR 0x80, CHR 0x84], [CHR 0xE2, CHR 0x80, CHR 0x85],
      [CHR 0xE2, CHR 0x80, CHR 0x86], [CHR 0xE2, CHR 0x80, CHR 0x87], [CHR 0xE2, CHR 0x80, CHR 0x88],
      [CHR 0xE2, CHR 0x80, CHR 0x89], [CHR 0xE2, CHR 0x80, CHR 0x8A], [CHR 0xE2, CHR 0x80, CHR 0xA8],
      [CHR 0xE2, CHR 0x80, CHR 0xA9], [CHR 0xE2, CHR 0x80, CHR 0xAF], [CHR 0xE2, CHR 0x81, CHR 0x9F],
      [CHR 0xE3, CHR 0x80, CHR 0x80]]"

fun strip_first :: "string list \<Rightarrow> string \<Rightarrow> string option" where
  "strip_first [] s = None"
| "strip_first (e # es) s =
     (if e \<noteq> [] \<and> has_prefix e s then Some (drop (length e) s) else strip_first es s)"

lemma strip_first_length: "strip_first es s = Some r \<Longrightarrow> length r < length s"
proof (induction es)
  case (Cons e es)
  then show ?case by (cases e) (auto simp: has_prefix_iff split: if_splits)
qed simp

function strip_all :: "string list \<Rightarrow> string \<Rightarrow> string" where
  "strip_all es s = (case strip_first es s of None \<Rightarrow> s | Some r \<Rightarrow> strip_all es r)"
  by pat_completeness auto
termination by (relation "measure (\<lambda>(es, s). length s)") (auto dest: strip_first_length)

declare strip_all.simps [simp del]

definition trim_space :: "string \<Rightarrow> string" where
  "trim_space s = rev (strip_all (map rev space_encodings) (rev (strip_all space_encodings s)))"

text \<open>\<open>strings.ToLower\<close> as far as a comparison with ASCII text can see it: ASCII
  letters, and the two other letters whose lower case is ASCII (U+0130 and U+212A).\<close>

definition to_lower_char :: "char \<Rightarrow> char" where
  "to_lower_char c = (if is_upper c then char_of (byte c + 32) else c)"

fun to_lower :: "string \<Rightarrow> string" where
  "to_lower [] = []"
| "to_lower (c # s) =
     (if has_prefix [CHR 0xC4, CHR 0xB0] (c # s) then CHR ''i'' # to_lower (drop 1 s)
      else if has_prefix [CHR 0xE2, CHR 0x84, CHR 0xAA] (c # s) then CHR ''k'' # to_lower (drop 2 s)
      else to_lower_char c # to_lower s)"

text \<open>\<open>strings.Index\<close>: the first position of a substring.\<close>

fun str_index :: "string \<Rightarrow> string \<Rightarrow> nat option" where
  "str_index pat [] = (if pat = [] then Some 0 else None)"
| "str_index pat (c # s) =
     (if has_prefix pat (c # s) then Some 0 else map_option Suc (str_index pat s))"

definition contains :: "string \<Rightarrow> string \<Rightarrow> bool" where
  "contains s pat \<longleftrightarrow> str_index pat s \<noteq> None"

lemma str_index_bound: "str_index pat s = Some i \<Longrightarrow> i + length pat \<le> length s"
proof (induction s arbitrary: i)
  case Nil
  then show ?case by (auto split: if_splits)
next
  case (Cons c s)
  show ?case
  proof (cases "has_prefix pat (c # s)")
    case True
    then obtain r where "c # s = pat @ r" by (auto simp: has_prefix_iff)
    then have "length pat \<le> length (c # s)" by (metis length_append le_add1)
    with Cons.prems True show ?thesis by simp
  next
    case False
    with Cons show ?thesis by auto
  qed
qed

section \<open>Association lists\<close>

text \<open>A Go map that the code iterates or measures is an association list with distinct
  keys; \<open>alist_put\<close> is \<open>m[k] = v\<close>.\<close>

definition alist_wf :: "('k \<times> 'v) list \<Rightarrow> bool" where
  "alist_wf m \<longleftrightarrow> distinct (map fst m)"

fun alist_put :: "'k \<Rightarrow> 'v \<Rightarrow> ('k \<times> 'v) list \<Rightarrow> ('k \<times> 'v) list" where
  "alist_put k v [] = [(k, v)]"
| "alist_put k v ((a, b) # m) = (if a = k then (k, v) # m else (a, b) # alist_put k v m)"

definition alist_del :: "'k \<Rightarrow> ('k \<times> 'v) list \<Rightarrow> ('k \<times> 'v) list" where
  "alist_del k m = filter (\<lambda>p. fst p \<noteq> k) m"

lemma map_of_alist_put [simp]: "map_of (alist_put k v m) = (map_of m)(k \<mapsto> v)"
  by (induction k v m rule: alist_put.induct) auto

lemma keys_alist_put: "fst ` set (alist_put k v m) = insert k (fst ` set m)"
  by (induction k v m rule: alist_put.induct) auto

lemma alist_wf_put: "alist_wf m \<Longrightarrow> alist_wf (alist_put k v m)"
proof (induction k v m rule: alist_put.induct)
  case (2 k v a b m)
  then show ?case using keys_alist_put [of k v m] by (auto simp: alist_wf_def)
qed (simp add: alist_wf_def)

lemma length_alist_put:
  "length (alist_put k v m) = (if k \<in> fst ` set m then length m else Suc (length m))"
  by (induction k v m rule: alist_put.induct) auto

lemma alist_wf_filter [intro]: "alist_wf m \<Longrightarrow> alist_wf (filter P m)"
  unfolding alist_wf_def by (induction m) auto

lemma map_of_alist_del [simp]: "map_of (alist_del k m) = (map_of m)(k := None)"
  by (induction m) (auto simp: alist_del_def)

lemma map_of_filter_wf:
  "alist_wf m \<Longrightarrow> map_of (filter (\<lambda>(k, v). P k v) m) k =
     (case map_of m k of None \<Rightarrow> None | Some v \<Rightarrow> if P k v then Some v else None)"
proof (induction m)
  case (Cons p m)
  obtain a b where p: "p = (a, b)" by fastforce
  have "a \<notin> fst ` set m" using Cons.prems p by (simp add: alist_wf_def)
  then have "map_of m a = None" by (simp add: map_of_eq_None_iff)
  moreover have "alist_wf m" using Cons.prems by (simp add: alist_wf_def)
  ultimately show ?case using Cons.IH p by (auto split: option.splits)
qed simp

section \<open>Lists\<close>

definition last_opt :: "'a list \<Rightarrow> 'a option" where
  "last_opt xs = (if xs = [] then None else Some (last xs))"

lemma last_opt_snoc [simp]: "last_opt (xs @ [x]) = Some x"
  by (simp add: last_opt_def)

lemma length_filter_le_iff: "length xs \<le> n \<Longrightarrow> length (filter P xs) \<le> n"
  using length_filter_le [of P xs] by linarith

end
