(* ===== verification/Float64.thy ===== *)
theory Float64
  imports Ding_Prelude Complex_Main
begin

text \<open>
  Go's \<open>float64\<close>: IEEE 754 binary64 with round to nearest, ties to even,
  executable on concrete values. A finite value is a sign, a significand below
  \<open>2 ^ 53\<close> and an exponent between \<open>-1074\<close> and \<open>971\<close>. The arithmetic
  computes the exact rational result and rounds it once, as the standard requires.
\<close>

section \<open>Values\<close>

datatype float64 =
    NaN
  | Inf bool              \<comment> \<open>\<open>True\<close>: minus infinity\<close>
  | Fin bool int int      \<comment> \<open>sign (\<open>True\<close>: negative), significand, exponent\<close>

definition emin :: int where "emin = -1074"
definition emax :: int where "emax = 971"

text \<open>Powers of two by a recursion that evaluates on numerals.\<close>

function pow2 :: "int \<Rightarrow> int" where
  "pow2 e = (if e \<le> 0 then 1 else 2 * pow2 (e - 1))"
  by pat_completeness auto
termination by (relation "measure nat") auto

declare pow2.simps [simp del]

text \<open>Canonical finite values: every significand has 53 bits unless the exponent is
  already the least one.\<close>

fun canonical :: "float64 \<Rightarrow> bool" where
  "canonical (Fin s m e) \<longleftrightarrow>
     0 \<le> m \<and> m < 9007199254740992 \<and> emin \<le> e \<and> e \<le> emax \<and> (4503599627370496 \<le> m \<or> e = emin)"
| "canonical _ \<longleftrightarrow> True"

fun is_finite :: "float64 \<Rightarrow> bool" where
  "is_finite (Fin _ _ _) = True"
| "is_finite _ = False"

definition is_nan :: "float64 \<Rightarrow> bool" where "is_nan x \<longleftrightarrow> x = NaN"

definition fzero :: float64 where "fzero = Fin False 0 emin"

text \<open>The signed significand at a lower exponent \<open>e0\<close>: exact.\<close>

definition signed :: "bool \<Rightarrow> int \<Rightarrow> int" where
  "signed s m = (if s then - m else m)"

definition at_exp :: "int \<Rightarrow> bool \<Rightarrow> int \<Rightarrow> int \<Rightarrow> int" where
  "at_exp e0 s m e = signed s m * pow2 (e - e0)"

text \<open>The rational value, for specifications.\<close>

fun fval :: "float64 \<Rightarrow> rat" where
  "fval (Fin s m e) = of_int (signed s m) * 2 powi e"
| "fval _ = 0"

section \<open>Rounding\<close>

function nbits :: "int \<Rightarrow> int" where
  "nbits n = (if n \<le> 0 then 0 else 1 + nbits (n div 2))"
  by pat_completeness auto
termination by (relation "measure nat") auto

declare nbits.simps [simp del]

text \<open>\<open>scale_ratio n d e\<close> is the fraction \<open>n / d / 2 ^ e\<close> as two integers.\<close>

definition scale_ratio :: "int \<Rightarrow> int \<Rightarrow> int \<Rightarrow> int \<times> int" where
  "scale_ratio n d e = (n * pow2 (- e), d * pow2 e)"

definition round_half_even :: "int \<Rightarrow> int \<Rightarrow> int" where
  "round_half_even n d =
     (let q = n div d; r = n mod d
      in if 2 * r < d \<or> (2 * r = d \<and> even q) then q else q + 1)"

definition ratio_exp :: "int \<Rightarrow> int \<Rightarrow> int" where
  "ratio_exp n d =
     (let e = nbits n - nbits d - 53; (a, b) = scale_ratio n d e
      in max emin (if a div b \<ge> 9007199254740992 then e + 1 else e))"

text \<open>\<open>n / d\<close> rounded to the nearest \<open>float64\<close>, for \<open>0 \<le> n\<close> and
  \<open>0 < d\<close>, with the given sign. The two constants are \<open>2 ^ 53\<close> and \<open>2 ^ 52\<close>.\<close>

definition round_ratio :: "bool \<Rightarrow> int \<Rightarrow> int \<Rightarrow> float64" where
  "round_ratio s n d =
     (if n = 0 then Fin s 0 emin
      else let e = ratio_exp n d; (a, b) = scale_ratio n d e; q = round_half_even a b;
               (m, e') = (if q = 9007199254740992 then (4503599627370496, e + 1) else (q, e))
           in if e' > emax then Inf s else Fin s m e')"

text \<open>A value \<open>m * 2 ^ e\<close>, rounded.\<close>

definition round_dyadic :: "bool \<Rightarrow> int \<Rightarrow> int \<Rightarrow> float64" where
  "round_dyadic s m e = round_ratio s (m * pow2 e) (pow2 (- e))"

definition float_of_int :: "int \<Rightarrow> float64" where
  "float_of_int i = round_ratio (i < 0) \<bar>i\<bar> 1"

section \<open>Comparison\<close>

fun feq :: "float64 \<Rightarrow> float64 \<Rightarrow> bool" where
  "feq (Inf s) (Inf t) \<longleftrightarrow> s = t"
| "feq (Fin s m e) (Fin t n f) \<longleftrightarrow>
     (let e0 = min e f in at_exp e0 s m e = at_exp e0 t n f)"
| "feq _ _ \<longleftrightarrow> False"

fun flt :: "float64 \<Rightarrow> float64 \<Rightarrow> bool" where
  "flt (Inf s) (Inf t) \<longleftrightarrow> s \<and> \<not> t"
| "flt (Inf s) (Fin _ _ _) \<longleftrightarrow> s"
| "flt (Fin _ _ _) (Inf t) \<longleftrightarrow> \<not> t"
| "flt (Fin s m e) (Fin t n f) \<longleftrightarrow>
     (let e0 = min e f in at_exp e0 s m e < at_exp e0 t n f)"
| "flt _ _ \<longleftrightarrow> False"

definition fle :: "float64 \<Rightarrow> float64 \<Rightarrow> bool" where
  "fle x y \<longleftrightarrow> flt x y \<or> feq x y"

section \<open>Arithmetic\<close>

fun fadd :: "float64 \<Rightarrow> float64 \<Rightarrow> float64" where
  "fadd (Fin s m e) (Fin t n f) =
     (let e0 = min e f; z = at_exp e0 s m e + at_exp e0 t n f
      in if z = 0 then Fin (s \<and> t) 0 emin else round_dyadic (z < 0) \<bar>z\<bar> e0)"
| "fadd (Inf s) (Inf t) = (if s = t then Inf s else NaN)"
| "fadd (Inf s) (Fin _ _ _) = Inf s"
| "fadd (Fin _ _ _) (Inf t) = Inf t"
| "fadd _ _ = NaN"

fun fmul :: "float64 \<Rightarrow> float64 \<Rightarrow> float64" where
  "fmul (Fin s m e) (Fin t n f) = round_dyadic (s \<noteq> t) (m * n) (e + f)"
| "fmul (Inf s) (Inf t) = Inf (s \<noteq> t)"
| "fmul (Inf s) (Fin t n _) = (if n = 0 then NaN else Inf (s \<noteq> t))"
| "fmul (Fin s m _) (Inf t) = (if m = 0 then NaN else Inf (s \<noteq> t))"
| "fmul _ _ = NaN"

fun fdiv :: "float64 \<Rightarrow> float64 \<Rightarrow> float64" where
  "fdiv (Fin s m e) (Fin t n f) =
     (if n = 0 then (if m = 0 then NaN else Inf (s \<noteq> t))
      else round_ratio (s \<noteq> t) (m * pow2 (e - f)) (n * pow2 (f - e)))"
| "fdiv (Inf s) (Inf t) = NaN"
| "fdiv (Inf s) (Fin t _ _) = Inf (s \<noteq> t)"
| "fdiv (Fin s _ _) (Inf t) = Fin (s \<noteq> t) 0 emin"
| "fdiv _ _ = NaN"

text \<open>\<open>math.Min\<close> and \<open>math.Max\<close>, with their rules for NaN, infinities and
  signed zeros.\<close>

fun signbit :: "float64 \<Rightarrow> bool" where
  "signbit (Fin s _ _) = s"
| "signbit (Inf s) = s"
| "signbit NaN = False"

definition fmin :: "float64 \<Rightarrow> float64 \<Rightarrow> float64" where
  "fmin x y =
     (if x = Inf True \<or> y = Inf True then Inf True
      else if is_nan x \<or> is_nan y then NaN
      else if feq x fzero \<and> feq x y then (if signbit x then x else y)
      else if flt x y then x else y)"

definition fmax :: "float64 \<Rightarrow> float64 \<Rightarrow> float64" where
  "fmax x y =
     (if x = Inf False \<or> y = Inf False then Inf False
      else if is_nan x \<or> is_nan y then NaN
      else if feq x fzero \<and> feq x y then (if signbit x then y else x)
      else if flt y x then x else y)"

section \<open>Facts about rounding\<close>

lemma pow2_nat: "pow2 e = 2 ^ nat e"
proof (induction e rule: pow2.induct)
  case (1 e)
  show ?case
  proof (cases "e \<le> 0")
    case False
    then have "nat e = Suc (nat (e - 1))" by simp
    with 1 False show ?thesis by (simp add: pow2.simps [of e])
  qed (simp add: pow2.simps [of e])
qed

lemma pow2_pos [simp]: "0 < pow2 e"
  by (simp add: pow2_nat)

lemma pow2_nonzero [simp]: "pow2 e \<noteq> 0"
  by (simp add: pow2_nat)

lemma pow2_quot: "(of_int (pow2 e) :: rat) / of_int (pow2 (- e)) = 2 powi e"
  by (cases "e \<ge> 0") (auto simp: pow2_nat power_int_def power_one_over inverse_eq_divide)

lemma powi_pos [simp]: "(0::rat) < 2 powi e"
  by (simp add: zero_less_power_int)

lemma powi_52: "(2::rat) powi 52 = 4503599627370496" and powi_53: "(2::rat) powi 53 = 9007199254740992"
  by (simp_all add: power_int_def)

lemma powi_not_neg [simp]: "\<not> (2::rat) powi e < 0"
  using powi_pos [of e] by (simp add: not_less_iff_gr_or_eq)

lemma powi_add3: "(2::rat) powi (a + b + c) = 2 powi a * 2 powi b * 2 powi c"
  by (simp add: power_int_add)

lemma powi_half: "(2::rat) powi (e - 1) = 2 powi e / 2"
  using power_int_diff [of "2::rat" e 1] by simp

lemma nbits_pos: "n > 0 \<Longrightarrow> nbits n \<ge> 1"
proof (induction n rule: nbits.induct)
  case (1 n)
  then show ?case
    by (cases "n div 2 > 0") (auto simp: nbits.simps [of n] nbits.simps [of 0])
qed

lemma nbits_bounds: "n > 0 \<Longrightarrow> 2 ^ nat (nbits n - 1) \<le> n \<and> n < 2 ^ nat (nbits n)"
proof (induction n rule: nbits.induct)
  case (1 n)
  show ?case
  proof (cases "n = 1")
    case True
    then show ?thesis by (simp add: nbits.simps)
  next
    case False
    with 1 have half: "n div 2 > 0" by simp
    let ?k = "nbits (n div 2)"
    have k: "?k \<ge> 1" using half by (rule nbits_pos)
    have IH: "2 ^ nat (?k - 1) \<le> n div 2" "n div 2 < 2 ^ nat ?k"
      using 1 half by auto
    have "nat ?k = Suc (nat (?k - 1))" using k by simp
    then have "(2::int) ^ nat ?k \<le> n" using IH(1) by simp
    moreover have "nat (?k + 1) = Suc (nat ?k)" using k by simp
    then have "n < 2 ^ nat (?k + 1)" using IH(2) by simp
    ultimately show ?thesis using 1(2) by (simp add: nbits.simps [of n] add.commute)
  qed
qed

text \<open>The rational view of the integer computations.\<close>

lemma nbits_rat:
  assumes "n > 0"
  shows "(2::rat) powi (nbits n - 1) \<le> of_int n" "(of_int n :: rat) < 2 powi nbits n"
proof -
  have k: "nbits n \<ge> 1" using assms by (rule nbits_pos)
  have "(of_int (2 ^ nat (nbits n - 1)) :: rat) \<le> of_int n"
    using nbits_bounds [OF assms] by (simp only: of_int_le_iff)
  then show "(2::rat) powi (nbits n - 1) \<le> of_int n" using k by (simp add: power_int_def)
  have "(of_int n :: rat) < of_int (2 ^ nat (nbits n))"
    using nbits_bounds [OF assms] by (simp only: of_int_less_iff)
  then show "(of_int n :: rat) < 2 powi nbits n" using k by (simp add: power_int_def)
qed

lemma scale_ratio_rat:
  assumes "d > 0" "scale_ratio n d e = (a, b)"
  shows "b > 0" "(of_int a :: rat) / of_int b = of_int n / of_int d / 2 powi e"
proof -
  have ab: "a = n * pow2 (- e)" "b = d * pow2 e"
    using assms(2) by (auto simp: scale_ratio_def)
  show "b > 0" using ab assms(1) by simp
  have "(of_int a :: rat) / of_int b = of_int n / of_int d / (of_int (pow2 e) / of_int (pow2 (- e)))"
    unfolding ab by simp
  then show "(of_int a :: rat) / of_int b = of_int n / of_int d / 2 powi e"
    by (simp only: pow2_quot)
qed

lemma div_ge_iff: "b > 0 \<Longrightarrow> k \<le> a div b \<longleftrightarrow> of_int k \<le> (of_int a :: rat) / of_int b"
  by (simp add: floor_divide_of_int_eq [symmetric, where ?'a = rat] le_floor_iff)

lemma first_exp_bounds:
  assumes "n > 0" "d > 0"
  defines "e \<equiv> nbits n - nbits d - 53"
  shows "2 powi 52 < (of_int n / of_int d :: rat) / 2 powi e"
    and "(of_int n / of_int d :: rat) / 2 powi e < 2 powi 54"
proof -
  have n: "(2::rat) powi (nbits n - 1) \<le> of_int n" "(of_int n :: rat) < 2 powi nbits n"
    using assms(1) by (rule nbits_rat)+
  have d: "(2::rat) powi (nbits d - 1) \<le> of_int d" "(of_int d :: rat) < 2 powi nbits d"
    using assms(2) by (rule nbits_rat)+
  have dpos: "(0::rat) < of_int d" using assms(2) by simp
  have "2 powi 52 * 2 powi e * of_int d < (2 powi 52 * 2 powi e * 2 powi nbits d :: rat)"
    using d(2) by (simp add: mult_strict_left_mono)
  also have "\<dots> = 2 powi (52 + e + nbits d)"
    by (rule powi_add3 [symmetric])
  also have "\<dots> = 2 powi (nbits n - 1)" by (simp add: e_def)
  also have "\<dots> \<le> of_int n" by (rule n(1))
  finally show "2 powi 52 < (of_int n / of_int d :: rat) / 2 powi e"
    using dpos by (simp add: field_simps)
  have "(of_int n :: rat) < 2 powi nbits n" by (rule n(2))
  also have "\<dots> = 2 powi (54 + e + (nbits d - 1))" by (simp add: e_def)
  also have "\<dots> = 2 powi 54 * 2 powi e * 2 powi (nbits d - 1)"
    by (rule powi_add3)
  also have "\<dots> \<le> 2 powi 54 * 2 powi e * of_int d"
    using d(1) by (simp add: mult_left_mono)
  finally show "(of_int n / of_int d :: rat) / 2 powi e < 2 powi 54"
    using dpos by (simp add: field_simps)
qed

text \<open>The chosen exponent puts the quotient in the 53-bit range, unless it was raised to
  the least exponent.\<close>

lemma ratio_exp_range:
  assumes "n > 0" "d > 0"
  defines "e \<equiv> ratio_exp n d" and "x \<equiv> (of_int n / of_int d :: rat)"
  shows "emin \<le> e" and "x / 2 powi e < 2 powi 53" and "e = emin \<or> 2 powi 52 \<le> x / 2 powi e"
proof -
  define e0 where "e0 = nbits n - nbits d - 53"
  obtain a b where ab: "scale_ratio n d e0 = (a, b)" by fastforce
  define e1 where "e1 = (if a div b \<ge> 9007199254740992 then e0 + 1 else e0)"
  have e: "e = max emin e1"
    unfolding e_def ratio_exp_def e1_def e0_def [symmetric] by (simp add: ab)
  show "emin \<le> e" by (simp add: e)
  have b: "b > 0" and q: "(of_int a :: rat) / of_int b = x / 2 powi e0"
    using scale_ratio_rat [OF assms(2) ab] by (auto simp: x_def)
  have cond: "a div b \<ge> 9007199254740992 \<longleftrightarrow> 2 powi 53 \<le> x / 2 powi e0"
    using div_ge_iff [OF b, of 9007199254740992 a] q by (simp add: powi_53)
  have lo: "2 powi 52 < x / 2 powi e0" and hi: "x / 2 powi e0 < 2 powi 54"
    using first_exp_bounds [OF assms(1,2)] by (auto simp: x_def e0_def)
  have step: "x / 2 powi (e0 + 1) = x / 2 powi e0 / 2"
    by (simp add: power_int_add)
  have "(2::rat) powi 54 / 2 = 2 powi 53" "(2::rat) powi 53 / 2 = 2 powi 52"
    using powi_half [of 54] powi_half [of 53] by simp_all
  then have e1: "x / 2 powi e1 < 2 powi 53" "2 powi 52 \<le> x / 2 powi e1"
    using cond lo hi step by (auto simp: e1_def)
  have xpos: "0 < x" using assms by (simp add: x_def)
  show "e = emin \<or> 2 powi 52 \<le> x / 2 powi e" using e1(2) e by (auto simp: max_def)
  have "(2::rat) powi e1 \<le> 2 powi e" by (rule power_int_increasing) (auto simp: e)
  then have "x / 2 powi e \<le> x / 2 powi e1"
    using xpos by (simp add: frac_le)
  with e1(1) show "x / 2 powi e < 2 powi 53" by simp
qed

lemma round_half_even_bounds:
  "a div b \<le> round_half_even a b \<and> round_half_even a b \<le> a div b + 1"
  by (auto simp: round_half_even_def Let_def)

text \<open>A representable quotient is returned exactly.\<close>

lemma exponent_unique:
  assumes "2 powi 52 \<le> x / 2 powi e" "x / 2 powi f < (2::rat) powi 53" "0 < x"
  shows "e \<le> f"
proof (rule ccontr)
  assume "\<not> e \<le> f"
  then have "(2::rat) powi (f + 1) \<le> 2 powi e" by (intro power_int_increasing) auto
  then have "x / 2 powi e \<le> x / 2 powi (f + 1)" using assms(3) by (simp add: frac_le)
  also have "\<dots> = x / 2 powi f / 2" by (simp add: power_int_add)
  also have "\<dots> < 2 powi 53 / 2" using assms(2) by (simp add: divide_strict_right_mono)
  also have "\<dots> = 2 powi 52" using powi_half [of 53] by simp
  finally show False using assms(1) by simp
qed

lemma round_ratio_exact:
  assumes "canonical (Fin s m e)" "0 < m" "0 < d"
    and x: "(of_int n :: rat) / of_int d = of_int m * 2 powi e"
  shows "round_ratio s n d = Fin s m e"
proof -
  define y where "y = (of_int n / of_int d :: rat)"
  have c: "m < 9007199254740992" "emin \<le> e" "e \<le> emax" "4503599627370496 \<le> m \<or> e = emin"
    using assms(1) by auto
  have ypos: "0 < y" using assms(2) x by (simp add: y_def)
  then have npos: "0 < n" using assms(3) by (simp add: y_def zero_less_divide_iff)
  have ye: "y / 2 powi e = of_int m" using x by (simp add: y_def)
  have hi: "y / 2 powi e < 2 powi 53" using c(1) ye by (simp add: powi_53)
  note R = ratio_exp_range [OF npos assms(3), folded y_def]
  have lo: "e = emin \<or> 2 powi 52 \<le> y / 2 powi e" using c(4) ye by (auto simp: powi_52)
  have eq: "ratio_exp n d = e"
    using R c(2) lo exponent_unique [OF _ hi ypos] exponent_unique [OF _ R(2) ypos] by fastforce
  obtain a b where ab: "scale_ratio n d e = (a, b)" by fastforce
  have b: "b > 0" and q: "(of_int a :: rat) / of_int b = of_int m"
    using scale_ratio_rat [OF assms(3) ab] ye by (auto simp: y_def)
  then have "(of_int a :: rat) = of_int m * of_int b" by (simp add: field_simps)
  then have "a = m * b" by (metis of_int_eq_iff of_int_mult)
  then have "round_half_even a b = m" using b by (simp add: round_half_even_def)
  then show ?thesis
    using npos c by (simp add: round_ratio_def eq ab)
qed

text \<open>Every result of rounding is canonical.\<close>

lemma round_ratio_canonical:
  assumes "0 \<le> n" "0 < d"
  shows "canonical (round_ratio s n d)"
proof (cases "n = 0")
  case True
  then show ?thesis by (simp add: round_ratio_def emin_def emax_def)
next
  case False
  then have n: "0 < n" using assms by simp
  define e where "e = ratio_exp n d"
  obtain a b where ab: "scale_ratio n d e = (a, b)" by fastforce
  note R = ratio_exp_range [OF n assms(2), folded e_def]
  note S = scale_ratio_rat [OF assms(2) ab]
  define q where "q = round_half_even a b"
  have "\<not> 9007199254740992 \<le> a div b"
    using R(2) S(2) div_ge_iff [OF S(1), of 9007199254740992 a] by (simp add: powi_53)
  then have hi: "q \<le> 9007199254740992"
    using round_half_even_bounds [of a b] by (simp add: q_def)
  have "e = emin \<or> 4503599627370496 \<le> a div b"
    using R(3) S(2) div_ge_iff [OF S(1), of 4503599627370496 a] by (auto simp: powi_52)
  then have lo: "e = emin \<or> 4503599627370496 \<le> q"
    using round_half_even_bounds [of a b] by (auto simp: q_def)
  have "0 \<le> (of_int a :: rat) / of_int b" using n assms(2) by (simp add: S(2))
  then have "0 \<le> q"
    using div_ge_iff [OF S(1), of 0 a] round_half_even_bounds [of a b] by (simp add: q_def)
  then show ?thesis
    using hi lo R(1) False
    by (auto simp: round_ratio_def Let_def e_def [symmetric] ab q_def [symmetric])
qed

section \<open>Facts about comparison and integers\<close>

lemma at_exp_rat: "e0 \<le> e \<Longrightarrow> (of_int (at_exp e0 s m e) :: rat) = fval (Fin s m e) / 2 powi e0"
proof -
  assume "e0 \<le> e"
  then have "(of_int (pow2 (e - e0)) :: rat) = 2 powi (e - e0)"
    by (simp add: pow2_nat power_int_def)
  then show ?thesis by (simp add: at_exp_def power_int_diff)
qed

lemma flt_fval: "is_finite x \<Longrightarrow> is_finite y \<Longrightarrow> flt x y \<longleftrightarrow> fval x < fval y"
proof -
  assume "is_finite x" "is_finite y"
  then obtain s m e t n f where xy: "x = Fin s m e" "y = Fin t n f"
    by (metis is_finite.elims(2))
  let ?e = "min e f"
  have "flt x y \<longleftrightarrow> (of_int (at_exp ?e s m e) :: rat) < of_int (at_exp ?e t n f)"
    by (simp add: xy Let_def)
  also have "\<dots> \<longleftrightarrow> fval x < fval y"
    by (simp only: at_exp_rat min.cobounded1 min.cobounded2 xy)
       (simp add: divide_less_cancel)
  finally show ?thesis .
qed

lemma feq_fval: "is_finite x \<Longrightarrow> is_finite y \<Longrightarrow> feq x y \<longleftrightarrow> fval x = fval y"
proof -
  assume "is_finite x" "is_finite y"
  then obtain s m e t n f where xy: "x = Fin s m e" "y = Fin t n f"
    by (metis is_finite.elims(2))
  let ?e = "min e f"
  have "feq x y \<longleftrightarrow> (of_int (at_exp ?e s m e) :: rat) = of_int (at_exp ?e t n f)"
    by (simp add: xy Let_def)
  also have "\<dots> \<longleftrightarrow> fval x = fval y"
    by (simp only: at_exp_rat min.cobounded1 min.cobounded2 xy) simp
  finally show ?thesis .
qed

end
