(* ===== verification/Json_Value.thy ===== *)
theory Json_Value
  imports Float64
begin

text \<open>
  The dynamically typed values the program handles (\<open>any\<close> holding decoded JSON or
  YAML scalars, arrays and objects), UTF-8 validity of Go strings, and the parts of
  \<open>encoding/json\<close> and \<open>strconv\<close> the source relies on: number parsing, number
  printing, string escaping and the decode-after-encode normal form.
\<close>

section \<open>UTF-8\<close>

text \<open>The width of the well-formed UTF-8 sequence a string starts with, 0 for none.\<close>

definition in_range :: "nat \<Rightarrow> nat \<Rightarrow> char \<Rightarrow> bool" where
  "in_range lo hi c \<longleftrightarrow> lo \<le> byte c \<and> byte c \<le> hi"

abbreviation cont_byte :: "char \<Rightarrow> bool" where "cont_byte \<equiv> in_range 128 191"

definition second_byte_ok :: "char \<Rightarrow> char \<Rightarrow> bool" where
  "second_byte_ok a b \<longleftrightarrow>
     (if byte a = 224 then in_range 160 191 b
      else if byte a = 237 then in_range 128 159 b
      else if byte a = 240 then in_range 144 191 b
      else if byte a = 244 then in_range 128 143 b
      else cont_byte b)"

fun utf8_width :: "string \<Rightarrow> nat" where
  "utf8_width [] = 0"
| "utf8_width (a # s) =
     (if byte a < 128 then 1
      else if in_range 194 223 a then
        (case s of b # _ \<Rightarrow> if cont_byte b then 2 else 0 | _ \<Rightarrow> 0)
      else if in_range 224 239 a then
        (case s of b # c # _ \<Rightarrow> if second_byte_ok a b \<and> cont_byte c then 3 else 0 | _ \<Rightarrow> 0)
      else if in_range 240 244 a then
        (case s of b # c # d # _ \<Rightarrow>
           if second_byte_ok a b \<and> cont_byte c \<and> cont_byte d then 4 else 0 | _ \<Rightarrow> 0)
      else 0)"

function valid_utf8 :: "string \<Rightarrow> bool" where
  "valid_utf8 s =
     (if s = [] then True
      else if utf8_width s = 0 then False
      else valid_utf8 (drop (utf8_width s) s))"
  by pat_completeness auto
termination by (relation "measure length") auto

declare valid_utf8.simps [simp del]

lemma valid_utf8_ascii: "(\<forall>c \<in> set s. byte c < 128) \<Longrightarrow> valid_utf8 s"
proof (induction s)
  case (Cons a s)
  then show ?case by (simp add: valid_utf8.simps [of "a # s"])
qed (simp add: valid_utf8.simps)

text \<open>Encoding replaces each byte that starts no well-formed sequence by U+FFFD.\<close>

definition replacement_char :: string where
  "replacement_char = [CHR 0xEF, CHR 0xBF, CHR 0xBD]"

function coerce_utf8 :: "string \<Rightarrow> string" where
  "coerce_utf8 s =
     (if s = [] then []
      else let w = utf8_width s
           in if w = 0 then replacement_char @ coerce_utf8 (drop 1 s)
              else take w s @ coerce_utf8 (drop w s))"
  by pat_completeness auto
termination by (relation "measure length") auto

declare coerce_utf8.simps [simp del]

lemma coerce_utf8_valid: "valid_utf8 s \<Longrightarrow> coerce_utf8 s = s"
proof (induction s rule: valid_utf8.induct)
  case (1 s)
  show ?case
  proof (cases "s = []")
    case False
    with 1 have "utf8_width s \<noteq> 0" "valid_utf8 (drop (utf8_width s) s)"
      by (auto simp: valid_utf8.simps [of s] split: if_splits)
    with 1 False show ?thesis by (simp add: coerce_utf8.simps [of s] Let_def)
  qed (simp add: coerce_utf8.simps)
qed

section \<open>Values\<close>

datatype "value" =
    VNil
  | VBool bool
  | VStr string
  | VFloat float64
  | VInt int                              \<comment> \<open>Go \<open>int\<close>\<close>
  | VInt64 int                            \<comment> \<open>Go \<open>int64\<close>\<close>
  | VNumber string                        \<comment> \<open>\<open>json.Number\<close>\<close>
  | VArr "value list"
  | VObj "(string \<times> value) list"         \<comment> \<open>\<open>map[string]any\<close>, keys distinct\<close>

type_synonym fields = "(string \<times> value) list"

text \<open>The dynamic type, as \<open>reflect.TypeOf\<close> compares it.\<close>

datatype go_type = TNil | TBool | TString | TFloat64 | TInt | TInt64 | TNumber | TSlice | TMap

fun type_of :: "value \<Rightarrow> go_type" where
  "type_of VNil = TNil"
| "type_of (VBool _) = TBool"
| "type_of (VStr _) = TString"
| "type_of (VFloat _) = TFloat64"
| "type_of (VInt _) = TInt"
| "type_of (VInt64 _) = TInt64"
| "type_of (VNumber _) = TNumber"
| "type_of (VArr _) = TSlice"
| "type_of (VObj _) = TMap"

text \<open>\<open>reflect.DeepEqual\<close>: floats by \<open>==\<close>, maps by key.\<close>

fun deep_equal :: "value \<Rightarrow> value \<Rightarrow> bool"
  and deep_equal_list :: "value list \<Rightarrow> value list \<Rightarrow> bool"
  and deep_equal_fields :: "(string \<times> value) list \<Rightarrow> (string \<times> value) list \<Rightarrow> bool" where
  "deep_equal (VFloat x) w = (case w of VFloat y \<Rightarrow> feq x y | _ \<Rightarrow> False)"
| "deep_equal (VArr xs) w = (case w of VArr ys \<Rightarrow> deep_equal_list xs ys | _ \<Rightarrow> False)"
| "deep_equal (VObj m) w =
     (case w of VObj n \<Rightarrow> length m = length n \<and> deep_equal_fields m n | _ \<Rightarrow> False)"
| "deep_equal v w = (v = w)"
| "deep_equal_list [] ys = (ys = [])"
| "deep_equal_list (x # xs) ys =
     (case ys of [] \<Rightarrow> False | y # zs \<Rightarrow> deep_equal x y \<and> deep_equal_list xs zs)"
| "deep_equal_fields [] n = True"
| "deep_equal_fields ((k, x) # m) n =
     ((case map_of n k of None \<Rightarrow> False | Some y \<Rightarrow> deep_equal x y) \<and> deep_equal_fields m n)"

section \<open>Numbers\<close>

function pow10 :: "int \<Rightarrow> int" where
  "pow10 e = (if e \<le> 0 then 1 else 10 * pow10 (e - 1))"
  by pat_completeness auto
termination by (relation "measure nat") auto

declare pow10.simps [simp del]

lemma pow10_pos [simp]: "0 < pow10 e"
  by (induction e rule: pow10.induct) (subst pow10.simps, simp)

definition int_of_digits :: "string \<Rightarrow> int" where
  "int_of_digits s = foldl (\<lambda>a c. 10 * a + int (digit_val c)) 0 s"

definition digit_char :: "int \<Rightarrow> char" where "digit_char d = char_of (nat (48 + d))"

function show_nat :: "int \<Rightarrow> string" where
  "show_nat n = (if n < 10 then [digit_char n] else show_nat (n div 10) @ [digit_char (n mod 10)])"
  by pat_completeness auto
termination by (relation "measure nat") auto

declare show_nat.simps [simp del]

definition show_int :: "int \<Rightarrow> string" where
  "show_int i = (if i < 0 then ''-'' @ show_nat (- i) else show_nat i)"

lemma digit_char_val:
  assumes "0 \<le> d" "d < 10"
  shows "is_digit (digit_char d)" "int (digit_val (digit_char d)) = d"
proof -
  have b: "byte (digit_char d) = nat (48 + d)"
    using assms by (simp add: byte_def digit_char_def)
  show "is_digit (digit_char d)" "int (digit_val (digit_char d)) = d"
    using assms by (auto simp: is_digit_def digit_val_def b)
qed

lemma show_nat_digits: "0 \<le> n \<Longrightarrow> \<forall>c \<in> set (show_nat n). is_digit c"
proof (induction n rule: show_nat.induct)
  case (1 n)
  then show ?case
    by (cases "n < 10") (auto simp: show_nat.simps [of n] digit_char_val)
qed

lemma show_nat_nonempty: "show_nat n \<noteq> []"
  by (subst show_nat.simps) simp

lemma int_of_digits_snoc: "int_of_digits (s @ [c]) = 10 * int_of_digits s + int (digit_val c)"
  by (simp add: int_of_digits_def)

lemma int_of_show_nat: "0 \<le> n \<Longrightarrow> int_of_digits (show_nat n) = n"
proof (induction n rule: show_nat.induct)
  case (1 n)
  show ?case
  proof (cases "n < 10")
    case True
    with 1(2) show ?thesis
      by (simp add: show_nat.simps [of n] int_of_digits_def digit_char_val)
  next
    case False
    with 1 have "int_of_digits (show_nat (n div 10)) = n div 10" by simp
    with False show ?thesis
      by (simp add: show_nat.simps [of n] int_of_digits_snoc digit_char_val)
  qed
qed

text \<open>\<open>strconv.ParseFloat\<close> on a decimal: sign, integer digits, optional fraction,
  optional exponent. \<open>None\<close> is a syntax error; an out-of-range value is an infinity,
  which the callers reject together with the error.\<close>

definition split_digits :: "string \<Rightarrow> string \<times> string" where
  "split_digits s = (takeWhile is_digit s, dropWhile is_digit s)"

definition parse_exponent :: "string \<Rightarrow> int option" where
  "parse_exponent s =
     (case s of
        [] \<Rightarrow> Some 0
      | c # t \<Rightarrow>
          if c = CHR ''e'' \<or> c = CHR ''E'' then
            (let (neg, u) = (case t of d # v \<Rightarrow> if d = CHR ''-'' then (True, v)
                                          else if d = CHR ''+'' then (False, v) else (False, t)
                             | [] \<Rightarrow> (False, t));
                 (ds, rest) = split_digits u
             in if ds = [] \<or> rest \<noteq> [] then None
                else Some (if neg then - int_of_digits ds else int_of_digits ds))
          else None)"

definition parse_float :: "string \<Rightarrow> float64 option" where
  "parse_float s =
     (let (neg, t) = (case s of c # u \<Rightarrow> if c = CHR ''-'' then (True, u) else (False, s)
                      | [] \<Rightarrow> (False, s));
          (is, u) = split_digits t;
          (fs, v) = (case u of c # w \<Rightarrow> if c = CHR ''.'' then split_digits w else ([], u)
                     | [] \<Rightarrow> ([], u))
      in if is = [] then None
         else case parse_exponent v of
           None \<Rightarrow> None
         | Some x \<Rightarrow>
             let e = x - int (length fs)
             in Some (round_ratio neg (int_of_digits (is @ fs) * pow10 e) (pow10 (- e))))"

text \<open>The shortest decimal that reads back as the value: \<open>n\<close> significant digits
  \<open>d\<close> with value \<open>d * 10 ^ (k - n)\<close>; the first \<open>n\<close> from 1 to 17 for which
  one of the two neighbouring candidates rounds to the value.\<close>

function dec_exp_up :: "int \<Rightarrow> int" where
  "dec_exp_up n = (if n \<le> 0 then 0 else 1 + dec_exp_up (n div 10))"
  by pat_completeness auto
termination by (relation "measure nat") auto

fun dec_exp_down :: "nat \<Rightarrow> int \<Rightarrow> int \<Rightarrow> int" where
  "dec_exp_down 0 n d = 0"
| "dec_exp_down (Suc k) n d = (if 10 * n \<ge> d then 0 else dec_exp_down k (10 * n) d - 1)"

definition dec_exp :: "int \<Rightarrow> int \<Rightarrow> int" where
  "dec_exp n d = (if n \<ge> d then dec_exp_up (n div d) else dec_exp_down 400 n d)"

definition decimal_candidate :: "float64 \<Rightarrow> int \<Rightarrow> int \<Rightarrow> int \<Rightarrow> nat \<Rightarrow> int option" where
  "decimal_candidate x n d k p =
     (let e = k - int p; a = n * pow10 (- e); b = d * pow10 e; lo = a div b;
          ok = (\<lambda>c. round_ratio False (c * pow10 e) (pow10 (- e)) = x)
      in if ok lo \<and> (\<not> ok (lo + 1) \<or> 2 * (a mod b) \<le> b) then Some lo
         else if ok (lo + 1) then Some (lo + 1) else None)"

fun shortest_digits :: "float64 \<Rightarrow> int \<Rightarrow> int \<Rightarrow> int \<Rightarrow> nat list \<Rightarrow> int \<times> int" where
  "shortest_digits x n d k [] = (n div d, 0)"
| "shortest_digits x n d k (p # ps) =
     (case decimal_candidate x n d k p of
        Some c \<Rightarrow> if c = pow10 (int p) then (c div 10, k - int p + 1) else (c, k - int p)
      | None \<Rightarrow> shortest_digits x n d k ps)"

definition zeros :: "int \<Rightarrow> string" where "zeros n = replicate (nat n) (CHR ''0'')"

text \<open>Format \<open>'f'\<close> and format \<open>'e'\<close> (with the exponent as \<open>encoding/json\<close>
  writes it) of \<open>c * 10 ^ e\<close>.\<close>

definition fmt_f :: "int \<Rightarrow> int \<Rightarrow> string" where
  "fmt_f c e =
     (let ds = show_nat c; n = int (length ds)
      in if e \<ge> 0 then ds @ zeros e
         else if n + e > 0 then take (nat (n + e)) ds @ ''.'' @ drop (nat (n + e)) ds
         else ''0.'' @ zeros (- (n + e)) @ ds)"

definition fmt_e :: "int \<Rightarrow> int \<Rightarrow> string" where
  "fmt_e c e =
     (let ds = show_nat c; x = e + int (length ds) - 1
      in take 1 ds @ (if length ds > 1 then ''.'' @ drop 1 ds else '''') @
         (if x < 0 then ''e-'' else ''e+'') @
         (if x \<ge> 0 \<and> x < 10 then ''0'' else '''') @ show_nat \<bar>x\<bar>)"

fun json_float :: "float64 \<Rightarrow> string option" where
  "json_float (Fin s m e) =
     (let sign = (if s then ''-'' else '''') in
      if m = 0 then Some (sign @ ''0'')
      else let n = m * pow2 e; d = pow2 (- e);
               (c, x) = shortest_digits (Fin False m e) n d (dec_exp n d) [1..<18];
               small = (n * 1000000 < d); big = (n \<ge> pow10 21 * d)
           in Some (sign @ (if small \<or> big then fmt_e c x else fmt_f c x)))"
| "json_float _ = None"

section \<open>Encoding scalars\<close>

definition hex_digit :: "nat \<Rightarrow> char" where
  "hex_digit n = (if n < 10 then char_of (48 + n) else char_of (87 + n))"

definition escape_byte :: "char \<Rightarrow> string" where
  "escape_byte c =
     (let b = byte c in
      if b = 34 then [CHR 0x5C, CHR 0x22]
      else if b = 92 then [CHR 0x5C, CHR 0x5C]
      else if b = 8 then [CHR 0x5C, CHR ''b'']
      else if b = 12 then [CHR 0x5C, CHR ''f'']
      else if b = 10 then [CHR 0x5C, CHR ''n'']
      else if b = 13 then [CHR 0x5C, CHR ''r'']
      else if b = 9 then [CHR 0x5C, CHR ''t'']
      else if b < 32 \<or> b = 60 \<or> b = 62 \<or> b = 38 then
        [CHR 0x5C, CHR ''u'', CHR ''0'', CHR ''0'', hex_digit (b div 16), hex_digit (b mod 16)]
      else [c])"

text \<open>U+2028 and U+2029 are escaped too.\<close>

fun json_escape :: "string \<Rightarrow> string" where
  "json_escape (a # b # c # s) =
     (if byte a = 226 \<and> byte b = 128 \<and> byte c = 168 then [CHR 0x5C] @ ''u2028'' @ json_escape s
      else if byte a = 226 \<and> byte b = 128 \<and> byte c = 169 then [CHR 0x5C] @ ''u2029'' @ json_escape s
      else escape_byte a @ json_escape (b # c # s))"
| "json_escape (a # s) = escape_byte a @ json_escape s"
| "json_escape [] = []"

definition json_string :: "string \<Rightarrow> string" where
  "json_string s = [CHR 0x22] @ json_escape (coerce_utf8 s) @ [CHR 0x22]"

fun json_scalar :: "value \<Rightarrow> string option" where
  "json_scalar VNil = Some ''null''"
| "json_scalar (VBool b) = Some (if b then ''true'' else ''false'')"
| "json_scalar (VStr s) = Some (json_string s)"
| "json_scalar (VFloat x) = json_float x"
| "json_scalar (VInt i) = Some (show_int i)"
| "json_scalar (VInt64 i) = Some (show_int i)"
| "json_scalar (VNumber s) = Some s"
| "json_scalar _ = None"

section \<open>Decode after encode\<close>

text \<open>
  \<open>json_norm\<close> is \<open>json.Unmarshal\<close> after \<open>json.Marshal\<close> into \<open>any\<close>:
  every number becomes a \<open>float64\<close>, malformed UTF-8 is replaced, and a NaN or an
  infinity is an encoding error.
\<close>

fun json_norm :: "value \<Rightarrow> value option" and json_norm_list :: "value list \<Rightarrow> value list option"
  and json_norm_fields :: "(string \<times> value) list \<Rightarrow> (string \<times> value) list option" where
  "json_norm VNil = Some VNil"
| "json_norm (VBool b) = Some (VBool b)"
| "json_norm (VStr s) = Some (VStr (coerce_utf8 s))"
| "json_norm (VFloat x) = (if is_finite x then Some (VFloat x) else None)"
| "json_norm (VInt i) = Some (VFloat (float_of_int i))"
| "json_norm (VInt64 i) = Some (VFloat (float_of_int i))"
| "json_norm (VNumber s) =
     (case parse_float s of Some x \<Rightarrow> if is_finite x then Some (VFloat x) else None | None \<Rightarrow> None)"
| "json_norm (VArr xs) = map_option VArr (json_norm_list xs)"
| "json_norm (VObj m) = map_option VObj (json_norm_fields m)"
| "json_norm_list [] = Some []"
| "json_norm_list (x # xs) =
     (case json_norm x of None \<Rightarrow> None | Some y \<Rightarrow> map_option ((#) y) (json_norm_list xs))"
| "json_norm_fields [] = Some []"
| "json_norm_fields ((k, x) # m) =
     (case json_norm x of None \<Rightarrow> None
      | Some y \<Rightarrow> map_option ((#) (coerce_utf8 k, y)) (json_norm_fields m))"

end
