(* ===== verification/Go_Duration.thy ===== *)
theory Go_Duration
  imports Json_Value
begin

text \<open>
  \<open>time.ParseDuration\<close> and \<open>Duration.String\<close>, which every duration of a
  manifest goes through. The parser accumulates unsigned 64-bit values with the overflow
  checks of the library and computes fractions in \<open>float64\<close>; printing is the form the
  compiler stores. The section's result is that a printed duration parses back.
\<close>

definition two63 :: int where "two63 = 9223372036854775808"

section \<open>Parsing\<close>

fun leading_int :: "int \<Rightarrow> string \<Rightarrow> (int \<times> string) option" where
  "leading_int x [] = Some (x, [])"
| "leading_int x (c # s) =
     (if \<not> is_digit c then Some (x, c # s)
      else if x > two63 div 10 then None
      else let y = x * 10 + int (digit_val c) in if y > two63 then None else leading_int y s)"

fun leading_fraction :: "int \<Rightarrow> float64 \<Rightarrow> bool \<Rightarrow> string \<Rightarrow> int \<times> float64 \<times> string" where
  "leading_fraction x scale ovf [] = (x, scale, [])"
| "leading_fraction x scale ovf (c # s) =
     (if \<not> is_digit c then (x, scale, c # s)
      else if ovf then leading_fraction x scale True s
      else if x > (two63 - 1) div 10 then leading_fraction x scale True s
      else let y = x * 10 + int (digit_val c)
           in if y > two63 then leading_fraction x scale True s
              else leading_fraction y (fmul scale (float_of_int 10)) False s)"

definition micro_sign :: string where "micro_sign = [CHR 0xC2, CHR 0xB5]"
definition greek_mu :: string where "greek_mu = [CHR 0xCE, CHR 0xBC]"

definition unit_map :: "string \<Rightarrow> int option" where
  "unit_map u =
     (if u = ''ns'' then Some 1
      else if u = ''us'' \<or> u = micro_sign @ ''s'' \<or> u = greek_mu @ ''s'' then Some 1000
      else if u = ''ms'' then Some 1000000
      else if u = ''s'' then Some 1000000000
      else if u = ''m'' then Some 60000000000
      else if u = ''h'' then Some 3600000000000
      else None)"

fun ftrunc :: "float64 \<Rightarrow> int" where
  "ftrunc (Fin s m e) = signed s ((m * pow2 e) div pow2 (- e))"
| "ftrunc _ = 0"

definition unit_char :: "char \<Rightarrow> bool" where
  "unit_char c \<longleftrightarrow> c \<noteq> CHR ''.'' \<and> \<not> is_digit c"

text \<open>One \<open>number unit\<close> group of the loop: its nanoseconds and the rest.\<close>

definition fraction_part :: "string \<Rightarrow> int \<times> float64 \<times> string \<times> bool" where
  "fraction_part s =
     (case s of
        c # t \<Rightarrow>
          if c = CHR ''.'' then
            (let (f, scale, r) = leading_fraction 0 (float_of_int 1) False t
             in (f, scale, r, length t \<noteq> length r))
          else (0, float_of_int 1, s, False)
      | [] \<Rightarrow> (0, float_of_int 1, s, False))"

definition group_nanos :: "int \<Rightarrow> int \<Rightarrow> float64 \<Rightarrow> int \<Rightarrow> int option" where
  "group_nanos v f scale u =
     (if v > two63 div u then None
      else let w = v * u
           in if f > 0 then
                (let x = w + ftrunc (fmul (float_of_int f) (fdiv (float_of_int u) scale))
                 in if x > two63 then None else Some x)
              else Some w)"

definition parse_group :: "string \<Rightarrow> (int \<times> string) option" where
  "parse_group s =
     (case s of
        [] \<Rightarrow> None
      | c # _ \<Rightarrow>
          if \<not> (c = CHR ''.'' \<or> is_digit c) then None
          else case leading_int 0 s of
            None \<Rightarrow> None
          | Some (v, s1) \<Rightarrow>
              let (f, scale, s2, post) = fraction_part s1; pre = (length s \<noteq> length s1);
                  u = takeWhile unit_char s2; rest = dropWhile unit_char s2
              in if \<not> pre \<and> \<not> post then None
                 else if u = [] then None
                 else case unit_map u of
                   None \<Rightarrow> None
                 | Some unit \<Rightarrow> map_option (\<lambda>n. (n, rest)) (group_nanos v f scale unit))"

lemma leading_int_length: "leading_int x s = Some (y, r) \<Longrightarrow> length r \<le> length s"
  by (induction x s rule: leading_int.induct) (auto simp: Let_def split: if_splits)

lemma leading_fraction_length:
  "leading_fraction x sc v s = (f, g, r) \<Longrightarrow> length r \<le> length s"
  by (induction x sc v s rule: leading_fraction.induct) (auto simp: Let_def split: if_splits)

lemma fraction_part_length: "fraction_part s = (f, sc, r, p) \<Longrightarrow> length r \<le> length s"
  by (auto simp: fraction_part_def split: list.splits if_splits prod.splits
      dest!: leading_fraction_length)

lemma parse_group_length:
  assumes "parse_group s = Some (n, r)"
  shows "length r < length s"
proof -
  obtain v s1 f sc s2 p where
    *: "leading_int 0 s = Some (v, s1)" "fraction_part s1 = (f, sc, s2, p)"
      "takeWhile unit_char s2 \<noteq> []" "r = dropWhile unit_char s2"
    using assms
    by (auto simp: parse_group_def Let_def split: list.splits if_splits option.splits prod.splits)
  have "length s2 = length (takeWhile unit_char s2) + length r"
    by (metis "*"(4) length_append takeWhile_dropWhile_id)
  with *(3) have "length r < length s2" by (cases "takeWhile unit_char s2") auto
  with leading_int_length [OF *(1)] fraction_part_length [OF *(2)] show ?thesis by simp
qed

function parse_groups :: "int \<Rightarrow> string \<Rightarrow> int option" where
  "parse_groups d s =
     (if s = [] then Some d
      else case parse_group s of
        None \<Rightarrow> None
      | Some (v, r) \<Rightarrow> if d + v > two63 then None else parse_groups (d + v) r)"
  by pat_completeness auto
termination
  by (relation "measure (\<lambda>(d, s). length s)") (auto dest: parse_group_length)

declare parse_groups.simps [simp del]

definition parse_duration :: "string \<Rightarrow> duration option" where
  "parse_duration orig =
     (let (neg, s) = (case orig of
            c # t \<Rightarrow> if c = CHR ''-'' \<or> c = CHR ''+'' then (c = CHR ''-'', t) else (False, orig)
          | [] \<Rightarrow> (False, orig))
      in if s = ''0'' then Some 0
         else if s = [] then None
         else case parse_groups 0 s of
           None \<Rightarrow> None
         | Some d \<Rightarrow> if neg then Some (- d) else if d > two63 - 1 then None else Some d)"

text \<open>Where the code drops the error, a failed parse is the zero duration.\<close>

definition duration_or_zero :: "string \<Rightarrow> duration" where
  "duration_or_zero s = (case parse_duration s of Some d \<Rightarrow> d | None \<Rightarrow> 0)"

section \<open>Printing\<close>

text \<open>\<open>fmtFrac\<close>: the fraction digits without trailing zeros, and what is left.\<close>

fun frac_digits :: "nat \<Rightarrow> int \<Rightarrow> bool \<Rightarrow> string \<Rightarrow> string" where
  "frac_digits 0 v pr acc = (if pr then CHR ''.'' # acc else acc)"
| "frac_digits (Suc p) v pr acc =
     (let d = v mod 10; pr' = (pr \<or> d \<noteq> 0)
      in frac_digits p (v div 10) pr' (if pr' then digit_char d # acc else acc))"

definition duration_body :: "int \<Rightarrow> string" where
  "duration_body u =
     (if u < 1000 then show_nat u @ ''ns''
      else if u < 1000000 then show_nat (u div 1000) @ frac_digits 3 u False '''' @ micro_sign @ ''s''
      else if u < 1000000000 then show_nat (u div 1000000) @ frac_digits 6 u False '''' @ ''ms''
      else let secs = u div 1000000000; mins = secs div 60;
               stail = show_nat (secs mod 60) @ frac_digits 9 u False '''' @ ''s''
           in if mins = 0 then stail
              else if mins div 60 = 0 then show_nat (mins mod 60) @ ''m'' @ stail
              else show_nat (mins div 60) @ ''h'' @ show_nat (mins mod 60) @ ''m'' @ stail)"

definition duration_string :: "duration \<Rightarrow> string" where
  "duration_string d =
     (if d = 0 then ''0s'' else (if d < 0 then ''-'' else '''') @ duration_body \<bar>d\<bar>)"

section \<open>Exact small integers in floating point\<close>

definition float_is :: "float64 \<Rightarrow> int \<Rightarrow> bool" where
  "float_is x n \<longleftrightarrow> (\<exists>m e. x = Fin False m e \<and> of_int m * 2 powi e = (of_int n :: rat))"

lemma round_ratio_int:
  assumes "0 \<le> n" "n < 9007199254740992" "0 < b"
  shows "float_is (round_ratio False (n * b) b) n"
proof (cases "n = 0")
  case True
  then show ?thesis by (simp add: float_is_def round_ratio_def)
next
  case False
  then have pos: "0 < n * b" using assms by simp
  define e where "e = ratio_exp (n * b) b"
  have x: "(of_int (n * b) / of_int b :: rat) = of_int n" using assms(3) by simp
  note R = ratio_exp_range [OF pos assms(3), folded e_def, unfolded x]
  have le: "e \<le> 0"
  proof (rule ccontr)
    assume "\<not> e \<le> 0"
    then have "2 powi 52 \<le> (of_int n :: rat) / 2 powi e" using R(3) by (auto simp: emin_def)
    then have "(2::rat) powi 52 * 2 powi e \<le> of_int n" by (simp add: field_simps)
    moreover have "(2::rat) powi 1 \<le> 2 powi e"
      using \<open>\<not> e \<le> 0\<close> by (intro power_int_increasing) auto
    ultimately have "(9007199254740992::rat) \<le> of_int n" by (simp add: powi_52)
    then show False using assms(2) by simp
  qed
  define m where "m = n * pow2 (- e)"
  have "(of_int (pow2 (- e)) :: rat) = 2 powi (- e)"
    using le by (simp add: pow2_nat power_int_def)
  then have m: "(of_int m :: rat) = of_int n / 2 powi e"
    by (simp add: m_def power_int_minus field_simps)
  have "(of_int m :: rat) < of_int 9007199254740992" using R(2) m by (simp add: powi_53)
  then have hi: "m < 9007199254740992" by (simp only: of_int_less_iff)
  have "e = emin \<or> (of_int 4503599627370496 :: rat) \<le> of_int m" using R(3) m by (simp add: powi_52)
  then have lo: "4503599627370496 \<le> m \<or> e = emin" by (auto simp only: of_int_le_iff)
  have mpos: "0 < m" using assms(1) False by (simp add: m_def)
  have "canonical (Fin False m e)" using hi lo le R(1) mpos by (auto simp: emax_def)
  then have "round_ratio False (n * b) b = Fin False m e"
    by (rule round_ratio_exact) (use mpos assms(3) m in \<open>auto\<close>)
  then show ?thesis using m by (auto simp: float_is_def)
qed

lemma float_is_of_int: "0 \<le> n \<Longrightarrow> n < 9007199254740992 \<Longrightarrow> float_is (float_of_int n) n"
  using round_ratio_int [of n 1] by (simp add: float_of_int_def)

lemma pow2_cross: "of_int k * 2 powi e = (of_int n :: rat) \<Longrightarrow> k * pow2 e = n * pow2 (- e)"
proof -
  assume "of_int k * 2 powi e = (of_int n :: rat)"
  then have "of_int k * ((of_int (pow2 e) :: rat) / of_int (pow2 (- e))) = of_int n"
    by (simp only: pow2_quot)
  then have "(of_int (k * pow2 e) :: rat) = of_int (n * pow2 (- e))" by (simp add: field_simps)
  then show ?thesis by (simp only: of_int_eq_iff)
qed

lemma float_is_fmul:
  assumes "float_is x a" "float_is y b" "0 \<le> a * b" "a * b < 9007199254740992"
  shows "float_is (fmul x y) (a * b)"
proof -
  obtain m e n f where xy: "x = Fin False m e" "y = Fin False n f"
    and v: "of_int m * 2 powi e = (of_int a :: rat)" "of_int n * 2 powi f = (of_int b :: rat)"
    using assms(1,2) by (auto simp: float_is_def)
  have "of_int (m * n) * 2 powi (e + f) = (of_int (a * b) :: rat)"
    by (simp add: power_int_add flip: v)
  then have "m * n * pow2 (e + f) = a * b * pow2 (- (e + f))" by (rule pow2_cross)
  then show ?thesis
    using round_ratio_int [OF assms(3,4), of "pow2 (- (e + f))"] xy by (simp add: round_dyadic_def)
qed

lemma float_is_fdiv:
  assumes "float_is x (c * b)" "float_is y b" "0 < b" "0 \<le> c" "c < 9007199254740992"
  shows "float_is (fdiv x y) c"
proof -
  obtain m e n f where xy: "x = Fin False m e" "y = Fin False n f"
    and v: "of_int m * 2 powi e = (of_int (c * b) :: rat)" "of_int n * 2 powi f = (of_int b :: rat)"
    using assms(1,2) by (auto simp: float_is_def)
  have n: "0 < n"
  proof (rule ccontr)
    assume "\<not> 0 < n"
    then have "of_int n * (2::rat) powi f \<le> 0" by (simp add: mult_le_0_iff)
    with v(2) assms(3) show False by simp
  qed
  have "(of_int (c * n) :: rat) * 2 powi f = of_int m * 2 powi e" using v by simp
  then have "of_int m * (2::rat) powi (e - f) = of_int (c * n)"
    by (simp add: power_int_diff field_simps)
  then have "m * pow2 (e - f) = c * (n * pow2 (f - e))"
    using pow2_cross [of m "e - f" "c * n"] by (simp add: mult.assoc)
  then show ?thesis
    using round_ratio_int [OF assms(4,5), of "n * pow2 (f - e)"] xy n by simp
qed

lemma float_is_trunc: "float_is x n \<Longrightarrow> ftrunc x = n"
  by (auto simp: float_is_def signed_def dest!: pow2_cross)

section \<open>A printed duration parses back\<close>

lemma foldl_digits_ge: "0 \<le> x \<Longrightarrow> x \<le> foldl (\<lambda>a c. 10 * a + int (digit_val c)) x s"
proof (induction s arbitrary: x)
  case (Cons c s)
  have "x \<le> 10 * x + int (digit_val c)" using Cons.prems by simp
  also have "\<dots> \<le> foldl (\<lambda>a c. 10 * a + int (digit_val c)) (10 * x + int (digit_val c)) s"
    using Cons.prems by (intro Cons.IH) simp
  finally show ?case by simp
qed simp

definition no_digit_head :: "string \<Rightarrow> bool" where
  "no_digit_head r \<longleftrightarrow> (case r of [] \<Rightarrow> True | c # _ \<Rightarrow> \<not> is_digit c)"

lemma leading_int_digits:
  "0 \<le> x \<Longrightarrow> \<forall>c \<in> set s. is_digit c \<Longrightarrow> no_digit_head r \<Longrightarrow>
   foldl (\<lambda>a c. 10 * a + int (digit_val c)) x s \<le> two63 \<Longrightarrow>
   leading_int x (s @ r) = Some (foldl (\<lambda>a c. 10 * a + int (digit_val c)) x s, r)"
proof (induction s arbitrary: x)
  case Nil
  then show ?case by (cases r) (auto simp: no_digit_head_def)
next
  case (Cons c s)
  let ?y = "10 * x + int (digit_val c)"
  have "?y \<le> two63" using Cons.prems foldl_digits_ge [of ?y s] by simp
  moreover from this have "x \<le> two63 div 10" by (simp add: two63_def)
  ultimately show ?case
    using Cons by (simp add: Let_def mult.commute)
qed

lemma leading_int_show:
  "0 \<le> n \<Longrightarrow> n \<le> two63 \<Longrightarrow> no_digit_head r \<Longrightarrow> leading_int 0 (show_nat n @ r) = Some (n, r)"
  using leading_int_digits [of 0 "show_nat n" r] show_nat_digits [of n] int_of_show_nat [of n]
  by (simp add: int_of_digits_def)

lemma leading_fraction_digits:
  "0 \<le> x \<Longrightarrow> \<forall>c \<in> set s. is_digit c \<Longrightarrow> no_digit_head r \<Longrightarrow> float_is sc (10 ^ k) \<Longrightarrow>
   k + length s \<le> 9 \<Longrightarrow> x < 10 ^ k \<Longrightarrow>
   \<exists>g. leading_fraction x sc False (s @ r) =
         (foldl (\<lambda>a c. 10 * a + int (digit_val c)) x s, g, r) \<and> float_is g (10 ^ (k + length s))"
proof (induction s arbitrary: x sc k)
  case Nil
  then show ?case by (cases r) (auto simp: no_digit_head_def)
next
  case (Cons c s)
  let ?y = "10 * x + int (digit_val c)"
  have k: "k \<le> 8" using Cons.prems by simp
  have dv: "int (digit_val c) \<le> 9" using Cons.prems by (simp add: is_digit_def digit_val_def)
  have p: "(10::int) ^ k \<le> 10 ^ 8" using k by (intro power_increasing) auto
  have x: "x < 100000000" using Cons.prems(6) p by simp
  have "float_is (float_of_int 10) 10" by (rule float_is_of_int) auto
  then have sc: "float_is (fmul sc (float_of_int 10)) (10 ^ k * 10)"
    using Cons.prems(4) p by (intro float_is_fmul) auto
  have y: "?y < 10 ^ Suc k" using Cons.prems(6) dv by simp
  have "\<exists>g. leading_fraction ?y (fmul sc (float_of_int 10)) False (s @ r) =
         (foldl (\<lambda>a c. 10 * a + int (digit_val c)) ?y s, g, r) \<and>
         float_is g (10 ^ (Suc k + length s))"
    using Cons.prems sc y by (intro Cons.IH) (auto simp: mult.commute)
  moreover have "leading_fraction x sc False ((c # s) @ r) =
      leading_fraction ?y (fmul sc (float_of_int 10)) False (s @ r)"
    using Cons.prems x dv by (simp add: Let_def two63_def mult.commute)
  ultimately show ?case by simp
qed

lemma mod10_split: "(v::int) mod 10 ^ Suc p = 10 * (v div 10 mod 10 ^ p) + v mod 10"
  using zmod_zmult2_eq [of "10 ^ p" v 10] by simp

lemma frac_digits_True:
  "\<forall>c \<in> set acc. is_digit c \<Longrightarrow>
   \<exists>ds. frac_digits p v True acc = CHR ''.'' # ds @ acc \<and> length ds = p \<and>
        (\<forall>c \<in> set ds. is_digit c) \<and> int_of_digits ds = v mod 10 ^ p"
proof (induction p arbitrary: v acc)
  case 0
  then show ?case by (simp add: int_of_digits_def)
next
  case (Suc p)
  let ?d = "digit_char (v mod 10)"
  have d: "is_digit ?d" "int (digit_val ?d) = v mod 10" by (auto intro: digit_char_val)
  obtain ds where ds: "frac_digits p (v div 10) True (?d # acc) = CHR ''.'' # ds @ ?d # acc"
    "length ds = p" "\<forall>c \<in> set ds. is_digit c" "int_of_digits ds = v div 10 mod 10 ^ p"
    using Suc.IH [of "?d # acc" "v div 10"] Suc.prems d(1) by auto
  have "int_of_digits (ds @ [?d]) = v mod 10 ^ Suc p"
    unfolding int_of_digits_snoc ds(4) d(2) mod10_split ..
  then show ?case
    using ds d by (intro exI [of _ "ds @ [?d]"]) simp
qed

lemma frac_digits_False:
  "(v mod 10 ^ p = 0 \<and> frac_digits p v False '''' = '''') \<or>
   (\<exists>ds. frac_digits p v False '''' = CHR ''.'' # ds \<and> ds \<noteq> [] \<and> length ds \<le> p \<and>
      (\<forall>c \<in> set ds. is_digit c) \<and> int_of_digits ds * 10 ^ (p - length ds) = v mod 10 ^ p)"
proof (induction p arbitrary: v)
  case (Suc p)
  show ?case
  proof (cases "v mod 10 = 0")
    case True
    then have m: "v mod 10 ^ Suc p = 10 * (v div 10 mod 10 ^ p)" by (simp only: mod10_split)
    from Suc [of "v div 10"] True m show ?thesis
      by (auto simp: Suc_diff_le)
  next
    case False
    let ?d = "digit_char (v mod 10)"
    have d: "is_digit ?d" "int (digit_val ?d) = v mod 10" by (auto intro: digit_char_val)
    obtain ds where ds: "frac_digits p (v div 10) True [?d] = CHR ''.'' # ds @ [?d]"
      "length ds = p" "\<forall>c \<in> set ds. is_digit c" "int_of_digits ds = v div 10 mod 10 ^ p"
      using frac_digits_True [of "[?d]" p "v div 10"] d(1) by auto
    have "int_of_digits (ds @ [?d]) = v mod 10 ^ Suc p"
      unfolding int_of_digits_snoc ds(4) d(2) mod10_split ..
    then show ?thesis
      using ds d False by (intro disjI2 exI [of _ "ds @ [?d]"]) simp
  qed
qed simp

lemma fraction_part_frac:
  assumes "p \<le> 9" "no_digit_head r" "r \<noteq> []" "hd r \<noteq> CHR ''.''"
  shows "\<exists>f g b. fraction_part (frac_digits p v False '''' @ r) = (f, g, r, b) \<and>
    (if v mod 10 ^ p = 0 then f = 0
     else 0 < f \<and> (\<exists>k \<le> p. float_is g (10 ^ k) \<and> f * 10 ^ (p - k) = v mod 10 ^ p))"
  using frac_digits_False [of v p]
proof (elim disjE exE conjE)
  assume "v mod 10 ^ p = 0" "frac_digits p v False '''' = ''''"
  then show ?thesis using assms(3,4) by (cases r) (auto simp: fraction_part_def)
next
  fix ds
  assume ds: "frac_digits p v False '''' = CHR ''.'' # ds" "ds \<noteq> []" "length ds \<le> p"
    "\<forall>c \<in> set ds. is_digit c" "int_of_digits ds * 10 ^ (p - length ds) = v mod 10 ^ p"
  have one: "float_is (float_of_int 1) (10 ^ 0)"
    using float_is_of_int [of 1] by simp
  obtain g where g: "leading_fraction 0 (float_of_int 1) False (ds @ r) = (int_of_digits ds, g, r)"
    "float_is g (10 ^ length ds)"
    using leading_fraction_digits [OF _ ds(4) assms(2) one, of 0] ds(3) assms(1)
    by (auto simp: int_of_digits_def)
  have pos: "0 \<le> int_of_digits ds" using foldl_digits_ge [of 0 ds] by (simp add: int_of_digits_def)
  have iff: "v mod 10 ^ p = 0 \<longleftrightarrow> int_of_digits ds = 0" using ds(5) by auto
  show ?thesis
    using g ds(3,5) pos iff unfolding ds(1)
    by (auto simp: fraction_part_def intro!: exI [of _ "length ds"])
qed

lemma group_nanos_frac:
  assumes "0 \<le> n" "p \<le> 9" "unit = 10 ^ p" "n * unit + v mod 10 ^ p \<le> two63"
    and "if v mod 10 ^ p = 0 then f = 0
         else 0 < f \<and> (\<exists>k \<le> p. float_is g (10 ^ k) \<and> f * 10 ^ (p - k) = v mod 10 ^ p)"
  shows "group_nanos n f g unit = Some (n * unit + v mod 10 ^ p)"
proof -
  have "0 \<le> v mod 10 ^ p" by simp
  with assms(4) have "n * unit \<le> two63" by linarith
  then have n: "\<not> n > two63 div unit"
    using assms(3) zdiv_mono1 [of "n * unit" two63 unit] by simp
  show ?thesis
  proof (cases "v mod 10 ^ p = 0")
    case True
    with assms(5) n show ?thesis by (simp add: group_nanos_def)
  next
    case False
    then obtain k where f: "0 < f" and k: "k \<le> p" "float_is g (10 ^ k)" "f * 10 ^ (p - k) = v mod 10 ^ p"
      using assms(5) by auto
    have unit: "unit = 10 ^ (p - k) * 10 ^ k" using k(1) assms(3) by (simp add: power_add [symmetric])
    have le9: "(10::int) ^ j \<le> 1000000000" if "j \<le> p" for j
      using power_increasing [of j 9 "10::int"] that assms(2) by simp
    have vm: "v mod 10 ^ p < 1000000000"
      using pos_mod_bound [of "10 ^ p" v] le9 [of p] by (meson less_le_trans order_refl zero_less_numeral zero_less_power)
    have "f * 1 \<le> f * 10 ^ (p - k)" using f by (intro mult_left_mono) auto
    then have fb: "f < 1000000000" using k(3) vm by simp
    have "float_is (float_of_int unit) (10 ^ (p - k) * 10 ^ k)"
      using float_is_of_int [of unit] le9 [of p] assms(3) unfolding unit [symmetric] by simp
    then have "float_is (fdiv (float_of_int unit) g) (10 ^ (p - k))"
      using k(2) le9 [of "p - k"] by (intro float_is_fdiv) auto
    moreover have "float_is (float_of_int f) f" using f fb by (intro float_is_of_int) auto
    ultimately have "float_is (fmul (float_of_int f) (fdiv (float_of_int unit) g)) (f * 10 ^ (p - k))"
      using f k(3) vm by (intro float_is_fmul) auto
    then have "ftrunc (fmul (float_of_int f) (fdiv (float_of_int unit) g)) = v mod 10 ^ p"
      using k(3) float_is_trunc by metis
    with f n assms(4) show ?thesis by (simp add: group_nanos_def)
  qed
qed

text \<open>One printed group, followed by text that starts with a digit or is empty.\<close>

definition digit_or_end :: "string \<Rightarrow> bool" where
  "digit_or_end r \<longleftrightarrow> (case r of [] \<Rightarrow> True | c # _ \<Rightarrow> is_digit c)"

lemma takeWhile_unit:
  assumes "\<forall>c \<in> set u. unit_char c" "digit_or_end r"
  shows "takeWhile unit_char (u @ r) = u" "dropWhile unit_char (u @ r) = r"
  using assms by (cases r; auto simp: digit_or_end_def unit_char_def takeWhile_append)+

lemma show_nat_append_hd: "0 \<le> n \<Longrightarrow> \<exists>c s. show_nat n @ r = c # s \<and> is_digit c"
  using show_nat_digits [of n] show_nat_nonempty [of n] by (cases "show_nat n") auto

lemma parse_group_printed:
  assumes "0 \<le> n" "p \<le> 9" "unit_map u = Some (10 ^ p)" "u \<noteq> []" "\<forall>c \<in> set u. unit_char c"
    and "digit_or_end r" "n * 10 ^ p + v mod 10 ^ p \<le> two63"
  shows "parse_group (show_nat n @ frac_digits p v False '''' @ u @ r) =
           Some (n * 10 ^ p + v mod 10 ^ p, r)"
proof -
  let ?fr = "frac_digits p v False ''''"
  have nd: "no_digit_head (u @ r)" "hd (u @ r) \<noteq> CHR ''.''" "u @ r \<noteq> []"
    using assms(4,5) by (cases u; auto simp: no_digit_head_def unit_char_def)+
  obtain f g b where fr: "fraction_part (?fr @ u @ r) = (f, g, u @ r, b)"
    and cond: "if v mod 10 ^ p = 0 then f = 0
     else 0 < f \<and> (\<exists>k \<le> p. float_is g (10 ^ k) \<and> f * 10 ^ (p - k) = v mod 10 ^ p)"
    using fraction_part_frac [OF assms(2) nd(1) nd(3) nd(2), of v] by blast
  have "no_digit_head (?fr @ u @ r)"
    using frac_digits_False [of v p] nd(1) by (auto simp: no_digit_head_def is_digit_def byte_def)
  moreover have "0 \<le> v mod 10 ^ p" by simp
  then have "n * 10 ^ p \<le> two63" using assms(7) by linarith
  then have "n \<le> two63" using mult_left_mono [of 1 "10 ^ p" n] assms(1) by simp
  ultimately have li: "leading_int 0 (show_nat n @ ?fr @ u @ r) = Some (n, ?fr @ u @ r)"
    using assms(1) by (intro leading_int_show) auto
  obtain c s where cs: "show_nat n @ ?fr @ u @ r = c # s" "is_digit c"
    using show_nat_append_hd [OF assms(1)] by blast
  have "length (show_nat n) \<noteq> 0" using show_nat_nonempty [of n] by simp
  then have len: "length (c # s) \<noteq> length (?fr @ u @ r)"
    unfolding cs(1) [symmetric] by simp
  have "group_nanos n f g (10 ^ p) = Some (n * 10 ^ p + v mod 10 ^ p)"
    using group_nanos_frac [OF assms(1,2) refl assms(7) cond] .
  then show ?thesis
    using li fr cs(2) len assms(3,4) takeWhile_unit [OF assms(5,6)]
    unfolding cs(1) by (simp add: parse_group_def Let_def)
qed

lemma parse_group_plain:
  assumes "0 \<le> n" "unit_map u = Some k" "0 < k" "u \<noteq> []" "\<forall>c \<in> set u. unit_char c"
    and "digit_or_end r" "n * k \<le> two63"
  shows "parse_group (show_nat n @ u @ r) = Some (n * k, r)"
proof -
  have nd: "no_digit_head (u @ r)" "fraction_part (u @ r) = (0, float_of_int 1, u @ r, False)"
    using assms(4,5) by (cases u; auto simp: no_digit_head_def unit_char_def fraction_part_def)+
  have "n * 1 \<le> n * k" using assms(1,3) by (intro mult_left_mono) auto
  then have li: "leading_int 0 (show_nat n @ u @ r) = Some (n, u @ r)"
    using assms nd by (intro leading_int_show) auto
  obtain c s where cs: "show_nat n @ u @ r = c # s" "is_digit c"
    using show_nat_append_hd [OF assms(1)] by blast
  have "length (show_nat n) \<noteq> 0" using show_nat_nonempty [of n] by simp
  then have len: "length (c # s) \<noteq> length (u @ r)" unfolding cs(1) [symmetric] by simp
  have "\<not> n > two63 div k" using assms(3,7) zdiv_mono1 [of "n * k" two63 k] by simp
  then have "group_nanos n 0 (float_of_int 1) k = Some (n * k)" by (simp add: group_nanos_def)
  then show ?thesis
    using li nd(2) cs(2) len assms(2,4) takeWhile_unit [OF assms(5,6)]
    unfolding cs(1) by (simp add: parse_group_def Let_def)
qed

lemmas unit_simps = unit_map_def micro_sign_def greek_mu_def unit_char_def is_digit_def byte_def
  digit_or_end_def

lemma parse_groups_one:
  "s \<noteq> [] \<Longrightarrow> parse_group s = Some (v, r) \<Longrightarrow> d + v \<le> two63 \<Longrightarrow>
   parse_groups d s = parse_groups (d + v) r"
  by (simp add: parse_groups.simps [of d s])

lemma parse_groups_nil [simp]: "parse_groups d [] = Some d"
  by (simp add: parse_groups.simps)

lemma parse_seconds_tail:
  assumes "0 \<le> u" "0 \<le> d" "d + u div 1000000000 mod 60 * 1000000000 + u mod 1000000000 \<le> two63"
  shows "parse_groups d (show_nat (u div 1000000000 mod 60) @ frac_digits 9 u False '''' @ ''s'') =
           Some (d + (u div 1000000000 mod 60 * 1000000000 + u mod 1000000000))"
proof -
  have "parse_group (show_nat (u div 1000000000 mod 60) @ frac_digits 9 u False '''' @ ''s'' @ []) =
      Some (u div 1000000000 mod 60 * 10 ^ 9 + u mod 10 ^ 9, [])"
    using assms by (intro parse_group_printed) (auto simp: unit_simps)
  then show ?thesis using assms(3) show_nat_nonempty by (simp add: parse_groups_one)
qed

lemma parse_minutes_tail:
  assumes "0 \<le> m" "m * 60000000000 \<le> two63" "digit_or_end r" "d + m * 60000000000 \<le> two63"
  shows "parse_groups d (show_nat m @ ''m'' @ r) = parse_groups (d + m * 60000000000) r"
proof -
  have "parse_group (show_nat m @ ''m'' @ r) = Some (m * 60000000000, r)"
    using assms by (intro parse_group_plain) (auto simp: unit_simps)
  then show ?thesis using assms(4) show_nat_nonempty by (simp add: parse_groups_one)
qed

lemma digit_or_end_show: "0 \<le> n \<Longrightarrow> digit_or_end (show_nat n @ r)"
  using show_nat_append_hd [of n r] by (auto simp: digit_or_end_def)

lemma parse_hours_tail:
  assumes "0 \<le> h" "h * 3600000000000 \<le> two63" "digit_or_end r"
  shows "parse_groups 0 (show_nat h @ ''h'' @ r) = parse_groups (h * 3600000000000) r"
proof -
  have "parse_group (show_nat h @ ''h'' @ r) = Some (h * 3600000000000, r)"
    using assms by (intro parse_group_plain) (auto simp: unit_simps)
  then show ?thesis using assms(2) show_nat_nonempty by (simp add: parse_groups_one)
qed

lemma parse_body:
  assumes "0 < u" "u \<le> two63"
  shows "parse_groups 0 (duration_body u) = Some u"
proof -
  have one: "parse_groups 0 s = Some u" if "parse_group s = Some (u, [])" for s
    using that assms parse_groups_one [of s u "[]" 0] by (cases s) (auto simp: parse_group_def)
  consider "u < 1000" | "1000 \<le> u" "u < 1000000" | "1000000 \<le> u" "u < 1000000000"
    | "1000000000 \<le> u" by linarith
  then show ?thesis
  proof cases
    case 1
    have "parse_group (show_nat u @ ''ns'' @ []) = Some (u * 1, [])"
      using assms by (intro parse_group_plain) (auto simp: unit_simps)
    with 1 show ?thesis by (simp add: duration_body_def one)
  next
    case 2
    have "parse_group (show_nat (u div 1000) @ frac_digits 3 u False '''' @ (micro_sign @ ''s'') @ []) =
        Some (u div 1000 * 10 ^ 3 + u mod 10 ^ 3, [])"
      using assms by (intro parse_group_printed) (auto simp: unit_simps)
    with 2 show ?thesis by (simp add: duration_body_def one)
  next
    case 3
    have "parse_group (show_nat (u div 1000000) @ frac_digits 6 u False '''' @ ''ms'' @ []) =
        Some (u div 1000000 * 10 ^ 6 + u mod 10 ^ 6, [])"
      using assms by (intro parse_group_printed) (auto simp: unit_simps)
    with 3 show ?thesis by (simp add: duration_body_def one)
  next
    case 4
    define s where "s = u div 1000000000"
    define m where "m = s div 60"
    define h where "h = m div 60"
    have parts: "u = s * 1000000000 + u mod 1000000000" "s = m * 60 + s mod 60" "m = h * 60 + m mod 60"
      by (auto simp: s_def m_def h_def)
    have pos: "0 \<le> s" "0 \<le> m" "0 \<le> h" "0 \<le> u mod 1000000000" "0 \<le> s mod 60" "0 \<le> m mod 60"
      using assms by (auto simp: s_def m_def h_def)
    have lim: "m * 60000000000 + (s mod 60 * 1000000000 + u mod 1000000000) = u"
      "h * 3600000000000 + m mod 60 * 60000000000 = m * 60000000000"
      using parts by linarith+
    note tail = parse_seconds_tail [of u, folded s_def] digit_or_end_show
    show ?thesis
    proof (cases "h = 0")
      case True
      then have hm: "m div 60 = 0" "m mod 60 = m" using parts(3) by (auto simp: h_def)
      show ?thesis
        using 4 assms pos lim hm tail parse_minutes_tail [of m _ 0]
        by (cases "m = 0") (auto simp: duration_body_def Let_def s_def [symmetric] m_def [symmetric])
    next
      case False
      then have nz: "m \<noteq> 0" by (auto simp: h_def)
      have "parse_groups 0 (duration_body u) = parse_groups 0 (show_nat h @ ''h'' @
          show_nat (m mod 60) @ ''m'' @ show_nat (s mod 60) @ frac_digits 9 u False '''' @ ''s'')"
        using 4 False nz
        by (simp add: duration_body_def Let_def s_def [symmetric] m_def [symmetric] h_def [symmetric])
      also have "\<dots> = parse_groups (h * 3600000000000) (show_nat (m mod 60) @ ''m'' @
          show_nat (s mod 60) @ frac_digits 9 u False '''' @ ''s'')"
        using pos assms lim by (intro parse_hours_tail digit_or_end_show) auto
      also have "\<dots> = parse_groups (h * 3600000000000 + m mod 60 * 60000000000)
          (show_nat (s mod 60) @ frac_digits 9 u False '''' @ ''s'')"
        using pos assms lim by (intro parse_minutes_tail digit_or_end_show) auto
      also have "\<dots> = Some u"
        using pos assms lim tail(1) by simp
      finally show ?thesis .
    qed
  qed
qed

lemma duration_body_hd: "0 < u \<Longrightarrow> \<exists>c s. duration_body u = c # s \<and> is_digit c \<and> s \<noteq> []"
proof -
  assume "0 < u"
  have show_ex: "\<exists>c s. show_nat n @ r = c # s \<and> is_digit c \<and> s \<noteq> []" if "0 \<le> n" "r \<noteq> []" for n r
    using that show_nat_digits [of n] show_nat_nonempty [of n] by (cases "show_nat n") auto
  show ?thesis
    using \<open>0 < u\<close> by (auto simp: duration_body_def Let_def intro!: show_ex)
qed

lemma parse_duration_string:
  assumes "min_duration \<le> d" "d \<le> max_duration"
  shows "parse_duration (duration_string d) = Some d"
proof (cases "d = 0")
  case True
  have "parse_groups 0 ''0s'' = Some 0" by code_simp
  with True show ?thesis by (simp add: duration_string_def parse_duration_def two63_def)
next
  case False
  then have u: "0 < \<bar>d\<bar>" "\<bar>d\<bar> \<le> two63"
    using assms by (auto simp: min_duration_def max_duration_def two63_def)
  obtain c s where cs: "duration_body \<bar>d\<bar> = c # s" "is_digit c" "s \<noteq> []"
    using duration_body_hd [OF u(1)] by blast
  have c: "c \<noteq> CHR ''-''" "c \<noteq> CHR ''+''" using cs(2) by (auto simp: is_digit_def byte_def)
  have p: "parse_groups 0 (c # s) = Some \<bar>d\<bar>" using parse_body [OF u] cs(1) by simp
  show ?thesis
    using False cs c p assms
    by (auto simp: duration_string_def parse_duration_def Let_def max_duration_def two63_def)
qed

end
