(* ===== verification/Watch_Types.thy ===== *)
theory Watch_Types
  imports Go_Duration
begin

text \<open>
  Package \<open>watch\<close>: the portable watch contract. Each struct is a record with the
  fields in the source's order; \<open>EntityKey\<close> and \<open>DetailOrDefault\<close> are its
  operations. An optional pointer is an \<open>option\<close>, a Go map an association list with
  distinct keys, and an absent \<open>any\<close> is \<open>VNil\<close>.
\<close>

definition APIVersion :: string where "APIVersion = ''ding.ing/v1alpha1''"

record metadata =
  md_id :: string
  md_name :: string

record secret_ref =
  sr_env :: string

type_synonym secret_refs = "(string \<times> secret_ref) list"

section \<open>Log sources\<close>

record log_multiline =
  lm_start :: string
  lm_continue :: string
  lm_max_lines :: int
  lm_flush_after :: string

record log_input =
  li_type :: string
  li_path :: string
  li_start :: string
  li_argv :: "string list"
  li_directory :: string
  li_env :: secret_refs
  li_reconnect_every :: string

record log_source =
  ls_input :: log_input
  ls_format :: string
  ls_level_field :: string
  ls_patterns :: "(string \<times> string) list"
  ls_level_map :: "(string \<times> string) list"
  ls_text_profile :: string
  ls_framing :: string
  ls_multiline :: "log_multiline option"
  ls_window :: string
  ls_retention :: string
  ls_emit_every :: string
  ls_min_events :: int
  ls_min_coverage :: float64

section \<open>Definitions\<close>

record source =
  src_logs :: "log_source option"
  src_observed_at_field :: string
  src_type :: string
  src_url :: string
  src_url_ref :: "secret_ref option"
  src_every :: string
  src_timeout :: string
  src_headers :: secret_refs
  src_fields :: "(string \<times> string) list"
  src_items_path :: string
  src_jq :: string
  src_argv :: "string list"
  src_directory :: string
  src_env :: secret_refs

record condition =
  c_field :: string
  c_operator :: string
  c_value :: "value"
  c_numeric :: string
  c_missing_for :: string
  c_dedup_for :: string

record policy =
  p_trigger :: string
  p_consecutive :: int
  p_recover_after :: int
  p_on_unknown :: string
  p_interval :: string
  p_max_gap :: string

record target =
  t_ref :: string
  t_events :: "string list"

record limits =
  l_max_entities :: int
  l_max_samples :: int
  l_max_bytes :: int
  l_max_outputs :: int
  l_idle_ttl :: string

record spec =
  s_source :: source
  s_condition :: condition
  s_policy :: policy
  s_group_by :: "string list"
  s_match :: fields
  s_message :: string
  s_destinations :: "target list"
  s_limits :: limits

record definition_rec =
  d_api_version :: string
  d_kind :: string
  d_metadata :: metadata
  d_spec :: spec

record destination_spec =
  ds_type :: string
  ds_url_ref :: "secret_ref option"
  ds_headers :: secret_refs
  ds_max_attempts :: int
  ds_max_age :: string
  ds_initial_backoff :: string

record destination =
  dest_api_version :: string
  dest_kind :: string
  dest_metadata :: metadata
  dest_spec :: destination_spec

section \<open>Observations and events\<close>

record observation =
  o_entity :: string
  o_deadline :: "time option"
  o_sequence :: int
  o_input_id :: string
  o_accepted_at :: time
  o_observed_at :: "time option"
  o_fields :: fields
  o_health :: string
  o_detail :: string

record event =
  e_id :: string
  e_sequence :: int
  e_watch_id :: string
  e_revision :: string
  e_entity :: string
  e_type :: string
  e_at :: time
  e_message :: string
  e_fields :: fields
  e_evidence :: "int list"

definition DetailOrDefault :: "observation \<Rightarrow> string" where
  "DetailOrDefault o' = (if o_detail o' \<noteq> '''' then o_detail o' else ''source_unknown'')"

section \<open>Entity identity\<close>

definition quoted :: "string \<Rightarrow> string" where "quoted s = [CHR 0x22] @ s @ [CHR 0x22]"

text \<open>A grouping value that is not a scalar, or a string that is not UTF-8, is refused
  before anything is encoded.\<close>

fun group_value_error :: "value \<Rightarrow> err option" where
  "group_value_error (VStr s) =
     (if valid_utf8 s then None else Some (Err ''group value is not valid UTF-8''))"
| "group_value_error (VArr _) = Some (Err ''group fields must be scalar values'')"
| "group_value_error (VObj _) = Some (Err ''group fields must be scalar values'')"
| "group_value_error _ = None"

definition field_value :: "fields \<Rightarrow> string \<Rightarrow> value" where
  "field_value fs f = (case map_of fs f of Some v \<Rightarrow> v | None \<Rightarrow> VNil)"

fun group_error :: "fields \<Rightarrow> string list \<Rightarrow> err option" where
  "group_error fs [] = None"
| "group_error fs (f # rest) =
     (case group_value_error (field_value fs f) of
        Some e \<Rightarrow> Some e
      | None \<Rightarrow> group_error fs rest)"

text \<open>One part of the key: the field's name, whether it is present and its value.\<close>

definition entity_part :: "fields \<Rightarrow> string \<Rightarrow> string result" where
  "entity_part fs f =
     (case json_scalar (field_value fs f) of
        None \<Rightarrow> Inl (Err ''json: unsupported value'')
      | Some j \<Rightarrow> Inr (''{'' @ quoted ''field'' @ '':'' @ json_string f @ '','' @ quoted ''present'' @
          '':'' @ (if map_of fs f \<noteq> None then ''true'' else ''false'') @ '','' @ quoted ''value'' @
          '':'' @ j @ ''}''))"

fun entity_parts :: "fields \<Rightarrow> string list \<Rightarrow> string list result" where
  "entity_parts fs [] = Inr []"
| "entity_parts fs (f # rest) =
     bindE (entity_part fs f) (\<lambda>p. bindE (entity_parts fs rest) (\<lambda>ps. Inr (p # ps)))"

fun join_commas :: "string list \<Rightarrow> string" where
  "join_commas [] = []"
| "join_commas [s] = s"
| "join_commas (s # t # u) = s @ '','' @ join_commas (t # u)"

definition EntityKey :: "string list \<Rightarrow> fields \<Rightarrow> string result" where
  "EntityKey groupBy fs =
     (case group_error fs groupBy of
        Some e \<Rightarrow> Inl e
      | None \<Rightarrow> bindE (entity_parts fs groupBy) (\<lambda>ps. Inr (''['' @ join_commas ps @ '']'')))"

text \<open>The key of an actual entity is a JSON array, so it is neither empty nor the name the
  runtime reserves for source health.\<close>

lemma EntityKey_shape: "EntityKey g fs = Inr k \<Longrightarrow> \<exists>r. k = ''['' @ r"
  by (auto simp: EntityKey_def split: option.splits)

lemma EntityKey_nonempty: "EntityKey g fs = Inr k \<Longrightarrow> k \<noteq> [] \<and> hd k = CHR ''[''"
  by (auto simp: EntityKey_def split: option.splits)

end
