(* ===== verification/Numeric_Condition.thy ===== *)
theory Numeric_Condition
  imports Watch_Types
begin

text \<open>
  Package \<open>condition\<close>, file \<open>numeric.go\<close>: the language of numeric conditions.
  The regular expressions of the atoms are written as the deterministic scanners they are
  equivalent to; the tokenizer, the recursive-descent parser with its window numbering and
  the evaluator follow the source function by function.
\<close>

section \<open>Conditions\<close>

record cond =
  cn_windowed :: bool
  cn_run_bounded :: bool
  cn_op :: string
  cn_literal :: float64
  cn_func :: string
  cn_window :: duration

text \<open>White space of \<open>\s\<close> in a Go regular expression.\<close>

definition re_space :: "char \<Rightarrow> bool" where
  "re_space c \<longleftrightarrow> byte c \<in> {9, 10, 12, 13, 32}"

definition skip_spaces :: "string \<Rightarrow> string" where "skip_spaces s = dropWhile re_space s"

text \<open>The operator alternative: an operand never starts with \<open>=\<close>, so the longest
  operator is the one that can match.\<close>

definition scan_op :: "string \<Rightarrow> (string \<times> string) option" where
  "scan_op s =
     (if has_prefix ''>='' s then Some (''>='', drop 2 s)
      else if has_prefix ''<='' s then Some (''<='', drop 2 s)
      else if has_prefix ''=='' s then Some (''=='', drop 2 s)
      else if has_prefix ''!='' s then Some (''!='', drop 2 s)
      else if has_prefix ''>'' s then Some (''>'', drop 1 s)
      else if has_prefix ''<'' s then Some (''<'', drop 1 s)
      else None)"

text \<open>\<open>-?\d+(?:\.\d+)?$\<close>: the whole rest is a decimal literal.\<close>

definition number_literal :: "string \<Rightarrow> bool" where
  "number_literal s =
     (let t = (if has_prefix ''-'' s then drop 1 s else s); (is, u) = split_digits t
      in is \<noteq> [] \<and>
         (u = [] \<or> (has_prefix ''.'' u \<and>
            (let (fs, v) = split_digits (drop 1 u) in fs \<noteq> [] \<and> v = []))))"

text \<open>The tail \<open>\s*(op)\s*(number)$\<close> shared by both forms.\<close>

definition scan_tail :: "string \<Rightarrow> (string \<times> string) option" where
  "scan_tail s =
     (case scan_op (skip_spaces s) of
        None \<Rightarrow> None
      | Some (op, t) \<Rightarrow> (let n = skip_spaces t in if number_literal n then Some (op, n) else None))"

definition match_event :: "string \<Rightarrow> (string \<times> string) option" where
  "match_event s = (if has_prefix ''value'' s then scan_tail (drop 5 s) else None)"

definition aggregate_names :: "string list" where
  "aggregate_names = [''avg'', ''max'', ''min'', ''count'', ''sum'']"

fun scan_func :: "string list \<Rightarrow> string \<Rightarrow> (string \<times> string) option" where
  "scan_func [] s = None"
| "scan_func (f # fs) s = (if has_prefix f s then Some (f, drop (length f) s) else scan_func fs s)"

text \<open>\<open>(\d+[smh]|run)\<close>\<close>

definition scan_window :: "string \<Rightarrow> (string \<times> string) option" where
  "scan_window s =
     (if has_prefix ''run'' s then Some (''run'', drop 3 s)
      else let (ds, t) = split_digits s
           in case t of
                c # u \<Rightarrow> if ds \<noteq> [] \<and> (c = CHR ''s'' \<or> c = CHR ''m'' \<or> c = CHR ''h'')
                         then Some (ds @ [c], u) else None
              | [] \<Rightarrow> None)"

definition scan_spaces1 :: "string \<Rightarrow> string option" where
  "scan_spaces1 s = (case s of c # _ \<Rightarrow> if re_space c then Some (skip_spaces s) else None | [] \<Rightarrow> None)"

definition match_windowed :: "string \<Rightarrow> (string \<times> string \<times> string \<times> string) option" where
  "match_windowed s =
     (case scan_func aggregate_names s of
        None \<Rightarrow> None
      | Some (fn, t) \<Rightarrow>
          if \<not> has_prefix ''(value)'' t then None
          else case scan_spaces1 (drop 7 t) of
            None \<Rightarrow> None
          | Some u \<Rightarrow>
              if \<not> has_prefix ''over'' u then None
              else case scan_spaces1 (drop 4 u) of
                None \<Rightarrow> None
              | Some v \<Rightarrow>
                  (case scan_window v of
                     None \<Rightarrow> None
                   | Some (w, r) \<Rightarrow> map_option (\<lambda>(op, n). (fn, w, op, n)) (scan_tail r)))"

definition parse_literal :: "string \<Rightarrow> float64 option" where
  "parse_literal s = (case parse_float s of Some x \<Rightarrow> if is_finite x then Some x else None | None \<Rightarrow> None)"

definition ParseCondition :: "string \<Rightarrow> cond result" where
  "ParseCondition s =
     (case match_event s of
        Some (op, n) \<Rightarrow>
          (case parse_literal n of
             None \<Rightarrow> Inl (Err ''invalid numeric literal'')
           | Some lit \<Rightarrow> Inr \<lparr>cn_windowed = False, cn_run_bounded = False, cn_op = op,
               cn_literal = lit, cn_func = '''', cn_window = 0\<rparr>)
      | None \<Rightarrow>
        (case match_windowed s of
           Some (fn, w, op, n) \<Rightarrow>
             (case parse_literal n of
                None \<Rightarrow> Inl (Err ''invalid numeric literal'')
              | Some lit \<Rightarrow>
                  if w = ''run'' then
                    Inr \<lparr>cn_windowed = True, cn_run_bounded = True, cn_op = op,
                      cn_literal = lit, cn_func = fn, cn_window = 0\<rparr>
                  else case parse_duration w of
                    None \<Rightarrow> Inl (Err ''invalid duration in condition'')
                  | Some d \<Rightarrow>
                      if d \<le> 0 then Inl (Err ''window duration must be positive'')
                      else Inr \<lparr>cn_windowed = True, cn_run_bounded = False, cn_op = op,
                        cn_literal = lit, cn_func = fn, cn_window = d\<rparr>)
         | None \<Rightarrow> Inl (Err ''unrecognized condition syntax'')))"

definition CompareNumber :: "float64 \<Rightarrow> string \<Rightarrow> float64 \<Rightarrow> bool" where
  "CompareNumber actual op literal =
     (if op = ''>'' then flt literal actual
      else if op = ''>='' then fle literal actual
      else if op = ''<'' then flt actual literal
      else if op = ''<='' then fle actual literal
      else if op = ''=='' then feq actual literal
      else if op = ''!='' then \<not> feq actual literal
      else False)"

section \<open>Expressions\<close>

datatype cond_expr =
    Leaf cond int                          \<comment> \<open>the condition and its window number, -1 for none\<close>
  | Compound string cond_expr cond_expr    \<comment> \<open>operator \<open>AND\<close> or \<open>OR\<close>\<close>

record context_rec =
  cx_value :: float64
  cx_aggregates :: "int \<rightharpoonup> float64"
  cx_available :: "int \<Rightarrow> bool"

record window_leaf =
  w_id :: int
  w_func :: string
  w_window :: duration
  w_run_bounded :: bool

fun Eval :: "cond_expr \<Rightarrow> context_rec \<Rightarrow> bool" where
  "Eval (Leaf c i) ctx =
     (if cn_windowed c then
        if \<not> cx_available ctx i then False
        else CompareNumber (case cx_aggregates ctx i of Some x \<Rightarrow> x | None \<Rightarrow> fzero) (cn_op c) (cn_literal c)
      else CompareNumber (cx_value ctx) (cn_op c) (cn_literal c))"
| "Eval (Compound op l r) ctx =
     (if op = ''AND'' then Eval l ctx \<and> Eval r ctx
      else if op = ''OR'' then Eval l ctx \<or> Eval r ctx
      else False)"

fun Windows :: "cond_expr \<Rightarrow> window_leaf list" where
  "Windows (Leaf c i) =
     (if cn_windowed c then [\<lparr>w_id = i, w_func = cn_func c, w_window = cn_window c,
        w_run_bounded = cn_run_bounded c\<rparr>] else [])"
| "Windows (Compound op l r) = Windows l @ Windows r"

section \<open>Tokens\<close>

datatype token = TokAtom string | TokAND | TokOR

fun is_atom :: "token \<Rightarrow> bool" where
  "is_atom (TokAtom _) = True"
| "is_atom _ = False"

text \<open>The operator the tokenizer's switch splits at: the earlier of the two.\<close>

definition next_op :: "string \<Rightarrow> (nat \<times> token) option" where
  "next_op rest =
     (case (str_index '' AND '' rest, str_index '' OR '' rest) of
        (None, None) \<Rightarrow> None
      | (Some i, None) \<Rightarrow> Some (i, TokAND)
      | (Some i, Some j) \<Rightarrow> if i < j then Some (i, TokAND) else Some (j, TokOR)
      | (None, Some j) \<Rightarrow> Some (j, TokOR))"

text \<open>The tokenizer's loop; \<open>toks\<close> is the slice built so far.\<close>

function tokenize_loop :: "token list \<Rightarrow> string \<Rightarrow> token list result" where
  "tokenize_loop toks rest =
     (if rest = [] then Inr toks
      else case next_op rest of
        None \<Rightarrow>
          (let atom = trim_space rest
           in if atom = [] then Inl (Err ''unexpected end of condition'')
              else Inr (toks @ [TokAtom atom]))
      | Some (i, op) \<Rightarrow>
          (let atom = trim_space (take i rest)
           in if atom = [] then
                Inl (Err (if op = TokAND then ''operator AND without left operand''
                          else ''operator OR without left operand''))
              else tokenize_loop (toks @ [TokAtom atom, op])
                     (drop (i + (if op = TokAND then 5 else 4)) rest)))"
  by pat_completeness auto
termination by (relation "measure (\<lambda>(t, s). length s)") auto

declare tokenize_loop.simps [simp del]

definition tokenize :: "string \<Rightarrow> token list result" where
  "tokenize s =
     bindE (tokenize_loop [] s) (\<lambda>toks.
       if toks = [] then Inl (Err ''empty condition'')
       else if \<not> is_atom (last toks) then Inl (Err ''unexpected end of condition after operator'')
       else Inr toks)"

section \<open>The parser\<close>

record cond_parser =
  cp_tokens :: "token list"     \<comment> \<open>the tokens from the current position on\<close>
  cp_next_id :: int

definition parseAtom :: "cond_parser \<Rightarrow> (cond_expr \<times> cond_parser) result" where
  "parseAtom p =
     (case cp_tokens p of
        [] \<Rightarrow> Inl (Err ''unexpected end of condition'')
      | TokAtom val # rest \<Rightarrow>
          (case ParseCondition val of
             Inl e \<Rightarrow>
               (let lower = to_lower val
                in if contains lower '' and '' \<or> contains lower '' or ''
                   then Inl (Err ''invalid condition: did you mean AND/OR? keywords must be uppercase'')
                   else Inl (Err ''invalid atom''))
           | Inr c \<Rightarrow>
               if cn_windowed c then
                 Inr (Leaf c (cp_next_id p), p\<lparr>cp_tokens := rest, cp_next_id := cp_next_id p + 1\<rparr>)
               else Inr (Leaf c (-1), p\<lparr>cp_tokens := rest\<rparr>))
      | _ \<Rightarrow> Inl (Err ''unexpected operator without operand''))"

lemma parseAtom_length:
  "parseAtom p = Inr (x, q) \<Longrightarrow> length (cp_tokens q) < length (cp_tokens p)"
  by (auto simp: parseAtom_def Let_def split: list.splits token.splits sum.splits if_splits)

text \<open>The loop \<open>(AND atom)*\<close>, then \<open>and_expr\<close>; the loop \<open>(OR and_expr)*\<close>, then
  \<open>expr\<close>.\<close>

function and_loop :: "cond_expr \<Rightarrow> cond_parser \<Rightarrow> (cond_expr \<times> cond_parser) result" where
  "and_loop left p =
     (case cp_tokens p of
        TokAND # rest \<Rightarrow>
          (case parseAtom (p\<lparr>cp_tokens := rest\<rparr>) of
             Inl e \<Rightarrow> Inl e
           | Inr (right, q) \<Rightarrow> and_loop (Compound ''AND'' left right) q)
      | _ \<Rightarrow> Inr (left, p))"
  by pat_completeness auto
termination
  by (relation "measure (\<lambda>(l, p). length (cp_tokens p))") (auto dest!: parseAtom_length)

declare and_loop.simps [simp del]

definition parseAndExpr :: "cond_parser \<Rightarrow> (cond_expr \<times> cond_parser) result" where
  "parseAndExpr p = bindE (parseAtom p) (\<lambda>(left, q). and_loop left q)"

lemma and_loop_length:
  "and_loop l p = Inr (x, q) \<Longrightarrow> length (cp_tokens q) \<le> length (cp_tokens p)"
proof (induction l p rule: and_loop.induct)
  case (1 l p)
  show ?case
  proof (cases "cp_tokens p")
    case (Cons t rest)
    show ?thesis
    proof (cases "t = TokAND")
      case True
      with 1(2) Cons obtain r q' where
        a: "parseAtom (p\<lparr>cp_tokens := rest\<rparr>) = Inr (r, q')" "and_loop (Compound ''AND'' l r) q' = Inr (x, q)"
        by (auto simp: and_loop.simps [of l p] split: sum.splits prod.splits)
      have "length (cp_tokens q) \<le> length (cp_tokens q')"
        using 1(1) Cons True a by blast
      with parseAtom_length [OF a(1)] Cons show ?thesis by simp
    next
      case False
      with 1(2) Cons show ?thesis
        by (auto simp: and_loop.simps [of l p] split: token.splits)
    qed
  qed (use 1(2) in \<open>simp add: and_loop.simps [of l p]\<close>)
qed

lemma parseAndExpr_length:
  "parseAndExpr p = Inr (x, q) \<Longrightarrow> length (cp_tokens q) < length (cp_tokens p)"
  by (auto simp: parseAndExpr_def dest!: and_loop_length parseAtom_length)

function or_loop :: "cond_expr \<Rightarrow> cond_parser \<Rightarrow> (cond_expr \<times> cond_parser) result" where
  "or_loop left p =
     (case cp_tokens p of
        TokOR # rest \<Rightarrow>
          (case parseAndExpr (p\<lparr>cp_tokens := rest\<rparr>) of
             Inl e \<Rightarrow> Inl e
           | Inr (right, q) \<Rightarrow> or_loop (Compound ''OR'' left right) q)
      | _ \<Rightarrow> Inr (left, p))"
  by pat_completeness auto
termination
  by (relation "measure (\<lambda>(l, p). length (cp_tokens p))") (auto dest!: parseAndExpr_length)

declare or_loop.simps [simp del]

definition parseExpr :: "cond_parser \<Rightarrow> (cond_expr \<times> cond_parser) result" where
  "parseExpr p = bindE (parseAndExpr p) (\<lambda>(left, q). or_loop left q)"

definition ParseExpression :: "string \<Rightarrow> cond_expr result" where
  "ParseExpression s =
     bindE (tokenize s) (\<lambda>toks.
       bindE (parseExpr \<lparr>cp_tokens = toks, cp_next_id = 0\<rparr>) (\<lambda>(e, p). Inr e))"

section \<open>What the parser accepts\<close>

text \<open>
  The infix reading of a tree, and its meaning with \<open>AND\<close> binding tighter than
  \<open>OR\<close>: some \<open>OR\<close>-separated group has all its atoms true.
\<close>

datatype item = IAtom cond int | IAnd | IOr

fun inorder :: "cond_expr \<Rightarrow> item list" where
  "inorder (Leaf c i) = [IAtom c i]"
| "inorder (Compound op l r) = inorder l @ [if op = ''AND'' then IAnd else IOr] @ inorder r"

fun item_true :: "context_rec \<Rightarrow> item \<Rightarrow> bool" where
  "item_true ctx (IAtom c i) = Eval (Leaf c i) ctx"
| "item_true ctx _ = True"

fun split_or :: "item list \<Rightarrow> item list list" where
  "split_or [] = [[]]"
| "split_or (x # xs) =
     (if x = IOr then [] # split_or xs
      else case split_or xs of [] \<Rightarrow> [[x]] | g # gs \<Rightarrow> (x # g) # gs)"

definition dnf_true :: "context_rec \<Rightarrow> item list \<Rightarrow> bool" where
  "dnf_true ctx xs \<longleftrightarrow> list_ex (list_all (item_true ctx)) (split_or xs)"

fun and_only :: "cond_expr \<Rightarrow> bool" where
  "and_only (Leaf c i) = True"
| "and_only (Compound op l r) = (op = ''AND'' \<and> and_only l \<and> and_only r)"

fun or_of_ands :: "cond_expr \<Rightarrow> bool" where
  "or_of_ands (Leaf c i) = True"
| "or_of_ands (Compound op l r) =
     (if op = ''AND'' then and_only (Compound op l r)
      else op = ''OR'' \<and> or_of_ands l \<and> or_of_ands r)"

lemma and_only_or_of_ands: "and_only e \<Longrightarrow> or_of_ands e"
  by (cases e) auto

lemma split_or_nonempty [simp]: "split_or xs \<noteq> []"
  by (induction xs) (auto split: list.splits)

lemma split_or_append_or: "split_or (xs @ IOr # ys) = split_or xs @ split_or ys"
proof (induction xs)
  case (Cons x xs)
  then show ?case by (cases "split_or xs") auto
qed simp

lemma dnf_true_or: "dnf_true ctx (xs @ IOr # ys) \<longleftrightarrow> dnf_true ctx xs \<or> dnf_true ctx ys"
  by (simp add: dnf_true_def split_or_append_or)

lemma split_or_no_or: "IOr \<notin> set xs \<Longrightarrow> split_or xs = [xs]"
  by (induction xs) auto

lemma and_only_no_or: "and_only e \<Longrightarrow> IOr \<notin> set (inorder e)"
  by (induction e) auto

lemma and_only_true: "and_only e \<Longrightarrow> list_all (item_true ctx) (inorder e) \<longleftrightarrow> Eval e ctx"
  by (induction e) auto

lemma Eval_dnf: "or_of_ands e \<Longrightarrow> Eval e ctx \<longleftrightarrow> dnf_true ctx (inorder e)"
proof (induction e)
  case (Leaf c i)
  then show ?case by (simp add: dnf_true_def)
next
  case (Compound op l r)
  show ?case
  proof (cases "op = ''AND''")
    case True
    then have a: "and_only (Compound op l r)" using Compound.prems by simp
    show ?thesis
      using and_only_true [OF a] split_or_no_or [OF and_only_no_or [OF a]]
      by (simp add: dnf_true_def)
  next
    case False
    with Compound show ?thesis by (simp add: dnf_true_or)
  qed
qed

text \<open>Items against the tokens they came from, and the window numbers they carry.\<close>

fun item_token :: "item \<Rightarrow> token \<Rightarrow> bool" where
  "item_token (IAtom c i) (TokAtom v) = (ParseCondition v = Inr c)"
| "item_token IAnd TokAND = True"
| "item_token IOr TokOR = True"
| "item_token _ _ = False"

fun item_ids :: "item \<Rightarrow> int list" where
  "item_ids (IAtom c i) = (if cn_windowed c then [i] else [])"
| "item_ids _ = []"

definition parses_to :: "cond_parser \<Rightarrow> cond_parser \<Rightarrow> item list \<Rightarrow> bool" where
  "parses_to p q xs \<longleftrightarrow>
     (\<exists>used. cp_tokens p = used @ cp_tokens q \<and> list_all2 item_token xs used) \<and>
     cp_next_id p \<le> cp_next_id q \<and> concat (map item_ids xs) = [cp_next_id p..cp_next_id q - 1]"

lemma parses_to_nil [simp]: "parses_to p p []"
  by (simp add: parses_to_def)

lemma upto_join: "(a::int) \<le> b \<Longrightarrow> b \<le> c \<Longrightarrow> [a..b - 1] @ [b..c - 1] = [a..c - 1]"
  using upto_split1 [of a b "c - 1"] by (cases "b = c") simp_all

lemma parses_to_trans: "parses_to p q xs \<Longrightarrow> parses_to q r ys \<Longrightarrow> parses_to p r (xs @ ys)"
  by (fastforce simp: parses_to_def list_all2_appendI upto_join)

lemma parses_to_op:
  "cp_tokens p = t # rest \<Longrightarrow> item_token x t \<Longrightarrow> item_ids x = [] \<Longrightarrow>
   parses_to (p\<lparr>cp_tokens := rest\<rparr>) q xs \<Longrightarrow> parses_to p q (x # xs)"
proof -
  assume p: "cp_tokens p = t # rest" "item_token x t" "item_ids x = []"
    and "parses_to (p\<lparr>cp_tokens := rest\<rparr>) q xs"
  then obtain used where "rest = used @ cp_tokens q" "list_all2 item_token xs used"
    "cp_next_id p \<le> cp_next_id q" "concat (map item_ids xs) = [cp_next_id p..cp_next_id q - 1]"
    by (auto simp: parses_to_def)
  with p show ?thesis by (auto simp: parses_to_def intro!: exI [of _ "t # used"])
qed

lemma parseAtom_parses:
  "parseAtom p = Inr (e, q) \<Longrightarrow> \<exists>c i. e = Leaf c i \<and> parses_to p q [IAtom c i]"
  by (auto simp: parseAtom_def parses_to_def Let_def
      split: list.splits token.splits sum.splits if_splits)

lemma and_loop_parses:
  "and_loop l p = Inr (e, q) \<Longrightarrow> and_only l \<Longrightarrow>
   and_only e \<and> (\<exists>xs. inorder e = inorder l @ xs \<and> parses_to p q xs) \<and>
   (cp_tokens q = [] \<or> hd (cp_tokens q) \<noteq> TokAND)"
proof (induction l p rule: and_loop.induct)
  case (1 l p)
  show ?case
  proof (cases "\<exists>rest. cp_tokens p = TokAND # rest")
    case True
    then obtain rest where rest: "cp_tokens p = TokAND # rest" by blast
    with 1(2) obtain r p' where
      a: "parseAtom (p\<lparr>cp_tokens := rest\<rparr>) = Inr (r, p')" "and_loop (Compound ''AND'' l r) p' = Inr (e, q)"
      by (auto simp: and_loop.simps [of l p] split: sum.splits prod.splits)
    obtain c i where r: "r = Leaf c i" "parses_to (p\<lparr>cp_tokens := rest\<rparr>) p' [IAtom c i]"
      using parseAtom_parses [OF a(1)] by blast
    obtain xs where xs: "and_only e" "inorder e = inorder (Compound ''AND'' l r) @ xs" "parses_to p' q xs"
      "cp_tokens q = [] \<or> hd (cp_tokens q) \<noteq> TokAND"
      using 1(1) [OF rest refl a(1) refl a(2)] 1(3) r(1) by auto
    have "parses_to p p' [IAnd, IAtom c i]" using parses_to_op [OF rest _ _ r(2)] by simp
    from parses_to_trans [OF this xs(3)] xs r(1) show ?thesis by auto
  next
    case False
    then have "e = l \<and> q = p \<and> (cp_tokens q = [] \<or> hd (cp_tokens q) \<noteq> TokAND)"
      using 1(2) by (auto simp: and_loop.simps [of l p] split: list.splits token.splits)
    with 1(3) show ?thesis by auto
  qed
qed

lemma parseAndExpr_parses:
  assumes "parseAndExpr p = Inr (e, q)"
  shows "and_only e" "parses_to p q (inorder e)" "cp_tokens q = [] \<or> hd (cp_tokens q) \<noteq> TokAND"
proof -
  obtain a q' where a: "parseAtom p = Inr (a, q')" "and_loop a q' = Inr (e, q)"
    using assms by (auto simp: parseAndExpr_def)
  obtain c i where l: "a = Leaf c i" "parses_to p q' [IAtom c i]"
    using parseAtom_parses [OF a(1)] by blast
  then obtain xs where xs: "and_only e" "inorder e = inorder a @ xs" "parses_to q' q xs"
    "cp_tokens q = [] \<or> hd (cp_tokens q) \<noteq> TokAND"
    using and_loop_parses [OF a(2)] by auto
  show "and_only e" "cp_tokens q = [] \<or> hd (cp_tokens q) \<noteq> TokAND" by fact+
  show "parses_to p q (inorder e)" using parses_to_trans [OF l(2) xs(3)] xs(2) l(1) by simp
qed

lemma or_loop_parses:
  "or_loop l p = Inr (e, q) \<Longrightarrow> or_of_ands l \<Longrightarrow> cp_tokens p = [] \<or> hd (cp_tokens p) \<noteq> TokAND \<Longrightarrow>
   or_of_ands e \<and> (\<exists>xs. inorder e = inorder l @ xs \<and> parses_to p q xs) \<and>
   (cp_tokens q = [] \<or> is_atom (hd (cp_tokens q)))"
proof (induction l p rule: or_loop.induct)
  case (1 l p)
  show ?case
  proof (cases "\<exists>rest. cp_tokens p = TokOR # rest")
    case True
    then obtain rest where rest: "cp_tokens p = TokOR # rest" by blast
    with 1(2) obtain r p' where
      a: "parseAndExpr (p\<lparr>cp_tokens := rest\<rparr>) = Inr (r, p')" "or_loop (Compound ''OR'' l r) p' = Inr (e, q)"
      by (auto simp: or_loop.simps [of l p] split: sum.splits prod.splits)
    note r = parseAndExpr_parses [OF a(1)]
    obtain xs where xs: "or_of_ands e" "inorder e = inorder (Compound ''OR'' l r) @ xs" "parses_to p' q xs"
      "cp_tokens q = [] \<or> is_atom (hd (cp_tokens q))"
      using 1(1) [OF rest refl a(1) refl a(2)] 1(3) r(1,3) and_only_or_of_ands by auto
    have "parses_to p p' (IOr # inorder r)" using parses_to_op [OF rest _ _ r(2)] by simp
    from parses_to_trans [OF this xs(3)] xs show ?thesis by auto
  next
    case False
    then have "e = l \<and> q = p" using 1(2) by (auto simp: or_loop.simps [of l p] split: list.splits token.splits)
    moreover have "cp_tokens p = [] \<or> is_atom (hd (cp_tokens p))"
      using False 1(4) by (cases "cp_tokens p"; cases "hd (cp_tokens p)") auto
    ultimately show ?thesis using 1(3) by auto
  qed
qed

text \<open>The tokenizer alternates atoms and operators.\<close>

fun alternating :: "token list \<Rightarrow> bool" where
  "alternating (TokAtom v # toks) =
     (case toks of [] \<Rightarrow> True | t # rest \<Rightarrow> \<not> is_atom t \<and> alternating rest)"
| "alternating _ = False"

fun op_pairs :: "token list \<Rightarrow> bool" where
  "op_pairs [] = True"
| "op_pairs (TokAtom v # t # rest) = (\<not> is_atom t \<and> op_pairs rest)"
| "op_pairs _ = False"

lemma op_pairs_append: "op_pairs xs \<Longrightarrow> op_pairs ys \<Longrightarrow> op_pairs (xs @ ys)"
  by (induction xs rule: op_pairs.induct) auto

lemma op_pairs_alternating: "op_pairs xs \<Longrightarrow> alternating (xs @ [TokAtom v])"
  by (induction xs rule: op_pairs.induct) auto

lemma op_pairs_last: "op_pairs xs \<Longrightarrow> xs \<noteq> [] \<Longrightarrow> \<not> is_atom (last xs)"
  by (induction xs rule: op_pairs.induct) auto

lemma next_op_operator: "next_op s = Some (i, op) \<Longrightarrow> \<not> is_atom op"
  by (auto simp: next_op_def split: option.splits if_splits)

lemma tokenize_loop_alternates:
  "tokenize_loop toks s = Inr out \<Longrightarrow> op_pairs toks \<Longrightarrow> op_pairs out \<or> alternating out"
proof (induction toks s rule: tokenize_loop.induct)
  case (1 toks s)
  show ?case
  proof (cases "s = [] \<or> next_op s = None")
    case True
    with 1(2,3) show ?thesis
      by (auto simp: tokenize_loop.simps [of toks s] Let_def op_pairs_alternating split: if_splits)
  next
    case False
    then obtain i op where n: "next_op s = Some (i, op)" by auto
    let ?a = "trim_space (take i s)"
    have a: "?a \<noteq> []" and rec: "tokenize_loop (toks @ [TokAtom ?a, op])
        (drop (i + (if op = TokAND then 5 else 4)) s) = Inr out"
      using 1(2) False n by (auto simp: tokenize_loop.simps [of toks s] Let_def split: if_splits)
    have "op_pairs (toks @ [TokAtom ?a, op])"
      using 1(3) next_op_operator [OF n] by (simp add: op_pairs_append)
    then show ?thesis using 1(1) False n a rec by fastforce
  qed
qed

lemma tokenize_alternating: "tokenize s = Inr toks \<Longrightarrow> alternating toks"
  by (auto simp: tokenize_def dest!: tokenize_loop_alternates op_pairs_last split: if_splits)

lemma alternating_no_atom_rest:
  "alternating (used @ rest) \<Longrightarrow> list_all2 item_token (inorder e) used \<Longrightarrow>
   rest = [] \<or> \<not> is_atom (hd rest)"
proof -
  have odd_len: "odd (length (inorder e))" by (induction e) auto
  have hd1: "alternating (t # ys) \<Longrightarrow> ys = [] \<or> \<not> is_atom (hd ys)" for t ys
    by (cases t; cases ys) auto
  have alt: "alternating (xs @ ys) \<Longrightarrow> odd (length xs) \<Longrightarrow> ys = [] \<or> \<not> is_atom (hd ys)" for xs ys
  proof (induction xs rule: op_pairs.induct)
    case (2 v t rest)
    then show ?case by (cases rest) auto
  qed (auto dest: hd1)
  assume "alternating (used @ rest)" "list_all2 item_token (inorder e) used"
  then show ?thesis using alt odd_len list_all2_lengthD by metis
qed

text \<open>
  The parser's contract: every token is consumed, in order; \<open>AND\<close> binds tighter than
  \<open>OR\<close>; windows are numbered from 0 in reading order.
\<close>

lemma ParseExpression_sound:
  assumes "ParseExpression s = Inr e"
  obtains toks where "tokenize s = Inr toks" "list_all2 item_token (inorder e) toks" "or_of_ands e"
    "concat (map item_ids (inorder e)) = [0..int (length (Windows e)) - 1]"
proof -
  obtain toks p where t: "tokenize s = Inr toks"
    and p: "parseExpr \<lparr>cp_tokens = toks, cp_next_id = 0\<rparr> = Inr (e, p)"
    using assms by (auto simp: ParseExpression_def)
  let ?p0 = "\<lparr>cp_tokens = toks, cp_next_id = 0\<rparr> :: cond_parser"
  obtain l q where l: "parseAndExpr ?p0 = Inr (l, q)" "or_loop l q = Inr (e, p)"
    using p by (auto simp: parseExpr_def)
  note a = parseAndExpr_parses [OF l(1)]
  obtain xs where e: "or_of_ands e" "inorder e = inorder l @ xs" "parses_to q p xs"
    "cp_tokens p = [] \<or> is_atom (hd (cp_tokens p))"
    using or_loop_parses [OF l(2) and_only_or_of_ands [OF a(1)] a(3)] by auto
  have all: "parses_to ?p0 p (inorder e)" using parses_to_trans [OF a(2) e(3)] e(2) by simp
  then obtain used where u: "toks = used @ cp_tokens p" "list_all2 item_token (inorder e) used"
    and ids: "0 \<le> cp_next_id p" "concat (map item_ids (inorder e)) = [0..cp_next_id p - 1]"
    by (auto simp: parses_to_def)
  have "cp_tokens p = []"
    using alternating_no_atom_rest [of used "cp_tokens p" e] tokenize_alternating [OF t] u e(4) by auto
  moreover have len: "length (concat (map item_ids (inorder f))) = length (Windows f)" for f
    by (induction f) auto
  have "int (length (Windows e)) = cp_next_id p"
    using len [of e] ids by simp
  ultimately show ?thesis using that t u ids e(1) by simp
qed

end
