(* ===== verification/Transition.thy ===== *)
theory Transition
  imports Numeric_Condition
begin

text \<open>
  Package \<open>condition\<close>, files \<open>transition.go\<close>, \<open>signals.go\<close> and
  \<open>routing.go\<close>: the evaluator that turns one accepted observation and the previous
  state of an entity into the next state and the events it raises. SHA-256 and the text
  template engine are parameters (\<open>runtime_env\<close>); everything else is computed.
\<close>

section \<open>State\<close>

record sample =
  sm_at :: time
  sm_value :: float64
  sm_sequence :: int

record cstate =
  waiting_reason :: string
  baseline_sequence :: int
  incident_event :: string
  health_event :: string
  fresh_sequence :: int
  missing_at :: time
  entity :: string
  is_open :: bool
  matches :: int
  recoveries :: int
  last_at :: time
  last_fired :: time
  last_sequence :: int
  source_unhealthy :: bool
  samples :: "sample list"
  overflow_until :: time
  clock_window_until :: time
  evidence :: "int list"
  baseline :: string
  seen :: "(string \<times> time) list"

definition zero_state :: cstate where
  "zero_state = \<lparr>waiting_reason = '''', baseline_sequence = 0, incident_event = '''',
     health_event = '''', fresh_sequence = 0, missing_at = zero_time, entity = '''',
     is_open = False, matches = 0, recoveries = 0, last_at = zero_time, last_fired = zero_time,
     last_sequence = 0, source_unhealthy = False, samples = [], overflow_until = zero_time,
     clock_window_until = zero_time, evidence = [], baseline = '''', seen = []\<rparr>"

record transition =
  tr_state :: cstate
  tr_events :: "event list"
  tr_known :: bool
  tr_matched :: bool
  tr_reason :: string

record evaluator =
  ev_definition :: definition_rec
  ev_revision :: string
  ev_expression :: "cond_expr option"
  ev_max_window :: duration
  ev_interval :: duration
  ev_max_gap :: duration

text \<open>What a message template is executed on, and the library functions the evaluator
  calls: the hexadecimal SHA-256 digest, template parsing, and template execution as the
  sequence of writes it makes and whether it succeeded.\<close>

record template_context =
  tc_watch :: string
  tc_name :: string
  tc_type :: string
  tc_value :: "value"
  tc_fields :: fields

record runtime_env =
  env_sha256 :: "string \<Rightarrow> string"
  env_template_ok :: "string \<Rightarrow> bool"
  env_template_exec :: "string \<Rightarrow> template_context \<Rightarrow> string list \<times> bool"

abbreviation ev_condition :: "evaluator \<Rightarrow> condition" where
  "ev_condition ev \<equiv> s_condition (d_spec (ev_definition ev))"

abbreviation ev_policy :: "evaluator \<Rightarrow> policy" where
  "ev_policy ev \<equiv> s_policy (d_spec (ev_definition ev))"

abbreviation ev_limits :: "evaluator \<Rightarrow> limits" where
  "ev_limits ev \<equiv> s_limits (d_spec (ev_definition ev))"

section \<open>Numbers and comparisons\<close>

definition finite_number :: "float64 \<Rightarrow> float64 option" where
  "finite_number x = (if is_finite x then Some x else None)"

text \<open>\<open>None\<close>: not a finite number.\<close>

fun Number :: "value \<Rightarrow> float64 option" where
  "Number (VFloat x) = finite_number x"
| "Number (VInt i) = finite_number (float_of_int i)"
| "Number (VInt64 i) = finite_number (float_of_int i)"
| "Number (VNumber s) = (case parse_float s of Some x \<Rightarrow> finite_number x | None \<Rightarrow> None)"
| "Number _ = None"

definition operator_symbol :: "string \<Rightarrow> string" where
  "operator_symbol op =
     (if op = ''eq'' then ''=='' else if op = ''ne'' then ''!='' else if op = ''gt'' then ''>''
      else if op = ''gte'' then ''>='' else if op = ''lt'' then ''<'' else if op = ''lte'' then ''<=''
      else '''')"

text \<open>\<open>(known, matched)\<close>\<close>

definition Compare :: "value \<Rightarrow> string \<Rightarrow> value \<Rightarrow> bool \<times> bool" where
  "Compare actual op want =
     (case Number want of
        Some expected \<Rightarrow>
          (case Number actual of
             None \<Rightarrow> (False, False)
           | Some n \<Rightarrow>
               let operator = operator_symbol op
               in if operator = '''' then (False, False)
                  else (True, CompareNumber n operator expected))
      | None \<Rightarrow>
          if op \<noteq> ''eq'' \<and> op \<noteq> ''ne'' then (False, False)
          else if want \<noteq> VNil \<and> type_of actual \<noteq> type_of want then (False, False)
          else let equal = deep_equal actual want
               in (True, if op = ''ne'' then \<not> equal else equal))"

fun aggregate_step :: "string \<Rightarrow> float64 \<Rightarrow> float64 list \<Rightarrow> float64" where
  "aggregate_step f acc [] = acc"
| "aggregate_step f acc (v # vs) =
     (if f = ''avg'' \<or> f = ''sum'' then aggregate_step f (fadd acc v) vs
      else if f = ''min'' then aggregate_step f (fmin acc v) vs
      else if f = ''max'' then aggregate_step f (fmax acc v) vs
      else NaN)"

definition Aggregate :: "string \<Rightarrow> float64 list \<Rightarrow> float64" where
  "Aggregate f vs =
     (case vs of
        [] \<Rightarrow> NaN
      | v # rest \<Rightarrow>
          if f \<notin> {''count'', ''avg'', ''sum'', ''min'', ''max''} then NaN
          else if f = ''count'' then float_of_int (int (length vs))
          else let r = aggregate_step f v rest
               in if f = ''avg'' then fdiv r (float_of_int (int (length vs))) else r)"

section \<open>Construction\<close>

text \<open>The JSON copy that \<open>New\<close> keeps: numbers become \<open>float64\<close>, and a value
  that JSON cannot represent is an error.\<close>

definition copy_definition :: "definition_rec \<Rightarrow> definition_rec option" where
  "copy_definition d =
     (case (json_norm (c_value (s_condition (d_spec d))), json_norm_fields (s_match (d_spec d))) of
        (Some v, Some m) \<Rightarrow>
          if (case src_logs (s_source (d_spec d)) of
                Some l \<Rightarrow> is_finite (ls_min_coverage l) | None \<Rightarrow> True)
          then Some (d\<lparr>d_spec := (d_spec d)\<lparr>s_condition := (s_condition (d_spec d))\<lparr>c_value := v\<rparr>,
                 s_match := m\<rparr>\<rparr>)
          else None
      | _ \<Rightarrow> None)"

fun max_window_of :: "duration \<Rightarrow> window_leaf list \<Rightarrow> duration" where
  "max_window_of w [] = w"
| "max_window_of w (l # ls) = max_window_of (if w_window l > w then w_window l else w) ls"

definition New :: "runtime_env \<Rightarrow> definition_rec \<Rightarrow> string \<Rightarrow> evaluator result" where
  "New env def rv =
     (let c = s_condition (d_spec def); p = s_policy (d_spec def) in
      case copy_definition def of
        None \<Rightarrow> Inl (Err ''json: unsupported value'')
      | Some copied \<Rightarrow>
          if (c_operator c = ''changed'' \<or> c_operator c = ''new-event'') \<and>
             (c_value c \<noteq> VNil \<or> c_numeric c \<noteq> '''' \<or> c_missing_for c \<noteq> '''' \<or>
              p_trigger p \<noteq> ''level'' \<or> p_consecutive p \<noteq> 1)
          then Inl (Err ''change/event condition must be compiled before evaluation'')
          else if p_consecutive p < 1 \<or> p_recover_after p < 1 \<or>
                  l_max_samples (s_limits (d_spec def)) < 1
          then Inl (Err ''definition must be compiled before evaluation'')
          else
            bindE (if c_numeric c \<noteq> '''' then
                     bindE (ParseExpression (c_numeric c)) (\<lambda>x.
                       if list_ex w_run_bounded (Windows x) then Inl (Err ''run windows unsupported'')
                       else Inr (Some x, max_window_of 0 (Windows x)))
                   else Inr (None, 0))
              (\<lambda>(x, w).
                 if \<not> env_template_ok env (s_message (d_spec def)) then Inl (Err ''template: parse'')
                 else Inr \<lparr>ev_definition = copied, ev_revision = rv, ev_expression = x,
                   ev_max_window = w, ev_interval = duration_or_zero (p_interval p),
                   ev_max_gap = duration_or_zero (p_max_gap p)\<rparr>))"

section \<open>Events\<close>

text \<open>The variables the closures of \<open>Evaluate\<close> capture.\<close>

record eval_ctx =
  x_env :: runtime_env
  x_ev :: evaluator
  x_ob :: observation
  x_key :: string
  x_now :: time

text \<open>\<open>watch.Revision\<close> of the anonymous struct that identifies an event.\<close>

definition event_identity_json :: "string \<Rightarrow> string \<Rightarrow> string \<Rightarrow> string \<Rightarrow> int \<Rightarrow> string" where
  "event_identity_json w r k t n =
     ''{'' @ quoted ''Watch'' @ '':'' @ json_string w @ '','' @ quoted ''Revision'' @ '':'' @ json_string r @
     '','' @ quoted ''Entity'' @ '':'' @ json_string k @ '','' @ quoted ''Type'' @ '':'' @ json_string t @
     '','' @ quoted ''Sequence'' @ '':'' @ show_int n @ ''}''"

definition Revision :: "runtime_env \<Rightarrow> string \<Rightarrow> string" where
  "Revision env json = env_sha256 env json"

definition event_id :: "runtime_env \<Rightarrow> evaluator \<Rightarrow> string \<Rightarrow> string \<Rightarrow> int \<Rightarrow> string" where
  "event_id env ev key kind n =
     Revision env (event_identity_json (md_id (d_metadata (ev_definition ev))) (ev_revision ev) key kind n)"

text \<open>\<open>messageWriter.Write\<close>: a write that would pass 64 KiB is refused, which stops
  the execution.\<close>

definition message_limit :: nat where "message_limit = 65536"

definition messageWriter_Write :: "string \<Rightarrow> string \<Rightarrow> string option" where
  "messageWriter_Write buf p = (if length buf + length p > message_limit then None else Some (buf @ p))"

fun write_all :: "string \<Rightarrow> string list \<Rightarrow> string option" where
  "write_all buf [] = Some buf"
| "write_all buf (p # ps) =
     (case messageWriter_Write buf p of None \<Rightarrow> None | Some b \<Rightarrow> write_all b ps)"

definition render_message :: "eval_ctx \<Rightarrow> string \<Rightarrow> string \<Rightarrow> string result" where
  "render_message x kind reason =
     (let d = ev_definition (x_ev x); msg = s_message (d_spec d) in
      if msg \<noteq> '''' \<and> kind \<in> {''firing'', ''recovered'', ''changed'', ''new-event''} then
        (let ctx = \<lparr>tc_watch = md_id (d_metadata d), tc_name = md_name (d_metadata d), tc_type = kind,
               tc_value = field_value (o_fields (x_ob x)) (c_field (ev_condition (x_ev x))),
               tc_fields = o_fields (x_ob x)\<rparr>;
             (writes, ok) = env_template_exec (x_env x) msg ctx
         in case write_all [] writes of
              None \<Rightarrow> Inl (Err ''message template execution failed'')
            | Some out \<Rightarrow>
                if \<not> ok then Inl (Err ''message template execution failed'')
                else if length out > message_limit then Inl (Err ''rendered message exceeds limit'')
                else Inr out)
      else Inr reason)"

text \<open>The evidence of an event: distinct sequences, sorted.\<close>

definition add_sequence :: "int list \<Rightarrow> int \<Rightarrow> int list" where
  "add_sequence ev s = (if s \<in> set ev then ev else ev @ [s])"

definition event_evidence :: "evaluator \<Rightarrow> observation \<Rightarrow> cstate \<Rightarrow> string \<Rightarrow> int list" where
  "event_evidence ev ob st kind =
     sort (foldl add_sequence []
       ((if kind = ''firing'' \<or> kind = ''recovered'' then
           (if c_missing_for (ev_condition ev) \<noteq> '''' \<and> fresh_sequence st > 0
            then [fresh_sequence st] else []) @ map sm_sequence (samples st)
         else []) @ evidence st @ [o_sequence ob]))"

definition emit :: "eval_ctx \<Rightarrow> cstate \<Rightarrow> string \<Rightarrow> string \<Rightarrow> event result" where
  "emit x st kind reason =
     bindE (render_message x kind reason) (\<lambda>message.
       case json_norm_fields (o_fields (x_ob x)) of
         None \<Rightarrow> Inl (Err ''json: unsupported value'')
       | Some fs \<Rightarrow>
           Inr \<lparr>e_id = event_id (x_env x) (x_ev x) (x_key x) kind (o_sequence (x_ob x)),
             e_sequence = 0, e_watch_id = md_id (d_metadata (ev_definition (x_ev x))),
             e_revision = ev_revision (x_ev x), e_entity = x_key x, e_type = kind, e_at = x_now x,
             e_message = message, e_fields = fs,
             e_evidence = event_evidence (x_ev x) (x_ob x) st kind\<rparr>)"

section \<open>Branches of Evaluate\<close>

definition unknown :: "eval_ctx \<Rightarrow> cstate \<Rightarrow> event list \<Rightarrow> string \<Rightarrow> transition result" where
  "unknown x st evs reason =
     (let st1 = st\<lparr>matches := 0, recoveries := 0, evidence := []\<rparr>;
          done = (\<lambda>s es. \<lparr>tr_state = s\<lparr>last_sequence := o_sequence (x_ob x),
                     last_at := (if x_now x > last_at s then x_now x else last_at s)\<rparr>,
                   tr_events = es, tr_known = False, tr_matched = False, tr_reason = reason\<rparr>)
      in if source_unhealthy st1 then Inr (done st1 evs)
         else bindE (emit x st1 ''source_error'' reason) (\<lambda>e.
           Inr (done (st1\<lparr>source_unhealthy := True, health_event := e_id e\<rparr>) (evs @ [e]))))"

text \<open>The remembered identifiers that have not expired.\<close>

definition live_ids :: "time \<Rightarrow> (string \<times> time) list \<Rightarrow> (string \<times> time) list" where
  "live_ids now s = filter (\<lambda>(_, expiry). now < expiry) s"

definition clock_state :: "evaluator \<Rightarrow> time \<Rightarrow> cstate \<Rightarrow> cstate" where
  "clock_state ev now st =
     (let c = ev_condition ev;
          st1 = st\<lparr>samples := [], overflow_until := zero_time,
            clock_window_until := (if ev_max_window ev > 0 then now + ev_max_window ev
                                   else clock_window_until st),
            last_fired := (if is_zero (last_fired st) then last_fired st else now)\<rparr>;
          st2 = (if c_missing_for c \<noteq> '''' then
                   st1\<lparr>missing_at := now + duration_or_zero (c_missing_for c), fresh_sequence := 0\<rparr>
                 else if c_operator c = ''new-event'' then
                   st1\<lparr>seen := map (\<lambda>(i, _). (i, now + duration_or_zero (c_dedup_for c)))
                     (live_ids (last_at st1) (seen st1))\<rparr>
                 else st1)
      in st2\<lparr>last_at := now\<rparr>)"

section \<open>The predicate\<close>

text \<open>The encoding a \<open>changed\<close> condition compares, \<open>None\<close> where the field has the
  wrong type; and the identifier of a \<open>new-event\<close> condition.\<close>

definition signal_value :: "value \<Rightarrow> string option" where
  "signal_value v =
     (case Number v of
        Some x \<Rightarrow> json_scalar (VFloat x)
      | None \<Rightarrow>
          (case v of
             VNil \<Rightarrow> json_scalar v
           | VBool _ \<Rightarrow> json_scalar v
           | VStr s \<Rightarrow> if valid_utf8 s then json_scalar v else None
           | _ \<Rightarrow> None))"

definition signal_changed :: "evaluator \<Rightarrow> cstate \<Rightarrow> value \<Rightarrow> int \<Rightarrow> cstate \<times> bool \<times> bool \<times> string" where
  "signal_changed ev st v n =
     (case signal_value v of
        None \<Rightarrow> (st, False, False, ''wrong_field_type'')
      | Some enc \<Rightarrow>
          let changed = (baseline st \<noteq> '''' \<and> baseline st \<noteq> enc)
          in (st\<lparr>evidence := (if changed \<and> baseline_sequence st > 0 then [baseline_sequence st] else []),
                baseline := enc, baseline_sequence := n\<rparr>, True, changed, ''''))"

fun event_identifier :: "value \<Rightarrow> string option" where
  "event_identifier (VStr i) =
     (if i = '''' \<or> length i > 256 \<or> \<not> valid_utf8 i then None else Some i)"
| "event_identifier _ = None"

definition signal_new_event :: "evaluator \<Rightarrow> cstate \<Rightarrow> value \<Rightarrow> time \<Rightarrow> cstate \<times> bool \<times> bool \<times> string" where
  "signal_new_event ev st v now =
     (case event_identifier v of
        None \<Rightarrow> (st, False, False, ''event_id_must_be_a_nonempty_string_up_to_256_bytes'')
      | Some i \<Rightarrow>
          (let live = live_ids now (seen st); st1 = st\<lparr>seen := live\<rparr>
           in if (case map_of live i of Some expiry \<Rightarrow> now < expiry | None \<Rightarrow> False)
              then (st1, True, False, '''')
              else if int (length live) \<ge> l_max_samples (ev_limits ev)
              then (st1, False, False, ''dedup_budget'')
              else (st1\<lparr>seen := alist_put i (now + duration_or_zero (c_dedup_for (ev_condition ev))) live\<rparr>,
                    True, True, '''')))"

definition signal :: "evaluator \<Rightarrow> cstate \<Rightarrow> value \<Rightarrow> int \<Rightarrow> time \<Rightarrow> cstate \<times> bool \<times> bool \<times> string" where
  "signal ev st v n now =
     (if c_operator (ev_condition ev) = ''changed'' then signal_changed ev st v n
      else signal_new_event ev st v now)"

text \<open>The missing-data predicate.\<close>

definition missing_predicate :: "evaluator \<Rightarrow> cstate \<Rightarrow> observation \<Rightarrow> time \<Rightarrow> cstate \<times> bool \<times> bool \<times> string" where
  "missing_predicate ev st ob now =
     (if o_health ob = ''timer'' then
        (let st1 = (if is_zero (missing_at st)
                    then (case o_deadline ob of Some d \<Rightarrow> st\<lparr>missing_at := d\<rparr> | None \<Rightarrow> st) else st)
         in if is_zero (missing_at st1) then (st1, False, False, ''missing_deadline'')
            else if (case o_deadline ob of Some d \<Rightarrow> missing_at st1 \<noteq> d | None \<Rightarrow> False)
            then (st1, False, False, ''stale_deadline'')
            else (st1, True, \<not> now < missing_at st1, ''''))
      else (st\<lparr>missing_at := now + duration_or_zero (c_missing_for (ev_condition ev)),
               fresh_sequence := o_sequence ob\<rparr>, True, False, ''''))"

text \<open>Aggregates of the windows of an expression, or the reason there is none.\<close>

definition window_values :: "time \<Rightarrow> duration \<Rightarrow> sample list \<Rightarrow> float64 list" where
  "window_values now w ss = map sm_value (filter (\<lambda>s. sm_at s > now - w \<and> \<not> sm_at s > now) ss)"

fun window_context :: "time \<Rightarrow> sample list \<Rightarrow> context_rec \<Rightarrow> window_leaf list \<Rightarrow> string + context_rec" where
  "window_context now ss ctx [] = Inr ctx"
| "window_context now ss ctx (l # ls) =
     (let vs = window_values now (w_window l) ss
      in if vs = [] then Inl ''empty_window''
         else let a = Aggregate (w_func l) vs
              in if \<not> is_finite a then Inl ''numeric_overflow''
                 else window_context now ss
                   (ctx\<lparr>cx_aggregates := (cx_aggregates ctx)(w_id l \<mapsto> a),
                        cx_available := (cx_available ctx)(w_id l := True)\<rparr>) ls)"

definition numeric_predicate ::
  "evaluator \<Rightarrow> cond_expr \<Rightarrow> cstate \<Rightarrow> float64 \<Rightarrow> int \<Rightarrow> time \<Rightarrow> cstate \<times> bool \<times> bool \<times> string" where
  "numeric_predicate ev expr st number n now =
     (let w = ev_max_window ev; cutoff = now - w;
          st1 = st\<lparr>samples := filter (\<lambda>s. sm_at s > cutoff \<and> \<not> sm_at s > now) (samples st)\<rparr> in
      if w > 0 \<and> int (length (samples st1)) \<ge> l_max_samples (ev_limits ev) then
        (let until = now + w
         in (st1\<lparr>overflow_until := (if until > overflow_until st1 then until else overflow_until st1)\<rparr>,
             False, False, ''window_sample_budget''))
      else
        let st2 = (if w > 0 then st1\<lparr>samples := samples st1 @
                     [\<lparr>sm_at = now, sm_value = number, sm_sequence = n\<rparr>]\<rparr> else st1)
        in if now < clock_window_until st2 then (st2, False, False, ''clock_window_incomplete'')
           else let st3 = st2\<lparr>clock_window_until := zero_time\<rparr>
                in if now < overflow_until st3 then (st3, False, False, ''window_sample_budget'')
                   else let st4 = st3\<lparr>overflow_until := zero_time\<rparr>
                        in case window_context now (samples st4)
                              \<lparr>cx_value = number, cx_aggregates = Map.empty, cx_available = (\<lambda>_. False)\<rparr>
                              (Windows expr) of
                             Inl reason \<Rightarrow> (st4, False, False, reason)
                           | Inr ctx \<Rightarrow> (st4, True, Eval expr ctx, ''''))"

definition predicate :: "evaluator \<Rightarrow> cstate \<Rightarrow> observation \<Rightarrow> time \<Rightarrow> cstate \<times> bool \<times> bool \<times> string" where
  "predicate ev st ob now =
     (let c = ev_condition ev in
      if c_missing_for c \<noteq> '''' then missing_predicate ev st ob now
      else case map_of (o_fields ob) (c_field c) of
        None \<Rightarrow> (st, False, False, ''missing_field'')
      | Some v \<Rightarrow>
          if c_operator c = ''changed'' \<or> c_operator c = ''new-event''
          then signal ev st v (o_sequence ob) now
          else case ev_expression ev of
            None \<Rightarrow> (let (known, matched) = Compare v (c_operator c) (c_value c)
                      in (st, known, matched, ''wrong_field_type''))
          | Some expr \<Rightarrow>
              (case Number v of
                 None \<Rightarrow> (st, False, False, ''wrong_field_type'')
               | Some number \<Rightarrow> numeric_predicate ev expr st number (o_sequence ob) now))"

section \<open>Evaluate\<close>

definition result_of :: "cstate \<Rightarrow> event list \<Rightarrow> bool \<Rightarrow> bool \<Rightarrow> string \<Rightarrow> transition" where
  "result_of st evs known matched reason =
     \<lparr>tr_state = st, tr_events = evs, tr_known = known, tr_matched = matched, tr_reason = reason\<rparr>"

definition advance :: "eval_ctx \<Rightarrow> cstate \<Rightarrow> cstate" where
  "advance x st = st\<lparr>last_at := x_now x, last_sequence := o_sequence (x_ob x)\<rparr>"

text \<open>A change or event condition that matched fires unless it is cooling down.\<close>

definition apply_signal :: "eval_ctx \<Rightarrow> cstate \<Rightarrow> event list \<Rightarrow> bool \<Rightarrow> transition result" where
  "apply_signal x st evs matched =
     (let operator = c_operator (ev_condition (x_ev x));
          finish = (\<lambda>s es. Inr (result_of (advance x (s\<lparr>evidence := []\<rparr>)) es True matched ''''))
      in if matched \<and> (is_zero (last_fired st) \<or> \<not> x_now x < last_fired st + ev_interval (x_ev x))
         then bindE (emit x st operator (''condition_'' @ operator)) (\<lambda>e.
           finish (st\<lparr>last_fired := x_now x\<rparr>) (evs @ [e]))
         else finish st evs)"

text \<open>A known match: count it, fire when the count is reached and the policy allows.\<close>

definition eligible :: "eval_ctx \<Rightarrow> cstate \<Rightarrow> bool" where
  "eligible x st =
     (if p_trigger (ev_policy (x_ev x)) = ''level''
      then is_zero (last_fired st) \<or> \<not> x_now x < last_fired st + ev_interval (x_ev x)
      else \<not> is_open st)"

definition apply_match :: "eval_ctx \<Rightarrow> cstate \<Rightarrow> event list \<Rightarrow> transition result" where
  "apply_match x st evs =
     (let need = p_consecutive (ev_policy (x_ev x));
          st1 = st\<lparr>recoveries := 0\<rparr>;
          st2 = (if matches st1 < need
                 then st1\<lparr>matches := matches st1 + 1, evidence := evidence st1 @ [o_sequence (x_ob x)]\<rparr>
                 else st1)
      in if matches st2 \<ge> need then
           if eligible x st2 then
             bindE (emit x st2 ''firing'' ''condition_matched'') (\<lambda>e.
               Inr (result_of (advance x (st2\<lparr>last_fired := x_now x, incident_event := e_id e,
                 is_open := True\<rparr>)) (evs @ [e]) True True ''''))
           else Inr (result_of (advance x (st2\<lparr>is_open := True\<rparr>)) evs True True '''')
         else Inr (result_of (advance x st2) evs True True ''''))"

text \<open>A known mismatch: while an incident is open, count towards recovery.\<close>

definition apply_mismatch :: "eval_ctx \<Rightarrow> cstate \<Rightarrow> event list \<Rightarrow> transition result" where
  "apply_mismatch x st evs =
     (let st1 = st\<lparr>matches := 0\<rparr> in
      if is_open st1 then
        (let st2 = st1\<lparr>evidence := (if recoveries st1 = 0 then [] else evidence st1) @ [o_sequence (x_ob x)],
                       recoveries := recoveries st1 + 1\<rparr>
         in if recoveries st2 \<ge> p_recover_after (ev_policy (x_ev x)) then
              bindE (emit x st2 ''recovered'' ''condition_recovered'') (\<lambda>e.
                Inr (result_of (advance x (st2\<lparr>is_open := False, incident_event := '''',
                  recoveries := 0, evidence := []\<rparr>)) (evs @ [e]) True False ''''))
            else Inr (result_of (advance x st2) evs True False ''''))
      else Inr (result_of (advance x (st1\<lparr>recoveries := 0, evidence := []\<rparr>)) evs True False ''''))"

text \<open>After a decided predicate: the source is healthy again, then the policy applies.\<close>

definition apply_policy :: "eval_ctx \<Rightarrow> cstate \<Rightarrow> event list \<Rightarrow> bool \<Rightarrow> transition result" where
  "apply_policy x st evs matched =
     (let operator = c_operator (ev_condition (x_ev x)) in
      if operator = ''changed'' \<or> operator = ''new-event'' then apply_signal x st evs matched
      else if matched then apply_match x st evs
      else apply_mismatch x st evs)"

definition recover_source :: "eval_ctx \<Rightarrow> cstate \<Rightarrow> event list \<Rightarrow> (cstate \<times> event list) result" where
  "recover_source x st evs =
     bindE (emit x st ''source_recovered'' ''source_recovered'') (\<lambda>e.
       Inr (st\<lparr>source_unhealthy := False, health_event := ''''\<rparr>, evs @ [e]))"

definition evaluate_known :: "eval_ctx \<Rightarrow> cstate \<Rightarrow> event list \<Rightarrow> transition result" where
  "evaluate_known x st evs =
     (let (st1, known, matched, reason) = predicate (x_ev x) st (x_ob x) (x_now x) in
      if \<not> known then unknown x st1 evs reason
      else bindE (if source_unhealthy st1 \<and> o_health (x_ob x) \<noteq> ''timer''
                  then recover_source x st1 evs else Inr (st1, evs))
             (\<lambda>(st2, evs2). apply_policy x st2 evs2 matched))"

definition field_matches :: "fields \<Rightarrow> string \<times> value \<Rightarrow> bool" where
  "field_matches fs kw =
     (case map_of fs (fst kw) of
        None \<Rightarrow> False
      | Some actual \<Rightarrow> (let (known, matched) = Compare actual ''eq'' (snd kw) in known \<and> matched))"

definition filtered_out :: "eval_ctx \<Rightarrow> bool" where
  "filtered_out x \<longleftrightarrow>
     o_health (x_ob x) \<noteq> ''timer'' \<and> o_health (x_ob x) \<noteq> ''unchanged'' \<and>
     \<not> list_all (field_matches (o_fields (x_ob x))) (s_match (d_spec (ev_definition (x_ev x))))"

definition reset_counts :: "cstate \<Rightarrow> cstate" where
  "reset_counts st = st\<lparr>matches := 0, recoveries := 0, evidence := []\<rparr>"

definition evaluate_waiting :: "eval_ctx \<Rightarrow> cstate \<Rightarrow> event list \<Rightarrow> transition result" where
  "evaluate_waiting x st evs =
     (let w = DetailOrDefault (x_ob x);
          st1 = advance x ((reset_counts st)\<lparr>waiting_reason := w\<rparr>)
      in bindE (if source_unhealthy st1 \<and> o_detail (x_ob x) \<noteq> ''collection_ended''
                then recover_source x st1 evs else Inr (st1, evs))
           (\<lambda>(st2, evs2). Inr (result_of st2 evs2 False False w)))"

definition evaluate_observed :: "eval_ctx \<Rightarrow> cstate \<Rightarrow> event list \<Rightarrow> transition result" where
  "evaluate_observed x st evs =
     (let h = o_health (x_ob x); missing = (c_missing_for (ev_condition (x_ev x)) \<noteq> '''') in
      if h = ''unchanged'' \<and> \<not> missing then Inr (result_of (advance x st) evs False False ''unchanged'')
      else if h = ''waiting'' \<and> \<not> missing then evaluate_waiting x st evs
      else if h \<noteq> ''ok'' \<and> \<not> (missing \<and> (h = ''timer'' \<or> h = ''unchanged''))
      then unknown x st evs (DetailOrDefault (x_ob x))
      else if filtered_out x then Inr (result_of (advance x st) evs False False ''filtered'')
      else evaluate_known x st evs)"

definition evaluate_keyed :: "eval_ctx \<Rightarrow> cstate \<Rightarrow> transition result" where
  "evaluate_keyed x st =
     (let h = o_health (x_ob x); now = x_now x in
      if h = ''clock'' then unknown x (clock_state (x_ev x) now st) [] ''clock_discontinuity''
      else if \<not> is_zero (last_at st) \<and> now < last_at st then unknown x st [] ''clock_moved_backwards''
      else if h = ''gap'' then
        (let st1 = advance x (reset_counts st)
         in bindE (emit x st1 ''gap'' ''sampling_gap'') (\<lambda>e.
              Inr (result_of st1 [e] False False ''sampling_gap'')))
      else bindE (if c_missing_for (ev_condition (x_ev x)) = '''' \<and> \<not> is_zero (last_at st) \<and>
                     ev_max_gap (x_ev x) > 0 \<and> time_sub now (last_at st) > ev_max_gap (x_ev x)
                  then bindE (emit x (reset_counts st) ''gap'' ''sampling_gap'') (\<lambda>e.
                    Inr (reset_counts st, [e]))
                  else Inr (st, []))
             (\<lambda>(st1, evs). evaluate_observed x st1 evs))"

text \<open>The key an observation is evaluated under, or why it is refused.\<close>

definition evaluation_key :: "evaluator \<Rightarrow> cstate \<Rightarrow> observation \<Rightarrow> string result" where
  "evaluation_key ev st ob =
     bindE (EntityKey (s_group_by (d_spec (ev_definition ev))) (o_fields ob)) (\<lambda>k.
       let key = (if o_health ob = ''timer'' \<and> o_entity ob \<noteq> '''' then o_entity ob else k)
       in if entity st \<noteq> '''' then
            if o_health ob = ''ok'' \<and> entity st \<noteq> key
            then Inl (Err ''observation belongs to another entity'')
            else Inr (entity st)
          else Inr key)"

definition Evaluate :: "runtime_env \<Rightarrow> evaluator \<Rightarrow> cstate \<Rightarrow> observation \<Rightarrow> time \<Rightarrow> transition result" where
  "Evaluate env ev previous ob now =
     (let st = previous\<lparr>waiting_reason := ''''\<rparr> in
      if is_zero now \<or> o_sequence ob < 1 \<or> now \<noteq> o_accepted_at ob
      then Inl (Err ''accepted time and positive sequence are required'')
      else if o_sequence ob \<le> last_sequence st
      then Inl (Err ''observation sequence must increase'')
      else bindE (evaluation_key ev st ob) (\<lambda>key.
        evaluate_keyed \<lparr>x_env = env, x_ev = ev, x_ob = ob, x_key = key, x_now = now\<rparr>
          (st\<lparr>entity := key\<rparr>)))"

section \<open>Routing\<close>

definition SourceEntity :: string where "SourceEntity = ''@source''"

text \<open>The entities an observation reaches and whether it clears the source placeholder.
  The keys of the existing entities are sorted before they are returned.\<close>

definition Route :: "evaluator \<Rightarrow> string list \<Rightarrow> observation \<Rightarrow> (string list \<times> bool) result" where
  "Route ev existing ob =
     (let h = o_health ob; groupBy = s_group_by (d_spec (ev_definition ev)) in
      if h = ''timer'' \<and> o_entity ob \<noteq> '''' then Inr ([o_entity ob], False)
      else if h \<noteq> ''ok'' \<and> existing \<noteq> [] then Inr (sort existing, False)
      else if h \<noteq> ''ok'' \<and> groupBy \<noteq> [] then Inr ([SourceEntity], False)
      else if h = ''ok'' \<and> \<not> list_all (field_matches (o_fields ob)) (s_match (d_spec (ev_definition ev)))
      then Inr ([], False)
      else bindE (EntityKey groupBy (o_fields ob)) (\<lambda>key.
        Inr ([key], h = ''ok'' \<and> SourceEntity \<in> set existing)))"

definition SourceRecovered :: "runtime_env \<Rightarrow> evaluator \<Rightarrow> observation \<Rightarrow> event" where
  "SourceRecovered env ev ob =
     \<lparr>e_id = event_id env ev SourceEntity ''source_recovered'' (o_sequence ob), e_sequence = 0,
      e_watch_id = md_id (d_metadata (ev_definition ev)), e_revision = ev_revision ev,
      e_entity = SourceEntity, e_type = ''source_recovered'', e_at = o_accepted_at ob,
      e_message = ''source_recovered'', e_fields = [], e_evidence = [o_sequence ob]\<rparr>"

end
