(* ===== verification/Example_Watch.thy ===== *)
theory Example_Watch
  imports Transition
begin

text \<open>
  Concrete watches and observations in the shape of \<open>examples/watches\<close>: an HTTP status
  check with a transition policy, a level-triggered variant and a provider event stream. The
  environment instantiates the library parameters: the digest is the identity (injective, as
  a digest is assumed to be) and templates write nothing.
\<close>

definition ex_env :: runtime_env where
  "ex_env = \<lparr>env_sha256 = (\<lambda>s. s), env_template_ok = (\<lambda>_. True),
     env_template_exec = (\<lambda>_ _. ([], True))\<rparr>"

definition ex_source :: source where
  "ex_source = \<lparr>src_logs = None, src_observed_at_field = '''', src_type = ''http'',
     src_url = ''https://example.com/health'', src_url_ref = None, src_every = ''30s'',
     src_timeout = ''10s'', src_headers = [], src_fields = [], src_items_path = '''',
     src_jq = '''', src_argv = [], src_directory = '''', src_env = []\<rparr>"

definition ex_condition :: condition where
  "ex_condition = \<lparr>c_field = ''http.status'', c_operator = ''gte'', c_value = VFloat (float_of_int 500),
     c_numeric = '''', c_missing_for = '''', c_dedup_for = ''''\<rparr>"

definition ex_policy :: policy where
  "ex_policy = \<lparr>p_trigger = ''transition'', p_consecutive = 2, p_recover_after = 2,
     p_on_unknown = ''hold-incident'', p_interval = '''', p_max_gap = ''''\<rparr>"

definition ex_limits :: limits where
  "ex_limits = \<lparr>l_max_entities = 100, l_max_samples = 1000, l_max_bytes = 1048576,
     l_max_outputs = 100, l_idle_ttl = ''24h''\<rparr>"

definition ex_spec :: spec where
  "ex_spec = \<lparr>s_source = ex_source, s_condition = ex_condition, s_policy = ex_policy,
     s_group_by = [], s_match = [], s_message = '''', s_destinations = [], s_limits = ex_limits\<rparr>"

definition ex_definition :: definition_rec where
  "ex_definition = \<lparr>d_api_version = APIVersion, d_kind = ''Watch'',
     d_metadata = \<lparr>md_id = ''api-health'', md_name = ''API health''\<rparr>, d_spec = ex_spec\<rparr>"

definition ex_evaluator :: evaluator where
  "ex_evaluator = \<lparr>ev_definition = ex_definition, ev_revision = ''r1'', ev_expression = None,
     ev_max_window = 0, ev_interval = 0, ev_max_gap = 0\<rparr>"

definition ex_level :: evaluator where
  "ex_level = ex_evaluator\<lparr>ev_definition := ex_definition\<lparr>d_spec := ex_spec\<lparr>s_policy :=
     ex_policy\<lparr>p_trigger := ''level'', p_consecutive := 1, p_interval := ''1m0s''\<rparr>\<rparr>\<rparr>,
     ev_interval := 60 * second\<rparr>"

definition ex_events :: evaluator where
  "ex_events = ex_evaluator\<lparr>ev_definition := ex_definition\<lparr>d_spec := ex_spec\<lparr>
     s_condition := ex_condition\<lparr>c_field := ''id'', c_operator := ''new-event'', c_value := VNil,
       c_dedup_for := ''1h0m0s''\<rparr>,
     s_policy := ex_policy\<lparr>p_trigger := ''level'', p_consecutive := 1\<rparr>\<rparr>\<rparr>\<rparr>"

definition ex_observation :: "int \<Rightarrow> time \<Rightarrow> string \<Rightarrow> fields \<Rightarrow> observation" where
  "ex_observation n accepted h fs = \<lparr>o_entity = '''', o_deadline = None, o_sequence = n, o_input_id = '''',
     o_accepted_at = accepted, o_observed_at = None, o_fields = fs, o_health = h, o_detail = ''''\<rparr>"

definition ex_status :: "int \<Rightarrow> int \<Rightarrow> observation" where
  "ex_status n code =
     ex_observation n (n * 30 * second) ''ok'' [(''http.status'', VFloat (float_of_int code))]"

definition ex_failure :: "int \<Rightarrow> observation" where
  "ex_failure n = ex_observation n (n * 30 * second) ''error'' []"

definition ex_event :: "int \<Rightarrow> string \<Rightarrow> observation" where
  "ex_event n i = ex_observation n (n * 30 * second) ''ok'' [(''id'', VStr i)]"

text \<open>A summary of an evaluation: known, matched, and the kinds of its events.\<close>

fun outcome :: "transition result \<Rightarrow> (bool \<times> bool \<times> string list) option" where
  "outcome (Inl _) = None"
| "outcome (Inr t) = Some (tr_known t, tr_matched t, map e_type (tr_events t))"

lemma outcome_obtain:
  assumes "outcome r = Some (k, m, ks)"
  obtains t where "r = Inr t" "tr_known t = k" "tr_matched t = m" "map e_type (tr_events t) = ks"
  using assms by (cases r) auto

end
