(* ===== verification/Step_Machine.thy ===== *)
theory Step_Machine
  imports Main
begin

text \<open>
  Runs of a deterministic step function with outputs, and the contracts the components
  state about their steps: an invariant, two kinds of output that alternate with a level of
  the state, outputs that keep a minimum distance in time, and a quantity that only grows.
  Each contract is a locale whose lemmas lift it from one step to every run; the components
  interpret it on their own step functions.
\<close>

fun run :: "('s \<Rightarrow> 'i \<Rightarrow> 's \<times> 'o list) \<Rightarrow> 's \<Rightarrow> 'i list \<Rightarrow> 's \<times> 'o list" where
  "run step s [] = (s, [])"
| "run step s (i # is) =
     (let (s1, out1) = step s i; (s2, out2) = run step s1 is in (s2, out1 @ out2))"

lemma run_Cons:
  "run step s (i # is) =
     (fst (run step (fst (step s i)) is), snd (step s i) @ snd (run step (fst (step s i)) is))"
  by (simp add: split_def Let_def)

declare run.simps(2) [simp del]

lemma run_append:
  "run step s (xs @ ys) =
     (fst (run step (fst (run step s xs)) ys), snd (run step s xs) @ snd (run step (fst (run step s xs)) ys))"
  by (induction xs arbitrary: s) (simp_all add: run_Cons)

section \<open>Invariants\<close>

text \<open>\<open>ok\<close> restricts the inputs under which the invariant is kept.\<close>

locale step_invariant =
  fixes step :: "'s \<Rightarrow> 'i \<Rightarrow> 's \<times> 'o list"
    and ok :: "'i \<Rightarrow> bool"
    and inv :: "'s \<Rightarrow> bool"
  assumes inv_step: "inv s \<Longrightarrow> ok i \<Longrightarrow> inv (fst (step s i))"
begin

lemma run_inv: "inv s \<Longrightarrow> list_all ok is \<Longrightarrow> inv (fst (run step s is))"
  by (induction "is" arbitrary: s) (simp_all add: run_Cons inv_step)

end

text \<open>An invariant that also bounds the outputs, and a quantity that never decreases.\<close>

locale step_safe = step_invariant +
  fixes good :: "'c \<Rightarrow> bool"
    and amount :: "'a \<Rightarrow> int"
  assumes out_good: "inv s \<Longrightarrow> ok i \<Longrightarrow> list_all good (snd (step s i))"
    and amount_mono: "inv s \<Longrightarrow> ok i \<Longrightarrow> amount s \<le> amount (fst (step s i))"
begin

lemma run_safe:
  "inv s \<Longrightarrow> list_all ok is \<Longrightarrow>
   list_all good (snd (run step s is)) \<and> amount s \<le> amount (fst (run step s is))"
proof (induction "is" arbitrary: s)
  case (Cons i rest)
  then have "inv (fst (step s i))" "list_all ok rest" "ok i" by (simp_all add: inv_step)
  with Cons.IH [of "fst (step s i)"] out_good [OF Cons.prems(1)] amount_mono [OF Cons.prems(1)]
  show ?case by (fastforce simp: run_Cons)
qed simp

end

section \<open>Alternating outputs\<close>

fun alternates :: "bool \<Rightarrow> bool list \<Rightarrow> bool" where
  "alternates b [] = True"
| "alternates b (x # xs) = (x \<noteq> b \<and> alternates x xs)"

lemma alternates_append:
  "alternates b (xs @ ys) \<longleftrightarrow> alternates b xs \<and> alternates (last (b # xs)) ys"
  by (induction xs arbitrary: b) auto

locale alternation =
  fixes step :: "'s \<Rightarrow> 'i \<Rightarrow> 's \<times> 'o list"
    and level :: "'s \<Rightarrow> bool"
    and up :: "'o \<Rightarrow> bool"
    and down :: "'o \<Rightarrow> bool"
  assumes up_down: "\<not> (up e \<and> down e)"
    and step_marks: "map up (filter (\<lambda>e. up e \<or> down e) (snd (step s i))) =
      (if level (fst (step s i)) = level s then [] else [level (fst (step s i))])"
begin

definition marks :: "'o list \<Rightarrow> bool list" where
  "marks es = map up (filter (\<lambda>e. up e \<or> down e) es)"

lemma marks_append: "marks (xs @ ys) = marks xs @ marks ys"
  by (simp add: marks_def)

lemma run_marks:
  "alternates (level s) (marks (snd (run step s is))) \<and>
   level (fst (run step s is)) = last (level s # marks (snd (run step s is)))"
proof (induction "is" arbitrary: s)
  case Nil
  then show ?case by (simp add: marks_def)
next
  case (Cons i rest)
  from step_marks [of s i] Cons.IH [of "fst (step s i)"] show ?case
    by (auto simp: run_Cons marks_append marks_def split: if_splits)
qed

lemma run_alternates:
  "alternates (level s) (map up (filter (\<lambda>e. up e \<or> down e) (snd (run step s is))))"
  using run_marks [of s "is"] by (simp add: marks_def)

lemma run_level:
  "level (fst (run step s is)) =
     last (level s # map up (filter (\<lambda>e. up e \<or> down e) (snd (run step s is))))"
  using run_marks [of s "is"] by (simp add: marks_def)

end

section \<open>Outputs at a minimum distance\<close>

locale throttle =
  fixes step :: "'s \<Rightarrow> 'i \<Rightarrow> 's \<times> 'o list"
    and ok :: "'i \<Rightarrow> bool"
    and mark :: "'s \<Rightarrow> int option"
    and fire :: "'o \<Rightarrow> bool"
    and at :: "'o \<Rightarrow> int"
    and gap :: int
  assumes step_fire: "ok i \<Longrightarrow>
    (filter fire (snd (step s i)) = [] \<and> mark (fst (step s i)) = mark s) \<or>
    (\<exists>e. filter fire (snd (step s i)) = [e] \<and> mark (fst (step s i)) = Some (at e) \<and>
       (case mark s of None \<Rightarrow> True | Some t \<Rightarrow> t + gap \<le> at e))"
begin

lemma run_spaced:
  assumes "list_all ok is"
  shows "successively (\<lambda>t u. t + gap \<le> u)
    ((case mark s of None \<Rightarrow> [] | Some t \<Rightarrow> [t]) @ map at (filter fire (snd (run step s is))))"
  using assms
proof (induction "is" arbitrary: s)
  case Nil
  then show ?case by (simp split: option.splits)
next
  case (Cons i rest)
  let ?s = "fst (step s i)"
  from Cons have IH: "successively (\<lambda>t u. t + gap \<le> u)
      ((case mark ?s of None \<Rightarrow> [] | Some t \<Rightarrow> [t]) @ map at (filter fire (snd (run step ?s rest))))"
    by simp
  from Cons.prems have "ok i" by simp
  from step_fire [OF this, of s] show ?case
  proof
    assume "filter fire (snd (step s i)) = [] \<and> mark ?s = mark s"
    with IH show ?thesis by (simp add: run_Cons)
  next
    assume "\<exists>e. filter fire (snd (step s i)) = [e] \<and> mark ?s = Some (at e) \<and>
       (case mark s of None \<Rightarrow> True | Some t \<Rightarrow> t + gap \<le> at e)"
    then obtain e where e: "filter fire (snd (step s i)) = [e]" "mark ?s = Some (at e)"
      and d: "case mark s of None \<Rightarrow> True | Some t \<Rightarrow> t + gap \<le> at e" by blast
    with IH show ?thesis by (simp add: run_Cons split: option.splits)
  qed
qed

end

section \<open>A counter that grows, and identities taken from it\<close>

text \<open>Every output of a step carries a key that is new: keys of one step are distinct, and
  above everything the state has seen.\<close>

locale fresh_keys =
  fixes step :: "'s \<Rightarrow> 'i \<Rightarrow> 's \<times> 'o list"
    and level :: "'s \<Rightarrow> int"
    and key :: "'o \<Rightarrow> int \<times> 'k"
  assumes level_mono: "level s \<le> level (fst (step s i))"
    and step_distinct: "distinct (map key (snd (step s i)))"
    and step_fresh: "e \<in> set (snd (step s i)) \<Longrightarrow>
      level s < fst (key e) \<and> fst (key e) \<le> level (fst (step s i))"
begin

lemma run_fresh: "e \<in> set (snd (run step s is)) \<Longrightarrow> level s < fst (key e)"
proof (induction "is" arbitrary: s)
  case (Cons i rest)
  with step_fresh [of e s i] level_mono [of s i] show ?case by (fastforce simp: run_Cons)
qed simp

lemma run_distinct: "distinct (map key (snd (run step s is)))"
proof (induction "is" arbitrary: s)
  case (Cons i rest)
  have "key e \<noteq> key e'" if "e \<in> set (snd (step s i))" "e' \<in> set (snd (run step (fst (step s i)) rest))"
    for e e'
    using step_fresh [OF that(1)] run_fresh [OF that(2)] by auto
  then have "key ` set (snd (step s i)) \<inter> key ` set (snd (run step (fst (step s i)) rest)) = {}"
    by blast
  with Cons.IH [of "fst (step s i)"] step_distinct [of s i] show ?case by (simp add: run_Cons)
qed simp

end

end
