(* ===== verification/Transition_Laws.thy ===== *)
theory Transition_Laws
  imports Example_Watch Step_Machine
begin

text \<open>
  Laws of the evaluator of package \<open>condition\<close>: what one evaluation may do (elimination
  rules over the branches of \<open>Evaluate\<close>), and what follows for every sequence of observations.
\<close>

section \<open>Elimination rules\<close>

lemma emit_fields:
  assumes "emit x st kind reason = Inr e"
  shows "e_type e = kind" "e_at e = x_now x" "e_entity e = x_key x"
    "e_evidence e = event_evidence (x_ev x) (x_ob x) st kind"
    "e_id e = event_id (x_env x) (x_ev x) (x_key x) kind (o_sequence (x_ob x))"
  using assms by (auto simp: emit_def split: option.splits)

text \<open>What a branch may put in front: the sampling gap and the source recovery.\<close>

definition gap_prefix :: "eval_ctx \<Rightarrow> cstate \<Rightarrow> cstate \<Rightarrow> event list \<Rightarrow> bool" where
  "gap_prefix x st st1 evs \<longleftrightarrow>
     (st1 = st \<and> evs = []) \<or>
     (st1 = reset_counts st \<and> (\<exists>e. evs = [e] \<and> emit x st1 ''gap'' ''sampling_gap'' = Inr e))"

definition recovery_prefix :: "eval_ctx \<Rightarrow> cstate \<Rightarrow> event list \<Rightarrow> cstate \<Rightarrow> event list \<Rightarrow> bool" where
  "recovery_prefix x st evs st2 evs2 \<longleftrightarrow>
     (st2 = st \<and> evs2 = evs) \<or>
     (source_unhealthy st \<and> st2 = st\<lparr>source_unhealthy := False, health_event := ''''\<rparr> \<and>
      (\<exists>e. evs2 = evs @ [e] \<and> emit x st ''source_recovered'' ''source_recovered'' = Inr e))"

lemma evaluate_observed_elim:
  assumes "evaluate_observed x st evs = Inr t"
  obtains
    (Idle) reason where "t = result_of (advance x st) evs False False reason"
  | (Waiting) w st2 evs2 where
      "recovery_prefix x (advance x ((reset_counts st)\<lparr>waiting_reason := w\<rparr>)) evs st2 evs2"
      "t = result_of st2 evs2 False False w"
  | (Unknown) reason where "unknown x st evs reason = Inr t"
  | (Undecided) st1 m reason where "predicate (x_ev x) st (x_ob x) (x_now x) = (st1, False, m, reason)"
      "unknown x st1 evs reason = Inr t"
  | (Decided) st1 matched reason st2 evs2 where
      "predicate (x_ev x) st (x_ob x) (x_now x) = (st1, True, matched, reason)"
      "recovery_prefix x st1 evs st2 evs2" "apply_policy x st2 evs2 matched = Inr t"
proof -
  have known: thesis if k: "evaluate_known x st evs = Inr t"
  proof -
    obtain st1 known matched reason where
      p: "predicate (x_ev x) st (x_ob x) (x_now x) = (st1, known, matched, reason)"
      by (metis prod_cases4)
    show thesis
    proof (cases known)
      case True
      with k p obtain st2 evs2 where
        "(st2, evs2) = (st1, evs) \<or> source_unhealthy st1 \<and> recover_source x st1 evs = Inr (st2, evs2)"
        "apply_policy x st2 evs2 matched = Inr t"
        by (auto simp: evaluate_known_def split: if_splits)
      moreover from this(1) have "recovery_prefix x st1 evs st2 evs2"
        by (auto simp: recovery_prefix_def recover_source_def)
      ultimately show thesis using Decided [of st1 matched reason st2 evs2] p True by simp
    next
      case False
      with k p have "unknown x st1 evs reason = Inr t" by (simp add: evaluate_known_def)
      then show thesis using Undecided [of st1 matched reason] p False by simp
    qed
  qed
  have waiting: thesis if "evaluate_waiting x st evs = Inr t"
  proof -
    let ?w = "DetailOrDefault (x_ob x)"
    let ?s = "advance x ((reset_counts st)\<lparr>waiting_reason := ?w\<rparr>)"
    from that obtain st2 evs2 where
      "(st2, evs2) = (?s, evs) \<or> source_unhealthy ?s \<and> recover_source x ?s evs = Inr (st2, evs2)"
      "t = result_of st2 evs2 False False ?w"
      by (auto simp: evaluate_waiting_def Let_def split: if_splits)
    then show thesis
      by (intro Waiting [of ?w st2 evs2]) (auto simp: recovery_prefix_def recover_source_def)
  qed
  show thesis
    using assms known waiting Idle Unknown
    by (fastforce simp: evaluate_observed_def Let_def split: if_splits)
qed

lemma evaluate_keyed_elim:
  assumes "evaluate_keyed x st = Inr t"
  obtains
    (Clock) "o_health (x_ob x) = ''clock''"
      "unknown x (clock_state (x_ev x) (x_now x) st) [] ''clock_discontinuity'' = Inr t"
  | (Backwards) "o_health (x_ob x) \<noteq> ''clock''" "unknown x st [] ''clock_moved_backwards'' = Inr t"
  | (Gap) e where "o_health (x_ob x) \<noteq> ''clock''" "\<not> (\<not> is_zero (last_at st) \<and> x_now x < last_at st)"
      "emit x (advance x (reset_counts st)) ''gap'' ''sampling_gap'' = Inr e"
      "t = result_of (advance x (reset_counts st)) [e] False False ''sampling_gap''"
  | (Observed) st1 evs where "o_health (x_ob x) \<noteq> ''clock''"
      "\<not> (\<not> is_zero (last_at st) \<and> x_now x < last_at st)"
      "gap_prefix x st st1 evs" "evaluate_observed x st1 evs = Inr t"
proof -
  consider "o_health (x_ob x) = ''clock''"
    | "o_health (x_ob x) \<noteq> ''clock''" "\<not> is_zero (last_at st) \<and> x_now x < last_at st"
    | "o_health (x_ob x) = ''gap''" "\<not> (\<not> is_zero (last_at st) \<and> x_now x < last_at st)"
    | "o_health (x_ob x) \<noteq> ''clock''" "o_health (x_ob x) \<noteq> ''gap''"
      "\<not> (\<not> is_zero (last_at st) \<and> x_now x < last_at st)"
    by fastforce
  then show thesis
  proof cases
    case 1
    with assms show thesis using Clock by (simp add: evaluate_keyed_def Let_def)
  next
    case 2
    with assms show thesis using Backwards by (simp add: evaluate_keyed_def Let_def)
  next
    case 3
    with assms show thesis using Gap by (auto simp: evaluate_keyed_def Let_def)
  next
    case 4
    with assms obtain st1 evs where "gap_prefix x st st1 evs" "evaluate_observed x st1 evs = Inr t"
      by (auto simp: evaluate_keyed_def gap_prefix_def Let_def split: if_splits)
    with 4 show thesis using Observed by blast
  qed
qed

lemma evaluation_key_waiting [simp]:
  "evaluation_key ev (prev\<lparr>waiting_reason := w\<rparr>) ob = evaluation_key ev prev ob"
  by (simp add: evaluation_key_def Let_def cong: if_cong)

lemma Evaluate_elim:
  assumes "Evaluate env ev prev ob now = Inr t"
  obtains key x st where "x = \<lparr>x_env = env, x_ev = ev, x_ob = ob, x_key = key, x_now = now\<rparr>"
    "st = prev\<lparr>waiting_reason := '''', entity := key\<rparr>" "evaluate_keyed x st = Inr t"
    "evaluation_key ev prev ob = Inr key" "last_sequence prev < o_sequence ob" "1 \<le> o_sequence ob"
    "now = o_accepted_at ob" "\<not> is_zero now"
  using assms by (auto simp: Evaluate_def Let_def split: if_splits)

text \<open>The predicate decides from samples, timers, the baseline and the seen identifiers; it
  leaves the incident and its counters alone.\<close>

definition incident_frame :: "cstate \<Rightarrow> cstate \<Rightarrow> bool" where
  "incident_frame st st1 \<longleftrightarrow>
     is_open st1 = is_open st \<and> incident_event st1 = incident_event st \<and>
     last_fired st1 = last_fired st \<and> matches st1 = matches st \<and> recoveries st1 = recoveries st \<and>
     last_at st1 = last_at st \<and> last_sequence st1 = last_sequence st \<and> entity st1 = entity st \<and>
     source_unhealthy st1 = source_unhealthy st \<and> health_event st1 = health_event st"

lemma incident_frame_refl [simp]: "incident_frame st st"
  by (simp add: incident_frame_def)

lemma signal_changed_elim:
  assumes "signal_changed ev st v n = (st1, k, m, r)"
  obtains "st1 = st" "\<not> k" "\<not> m"
  | enc where "st1 = st\<lparr>evidence := (if m \<and> baseline_sequence st > 0 then [baseline_sequence st] else []),
                      baseline := enc, baseline_sequence := n\<rparr>" "k"
      "m \<longleftrightarrow> baseline st \<noteq> '''' \<and> baseline st \<noteq> enc"
proof (cases "signal_value v")
  case None
  with assms show thesis using that(1) by (auto simp: signal_changed_def)
next
  case (Some enc)
  let ?m = "baseline st \<noteq> '''' \<and> baseline st \<noteq> enc"
  let ?st = "st\<lparr>evidence := (if ?m \<and> baseline_sequence st > 0 then [baseline_sequence st] else []),
       baseline := enc, baseline_sequence := n\<rparr>"
  have "(?st, True, ?m, '''') = (st1, k, m, r)"
    using assms unfolding signal_changed_def Let_def Some option.case .
  then have "st1 = ?st" "k" "m = ?m" unfolding prod.inject by blast+
  show thesis
    by (rule that(2) [OF _ \<open>k\<close> \<open>m = ?m\<close>]) (simp only: \<open>st1 = ?st\<close> \<open>m = ?m\<close>)
qed

lemma signal_new_event_elim:
  assumes "signal_new_event ev st v now = (st1, k, m, r)"
  obtains "st1 = st" "\<not> k" "\<not> m"
  | i where "v = VStr i" "\<not> m" "st1 = st\<lparr>seen := live_ids now (seen st)\<rparr>"
      "k \<longrightarrow> i \<in> fst ` set (live_ids now (seen st))"
  | i where "v = VStr i" "k" "m" "map_of (live_ids now (seen st)) i = None"
      "int (length (live_ids now (seen st))) < l_max_samples (ev_limits ev)"
      "st1 = st\<lparr>seen := alist_put i (now + duration_or_zero (c_dedup_for (ev_condition ev)))
         (live_ids now (seen st))\<rparr>"
proof (cases "event_identifier v")
  case None
  with assms show thesis using that(1) by (auto simp: signal_new_event_def)
next
  case (Some i)
  let ?live = "live_ids now (seen st)"
  have v: "v = VStr i" using Some by (cases v) (auto split: if_splits)
  show thesis
  proof (cases "map_of ?live i")
    case None
    with Some v assms show thesis using that(2) [of i] that(3) [of i]
      by (auto simp: signal_new_event_def Let_def split: if_splits)
  next
    case (Some e)
    then have "(i, e) \<in> set ?live" by (rule map_of_SomeD)
    then have "now < e" "i \<in> fst ` set ?live" by (force simp: live_ids_def)+
    with Some \<open>event_identifier v = Some i\<close> v assms show thesis using that(2) [of i]
      by (auto simp: signal_new_event_def Let_def)
  qed
qed

lemma signal_frame:
  assumes "signal ev st v n now = (st1, k, m, r)"
  shows "incident_frame st st1 \<and> samples st1 = samples st"
proof (cases "c_operator (ev_condition ev) = ''changed''")
  case True
  with assms have "signal_changed ev st v n = (st1, k, m, r)" by (simp add: signal_def)
  then show ?thesis by (cases rule: signal_changed_elim) (auto simp: incident_frame_def)
next
  case False
  with assms have "signal_new_event ev st v now = (st1, k, m, r)" by (simp add: signal_def)
  then show ?thesis by (cases rule: signal_new_event_elim) (auto simp: incident_frame_def)
qed

lemma numeric_frame:
  assumes "numeric_predicate ev expr st v n now = (st1, k, m, r)"
  shows "incident_frame st st1 \<and> evidence st1 = evidence st \<and> seen st1 = seen st"
  using assms
  by (auto simp: numeric_predicate_def incident_frame_def Let_def split: if_splits sum.splits)

lemma missing_predicate_elim:
  assumes "missing_predicate ev st ob now = (st1, k, m, r)"
  obtains d f where "st1 = st\<lparr>missing_at := d, fresh_sequence := f\<rparr>"
proof (cases "o_health ob = ''timer''")
  case False
  with assms that show thesis by (auto simp: missing_predicate_def)
next
  case True
  define st2 where "st2 = (if is_zero (missing_at st)
    then (case o_deadline ob of Some d \<Rightarrow> st\<lparr>missing_at := d\<rparr> | None \<Rightarrow> st) else st)"
  from True assms have "st1 = st2"
    by (auto simp: missing_predicate_def Let_def st2_def [symmetric] split: if_splits option.splits)
  moreover have "st2 = st\<lparr>missing_at := missing_at st2, fresh_sequence := fresh_sequence st\<rparr>"
    by (simp add: st2_def split: option.splits)
  ultimately show thesis using that by metis
qed

lemma missing_frame:
  assumes "missing_predicate ev st ob now = (st1, k, m, r)"
  shows "incident_frame st st1 \<and> evidence st1 = evidence st \<and> seen st1 = seen st \<and>
    samples st1 = samples st"
  using assms by (rule missing_predicate_elim) (simp add: incident_frame_def)

lemma predicate_elim:
  assumes "predicate ev st ob now = (st1, k, m, r)"
  obtains (Missing) "missing_predicate ev st ob now = (st1, k, m, r)"
  | (Plain) "st1 = st"
  | (Signal) v where "map_of (o_fields ob) (c_field (ev_condition ev)) = Some v"
      "c_operator (ev_condition ev) = ''changed'' \<or> c_operator (ev_condition ev) = ''new-event''"
      "signal ev st v (o_sequence ob) now = (st1, k, m, r)"
  | (Numeric) expr number where "ev_expression ev = Some expr"
      "numeric_predicate ev expr st number (o_sequence ob) now = (st1, k, m, r)"
  using assms
  by (auto simp: predicate_def Let_def split: if_splits option.splits prod.splits)

lemma predicate_frame:
  assumes "predicate ev st ob now = (st1, k, m, r)"
  shows "incident_frame st st1"
  using assms
  by (cases rule: predicate_elim) (auto dest!: missing_frame signal_frame numeric_frame)

section \<open>The outcome of one evaluation\<close>

text \<open>Events about the source and the sampling, as opposed to the condition.\<close>

definition quiet :: "event \<Rightarrow> bool" where
  "quiet e \<longleftrightarrow> e_type e \<in> {''gap'', ''source_error'', ''source_recovered''}"

definition source_marks :: "event list \<Rightarrow> bool list" where
  "source_marks es = map (\<lambda>e. e_type e = ''source_error'')
     (filter (\<lambda>e. e_type e = ''source_error'' \<or> e_type e = ''source_recovered'') es)"

lemma source_marks_append [simp]: "source_marks (xs @ ys) = source_marks xs @ source_marks ys"
  by (simp add: source_marks_def)

lemma source_marks_simps [simp]:
  "source_marks [] = []"
  "e_type e = ''source_error'' \<Longrightarrow> source_marks [e] = [True]"
  "e_type e = ''source_recovered'' \<Longrightarrow> source_marks [e] = [False]"
  "e_type e \<noteq> ''source_error'' \<Longrightarrow> e_type e \<noteq> ''source_recovered'' \<Longrightarrow> source_marks [e] = []"
  by (simp_all add: source_marks_def)

lemma source_marks_empty:
  "source_marks evs = [] \<longleftrightarrow>
     ''source_error'' \<notin> e_type ` set evs \<and> ''source_recovered'' \<notin> e_type ` set evs"
  by (force simp: source_marks_def filter_empty_conv)

text \<open>What every step before the policy keeps: the incident, and that the source marks among
  the events tell how the source's health changed.\<close>

definition steady :: "cstate \<Rightarrow> cstate \<Rightarrow> event list \<Rightarrow> bool" where
  "steady st st1 evs \<longleftrightarrow>
     is_open st1 = is_open st \<and> incident_event st1 = incident_event st \<and> entity st1 = entity st \<and>
     list_all quiet evs \<and> distinct (map e_type evs) \<and>
     source_marks evs = (if source_unhealthy st1 = source_unhealthy st then [] else [source_unhealthy st1])"

lemma steady_reset: "gap_prefix x st st1 evs \<Longrightarrow> steady st st1 evs"
  by (auto simp: gap_prefix_def steady_def reset_counts_def quiet_def dest!: emit_fields(1))

lemma steady_frame: "steady st st1 evs \<Longrightarrow> incident_frame st1 st2 \<Longrightarrow> steady st st2 evs"
  by (simp add: steady_def incident_frame_def)

lemma steady_advance: "steady st (advance x st1) evs = steady st st1 evs"
  by (simp add: steady_def advance_def)

lemma steady_counts: "steady st ((reset_counts st1)\<lparr>waiting_reason := w\<rparr>) evs = steady st st1 evs"
  by (simp add: steady_def reset_counts_def)

lemma steady_recovery:
  "recovery_prefix x st1 evs st2 evs2 \<Longrightarrow> steady st st1 evs \<Longrightarrow> source_marks evs = [] \<Longrightarrow>
   steady st st2 evs2"
  using source_marks_empty [of evs]
  by (auto simp: recovery_prefix_def steady_def quiet_def dest!: emit_fields(1) split: if_splits)

lemma unknown_steady:
  assumes "unknown x st evs reason = Inr t" "steady st0 st evs" "source_marks evs = []"
  shows "steady st0 (tr_state t) (tr_events t)" "\<not> tr_known t" "\<not> tr_matched t"
    "last_fired (tr_state t) = last_fired st"
  using assms source_marks_empty [of evs]
  by (auto simp: unknown_def steady_def quiet_def Let_def dest!: emit_fields(1) split: if_splits)

lemma gap_prefix_marks: "gap_prefix x st st1 evs \<Longrightarrow> source_marks evs = []"
  by (auto simp: gap_prefix_def dest!: emit_fields(1))

text \<open>\<open>Evaluate\<close> either leaves the condition undecided, and then the incident is as it was
  and only source and sampling events are raised, or it decides and applies the policy.\<close>

lemma evaluate_observed_outcome:
  assumes t: "evaluate_observed x st evs = Inr t"
    and st: "steady st0 st evs" "source_marks evs = []"
  obtains
    (Undecided) "steady st0 (tr_state t) (tr_events t)" "\<not> tr_known t" "\<not> tr_matched t"
      "last_fired (tr_state t) = last_fired st"
  | (Decided) st1 matched reason st2 evs2 where
      "predicate (x_ev x) st (x_ob x) (x_now x) = (st1, True, matched, reason)"
      "recovery_prefix x st1 evs st2 evs2" "steady st0 st2 evs2" "last_fired st2 = last_fired st"
      "apply_policy x st2 evs2 matched = Inr t"
  using t
proof (cases rule: evaluate_observed_elim)
  case (Idle reason)
  with st show thesis using Undecided by (simp add: result_of_def steady_advance) (simp add: advance_def)
next
  case (Waiting w st2 evs2)
  let ?s = "advance x ((reset_counts st)\<lparr>waiting_reason := w\<rparr>)"
  have "steady st0 st2 evs2"
    using steady_recovery [OF Waiting(1)] st by (simp add: steady_advance steady_counts)
  moreover have "last_fired st2 = last_fired st"
    using Waiting(1) by (auto simp: recovery_prefix_def advance_def reset_counts_def)
  ultimately show thesis using Waiting(2) Undecided by (simp add: result_of_def)
next
  case (Unknown reason)
  then show thesis using unknown_steady [OF Unknown st] Undecided by blast
next
  case (Undecided st1 m reason)
  have f: "incident_frame st st1" by (rule predicate_frame [OF Undecided(1)])
  have "last_fired st1 = last_fired st" using f by (simp add: incident_frame_def)
  with unknown_steady [OF Undecided(2) steady_frame [OF st(1) f] st(2)] that(1)
  show thesis by simp
next
  case (Decided st1 matched reason st2 evs2)
  have f: "incident_frame st st1" by (rule predicate_frame [OF Decided(1)])
  have "last_fired st2 = last_fired st"
    using f Decided(2) by (auto simp: incident_frame_def recovery_prefix_def)
  with Decided steady_recovery [OF Decided(2) steady_frame [OF st(1) f] st(2)] that(2)
  show thesis by blast
qed

lemma steady_refl [simp]: "steady st st []"
  by (simp add: steady_def)

lemma steady_clock: "steady st (clock_state ev now st) []"
  by (simp add: steady_def clock_state_def Let_def)

lemma evaluate_keyed_outcome:
  assumes t: "evaluate_keyed x st = Inr t"
  obtains
    (Undecided) "steady st (tr_state t) (tr_events t)" "\<not> tr_known t" "\<not> tr_matched t"
      "o_health (x_ob x) \<noteq> ''clock'' \<Longrightarrow> last_fired (tr_state t) = last_fired st"
  | (Decided) st1 evs1 st2 matched reason st3 evs3 where "o_health (x_ob x) \<noteq> ''clock''"
      "\<not> (\<not> is_zero (last_at st) \<and> x_now x < last_at st)" "gap_prefix x st st1 evs1"
      "predicate (x_ev x) st1 (x_ob x) (x_now x) = (st2, True, matched, reason)"
      "recovery_prefix x st2 evs1 st3 evs3" "steady st st3 evs3" "last_fired st3 = last_fired st"
      "apply_policy x st3 evs3 matched = Inr t"
  using t
proof (cases rule: evaluate_keyed_elim)
  case Clock
  with unknown_steady [OF Clock(2) steady_clock] that(1) show thesis by simp
next
  case Backwards
  with unknown_steady [OF Backwards(2) steady_refl] that(1) show thesis by simp
next
  case (Gap e)
  have "steady st (reset_counts st) [e]"
    using Gap(3) by (auto simp: steady_def reset_counts_def quiet_def dest!: emit_fields(1))
  with Gap(4) that(1) show thesis
    by (simp add: result_of_def steady_advance) (simp add: advance_def reset_counts_def)
next
  case (Observed st1 evs1)
  have lf: "last_fired st1 = last_fired st"
    using Observed(3) by (auto simp: gap_prefix_def reset_counts_def)
  from Observed(4) steady_reset [OF Observed(3)] gap_prefix_marks [OF Observed(3)] show thesis
  proof (cases rule: evaluate_observed_outcome)
    case Undecided
    with that(1) lf show thesis by simp
  next
    case (Decided st2 matched reason st3 evs3)
    with Observed that(2) lf show thesis by simp
  qed
qed

text \<open>What the policy may do with a decided predicate.\<close>

abbreviation signal_condition :: "evaluator \<Rightarrow> bool" where
  "signal_condition ev \<equiv>
     c_operator (ev_condition ev) = ''changed'' \<or> c_operator (ev_condition ev) = ''new-event''"

definition cooled :: "eval_ctx \<Rightarrow> cstate \<Rightarrow> bool" where
  "cooled x st \<longleftrightarrow> is_zero (last_fired st) \<or> last_fired st + ev_interval (x_ev x) \<le> x_now x"

lemma eligible_cooled:
  "eligible x st = (if p_trigger (ev_policy (x_ev x)) = ''level'' then cooled x st else \<not> is_open st)"
  by (auto simp: eligible_def cooled_def)

definition counted :: "eval_ctx \<Rightarrow> cstate \<Rightarrow> cstate" where
  "counted x st =
     (if matches st < p_consecutive (ev_policy (x_ev x))
      then st\<lparr>recoveries := 0, matches := matches st + 1, evidence := evidence st @ [o_sequence (x_ob x)]\<rparr>
      else st\<lparr>recoveries := 0\<rparr>)"

definition recovering :: "eval_ctx \<Rightarrow> cstate \<Rightarrow> cstate" where
  "recovering x st =
     st\<lparr>matches := 0,
        evidence := (if recoveries st = 0 then [] else evidence st) @ [o_sequence (x_ob x)],
        recoveries := recoveries st + 1\<rparr>"

lemma apply_policy_elim:
  assumes "apply_policy x st evs matched = Inr t"
  obtains
    (Signalled) e where "signal_condition (x_ev x)" "matched" "cooled x st"
      "emit x st (c_operator (ev_condition (x_ev x))) (''condition_'' @ c_operator (ev_condition (x_ev x))) = Inr e"
      "t = result_of (advance x (st\<lparr>last_fired := x_now x, evidence := []\<rparr>)) (evs @ [e]) True True ''''"
  | (Quiet) "signal_condition (x_ev x)"
      "t = result_of (advance x (st\<lparr>evidence := []\<rparr>)) evs True matched ''''"
  | (Fired) e where "\<not> signal_condition (x_ev x)" "matched" "eligible x (counted x st)"
      "p_consecutive (ev_policy (x_ev x)) \<le> matches (counted x st)"
      "emit x (counted x st) ''firing'' ''condition_matched'' = Inr e"
      "t = result_of (advance x ((counted x st)\<lparr>last_fired := x_now x, incident_event := e_id e,
         is_open := True\<rparr>)) (evs @ [e]) True True ''''"
  | (Held) "\<not> signal_condition (x_ev x)" "matched" "\<not> eligible x (counted x st)"
      "p_consecutive (ev_policy (x_ev x)) \<le> matches (counted x st)"
      "t = result_of (advance x ((counted x st)\<lparr>is_open := True\<rparr>)) evs True True ''''"
  | (Counting) "\<not> signal_condition (x_ev x)" "matched"
      "matches (counted x st) < p_consecutive (ev_policy (x_ev x))"
      "t = result_of (advance x (counted x st)) evs True True ''''"
  | (Recovered) e where "\<not> signal_condition (x_ev x)" "\<not> matched" "is_open st"
      "p_recover_after (ev_policy (x_ev x)) \<le> recoveries st + 1"
      "emit x (recovering x st) ''recovered'' ''condition_recovered'' = Inr e"
      "t = result_of (advance x ((recovering x st)\<lparr>is_open := False, incident_event := '''',
         recoveries := 0, evidence := []\<rparr>)) (evs @ [e]) True False ''''"
  | (Recovering) "\<not> signal_condition (x_ev x)" "\<not> matched" "is_open st"
      "recoveries st + 1 < p_recover_after (ev_policy (x_ev x))"
      "t = result_of (advance x (recovering x st)) evs True False ''''"
  | (Normal) "\<not> signal_condition (x_ev x)" "\<not> matched" "\<not> is_open st"
      "t = result_of (advance x (st\<lparr>matches := 0, recoveries := 0, evidence := []\<rparr>)) evs True False ''''"
proof (cases "signal_condition (x_ev x)")
  case True
  then have a: "apply_signal x st evs matched = Inr t"
    using assms by (simp add: apply_policy_def Let_def)
  show thesis
  proof (cases "matched \<and> cooled x st")
    case True
    with a \<open>signal_condition (x_ev x)\<close> show thesis using Signalled
      by (auto simp: apply_signal_def cooled_def Let_def not_less)
  next
    case False
    then have "\<not> (matched \<and> (is_zero (last_fired st) \<or> \<not> x_now x < last_fired st + ev_interval (x_ev x)))"
      by (auto simp: cooled_def)
    with a \<open>signal_condition (x_ev x)\<close> show thesis using Quiet
      by (simp add: apply_signal_def Let_def)
  qed
next
  case notsig: False
  show thesis
  proof (cases matched)
    case True
    then have "apply_match x st evs = Inr t" using assms notsig by (simp add: apply_policy_def Let_def)
    then have m: "(if p_consecutive (ev_policy (x_ev x)) \<le> matches (counted x st)
       then if eligible x (counted x st)
         then bindE (emit x (counted x st) ''firing'' ''condition_matched'') (\<lambda>e.
               Inr (result_of (advance x ((counted x st)\<lparr>last_fired := x_now x, incident_event := e_id e,
                 is_open := True\<rparr>)) (evs @ [e]) True True ''''))
         else Inr (result_of (advance x ((counted x st)\<lparr>is_open := True\<rparr>)) evs True True '''')
       else Inr (result_of (advance x (counted x st)) evs True True '''')) = Inr t"
      by (simp add: apply_match_def counted_def Let_def cong: if_cong)
    from m True notsig show thesis using Fired Held Counting
      by (auto simp: not_le split: if_splits)
  next
    case False
    then have "apply_mismatch x st evs = Inr t" using assms notsig by (simp add: apply_policy_def Let_def)
    then have m: "(if is_open st then
         if p_recover_after (ev_policy (x_ev x)) \<le> recoveries st + 1
         then bindE (emit x (recovering x st) ''recovered'' ''condition_recovered'') (\<lambda>e.
                Inr (result_of (advance x ((recovering x st)\<lparr>is_open := False, incident_event := '''',
                  recoveries := 0, evidence := []\<rparr>)) (evs @ [e]) True False ''''))
         else Inr (result_of (advance x (recovering x st)) evs True False '''')
       else Inr (result_of (advance x (st\<lparr>matches := 0, recoveries := 0, evidence := []\<rparr>)) evs True False '''')) = Inr t"
      by (simp add: apply_mismatch_def recovering_def Let_def cong: if_cong)
    from m False notsig show thesis using Recovered Recovering Normal
      by (auto simp: not_le split: if_splits)
  qed
qed

section \<open>Sequences of observations\<close>

text \<open>One observation of a stream; a refused observation leaves the state as it was.\<close>

definition evaluate_step :: "runtime_env \<Rightarrow> evaluator \<Rightarrow> cstate \<Rightarrow> observation \<Rightarrow> cstate \<times> event list" where
  "evaluate_step env ev st ob =
     (case Evaluate env ev st ob (o_accepted_at ob) of
        Inl _ \<Rightarrow> (st, [])
      | Inr t \<Rightarrow> (tr_state t, tr_events t))"

text \<open>The kinds of condition events a decided evaluation adds.\<close>

lemma Evaluate_outcome:
  assumes t: "Evaluate env ev st ob now = Inr t"
  obtains
    (Undecided) st0 key where "steady st0 (tr_state t) (tr_events t)" "\<not> tr_known t" "\<not> tr_matched t"
      "st0 = st\<lparr>waiting_reason := '''', entity := key\<rparr>"
      "o_health ob \<noteq> ''clock'' \<Longrightarrow> last_fired (tr_state t) = last_fired st"
  | (Decided) x st0 key st1 evs1 st2 matched reason st3 evs3 where
      "x = \<lparr>x_env = env, x_ev = ev, x_ob = ob, x_key = key, x_now = now\<rparr>"
      "st0 = st\<lparr>waiting_reason := '''', entity := key\<rparr>"
      "o_health ob \<noteq> ''clock''" "\<not> is_zero now"
      "\<not> (\<not> is_zero (last_at st) \<and> now < last_at st)" "gap_prefix x st0 st1 evs1"
      "predicate ev st1 ob now = (st2, True, matched, reason)"
      "recovery_prefix x st2 evs1 st3 evs3" "steady st0 st3 evs3" "last_fired st3 = last_fired st"
      "apply_policy x st3 evs3 matched = Inr t"
  using t
proof (cases rule: Evaluate_elim)
  case (1 key x st0)
  from 1(3) show thesis
  proof (cases rule: evaluate_keyed_outcome)
    case Undecided
    with 1 that(1) [of st0 key] show thesis by simp
  next
    case (Decided st1 evs1 st2 matched reason st3 evs3)
    with 1 that(2) [of x key st0 st1 evs1 st2 matched reason st3 evs3] show thesis by simp
  qed
qed

lemma is_open_counted [simp]:
  "is_open (counted x st) = is_open st" "last_fired (counted x st) = last_fired st"
  "source_unhealthy (counted x st) = source_unhealthy st" "entity (counted x st) = entity st"
  "recoveries (counted x st) = 0"
  by (simp_all add: counted_def)

lemma is_open_recovering [simp]:
  "is_open (recovering x st) = is_open st" "last_fired (recovering x st) = last_fired st"
  "source_unhealthy (recovering x st) = source_unhealthy st" "entity (recovering x st) = entity st"
  by (simp_all add: recovering_def)

lemmas step_simps = result_of_def advance_def

lemma quiet_types:
  assumes "list_all quiet evs" "e \<in> set evs"
  shows "e_type e \<noteq> ''firing''" "e_type e \<noteq> ''recovered''" "e_type e \<noteq> ''changed''" "e_type e \<noteq> ''new-event''"
  using assms by (auto simp: list_all_iff quiet_def)

lemma filter_quiet [simp]:
  "list_all quiet evs \<Longrightarrow> filter (\<lambda>e. e_type e = ''firing'' \<or> e_type e = ''recovered'') evs = []"
  "list_all quiet evs \<Longrightarrow> filter (\<lambda>e. e_type e = ''firing'' \<or> e_type e = ''changed'' \<or> e_type e = ''new-event'') evs = []"
  using quiet_types by (force simp: filter_empty_conv)+

text \<open>Incident events follow the incident under a transition policy.\<close>

lemma Evaluate_incident:
  assumes t: "Evaluate env ev st ob now = Inr t" and p: "p_trigger (ev_policy ev) \<noteq> ''level''"
  shows "map (\<lambda>e. e_type e = ''firing'') (filter (\<lambda>e. e_type e = ''firing'' \<or> e_type e = ''recovered'') (tr_events t)) =
    (if is_open (tr_state t) = is_open st then [] else [is_open (tr_state t)])"
  using t
proof (cases rule: Evaluate_outcome)
  case (Undecided st0 key)
  then show ?thesis by (simp add: steady_def)
next
  case (Decided x st0 key st1 evs1 st2 matched reason st3 evs3)
  from Decided(9,2) have o3: "is_open st3 = is_open st" and q: "list_all quiet evs3"
    by (simp_all add: steady_def)
  from Decided(11) show ?thesis
    by (cases rule: apply_policy_elim)
      (use o3 q p Decided(1) in \<open>auto simp: step_simps eligible_cooled dest!: emit_fields(1)\<close>)
qed

text \<open>Source health events follow the health of the source, whatever the policy.\<close>

lemma Evaluate_source:
  assumes t: "Evaluate env ev st ob now = Inr t"
  shows "source_marks (tr_events t) =
    (if source_unhealthy (tr_state t) = source_unhealthy st then [] else [source_unhealthy (tr_state t)])"
  using t
proof (cases rule: Evaluate_outcome)
  case (Undecided st0 key)
  then show ?thesis by (simp add: steady_def)
next
  case (Decided x st0 key st1 evs1 st2 matched reason st3 evs3)
  from Decided(9,2) have m: "source_marks evs3 =
      (if source_unhealthy st3 = source_unhealthy st then [] else [source_unhealthy st3])"
    by (simp add: steady_def)
  from Decided(11) show ?thesis
    by (cases rule: apply_policy_elim) (use m in \<open>auto simp: step_simps dest!: emit_fields(1)\<close>)
qed

text \<open>Rated events: those a level policy or a change or event condition raises at most once per
  interval.\<close>

definition rated :: "evaluator \<Rightarrow> bool" where
  "rated ev \<longleftrightarrow> signal_condition ev \<or> p_trigger (ev_policy ev) = ''level''"

abbreviation condition_event :: "event \<Rightarrow> bool" where
  "condition_event e \<equiv> e_type e = ''firing'' \<or> e_type e = ''changed'' \<or> e_type e = ''new-event''"

lemma Evaluate_rated:
  assumes t: "Evaluate env ev st ob now = Inr t" and r: "rated ev" and h: "o_health ob \<noteq> ''clock''"
  shows "(filter condition_event (tr_events t) = [] \<and> last_fired (tr_state t) = last_fired st) \<or>
    (\<exists>e. filter condition_event (tr_events t) = [e] \<and> last_fired (tr_state t) = now \<and> \<not> is_zero now \<and>
       e_at e = now \<and> (is_zero (last_fired st) \<or> last_fired st + ev_interval ev \<le> now))"
  using t
proof (cases rule: Evaluate_outcome)
  case (Undecided st0 key)
  then show ?thesis using h by (simp add: steady_def)
next
  case (Decided x st0 key st1 evs1 st2 matched reason st3 evs3)
  from Decided(9) have q: "list_all quiet evs3" by (simp add: steady_def)
  note ctx = Decided(1,4,10) q
  from Decided(11) show ?thesis
  proof (cases rule: apply_policy_elim)
    case (Signalled e)
    from Signalled(1,3) emit_fields(1,2) [OF Signalled(4)] ctx show ?thesis
      by (auto simp: Signalled(5) step_simps cooled_def)
  next
    case (Fired e)
    from Fired(1,3) emit_fields(1,2) [OF Fired(5)] ctx r show ?thesis
      by (auto simp: Fired(6) step_simps cooled_def eligible_cooled rated_def)
  qed (use ctx in \<open>auto simp: step_simps dest!: emit_fields(1)\<close>)
qed

interpretation incidents: alternation "evaluate_step env ev"
  "\<lambda>st. p_trigger (ev_policy ev) \<noteq> ''level'' \<and> is_open st"
  "\<lambda>e. p_trigger (ev_policy ev) \<noteq> ''level'' \<and> e_type e = ''firing''"
  "\<lambda>e. p_trigger (ev_policy ev) \<noteq> ''level'' \<and> e_type e = ''recovered''"
  for env ev
proof
  fix st ob
  show "map (\<lambda>e. p_trigger (ev_policy ev) \<noteq> ''level'' \<and> e_type e = ''firing'')
      (filter (\<lambda>e. (p_trigger (ev_policy ev) \<noteq> ''level'' \<and> e_type e = ''firing'') \<or>
         (p_trigger (ev_policy ev) \<noteq> ''level'' \<and> e_type e = ''recovered'')) (snd (evaluate_step env ev st ob))) =
      (if (p_trigger (ev_policy ev) \<noteq> ''level'' \<and> is_open (fst (evaluate_step env ev st ob))) =
          (p_trigger (ev_policy ev) \<noteq> ''level'' \<and> is_open st) then []
       else [p_trigger (ev_policy ev) \<noteq> ''level'' \<and> is_open (fst (evaluate_step env ev st ob))])"
  proof (cases "Evaluate env ev st ob (o_accepted_at ob)")
    case (Inr t)
    from Evaluate_incident [OF Inr] Inr show ?thesis
      by (cases "p_trigger (ev_policy ev) = ''level''") (simp_all add: evaluate_step_def)
  qed (simp add: evaluate_step_def)
qed simp

interpretation source_health: alternation "evaluate_step env ev" source_unhealthy
  "\<lambda>e. e_type e = ''source_error''" "\<lambda>e. e_type e = ''source_recovered''"
  for env ev
  by unfold_locales
    (auto simp: evaluate_step_def source_marks_def [symmetric] Evaluate_source split: sum.splits)

interpretation firing_rate: throttle "evaluate_step env ev" "\<lambda>ob. o_health ob \<noteq> ''clock''"
  "\<lambda>st. if rated ev \<and> \<not> is_zero (last_fired st) then Some (last_fired st) else None"
  "\<lambda>e. rated ev \<and> condition_event e" e_at "ev_interval ev"
  for env ev
proof
  fix ob :: observation and st
  assume h: "o_health ob \<noteq> ''clock''"
  show "(filter (\<lambda>e. rated ev \<and> condition_event e) (snd (evaluate_step env ev st ob)) = [] \<and>
        (if rated ev \<and> \<not> is_zero (last_fired (fst (evaluate_step env ev st ob)))
         then Some (last_fired (fst (evaluate_step env ev st ob))) else None) =
        (if rated ev \<and> \<not> is_zero (last_fired st) then Some (last_fired st) else None)) \<or>
    (\<exists>e. filter (\<lambda>e. rated ev \<and> condition_event e) (snd (evaluate_step env ev st ob)) = [e] \<and>
        (if rated ev \<and> \<not> is_zero (last_fired (fst (evaluate_step env ev st ob)))
         then Some (last_fired (fst (evaluate_step env ev st ob))) else None) = Some (e_at e) \<and>
        (case if rated ev \<and> \<not> is_zero (last_fired st) then Some (last_fired st) else None of
           None \<Rightarrow> True | Some t \<Rightarrow> t + ev_interval ev \<le> e_at e))"
  proof (cases "Evaluate env ev st ob (o_accepted_at ob)")
    case (Inr t)
    from Evaluate_rated [OF Inr _ h] Inr show ?thesis
      by (cases "rated ev") (auto simp: evaluate_step_def)
  qed (simp add: evaluate_step_def)
qed

section \<open>Properties of every sequence of observations\<close>

text \<open>C10: under a transition policy the incident events of any sequence of observations
  alternate: a \<open>firing\<close> event only while no incident is open, a \<open>recovered\<close> event only while
  one is, never two of a kind in a row; and after the sequence an incident is open exactly
  when the last of these events, if there is one, was \<open>firing\<close>.\<close>

theorem incidents_alternate:
  assumes "p_trigger (ev_policy ev) \<noteq> ''level''" "\<not> is_open st"
  shows "alternates False (map (\<lambda>e. e_type e = ''firing'')
      (filter (\<lambda>e. e_type e = ''firing'' \<or> e_type e = ''recovered'') (snd (run (evaluate_step env ev) st obs)))) \<and>
    is_open (fst (run (evaluate_step env ev) st obs)) =
      last (False # map (\<lambda>e. e_type e = ''firing'')
        (filter (\<lambda>e. e_type e = ''firing'' \<or> e_type e = ''recovered'') (snd (run (evaluate_step env ev) st obs))))"
  using incidents.run_alternates [of ev st env obs] incidents.run_level [of ev env st obs] assms
  by simp_all

theorem incidents_alternate_witness:
  "p_trigger (ev_policy ex_evaluator) \<noteq> ''level'' \<and> \<not> is_open zero_state \<and>
   map e_type (snd (run (evaluate_step ex_env ex_evaluator) zero_state
     [ex_status 1 503, ex_status 2 500, ex_status 3 503, ex_failure 4, ex_status 5 200, ex_status 6 200])) =
     [''firing'', ''source_error'', ''source_recovered'', ''recovered''] \<and>
   alternates False (map (\<lambda>e. e_type e = ''firing'')
     (filter (\<lambda>e. e_type e = ''firing'' \<or> e_type e = ''recovered'')
       (snd (run (evaluate_step ex_env ex_evaluator) zero_state
         [ex_status 1 503, ex_status 2 500, ex_status 3 503, ex_failure 4, ex_status 5 200, ex_status 6 200]))))"
proof -
  have p: "p_trigger (ev_policy ex_evaluator) \<noteq> ''level''"
    by (simp add: ex_evaluator_def ex_definition_def ex_spec_def ex_policy_def)
  have z: "\<not> is_open zero_state" by (simp add: zero_state_def)
  have kinds: "map e_type (snd (run (evaluate_step ex_env ex_evaluator) zero_state
     [ex_status 1 503, ex_status 2 500, ex_status 3 503, ex_failure 4, ex_status 5 200, ex_status 6 200])) =
     [''firing'', ''source_error'', ''source_recovered'', ''recovered'']" by code_simp
  show ?thesis using p z kinds incidents_alternate [OF p z] by blast
qed

text \<open>C11: source health events alternate in the same way, under every policy and condition: a
  \<open>source_error\<close> is raised once when the source becomes unhealthy and a \<open>source_recovered\<close> once
  when it becomes healthy again.\<close>

theorem source_events_alternate:
  "alternates (source_unhealthy st) (map (\<lambda>e. e_type e = ''source_error'')
      (filter (\<lambda>e. e_type e = ''source_error'' \<or> e_type e = ''source_recovered'')
        (snd (run (evaluate_step env ev) st obs))))
   \<and> source_unhealthy (fst (run (evaluate_step env ev) st obs)) =
      last (source_unhealthy st # map (\<lambda>e. e_type e = ''source_error'')
        (filter (\<lambda>e. e_type e = ''source_error'' \<or> e_type e = ''source_recovered'')
          (snd (run (evaluate_step env ev) st obs))))"
  using source_health.run_alternates [of st env ev obs] source_health.run_level [of env ev st obs] by simp

text \<open>C12: with a level policy, or a \<open>changed\<close> or \<open>new-event\<close> condition, consecutive condition
  events of any sequence of observations without a clock discontinuity are at least the
  policy's interval apart.\<close>

theorem rated_events_spaced:
  assumes "rated ev" "list_all (\<lambda>ob. o_health ob \<noteq> ''clock'') obs"
  shows "successively (\<lambda>t u. t + ev_interval ev \<le> u)
    (map e_at (filter (\<lambda>e. e_type e = ''firing'' \<or> e_type e = ''changed'' \<or> e_type e = ''new-event'')
       (snd (run (evaluate_step env ev) st obs))))"
  using firing_rate.run_spaced [OF assms(2), of ev st env] assms(1)
  by (cases "is_zero (last_fired st)") (auto simp: successively_Cons)

theorem rated_events_spaced_witness:
  "rated ex_level \<and> list_all (\<lambda>ob. o_health ob \<noteq> ''clock'')
     [ex_status 1 503, ex_status 2 503, ex_status 3 503, ex_status 4 503] \<and>
   map e_at (filter (\<lambda>e. e_type e = ''firing'' \<or> e_type e = ''changed'' \<or> e_type e = ''new-event'')
     (snd (run (evaluate_step ex_env ex_level) zero_state
       [ex_status 1 503, ex_status 2 503, ex_status 3 503, ex_status 4 503]))) = [30 * second, 90 * second] \<and>
   successively (\<lambda>t u. t + ev_interval ex_level \<le> u) [30 * second, 90 * second]"
proof -
  have r: "rated ex_level" by code_simp
  have h: "list_all (\<lambda>ob. o_health ob \<noteq> ''clock'')
     [ex_status 1 503, ex_status 2 503, ex_status 3 503, ex_status 4 503]" by code_simp
  have ts: "map e_at (filter (\<lambda>e. e_type e = ''firing'' \<or> e_type e = ''changed'' \<or> e_type e = ''new-event'')
     (snd (run (evaluate_step ex_env ex_level) zero_state
       [ex_status 1 503, ex_status 2 503, ex_status 3 503, ex_status 4 503]))) = [30 * second, 90 * second]"
    by code_simp
  show ?thesis using r h ts rated_events_spaced [OF r h, of ex_env zero_state] by simp
qed

end
