(* ===== verification/Transition_Runs.thy ===== *)
theory Transition_Runs
  imports Transition_Laws
begin

text \<open>
  Further laws of the evaluator: sequence numbers and event identities, the bounds the state
  keeps, what an undecided observation may change, deduplication, and that enough decided
  observations open and close an incident.
\<close>

section \<open>Sequences and identities\<close>

lemma unknown_sequence:
  "unknown x st evs reason = Inr t \<Longrightarrow> last_sequence (tr_state t) = o_sequence (x_ob x)"
  by (auto simp: unknown_def Let_def split: if_splits)

lemma advance_sequence [simp]: "last_sequence (advance x st) = o_sequence (x_ob x)"
  by (simp add: advance_def)

lemma apply_policy_sequence:
  "apply_policy x st evs matched = Inr t \<Longrightarrow> last_sequence (tr_state t) = o_sequence (x_ob x)"
  by (erule apply_policy_elim) (simp_all add: result_of_def)

lemma recovery_prefix_sequence:
  "recovery_prefix x st evs st2 evs2 \<Longrightarrow> last_sequence st2 = last_sequence st"
  by (auto simp: recovery_prefix_def)

lemma evaluate_observed_sequence:
  assumes "evaluate_observed x st evs = Inr t"
  shows "last_sequence (tr_state t) = o_sequence (x_ob x)"
  using assms
  by (cases rule: evaluate_observed_elim)
    (auto simp: result_of_def dest: unknown_sequence apply_policy_sequence recovery_prefix_sequence)

lemma evaluate_keyed_sequence:
  assumes "evaluate_keyed x st = Inr t"
  shows "last_sequence (tr_state t) = o_sequence (x_ob x)"
  using assms
  by (cases rule: evaluate_keyed_elim)
    (auto simp: result_of_def dest: unknown_sequence evaluate_observed_sequence)

text \<open>Every event of an evaluation is an \<open>emit\<close> of its context, and no two have the same kind.\<close>

definition emitted :: "eval_ctx \<Rightarrow> event \<Rightarrow> bool" where
  "emitted x e \<longleftrightarrow> (\<exists>st reason. emit x st (e_type e) reason = Inr e)"

lemma emittedI: "emit x st kind reason = Inr e \<Longrightarrow> emitted x e"
  using emit_fields(1) by (fastforce simp: emitted_def)

lemma emitted_id:
  "emitted x e \<Longrightarrow> e_id e = event_id (x_env x) (x_ev x) (x_key x) (e_type e) (o_sequence (x_ob x)) \<and>
     e_entity e = x_key x \<and> e_at e = x_now x"
  by (auto simp: emitted_def dest: emit_fields)

lemma unknown_emitted:
  "unknown x st evs reason = Inr t \<Longrightarrow> list_all (emitted x) evs \<Longrightarrow> list_all (emitted x) (tr_events t)"
  by (auto simp: unknown_def Let_def dest: emittedI split: if_splits)

lemma apply_policy_emitted:
  "apply_policy x st evs matched = Inr t \<Longrightarrow> list_all (emitted x) evs \<Longrightarrow> list_all (emitted x) (tr_events t)"
  by (erule apply_policy_elim) (simp_all add: result_of_def emittedI)

lemma recovery_prefix_emitted:
  "recovery_prefix x st evs st2 evs2 \<Longrightarrow> list_all (emitted x) evs \<Longrightarrow> list_all (emitted x) evs2"
  by (auto simp: recovery_prefix_def dest: emittedI)

lemma evaluate_observed_emitted:
  assumes "evaluate_observed x st evs = Inr t" "list_all (emitted x) evs"
  shows "list_all (emitted x) (tr_events t)"
  using assms(1)
  by (cases rule: evaluate_observed_elim)
    (use assms(2) in \<open>auto simp: result_of_def dest: unknown_emitted apply_policy_emitted recovery_prefix_emitted\<close>)

lemma evaluate_keyed_emitted:
  assumes "evaluate_keyed x st = Inr t"
  shows "list_all (emitted x) (tr_events t)"
  using assms
proof (cases rule: evaluate_keyed_elim)
  case (Observed st1 evs)
  then have "list_all (emitted x) evs" by (auto simp: gap_prefix_def dest: emittedI)
  with Observed(4) show ?thesis by (rule evaluate_observed_emitted)
qed (auto simp: result_of_def dest: unknown_emitted emittedI)

lemma Evaluate_emitted:
  assumes t: "Evaluate env ev st ob now = Inr t"
  obtains key where "evaluation_key ev st ob = Inr key"
    "\<And>e. e \<in> set (tr_events t) \<Longrightarrow> e_id e = event_id env ev key (e_type e) (o_sequence ob)"
    "\<And>e. e \<in> set (tr_events t) \<Longrightarrow> e_entity e = key \<and> e_at e = now"
    "last_sequence (tr_state t) = o_sequence ob" "last_sequence st < o_sequence ob"
  using t
proof (cases rule: Evaluate_elim)
  case (1 key x st0)
  have "emitted x e" if "e \<in> set (tr_events t)" for e
    using evaluate_keyed_emitted [OF 1(3)] that by (simp add: list_all_iff)
  with 1 emitted_id [of x] evaluate_keyed_sequence [OF 1(3)] that [of key] show thesis by simp
qed

lemma Evaluate_distinct:
  assumes t: "Evaluate env ev st ob now = Inr t"
  shows "distinct (map e_type (tr_events t))"
  using t
proof (cases rule: Evaluate_outcome)
  case (Undecided st0 key)
  then show ?thesis by (simp add: steady_def)
next
  case (Decided x st0 key st1 evs1 st2 matched reason st3 evs3)
  then have d: "distinct (map e_type evs3)" and q: "list_all quiet evs3" by (simp_all add: steady_def)
  from Decided(11) show ?thesis
    by (cases rule: apply_policy_elim)
      (use d quiet_types [OF q] in \<open>auto simp: result_of_def dest!: emit_fields(1)\<close>)
qed

text \<open>The entity of a state never changes once it is set.\<close>

lemma evaluation_key_entity:
  assumes "evaluation_key ev st ob = Inr key"
  shows "key \<noteq> ''''" "entity st \<noteq> '''' \<Longrightarrow> key = entity st"
  using assms EntityKey_nonempty
  by (auto simp: evaluation_key_def Let_def split: if_splits)

lemma apply_policy_entity:
  "apply_policy x st evs matched = Inr t \<Longrightarrow> entity (tr_state t) = entity st"
  by (erule apply_policy_elim) (simp_all add: step_simps)

lemma Evaluate_entity:
  assumes t: "Evaluate env ev st ob now = Inr t"
  shows "evaluation_key ev st ob = Inr (entity (tr_state t))"
proof -
  from t obtain key x st0 where x: "st0 = st\<lparr>waiting_reason := '''', entity := key\<rparr>"
    "evaluate_keyed x st0 = Inr t" "evaluation_key ev st ob = Inr key"
    by (rule Evaluate_elim)
  from x(2) have "entity (tr_state t) = entity st0"
    by (cases rule: evaluate_keyed_outcome) (auto simp: steady_def dest!: apply_policy_entity)
  with x(1,3) show ?thesis by simp
qed

section \<open>Event identity\<close>

abbreviation event_kinds :: "string list" where
  "event_kinds \<equiv> [''gap'', ''source_error'', ''source_recovered'', ''firing'', ''recovered'', ''changed'', ''new-event'']"

lemma show_nat_inject: "0 \<le> m \<Longrightarrow> 0 \<le> n \<Longrightarrow> show_nat m = show_nat n \<Longrightarrow> m = n"
  using int_of_show_nat by metis

lemma delimited_inject:
  "q \<notin> set t \<Longrightarrow> q \<notin> set u \<Longrightarrow> t @ q # xs = u @ q # ys \<Longrightarrow> t = u \<and> xs = ys"
  by (induction t arbitrary: u) (auto simp: Cons_eq_append_conv)

lemma json_string_kind:
  assumes "t \<in> set event_kinds"
  shows "json_string t = quoted t \<and> CHR 0x22 \<notin> set t"
proof -
  have "list_all (\<lambda>t. json_string t = quoted t \<and> CHR 0x22 \<notin> set t) event_kinds" by code_simp
  with assms show ?thesis unfolding list_all_iff by blast
qed

lemma event_identity_inject:
  assumes eq: "event_identity_json w r k t n = event_identity_json w r k u m"
    and k: "t \<in> set event_kinds" "u \<in> set event_kinds" and n: "1 \<le> n" "1 \<le> m"
  shows "t = u \<and> n = m"
proof -
  let ?rest = "\<lambda>i. '','' @ quoted ''Sequence'' @ '':'' @ show_int i @ ''}''"
  have "json_string t @ ?rest n = json_string u @ ?rest m"
    using eq unfolding event_identity_json_def append_assoc [symmetric] same_append_eq
    by (simp only: append_assoc same_append_eq)
  then have "t @ CHR 0x22 # ?rest n = u @ CHR 0x22 # ?rest m"
    using json_string_kind [OF k(1)] json_string_kind [OF k(2)] by (simp add: quoted_def)
  then have "t = u \<and> ?rest n = ?rest m"
    using json_string_kind [OF k(1)] json_string_kind [OF k(2)] by (intro delimited_inject) simp_all
  with n show_nat_inject [of n m] show ?thesis by (simp add: show_int_def)
qed

text \<open>The events of a sequence, each with the sequence number of its observation.\<close>

definition evaluate_log ::
  "runtime_env \<Rightarrow> evaluator \<Rightarrow> cstate \<Rightarrow> observation \<Rightarrow> cstate \<times> (int \<times> event) list" where
  "evaluate_log env ev st ob =
     (fst (evaluate_step env ev st ob), map (Pair (o_sequence ob)) (snd (evaluate_step env ev st ob)))"

lemma run_evaluate_log:
  "fst (run (evaluate_log env ev) st obs) = fst (run (evaluate_step env ev) st obs) \<and>
   map snd (snd (run (evaluate_log env ev) st obs)) = snd (run (evaluate_step env ev) st obs)"
  by (induction obs arbitrary: st) (simp_all add: run_Cons evaluate_log_def comp_def)

lemma evaluate_log_elim:
  obtains "evaluate_log env ev st ob = (st, [])"
  | t where "Evaluate env ev st ob (o_accepted_at ob) = Inr t"
      "evaluate_log env ev st ob = (tr_state t, map (Pair (o_sequence ob)) (tr_events t))"
  by (cases "Evaluate env ev st ob (o_accepted_at ob)") (auto simp: evaluate_log_def evaluate_step_def)

interpretation identities: fresh_keys "evaluate_log env ev" last_sequence "\<lambda>(n, e). (n, e_type e)"
  for env ev
proof
  fix st ob
  show "last_sequence st \<le> last_sequence (fst (evaluate_log env ev st ob))"
    by (cases rule: evaluate_log_elim [of env ev st ob]) (auto elim: Evaluate_emitted)
  show "distinct (map (\<lambda>(n, e). (n, e_type e)) (snd (evaluate_log env ev st ob)))"
    by (cases rule: evaluate_log_elim [of env ev st ob])
      (auto simp: distinct_map inj_on_def dest!: Evaluate_distinct)
  fix ne :: "int \<times> event"
  assume "ne \<in> set (snd (evaluate_log env ev st ob))"
  then show "last_sequence st < fst ((\<lambda>(n, e). (n, e_type e)) ne) \<and>
      fst ((\<lambda>(n, e). (n, e_type e)) ne) \<le> last_sequence (fst (evaluate_log env ev st ob))"
    by (cases rule: evaluate_log_elim [of env ev st ob]) (auto elim: Evaluate_emitted)
qed

lemma Evaluate_kinds:
  assumes t: "Evaluate env ev st ob now = Inr t" and e: "e \<in> set (tr_events t)"
  shows "e_type e \<in> set event_kinds"
  using t
proof (cases rule: Evaluate_outcome)
  case (Undecided st0 key)
  with e show ?thesis by (auto simp: steady_def list_all_iff quiet_def)
next
  case (Decided x st0 key st1 evs1 st2 matched reason st3 evs3)
  then have q: "e \<in> set evs3 \<Longrightarrow> e_type e \<in> set event_kinds"
    by (auto simp: steady_def list_all_iff quiet_def)
  from Decided(11) show ?thesis
    by (cases rule: apply_policy_elim) (use e q in \<open>auto simp: result_of_def dest!: emit_fields(1)\<close>)
qed

definition identified :: "runtime_env \<Rightarrow> evaluator \<Rightarrow> string \<Rightarrow> int \<times> event \<Rightarrow> bool" where
  "identified env ev key = (\<lambda>(n, e). e_id e = event_id env ev key (e_type e) n \<and>
     e_type e \<in> set event_kinds \<and> 1 \<le> n)"

lemma evaluate_log_identified:
  assumes "Evaluate env ev st ob (o_accepted_at ob) = Inr t"
  shows "list_all (identified env ev (entity (tr_state t))) (map (Pair (o_sequence ob)) (tr_events t))"
proof -
  from assms have "1 \<le> o_sequence ob" by (rule Evaluate_elim)
  with assms show ?thesis
    using Evaluate_entity [OF assms] Evaluate_kinds [OF assms]
    by (elim Evaluate_emitted) (auto simp: identified_def list_all_iff)
qed

lemma run_identified:
  "\<exists>key. (entity st \<noteq> '''' \<longrightarrow> key = entity st) \<and>
     list_all (identified env ev key) (snd (run (evaluate_log env ev) st obs))"
proof (induction obs arbitrary: st)
  case (Cons ob obs)
  show ?case
  proof (cases rule: evaluate_log_elim [of env ev st ob])
    case 1
    with Cons.IH [of st] show ?thesis by (simp add: run_Cons)
  next
    case (2 t)
    let ?k = "entity (tr_state t)"
    have k: "?k \<noteq> ''''" "entity st \<noteq> '''' \<longrightarrow> ?k = entity st"
      using evaluation_key_entity [OF Evaluate_entity [OF 2(1)]] by auto
    from Cons.IH [of "tr_state t"] k(1)
    have "list_all (identified env ev ?k) (snd (run (evaluate_log env ev) (tr_state t) obs))" by blast
    with evaluate_log_identified [OF 2(1)] k(2) show ?thesis
      by (intro exI [of _ ?k]) (simp add: run_Cons 2(2))
  qed
qed auto

text \<open>C13: the identifiers of all events of any sequence of observations of one entity are digests
  of pairwise distinct documents: as long as the digest does not collide no two events share an
  identifier, and the store's unique index on it drops only true repetitions.\<close>

theorem event_documents_distinct:
  "\<exists>docs. distinct docs \<and> map e_id (snd (run (evaluate_step env ev) st obs)) = map (env_sha256 env) docs"
proof -
  let ?log = "snd (run (evaluate_log env ev) st obs)"
  obtain key where key: "list_all (identified env ev key) ?log" using run_identified by blast
  define doc where "doc = (\<lambda>(n, e :: event). event_identity_json (md_id (d_metadata (ev_definition ev)))
    (ev_revision ev) key (e_type e) n)"
  have "inj_on (\<lambda>(n, e). (n, e_type e)) (set ?log)" "distinct ?log"
    using identities.run_distinct [of env ev st obs] by (simp_all add: distinct_map)
  moreover have "inj_on doc (set ?log)"
  proof (rule inj_onI)
    fix p q assume pq: "p \<in> set ?log" "q \<in> set ?log" "doc p = doc q"
    with key have "identified env ev key p" "identified env ev key q" by (simp_all add: list_all_iff)
    with pq(3) have "fst p = fst q \<and> e_type (snd p) = e_type (snd q)"
      unfolding doc_def identified_def split_def by (metis event_identity_inject)
    with calculation(1) pq(1,2) show "p = q" unfolding inj_on_def split_def by blast
  qed
  ultimately have "distinct (map doc ?log)" by (simp add: distinct_map)
  moreover have "map e_id (map snd ?log) = map (env_sha256 env) (map doc ?log)"
    using key by (auto simp: doc_def identified_def list_all_iff event_id_def Revision_def split_def)
  ultimately show ?thesis using run_evaluate_log by metis
qed

section \<open>Bounds of the state\<close>

text \<open>What \<open>New\<close> checks of a definition.\<close>

definition configured :: "evaluator \<Rightarrow> bool" where
  "configured ev \<longleftrightarrow> 1 \<le> p_consecutive (ev_policy ev) \<and> 1 \<le> p_recover_after (ev_policy ev) \<and>
     1 \<le> l_max_samples (ev_limits ev)"

definition counters_ok :: "evaluator \<Rightarrow> cstate \<Rightarrow> bool" where
  "counters_ok ev st \<longleftrightarrow>
     0 \<le> matches st \<and> matches st \<le> p_consecutive (ev_policy ev) \<and>
     0 \<le> recoveries st \<and> recoveries st < p_recover_after (ev_policy ev) \<and>
     (0 < recoveries st \<longrightarrow> is_open st \<and> matches st = 0) \<and>
     (signal_condition ev \<longrightarrow> recoveries st = 0)"

definition evidence_ok :: "evaluator \<Rightarrow> cstate \<Rightarrow> bool" where
  "evidence_ok ev st \<longleftrightarrow>
     (if recoveries st = 0 then int (length (evidence st)) < matches st + p_recover_after (ev_policy ev)
      else int (length (evidence st)) = recoveries st)"

definition memory_ok :: "evaluator \<Rightarrow> cstate \<Rightarrow> bool" where
  "memory_ok ev st \<longleftrightarrow>
     int (length (samples st)) \<le> l_max_samples (ev_limits ev) \<and>
     alist_wf (seen st) \<and> int (length (seen st)) \<le> l_max_samples (ev_limits ev)"

definition state_bounded :: "evaluator \<Rightarrow> cstate \<Rightarrow> bool" where
  "state_bounded ev st \<longleftrightarrow> counters_ok ev st \<and> evidence_ok ev st \<and> memory_ok ev st"

lemma reset_counts_ok:
  "configured ev \<Longrightarrow> counters_ok ev (reset_counts st)" "configured ev \<Longrightarrow> evidence_ok ev (reset_counts st)"
  "memory_ok ev (reset_counts st) = memory_ok ev st"
  by (simp_all add: configured_def counters_ok_def evidence_ok_def memory_ok_def reset_counts_def)

lemma ok_ignores [simp]:
  "counters_ok ev (st\<lparr>last_at := t\<rparr>) = counters_ok ev st"
  "counters_ok ev (st\<lparr>last_sequence := n\<rparr>) = counters_ok ev st"
  "counters_ok ev (st\<lparr>last_fired := t\<rparr>) = counters_ok ev st"
  "counters_ok ev (st\<lparr>entity := k\<rparr>) = counters_ok ev st"
  "counters_ok ev (st\<lparr>waiting_reason := w\<rparr>) = counters_ok ev st"
  "counters_ok ev (st\<lparr>evidence := es\<rparr>) = counters_ok ev st"
  "counters_ok ev (st\<lparr>source_unhealthy := b\<rparr>) = counters_ok ev st"
  "counters_ok ev (st\<lparr>health_event := s\<rparr>) = counters_ok ev st"
  "counters_ok ev (st\<lparr>incident_event := s\<rparr>) = counters_ok ev st"
  "evidence_ok ev (st\<lparr>last_at := t\<rparr>) = evidence_ok ev st"
  "evidence_ok ev (st\<lparr>last_sequence := n\<rparr>) = evidence_ok ev st"
  "evidence_ok ev (st\<lparr>last_fired := t\<rparr>) = evidence_ok ev st"
  "evidence_ok ev (st\<lparr>entity := k\<rparr>) = evidence_ok ev st"
  "evidence_ok ev (st\<lparr>waiting_reason := w\<rparr>) = evidence_ok ev st"
  "evidence_ok ev (st\<lparr>source_unhealthy := b\<rparr>) = evidence_ok ev st"
  "evidence_ok ev (st\<lparr>health_event := s\<rparr>) = evidence_ok ev st"
  "evidence_ok ev (st\<lparr>incident_event := s\<rparr>) = evidence_ok ev st"
  "evidence_ok ev (st\<lparr>is_open := b\<rparr>) = evidence_ok ev st"
  by (simp_all add: counters_ok_def evidence_ok_def)

lemma memory_ok_eq:
  "samples st1 = samples st \<Longrightarrow> seen st1 = seen st \<Longrightarrow> memory_ok ev st1 = memory_ok ev st"
  by (simp add: memory_ok_def)

lemma live_ids_ok:
  "alist_wf s \<Longrightarrow> alist_wf (live_ids now s) \<and> length (live_ids now s) \<le> length s"
  by (simp add: live_ids_def alist_wf_filter)

lemma unknown_state:
  assumes "unknown x st evs reason = Inr t"
  obtains h where "tr_state t = st\<lparr>matches := 0, recoveries := 0, evidence := [], source_unhealthy := True,
    health_event := h, last_sequence := o_sequence (x_ob x), last_at := max (x_now x) (last_at st)\<rparr>"
proof (cases "source_unhealthy st")
  case True
  let ?s = "st\<lparr>matches := 0, recoveries := 0, evidence := [], last_sequence := o_sequence (x_ob x),
    last_at := max (x_now x) (last_at st)\<rparr>"
  from True assms have "tr_state t = ?s" by (auto simp: unknown_def Let_def)
  also have "?s = ?s\<lparr>source_unhealthy := True, health_event := health_event st\<rparr>"
    using True by simp
  finally show thesis using that [of "health_event st"] by simp
next
  case False
  with assms obtain e where "emit x (st\<lparr>matches := 0, recoveries := 0, evidence := []\<rparr>) ''source_error'' reason = Inr e"
    unfolding unknown_def Let_def by auto
  with False assms show thesis
    by (intro that [of "e_id e"]) (auto simp: unknown_def Let_def max_def)
qed

lemma unknown_bounded:
  assumes "unknown x st evs reason = Inr t" "configured ev" "memory_ok ev st"
  shows "state_bounded ev (tr_state t)"
proof -
  from assms(1) have "matches (tr_state t) = 0" "recoveries (tr_state t) = 0" "evidence (tr_state t) = []"
    "samples (tr_state t) = samples st" "seen (tr_state t) = seen st"
    by (rule unknown_state; simp)+
  with assms(2,3) show ?thesis
    by (simp add: state_bounded_def counters_ok_def evidence_ok_def configured_def memory_ok_def)
qed

lemma apply_policy_bounded:
  assumes t: "apply_policy x st evs matched = Inr t" and c: "configured (x_ev x)"
    and st: "counters_ok (x_ev x) st" "memory_ok (x_ev x) st"
      "signal_condition (x_ev x) \<or> evidence_ok (x_ev x) st"
  shows "state_bounded (x_ev x) (tr_state t)"
  using t
proof (cases rule: apply_policy_elim)
  case (Signalled e)
  with st c show ?thesis
    by (simp add: state_bounded_def step_simps memory_ok_def) (simp add: counters_ok_def evidence_ok_def configured_def)
next
  case Quiet
  with st c show ?thesis
    by (simp add: state_bounded_def step_simps memory_ok_def) (simp add: counters_ok_def evidence_ok_def configured_def)
qed (use st c in \<open>auto simp: state_bounded_def step_simps counted_def recovering_def counters_ok_def
  evidence_ok_def configured_def memory_ok_def split: if_splits\<close>)

lemma signal_memory:
  assumes "signal ev st v n now = (st1, k, m, r)" "memory_ok ev st"
  shows "memory_ok ev st1"
proof (cases "c_operator (ev_condition ev) = ''changed''")
  case True
  with assms have "signal_changed ev st v n = (st1, k, m, r)" by (simp add: signal_def)
  then show ?thesis using assms(2) by (cases rule: signal_changed_elim) (simp_all add: memory_ok_def)
next
  case False
  with assms have "signal_new_event ev st v now = (st1, k, m, r)" by (simp add: signal_def)
  then show ?thesis
    using assms(2) live_ids_ok [of "seen st" now]
    by (cases rule: signal_new_event_elim) (auto simp: memory_ok_def alist_wf_put length_alist_put)
qed

lemma numeric_memory:
  assumes "numeric_predicate ev expr st number n now = (st1, k, m, r)" "memory_ok ev st"
  shows "memory_ok ev st1"
proof -
  let ?keep = "filter (\<lambda>s. sm_at s > now - ev_max_window ev \<and> \<not> sm_at s > now) (samples st)"
  have "samples st1 = ?keep \<or>
     int (length ?keep) < l_max_samples (ev_limits ev) \<and>
     samples st1 = ?keep @ [\<lparr>sm_at = now, sm_value = number, sm_sequence = n\<rparr>]"
    using assms(1) by (auto simp: numeric_predicate_def Let_def split: if_splits sum.splits)
  moreover have "length ?keep \<le> length (samples st)" by simp
  ultimately have "int (length (samples st1)) \<le> l_max_samples (ev_limits ev)"
    using assms(2) unfolding memory_ok_def by (elim disjE conjE) (simp_all del: length_filter_le)
  moreover from numeric_frame [OF assms(1)] have "seen st1 = seen st" by simp
  ultimately show ?thesis using assms(2) by (simp add: memory_ok_def)
qed

lemma predicate_memory:
  assumes "predicate ev st ob now = (st1, k, m, r)" "memory_ok ev st"
  shows "memory_ok ev st1" "signal_condition ev \<or> evidence st1 = evidence st"
proof -
  from assms(1) have "memory_ok ev st1 \<and> (signal_condition ev \<or> evidence st1 = evidence st)"
  proof (cases rule: predicate_elim)
    case Missing
    from missing_frame [OF this] assms(2) show ?thesis by (simp add: memory_ok_def)
  next
    case (Signal v)
    from Signal(2) signal_memory [OF Signal(3) assms(2)] show ?thesis by simp
  next
    case (Numeric expr number)
    from numeric_frame [OF Numeric(2)] numeric_memory [OF Numeric(2) assms(2)] show ?thesis by simp
  qed (use assms(2) in simp)
  then show "memory_ok ev st1" "signal_condition ev \<or> evidence st1 = evidence st" by simp_all
qed

lemma clock_memory: "memory_ok ev st \<Longrightarrow> configured ev \<Longrightarrow> memory_ok ev (clock_state ev now st)"
  using live_ids_ok [of "seen st" "last_at st"]
  by (auto simp: memory_ok_def clock_state_def configured_def Let_def alist_wf_def comp_def split_def)

lemma recovery_prefix_ok:
  assumes "recovery_prefix x st evs st2 evs2"
  shows "counters_ok ev st2 = counters_ok ev st" "evidence_ok ev st2 = evidence_ok ev st"
    "memory_ok ev st2 = memory_ok ev st"
  using assms by (auto simp: recovery_prefix_def memory_ok_def)

lemma frame_counters: "incident_frame st st1 \<Longrightarrow> counters_ok ev st1 = counters_ok ev st"
  by (simp add: incident_frame_def counters_ok_def)

lemma evaluate_observed_bounded:
  assumes t: "evaluate_observed x st evs = Inr t" and c: "configured (x_ev x)"
    and b: "state_bounded (x_ev x) st"
  shows "state_bounded (x_ev x) (tr_state t)"
  using t
proof (cases rule: evaluate_observed_elim)
  case (Idle reason)
  with b show ?thesis by (simp add: state_bounded_def step_simps memory_ok_def)
next
  case (Waiting w st2 evs2)
  from Waiting(2) recovery_prefix_ok [OF Waiting(1)] c b show ?thesis
    by (simp add: state_bounded_def step_simps reset_counts_ok memory_ok_def reset_counts_def)
      (simp add: counters_ok_def evidence_ok_def configured_def)
next
  case (Unknown reason)
  with c b show ?thesis by (intro unknown_bounded) (auto simp: state_bounded_def)
next
  case (Undecided st1 m reason)
  with c b predicate_memory [OF Undecided(1)] show ?thesis
    by (intro unknown_bounded) (auto simp: state_bounded_def)
next
  case (Decided st1 matched reason st2 evs2)
  have f: "incident_frame st st1" by (rule predicate_frame [OF Decided(1)])
  have "counters_ok (x_ev x) st2" "memory_ok (x_ev x) st2" "signal_condition (x_ev x) \<or> evidence_ok (x_ev x) st2"
    using recovery_prefix_ok [OF Decided(2)] frame_counters [OF f] predicate_memory [OF Decided(1)] b f
    by (auto simp: state_bounded_def evidence_ok_def incident_frame_def)
  with Decided(3) c show ?thesis by (intro apply_policy_bounded)
qed

lemma Evaluate_bounded:
  assumes t: "Evaluate env ev st ob now = Inr t" and c: "configured ev" and b: "state_bounded ev st"
  shows "state_bounded ev (tr_state t)"
proof -
  from t obtain key x st0 where x: "x = \<lparr>x_env = env, x_ev = ev, x_ob = ob, x_key = key, x_now = now\<rparr>"
    "st0 = st\<lparr>waiting_reason := '''', entity := key\<rparr>" "evaluate_keyed x st0 = Inr t"
    by (rule Evaluate_elim)
  from x(2) b have b0: "state_bounded ev st0" by (simp add: state_bounded_def memory_ok_def)
  then have m0: "memory_ok ev st0" by (simp add: state_bounded_def)
  have xev: "x_ev x = ev" by (simp add: x(1))
  from x(3) show ?thesis
  proof (cases rule: evaluate_keyed_elim)
    case Clock
    show ?thesis by (rule unknown_bounded [OF Clock(2) c]) (simp add: xev clock_memory m0 c)
  next
    case Backwards
    show ?thesis by (rule unknown_bounded [OF Backwards(2) c m0])
  next
    case (Gap e)
    with c m0 show ?thesis
      by (simp add: state_bounded_def step_simps reset_counts_ok memory_ok_def reset_counts_def)
        (simp add: counters_ok_def evidence_ok_def configured_def)
  next
    case (Observed st1 evs)
    from Observed(3) b0 c m0 have "state_bounded ev st1"
      by (auto simp: gap_prefix_def state_bounded_def reset_counts_ok)
    with evaluate_observed_bounded [OF Observed(4)] c show ?thesis by (simp add: xev)
  qed
qed

interpretation bounded: step_invariant "evaluate_step env ev" "\<lambda>_. True"
  "\<lambda>st. configured ev \<longrightarrow> state_bounded ev st"
  for env ev
  by unfold_locales (auto simp: evaluate_step_def Evaluate_bounded split: sum.splits)

lemma New_configured: "New env def rv = Inr ev \<Longrightarrow> configured ev"
  by (auto simp: New_def configured_def copy_definition_def Let_def split: if_splits option.splits)

text \<open>C14: an evaluator accepted by \<open>New\<close> keeps the state of an entity bounded over every
  sequence of observations: match and recovery counters stay within the policy's numbers, a
  recovery count only exists while an incident is open, and the retained evidence, samples and
  event identifiers never exceed what the policy and \<open>limits.maxSamples\<close> allow.\<close>

theorem state_stays_bounded:
  assumes "New env def rv = Inr ev"
  shows "state_bounded ev (fst (run (evaluate_step env ev) zero_state obs))"
proof -
  have c: "configured ev" by (rule New_configured [OF assms])
  then have "state_bounded ev zero_state"
    by (simp add: state_bounded_def counters_ok_def evidence_ok_def memory_ok_def configured_def
        zero_state_def alist_wf_def)
  with c bounded.run_inv [of ev zero_state obs env] show ?thesis by (simp add: list_all_iff)
qed

theorem state_stays_bounded_witness:
  "New ex_env ex_definition ''r1'' = Inr ex_evaluator \<and>
   state_bounded ex_evaluator (fst (run (evaluate_step ex_env ex_evaluator) zero_state
     [ex_status 1 503, ex_status 2 503, ex_status 3 200]))"
proof -
  have "New ex_env ex_definition ''r1'' = Inr ex_evaluator" by code_simp
  with state_stays_bounded [OF this] show ?thesis by blast
qed

section \<open>Undecided observations\<close>

lemma apply_policy_known: "apply_policy x st evs matched = Inr t \<Longrightarrow> tr_known t \<and> tr_matched t = matched"
  by (erule apply_policy_elim) (simp_all add: result_of_def)

text \<open>C15: an observation that does not decide the condition (unknown, waiting, unchanged, filtered,
  a gap, a clock discontinuity) holds the incident: it neither opens nor closes it nor changes its
  event, and raises no condition event.\<close>

theorem undecided_holds_incident:
  assumes t: "Evaluate env ev st ob now = Inr t" and k: "\<not> tr_known t"
  shows "is_open (tr_state t) = is_open st \<and> incident_event (tr_state t) = incident_event st \<and>
    list_all (\<lambda>e. e_type e \<in> {''gap'', ''source_error'', ''source_recovered''}) (tr_events t)"
  using t
proof (cases rule: Evaluate_outcome)
  case (Undecided st0 key)
  then show ?thesis by (simp add: steady_def quiet_def [abs_def])
next
  case (Decided x st0 key st1 evs1 st2 matched reason st3 evs3)
  with k apply_policy_known [OF Decided(11)] show ?thesis by simp
qed

definition ex_open :: cstate where
  "ex_open = fst (run (evaluate_step ex_env ex_evaluator) zero_state [ex_status 1 503, ex_status 2 503])"

theorem undecided_holds_incident_witness:
  "\<exists>t. Evaluate ex_env ex_evaluator ex_open (ex_failure 3) (90 * second) = Inr t \<and> \<not> tr_known t \<and>
     map e_type (tr_events t) = [''source_error''] \<and> is_open (tr_state t)"
proof -
  have "outcome (Evaluate ex_env ex_evaluator ex_open (ex_failure 3) (90 * second)) =
      Some (False, False, [''source_error''])"
    by code_simp
  then obtain t where t: "Evaluate ex_env ex_evaluator ex_open (ex_failure 3) (90 * second) = Inr t"
    "\<not> tr_known t" "map e_type (tr_events t) = [''source_error'']"
    by (metis outcome_obtain)
  have "is_open ex_open" by code_simp
  with undecided_holds_incident [OF t(1,2)] have "is_open (tr_state t)" by simp
  with t show ?thesis by (intro exI conjI)
qed

end
