(* ===== verification/Transition_Progress.thy ===== *)
theory Transition_Progress
  imports Transition_Runs
begin

text \<open>
  Laws of the evaluator over time: an event identifier is not reported again within its
  deduplication window, and enough decided observations open and close an incident.
\<close>

section \<open>Deduplication\<close>

text \<open>An identifier is remembered up to a time, or that time has passed.\<close>

definition remembers :: "string \<Rightarrow> time \<Rightarrow> cstate \<Rightarrow> bool" where
  "remembers i until st \<longleftrightarrow> alist_wf (seen st) \<and>
     ((\<exists>expiry. map_of (seen st) i = Some expiry \<and> until \<le> expiry) \<or>
      (\<not> is_zero (last_at st) \<and> until \<le> last_at st))"

lemma map_of_live_ids:
  "alist_wf s \<Longrightarrow> map_of (live_ids now s) i =
     (case map_of s i of None \<Rightarrow> None | Some e \<Rightarrow> if now < e then Some e else None)"
  unfolding live_ids_def by (rule map_of_filter_wf)

lemma seen_cases:
  assumes "predicate ev st ob now = (st1, k, m, r)" "alist_wf (seen st)"
  shows "seen st1 = seen st \<or> seen st1 = live_ids now (seen st) \<or>
    (\<exists>j e. seen st1 = alist_put j e (live_ids now (seen st)) \<and> map_of (live_ids now (seen st)) j = None)"
  using assms(1)
proof (cases rule: predicate_elim)
  case Missing
  from missing_frame [OF this] show ?thesis by simp
next
  case (Signal v)
  show ?thesis
  proof (cases "c_operator (ev_condition ev) = ''changed''")
    case True
    with Signal(3) have "signal_changed ev st v (o_sequence ob) = (st1, k, m, r)" by (simp add: signal_def)
    then show ?thesis by (cases rule: signal_changed_elim) simp_all
  next
    case False
    with Signal(3) have "signal_new_event ev st v now = (st1, k, m, r)" by (simp add: signal_def)
    then show ?thesis by (cases rule: signal_new_event_elim) auto
  qed
next
  case (Numeric expr number)
  from numeric_frame [OF Numeric(2)] show ?thesis by simp
qed simp

text \<open>What the predicate forgets has expired.\<close>

lemma predicate_remembers:
  assumes p: "predicate ev st ob now = (st1, k, m, r)" and rm: "remembers i until st"
    and ord: "is_zero (last_at st) \<or> last_at st \<le> now"
  shows "alist_wf (seen st1)" "(\<exists>expiry. map_of (seen st1) i = Some expiry \<and> until \<le> expiry) \<or> until \<le> now"
proof -
  from rm have wf: "alist_wf (seen st)" by (simp add: remembers_def)
  let ?live = "live_ids now (seen st)"
  have lwf: "alist_wf ?live" using live_ids_ok [OF wf] by blast
  from seen_cases [OF p wf] lwf wf show "alist_wf (seen st1)" by (auto simp: alist_wf_put)
  from rm ord consider e where "map_of (seen st) i = Some e" "until \<le> e" | "until \<le> now"
    by (auto simp: remembers_def)
  then show "(\<exists>expiry. map_of (seen st1) i = Some expiry \<and> until \<le> expiry) \<or> until \<le> now"
  proof cases
    case 1
    then have "map_of ?live i = Some e \<or> until \<le> now" by (simp add: map_of_live_ids [OF wf])
    with 1 seen_cases [OF p wf] show ?thesis by auto
  qed simp
qed

lemma remembers_later:
  assumes "alist_wf (seen st)" "(\<exists>expiry. map_of (seen st) i = Some expiry \<and> until \<le> expiry) \<or> until \<le> now"
    "now \<le> last_at st" "\<not> is_zero (last_at st)"
  shows "remembers i until st"
  using assms by (auto simp: remembers_def)

lemma apply_policy_seen:
  "apply_policy x st evs matched = Inr t \<Longrightarrow> seen (tr_state t) = seen st \<and> last_at (tr_state t) = x_now x"
  by (erule apply_policy_elim) (simp_all add: step_simps counted_def recovering_def)

lemma unknown_seen:
  assumes "unknown x st evs reason = Inr t"
  shows "seen (tr_state t) = seen st \<and> last_at (tr_state t) = max (x_now x) (last_at st)"
  using assms by (rule unknown_state) simp

lemma remembers_keep:
  assumes "remembers i until st" "seen st1 = seen st" "last_at st \<le> last_at st1 \<or> is_zero (last_at st)"
    "\<not> is_zero (last_at st1)"
  shows "remembers i until st1"
  using assms by (auto simp: remembers_def)

lemma evaluate_observed_remembers:
  assumes t: "evaluate_observed x st evs = Inr t" and rm: "remembers i until st"
    and ord: "is_zero (last_at st) \<or> last_at st \<le> x_now x" and now: "zero_time < x_now x"
  shows "remembers i until (tr_state t)"
  using t
proof (cases rule: evaluate_observed_elim)
  case (Idle reason)
  with ord now show ?thesis by (intro remembers_keep [OF rm]) (auto simp: step_simps)
next
  case (Waiting w st2 evs2)
  with ord now show ?thesis
    by (intro remembers_keep [OF rm]) (auto simp: step_simps recovery_prefix_def reset_counts_def)
next
  case (Unknown reason)
  with ord now show ?thesis
    by (intro remembers_keep [OF rm]) (auto dest!: unknown_seen simp: max_def)
next
  case (Undecided st1 m reason)
  from predicate_frame [OF Undecided(1)] have "last_at st1 = last_at st" by (simp add: incident_frame_def)
  with unknown_seen [OF Undecided(2)] predicate_remembers [OF Undecided(1) rm ord] ord now show ?thesis
    by (intro remembers_later [where now = "x_now x"]) (auto simp: max_def)
next
  case (Decided st1 matched reason st2 evs2)
  from Decided(2) have "seen st2 = seen st1" by (auto simp: recovery_prefix_def)
  with apply_policy_seen [OF Decided(3)] predicate_remembers [OF Decided(1) rm ord] now show ?thesis
    by (intro remembers_later [where now = "x_now x"]) auto
qed

lemma Evaluate_remembers:
  assumes t: "Evaluate env ev st ob now = Inr t" and rm: "remembers i until st"
    and h: "o_health ob \<noteq> ''clock''" "zero_time < now"
  shows "remembers i until (tr_state t)"
proof -
  from t obtain key x st0 where x: "x = \<lparr>x_env = env, x_ev = ev, x_ob = ob, x_key = key, x_now = now\<rparr>"
    "st0 = st\<lparr>waiting_reason := '''', entity := key\<rparr>" "evaluate_keyed x st0 = Inr t"
    by (rule Evaluate_elim)
  from rm x(2) have rm0: "remembers i until st0" by (simp add: remembers_def)
  have now: "zero_time < x_now x" using x h(2) by simp
  from x(3) show ?thesis
  proof (cases rule: evaluate_keyed_elim)
    case Clock
    with h(1) x(1) show ?thesis by simp
  next
    case Backwards
    with now show ?thesis
      by (intro remembers_keep [OF rm0]) (auto dest!: unknown_seen simp: max_def split: if_splits)
  next
    case (Gap e)
    with now show ?thesis by (intro remembers_keep [OF rm0]) (auto simp: step_simps reset_counts_def)
  next
    case (Observed st1 evs)
    then have "seen st1 = seen st0" "last_at st1 = last_at st0"
      by (auto simp: gap_prefix_def reset_counts_def)
    with rm0 Observed(2) show ?thesis
      by (intro evaluate_observed_remembers [OF Observed(4) _ _ now]) (auto simp: remembers_def)
  qed
qed

text \<open>Observations of an undisturbed clock; accepted times lie after the zero time.\<close>

definition steady_clock_ob :: "observation \<Rightarrow> bool" where
  "steady_clock_ob ob \<longleftrightarrow> o_health ob \<noteq> ''clock'' \<and> zero_time < o_accepted_at ob"

interpretation memory: step_invariant "evaluate_step env ev" steady_clock_ob "remembers i until"
  for env ev i until
  by unfold_locales (auto simp: evaluate_step_def steady_clock_ob_def Evaluate_remembers split: sum.splits)

abbreviation event_condition :: "evaluator \<Rightarrow> bool" where
  "event_condition ev \<equiv> c_operator (ev_condition ev) = ''new-event'' \<and> c_missing_for (ev_condition ev) = ''''"

text \<open>A match of an event condition: the identifier was not live, and is now remembered.\<close>

lemma Evaluate_new_event:
  assumes t: "Evaluate env ev st ob now = Inr t" "tr_matched t" and ev: "event_condition ev"
    and i: "map_of (o_fields ob) (c_field (ev_condition ev)) = Some (VStr i)" and wf: "alist_wf (seen st)"
  shows "\<not> is_zero now" "is_zero (last_at st) \<or> last_at st \<le> now"
    "map_of (live_ids now (seen st)) i = None"
    "remembers i (now + duration_or_zero (c_dedup_for (ev_condition ev))) (tr_state t)"
proof -
  from t obtain x st0 key st1 evs1 st2 matched reason st3 evs3 where d:
    "x = \<lparr>x_env = env, x_ev = ev, x_ob = ob, x_key = key, x_now = now\<rparr>"
    "st0 = st\<lparr>waiting_reason := '''', entity := key\<rparr>" "\<not> is_zero now"
    "\<not> (\<not> is_zero (last_at st) \<and> now < last_at st)" "gap_prefix x st0 st1 evs1"
    "predicate ev st1 ob now = (st2, True, matched, reason)"
    "recovery_prefix x st2 evs1 st3 evs3" "apply_policy x st3 evs3 matched = Inr t"
    by (cases rule: Evaluate_outcome) auto
  from d(2,5) have s1: "seen st1 = seen st" by (auto simp: gap_prefix_def reset_counts_def)
  have m: "matched" using apply_policy_known [OF d(8)] t(2) by simp
  have "signal_new_event ev st1 (VStr i) now = (st2, True, matched, reason)"
    using d(6) ev i by (simp add: predicate_def signal_def)
  then have n: "map_of (live_ids now (seen st)) i = None"
    and s2: "seen st2 = alist_put i (now + duration_or_zero (c_dedup_for (ev_condition ev))) (live_ids now (seen st))"
    by (cases rule: signal_new_event_elim; use m s1 in simp)+
  show "\<not> is_zero now" "is_zero (last_at st) \<or> last_at st \<le> now" using d(3,4) by auto
  show "map_of (live_ids now (seen st)) i = None" by (rule n)
  have "seen (tr_state t) = seen st2" "last_at (tr_state t) = now"
    using apply_policy_seen [OF d(8)] d(1,7) by (auto simp: recovery_prefix_def)
  with s2 live_ids_ok [OF wf, of now] d(3)
  show "remembers i (now + duration_or_zero (c_dedup_for (ev_condition ev))) (tr_state t)"
    by (auto simp: remembers_def alist_wf_put)
qed

text \<open>C18: an event condition reports an identifier once per deduplication window: after an
  observation that matched with identifier \<open>i\<close>, no observation with the same identifier matches
  before the window is over, whatever is observed in between, clock discontinuities apart.\<close>

theorem new_event_deduplicated:
  assumes "Evaluate env ev st ob now = Inr t" "tr_matched t" "event_condition ev" "alist_wf (seen st)"
    and "map_of (o_fields ob) (c_field (ev_condition ev)) = Some (VStr i)"
    and "list_all steady_clock_ob obs"
    and "st' = fst (run (evaluate_step env ev) (tr_state t) obs)"
    and "Evaluate env ev st' ob' now' = Inr t'"
    and "map_of (o_fields ob') (c_field (ev_condition ev)) = Some (VStr i)"
    and "now' < now + duration_or_zero (c_dedup_for (ev_condition ev))"
  shows "\<not> tr_matched t'"
proof
  assume m: "tr_matched t'"
  from Evaluate_new_event(4) [OF assms(1,2,3,5,4)]
  have rm: "remembers i (now + duration_or_zero (c_dedup_for (ev_condition ev))) st'"
    unfolding assms(7) using memory.run_inv assms(6) by blast
  then have wf: "alist_wf (seen st')" by (simp add: remembers_def)
  from Evaluate_new_event(2,3) [OF assms(8) m assms(3,9) wf] rm assms(10)
  show False by (auto simp: remembers_def map_of_live_ids split: if_splits)
qed

theorem new_event_deduplicated_witness:
  "\<exists>t t'. Evaluate ex_env ex_events zero_state (ex_event 1 ''a'') (30 * second) = Inr t \<and> tr_matched t \<and>
     Evaluate ex_env ex_events (fst (run (evaluate_step ex_env ex_events) (tr_state t) [ex_event 2 ''b'']))
       (ex_event 3 ''a'') (90 * second) = Inr t' \<and> \<not> tr_matched t'"
proof -
  have "outcome (Evaluate ex_env ex_events zero_state (ex_event 1 ''a'') (30 * second)) =
      Some (True, True, [''new-event''])" by code_simp
  then obtain t where t: "Evaluate ex_env ex_events zero_state (ex_event 1 ''a'') (30 * second) = Inr t"
    "tr_matched t" by (metis outcome_obtain)
  let ?st = "\<lambda>s. fst (run (evaluate_step ex_env ex_events) s [ex_event 2 ''b''])"
  have s: "tr_state t = fst (evaluate_step ex_env ex_events zero_state (ex_event 1 ''a''))"
    using t(1) by (simp add: evaluate_step_def ex_event_def ex_observation_def)
  have "outcome (Evaluate ex_env ex_events (?st (fst (evaluate_step ex_env ex_events zero_state (ex_event 1 ''a''))))
      (ex_event 3 ''a'') (90 * second)) = Some (True, False, [])" by code_simp
  then obtain t' where t': "Evaluate ex_env ex_events (?st (tr_state t)) (ex_event 3 ''a'') (90 * second) = Inr t'"
    unfolding s by (metis outcome_obtain)
  have "90 * second < 30 * second + duration_or_zero (c_dedup_for (ev_condition ex_events))" by code_simp
  then have "\<not> tr_matched t'"
    by (intro new_event_deduplicated [OF t _ _ _ _ refl t', of "''a''"])
      (simp_all add: ex_events_def ex_evaluator_def ex_definition_def ex_spec_def ex_condition_def
        ex_event_def ex_observation_def zero_state_def alist_wf_def steady_clock_ob_def zero_time_def second_def)
  with t t' show ?thesis by (intro exI conjI)
qed

section \<open>Opening and closing an incident\<close>

text \<open>A sequence of observations that all decide the condition the same way, with no sampling gap
  in between.\<close>

fun all_decided :: "runtime_env \<Rightarrow> evaluator \<Rightarrow> bool \<Rightarrow> cstate \<Rightarrow> observation list \<Rightarrow> bool" where
  "all_decided env ev m st [] = True"
| "all_decided env ev m st (ob # obs) =
     (case Evaluate env ev st ob (o_accepted_at ob) of
        Inl _ \<Rightarrow> False
      | Inr t \<Rightarrow> tr_known t \<and> tr_matched t = m \<and> ''gap'' \<notin> e_type ` set (tr_events t) \<and>
          all_decided env ev m (tr_state t) obs)"

lemma apply_policy_events: "apply_policy x st evs matched = Inr t \<Longrightarrow> set evs \<subseteq> set (tr_events t)"
  by (erule apply_policy_elim) (auto simp: result_of_def)

lemma Evaluate_decided:
  assumes t: "Evaluate env ev st ob now = Inr t" and k: "tr_known t" "tr_matched t = m"
    and g: "''gap'' \<notin> e_type ` set (tr_events t)"
  obtains x st3 evs3 where "x_ev x = ev" "apply_policy x st3 evs3 m = Inr t"
    "matches st3 = matches st" "recoveries st3 = recoveries st" "is_open st3 = is_open st"
  using t
proof (cases rule: Evaluate_outcome)
  case (Undecided st0 key)
  with k show thesis by simp
next
  case (Decided x st0 key st1 evs1 st2 matched reason st3 evs3)
  have "set evs1 \<subseteq> set evs3" using Decided(8) by (auto simp: recovery_prefix_def)
  with apply_policy_events [OF Decided(11)] g have "''gap'' \<notin> e_type ` set evs1" by blast
  with Decided(6) have "st1 = st0" by (auto simp: gap_prefix_def dest: emit_fields(1))
  with predicate_frame [OF Decided(7)] Decided(2,8)
  have "matches st3 = matches st" "recoveries st3 = recoveries st" "is_open st3 = is_open st"
    by (auto simp: incident_frame_def recovery_prefix_def)
  moreover have "matched = m" using apply_policy_known [OF Decided(11)] k by simp
  ultimately show thesis using that [of x st3 evs3] Decided(1,11) by simp
qed

lemma match_step:
  assumes "Evaluate env ev st ob now = Inr t" "tr_known t" "tr_matched t = True"
    "''gap'' \<notin> e_type ` set (tr_events t)" "\<not> signal_condition ev"
    "matches st \<le> p_consecutive (ev_policy ev)"
  shows "matches (tr_state t) = min (p_consecutive (ev_policy ev)) (matches st + 1) \<and>
    is_open (tr_state t) = (is_open st \<or> p_consecutive (ev_policy ev) \<le> matches st + 1)"
  using assms(1-4)
proof (rule Evaluate_decided)
  fix x st3 evs3
  assume x: "x_ev x = ev" and p: "apply_policy x st3 evs3 True = Inr t"
    and eq: "matches st3 = matches st" "recoveries st3 = recoveries st" "is_open st3 = is_open st"
  from p show ?thesis
    by (cases rule: apply_policy_elim)
      (use x eq assms(5,6) in \<open>auto simp: step_simps counted_def min_def split: if_splits\<close>)
qed

lemma mismatch_step:
  assumes "Evaluate env ev st ob now = Inr t" "tr_known t" "tr_matched t = False"
    "''gap'' \<notin> e_type ` set (tr_events t)" "\<not> signal_condition ev"
  shows "is_open (tr_state t) = (is_open st \<and> recoveries st + 1 < p_recover_after (ev_policy ev)) \<and>
    (is_open (tr_state t) \<longrightarrow> recoveries (tr_state t) = recoveries st + 1)"
  using assms(1-4)
proof (rule Evaluate_decided)
  fix x st3 evs3
  assume x: "x_ev x = ev" and p: "apply_policy x st3 evs3 False = Inr t"
    and eq: "matches st3 = matches st" "recoveries st3 = recoveries st" "is_open st3 = is_open st"
  from p show ?thesis
    by (cases rule: apply_policy_elim)
      (use x eq assms(5) in \<open>auto simp: step_simps recovering_def\<close>)
qed

lemma all_decided_step:
  assumes "all_decided env ev m st (ob # obs)"
  obtains t where "Evaluate env ev st ob (o_accepted_at ob) = Inr t" "tr_known t" "tr_matched t = m"
    "''gap'' \<notin> e_type ` set (tr_events t)" "all_decided env ev m (tr_state t) obs"
    "fst (evaluate_step env ev st ob) = tr_state t"
  using assms by (auto simp: evaluate_step_def split: sum.splits)

lemma matches_accumulate:
  assumes "all_decided env ev True st obs" "\<not> signal_condition ev"
    "matches st \<le> p_consecutive (ev_policy ev)"
    "is_open st \<or> matches st < p_consecutive (ev_policy ev)"
  shows "is_open (fst (run (evaluate_step env ev) st obs)) =
    (is_open st \<or> p_consecutive (ev_policy ev) \<le> matches st + int (length obs))"
  using assms
proof (induction obs arbitrary: st)
  case (Cons ob obs)
  from Cons.prems(1) obtain t where t: "Evaluate env ev st ob (o_accepted_at ob) = Inr t" "tr_known t"
    "tr_matched t = True" "''gap'' \<notin> e_type ` set (tr_events t)" "all_decided env ev True (tr_state t) obs"
    "fst (evaluate_step env ev st ob) = tr_state t"
    by (rule all_decided_step)
  from match_step [OF t(1-4) Cons.prems(2,3)] Cons.IH [OF t(5) Cons.prems(2)] show ?case
    by (auto simp: run_Cons t(6) min_def split: if_splits)
qed auto

lemma recoveries_accumulate:
  assumes "all_decided env ev False st obs" "\<not> signal_condition ev"
    "is_open st \<Longrightarrow> recoveries st < p_recover_after (ev_policy ev)"
  shows "is_open (fst (run (evaluate_step env ev) st obs)) =
    (is_open st \<and> recoveries st + int (length obs) < p_recover_after (ev_policy ev))"
  using assms
proof (induction obs arbitrary: st)
  case (Cons ob obs)
  from Cons.prems(1) obtain t where t: "Evaluate env ev st ob (o_accepted_at ob) = Inr t" "tr_known t"
    "tr_matched t = False" "''gap'' \<notin> e_type ` set (tr_events t)" "all_decided env ev False (tr_state t) obs"
    "fst (evaluate_step env ev st ob) = tr_state t"
    by (rule all_decided_step)
  from mismatch_step [OF t(1-4) Cons.prems(2)] Cons.IH [OF t(5) Cons.prems(2)] show ?case
    by (auto simp: run_Cons t(6))
qed auto

text \<open>C16: an incident opens exactly on time: from a state without an incident and without counted
  matches, a sequence of matching observations opens one if and only if it has at least
  \<open>policy.consecutive\<close> of them.\<close>

theorem incident_opens_on_time:
  assumes "all_decided env ev True st obs" "configured ev" "\<not> signal_condition ev"
    and "\<not> is_open st" "matches st = 0"
  shows "is_open (fst (run (evaluate_step env ev) st obs)) \<longleftrightarrow>
    p_consecutive (ev_policy ev) \<le> int (length obs)"
  using matches_accumulate [OF assms(1,3)] assms by (simp add: configured_def)

theorem incident_opens_on_time_witness:
  "all_decided ex_env ex_evaluator True zero_state [ex_status 1 503, ex_status 2 503] \<and>
   configured ex_evaluator \<and> \<not> signal_condition ex_evaluator \<and>
   is_open (fst (run (evaluate_step ex_env ex_evaluator) zero_state [ex_status 1 503, ex_status 2 503])) \<and>
   \<not> is_open (fst (run (evaluate_step ex_env ex_evaluator) zero_state [ex_status 1 503]))"
proof -
  have a: "all_decided ex_env ex_evaluator True zero_state [ex_status 1 503, ex_status 2 503]"
    "all_decided ex_env ex_evaluator True zero_state [ex_status 1 503]" by code_simp+
  have c: "configured ex_evaluator" "\<not> signal_condition ex_evaluator"
    "p_consecutive (ev_policy ex_evaluator) = 2" by code_simp+
  have z: "\<not> is_open zero_state" "matches zero_state = 0" by (simp_all add: zero_state_def)
  from incident_opens_on_time [OF a(1) c(1,2) z] incident_opens_on_time [OF a(2) c(1,2) z] a(1) c
  show ?thesis by simp
qed

text \<open>C17: an incident closes exactly on time: while it is open and no recovery has been counted, a
  sequence of observations that do not match closes it if and only if it has at least
  \<open>policy.recoverAfter\<close> of them.\<close>

theorem incident_closes_on_time:
  assumes "all_decided env ev False st obs" "configured ev" "\<not> signal_condition ev"
    and "is_open st" "recoveries st = 0"
  shows "\<not> is_open (fst (run (evaluate_step env ev) st obs)) \<longleftrightarrow>
    p_recover_after (ev_policy ev) \<le> int (length obs)"
  using recoveries_accumulate [OF assms(1,3)] assms by (auto simp: configured_def)

theorem incident_closes_on_time_witness:
  "all_decided ex_env ex_evaluator False ex_open [ex_status 3 200, ex_status 4 200] \<and>
   configured ex_evaluator \<and> \<not> signal_condition ex_evaluator \<and>
   \<not> is_open (fst (run (evaluate_step ex_env ex_evaluator) ex_open [ex_status 3 200, ex_status 4 200])) \<and>
   is_open (fst (run (evaluate_step ex_env ex_evaluator) ex_open [ex_status 3 200]))"
proof -
  have a: "all_decided ex_env ex_evaluator False ex_open [ex_status 3 200, ex_status 4 200]"
    "all_decided ex_env ex_evaluator False ex_open [ex_status 3 200]" by code_simp+
  have c: "configured ex_evaluator" "\<not> signal_condition ex_evaluator"
    "p_recover_after (ev_policy ex_evaluator) = 2" by code_simp+
  have z: "is_open ex_open" "recoveries ex_open = 0" by code_simp+
  from incident_closes_on_time [OF a(1) c(1,2) z] incident_closes_on_time [OF a(2) c(1,2) z] a(1) c
  show ?thesis by simp
qed

section \<open>Routing\<close>



end
