(* ===== verification/Go_Regexp.thy ===== *)
theory Go_Regexp
  imports Ding_Prelude
begin

text \<open>
  The part of package \<open>regexp\<close> the program's own patterns use: a backtracking matcher with
  leftmost-first priorities over bytes. A match is the remaining input and the text of the
  capturing group, if it took part; matches are listed in order of preference, so the first is
  the one Go reports. The patterns below are matched against valid UTF-8 and their negated
  classes are repeated, so bytes stand for runes.
\<close>

datatype re =
    Eps
  | Cls "char \<Rightarrow> bool"
  | Seq re re
  | Alt re re
  | Star re
  | Cap re
  | End_Text

type_synonym match = "string \<times> string option"

definition later :: "string option \<Rightarrow> match \<Rightarrow> match" where
  "later c m = (fst m, case snd m of None \<Rightarrow> c | Some d \<Rightarrow> Some d)"

function matches_of :: "re \<Rightarrow> string \<Rightarrow> match list" where
  "matches_of Eps s = [(s, None)]"
| "matches_of (Cls p) s = (case s of [] \<Rightarrow> [] | c # r \<Rightarrow> if p c then [(r, None)] else [])"
| "matches_of (Seq a b) s =
     concat (map (\<lambda>m. map (later (snd m)) (matches_of b (fst m))) (matches_of a s))"
| "matches_of (Alt a b) s = matches_of a s @ matches_of b s"
| "matches_of (Star a) s =
     concat (map (\<lambda>m. if length (fst m) < length s
                       then map (later (snd m)) (matches_of (Star a) (fst m)) else [])
       (matches_of a s)) @ [(s, None)]"
| "matches_of (Cap a) s =
     map (\<lambda>m. (fst m, Some (take (length s - length (fst m)) s))) (matches_of a s)"
| "matches_of End_Text s = (if s = [] then [([], None)] else [])"
  by pat_completeness auto
termination
  by (relation "measures [\<lambda>(r, _). size r, \<lambda>(_, s). length s]") auto

declare matches_of.simps(5) [simp del]

text \<open>A match anchored at the start, and \<open>ReplaceAll(_, nil)\<close>: leftmost non-empty matches are
  removed.\<close>

definition first_match :: "re \<Rightarrow> string \<Rightarrow> match option" where
  "first_match r s = (case matches_of r s of [] \<Rightarrow> None | m # _ \<Rightarrow> Some m)"

function remove_all :: "re \<Rightarrow> string \<Rightarrow> string" where
  "remove_all r [] = []"
| "remove_all r (c # s) =
     (case first_match r (c # s) of
        Some m \<Rightarrow> if length (fst m) < length (c # s) then remove_all r (fst m) else c # remove_all r s
      | None \<Rightarrow> c # remove_all r s)"
  by pat_completeness auto
termination by (relation "measure (\<lambda>(_, s). length s)") auto

section \<open>Abbreviations of the syntax\<close>

definition Lit :: "string \<Rightarrow> re" where "Lit s = foldr (\<lambda>c r. Seq (Cls (\<lambda>d. d = c)) r) s Eps"

text \<open>\<open>(?i)\<close>; the words it is used with have no \<open>k\<close> and no \<open>s\<close>, the letters with
  non-ASCII folds.\<close>

definition LitFold :: "string \<Rightarrow> re" where
  "LitFold s = foldr (\<lambda>c r. Seq (Cls (\<lambda>d. to_lower_char d = c)) r) s Eps"

definition Opt :: "re \<Rightarrow> re" where "Opt r = Alt r Eps"
definition Plus :: "re \<Rightarrow> re" where "Plus r = Seq r (Star r)"
definition AnyOf :: "string \<Rightarrow> re" where "AnyOf cs = Cls (\<lambda>c. c \<in> set cs)"
definition NoneOf :: "string \<Rightarrow> re" where "NoneOf cs = Cls (\<lambda>c. c \<notin> set cs)"
definition Range :: "char \<Rightarrow> char \<Rightarrow> re" where "Range a b = Cls (\<lambda>c. byte a \<le> byte c \<and> byte c \<le> byte b)"
definition Digit :: re where "Digit = Cls is_digit"
definition spaces_re :: string where "spaces_re = [CHR 0x09, CHR 0x0A, CHR 0x0C, CHR 0x0D, CHR 0x20]"
definition Space :: re where "Space = AnyOf spaces_re"

fun seqs :: "re list \<Rightarrow> re" where
  "seqs [] = Eps"
| "seqs [r] = r"
| "seqs (r # s # t) = Seq r (seqs (s # t))"

fun alts :: "re list \<Rightarrow> re" where
  "alts [] = Cls (\<lambda>_. False)"
| "alts [r] = r"
| "alts (r # s # t) = Alt r (alts (s # t))"

lemma matches_suffix: "m \<in> set (matches_of r s) \<Longrightarrow> \<exists>p. s = p @ fst m"
proof (induction r s arbitrary: m rule: matches_of.induct)
  case (3 a b s)
  then obtain m1 m2 where "m1 \<in> set (matches_of a s)" "m2 \<in> set (matches_of b (fst m1))" "fst m = fst m2"
    by (auto simp: later_def)
  with "3.IH" show ?case by (metis append_assoc)
next
  case (5 a s)
  then consider "fst m = s" | m1 m2 where "m1 \<in> set (matches_of a s)" "length (fst m1) < length s"
    "m2 \<in> set (matches_of (Star a) (fst m1))" "fst m = fst m2"
    by (auto simp: matches_of.simps(5) [of a s] later_def split: if_splits)
  then show ?case
  proof cases
    case 2
    with "5.IH"(1) "5.IH"(2) show ?thesis by (metis append_assoc)
  qed simp
qed (auto split: list.splits if_splits)

text \<open>Removing matches keeps a subsequence of the input, so it is never longer.\<close>

lemma length_remove_all: "length (remove_all r s) \<le> length s"
  by (induction r s rule: remove_all.induct) (auto split: option.splits)

end
