(* ===== verification/Json_Parse.thy ===== *)
theory Json_Parse
  imports Json_Value
begin

text \<open>
  \<open>json.Unmarshal\<close> into a value of type \<open>any\<close>, as the program uses it on log lines and
  request bodies: the whole input must be one JSON text with at most 10000 levels of nesting;
  numbers become \<open>float64\<close> and one that overflows is an error; of a repeated key the last
  value counts. Decoding functions return the value and the remaining input.
\<close>

definition skip_ws :: "string \<Rightarrow> string" where
  "skip_ws s = dropWhile (\<lambda>c. c \<in> {CHR '' '', CHR 0x09, CHR 0x0A, CHR 0x0D}) s"

lemma length_skip_ws: "length (skip_ws s) \<le> length s"
  by (simp add: skip_ws_def length_dropWhile_le)

section \<open>Numbers\<close>

text \<open>\<open>-?(0|[1-9][0-9]*)(.[0-9]+)?([eE][+-]?[0-9]+)?\<close>; the text of the number and the rest.\<close>

definition jfraction :: "string \<Rightarrow> (string \<times> string) option" where
  "jfraction s =
     (case s of
        c # r \<Rightarrow>
          if c = CHR ''.'' then
            (let ds = takeWhile is_digit r in if ds = [] then None else Some (c # ds, dropWhile is_digit r))
          else Some ([], s)
      | [] \<Rightarrow> Some ([], []))"

definition jexponent :: "string \<Rightarrow> (string \<times> string) option" where
  "jexponent s =
     (case s of
        c # r \<Rightarrow>
          if c = CHR ''e'' \<or> c = CHR ''E'' then
            (let sign = (case r of d # _ \<Rightarrow> if d = CHR ''+'' \<or> d = CHR ''-'' then [d] else [] | [] \<Rightarrow> []);
                 t = drop (length sign) r; ds = takeWhile is_digit t
             in if ds = [] then None else Some (c # sign @ ds, dropWhile is_digit t))
          else Some ([], s)
      | [] \<Rightarrow> Some ([], []))"

definition jinteger :: "string \<Rightarrow> (string \<times> string) option" where
  "jinteger s =
     (case s of
        c # r \<Rightarrow>
          if c = CHR ''0'' then Some ([c], r)
          else if is_digit c then Some (takeWhile is_digit s, dropWhile is_digit s) else None
      | [] \<Rightarrow> None)"

definition jnumber :: "string \<Rightarrow> (value \<times> string) option" where
  "jnumber s =
     (let (sign, t) = (case s of c # r \<Rightarrow> if c = CHR ''-'' then ([c], r) else ([], s) | [] \<Rightarrow> ([], s)) in
      case jinteger t of
        None \<Rightarrow> None
      | Some (i, u) \<Rightarrow>
          (case jfraction u of
             None \<Rightarrow> None
           | Some (f, v) \<Rightarrow>
               (case jexponent v of
                  None \<Rightarrow> None
                | Some (e, w) \<Rightarrow>
                    (case parse_float (sign @ i @ f @ e) of
                       Some x \<Rightarrow> if is_finite x then Some (VFloat x, w) else None
                     | None \<Rightarrow> None))))"

section \<open>Strings\<close>

definition encode_rune :: "int \<Rightarrow> string" where
  "encode_rune n =
     (if n < 128 then [char_of n]
      else if n < 2048 then [char_of (192 + n div 64), char_of (128 + n mod 64)]
      else if n < 65536 then
        [char_of (224 + n div 4096), char_of (128 + n div 64 mod 64), char_of (128 + n mod 64)]
      else [char_of (240 + n div 262144), char_of (128 + n div 4096 mod 64), char_of (128 + n div 64 mod 64),
            char_of (128 + n mod 64)])"

definition hex_val :: "char \<Rightarrow> int option" where
  "hex_val c =
     (if is_digit c then Some (int (byte c) - 48)
      else if 97 \<le> byte c \<and> byte c \<le> 102 then Some (int (byte c) - 87)
      else if 65 \<le> byte c \<and> byte c \<le> 70 then Some (int (byte c) - 55) else None)"

fun hex4 :: "string \<Rightarrow> int option" where
  "hex4 (a # b # c # d # _) =
     (case (hex_val a, hex_val b, hex_val c, hex_val d) of
        (Some w, Some x, Some y, Some z) \<Rightarrow> Some (4096 * w + 256 * x + 16 * y + z)
      | _ \<Rightarrow> None)"
| "hex4 _ = None"

text \<open>The low half of a surrogate pair, if the input continues with one.\<close>

definition low_surrogate :: "string \<Rightarrow> int option" where
  "low_surrogate s =
     (if has_prefix [CHR 0x5C, CHR ''u''] s then
        (case hex4 (drop 2 s) of
           Some n \<Rightarrow> if 56320 \<le> n \<and> n < 57344 then Some n else None
         | None \<Rightarrow> None)
      else None)"

definition simple_escape :: "char \<Rightarrow> char option" where
  "simple_escape e =
     (if e = CHR 0x22 \<or> e = CHR 0x5C \<or> e = CHR ''/'' then Some e
      else if e = CHR ''b'' then Some (CHR 0x08) else if e = CHR ''f'' then Some (CHR 0x0C)
      else if e = CHR ''n'' then Some (CHR 0x0A) else if e = CHR ''r'' then Some (CHR 0x0D)
      else if e = CHR ''t'' then Some (CHR 0x09) else None)"

abbreviation with_prefix :: "string \<Rightarrow> (string \<times> string) option \<Rightarrow> (string \<times> string) option" where
  "with_prefix p r \<equiv> map_option (\<lambda>(t, rest). (p @ t, rest)) r"

text \<open>After the opening quote.\<close>

function jstring :: "string \<Rightarrow> (string \<times> string) option" where
  "jstring [] = None"
| "jstring (c # s) =
     (if c = CHR 0x22 then Some ([], s)
      else if byte c < 32 then None
      else if c \<noteq> CHR 0x5C then with_prefix [c] (jstring s)
      else case s of
             [] \<Rightarrow> None
           | e # r \<Rightarrow>
               (case simple_escape e of
                  Some d \<Rightarrow> with_prefix [d] (jstring r)
                | None \<Rightarrow>
                    if e \<noteq> CHR ''u'' then None
                    else case hex4 r of
                           None \<Rightarrow> None
                         | Some n \<Rightarrow>
                             if 55296 \<le> n \<and> n < 56320 then
                               (case low_surrogate (drop 4 r) of
                                  Some m \<Rightarrow>
                                    with_prefix (encode_rune (65536 + (n - 55296) * 1024 + (m - 56320)))
                                      (jstring (drop 10 r))
                                | None \<Rightarrow> with_prefix replacement_char (jstring (drop 4 r)))
                             else if 56320 \<le> n \<and> n < 57344
                             then with_prefix replacement_char (jstring (drop 4 r))
                             else with_prefix (encode_rune n) (jstring (drop 4 r))))"
  by pat_completeness auto
termination by (relation "measure length") auto

declare jstring.simps(2) [simp del]

section \<open>Values\<close>

definition max_nesting :: int where "max_nesting = 10000"

text \<open>\<open>depth\<close> counts the levels that may still be opened. The tests that an input has become
  shorter always succeed; they make the recursion visibly end.\<close>

function jvalue :: "int \<Rightarrow> string \<Rightarrow> (value \<times> string) option"
  and jelements :: "int \<Rightarrow> string \<Rightarrow> (value list \<times> string) option"
  and jmembers :: "int \<Rightarrow> fields \<Rightarrow> string \<Rightarrow> (fields \<times> string) option" where
  "jvalue depth s =
     (case s of
        [] \<Rightarrow> None
      | c # r \<Rightarrow>
          if c = CHR 0x22 then map_option (\<lambda>(t, rest). (VStr (coerce_utf8 t), rest)) (jstring r)
          else if c = CHR ''['' then
            if depth \<le> 0 then None
            else if has_prefix '']'' (skip_ws r) then Some (VArr [], drop 1 (skip_ws r))
            else map_option (\<lambda>(vs, rest). (VArr vs, rest))
                   (if length (skip_ws r) < length s then jelements (depth - 1) (skip_ws r) else None)
          else if c = CHR ''{'' then
            if depth \<le> 0 then None
            else if has_prefix ''}'' (skip_ws r) then Some (VObj [], drop 1 (skip_ws r))
            else map_option (\<lambda>(m, rest). (VObj m, rest))
                   (if length (skip_ws r) < length s then jmembers (depth - 1) [] (skip_ws r) else None)
          else if has_prefix ''true'' s then Some (VBool True, drop 4 s)
          else if has_prefix ''false'' s then Some (VBool False, drop 5 s)
          else if has_prefix ''null'' s then Some (VNil, drop 4 s)
          else jnumber s)"
| "jelements depth s =
     (case jvalue depth s of
        None \<Rightarrow> None
      | Some (v, r) \<Rightarrow>
          (case skip_ws r of
             [] \<Rightarrow> None
           | c # t \<Rightarrow>
               if c = CHR '']'' then Some ([v], t)
               else if c = CHR '','' \<and> length (skip_ws t) < length s
               then map_option (\<lambda>(vs, rest). (v # vs, rest)) (jelements depth (skip_ws t))
               else None))"
| "jmembers depth m s =
     (case s of
        [] \<Rightarrow> None
      | q # r \<Rightarrow>
          if q \<noteq> CHR 0x22 then None
          else case jstring r of
                 None \<Rightarrow> None
               | Some (k, t) \<Rightarrow>
                   (case skip_ws t of
                      [] \<Rightarrow> None
                    | c # u \<Rightarrow>
                        if c \<noteq> CHR '':'' \<or> \<not> length (skip_ws u) < length s then None
                        else case jvalue depth (skip_ws u) of
                               None \<Rightarrow> None
                             | Some (v, w) \<Rightarrow>
                                 (case skip_ws w of
                                    [] \<Rightarrow> None
                                  | e # x \<Rightarrow>
                                      let m1 = alist_put (coerce_utf8 k) v m
                                      in if e = CHR ''}'' then Some (m1, x)
                                         else if e = CHR '','' \<and> length (skip_ws x) < length s
                                         then jmembers depth m1 (skip_ws x)
                                         else None)))"
  by pat_completeness auto
termination
  by (relation "measure (\<lambda>x. case x of
        Inl (_, s) \<Rightarrow> 2 * length s
      | Inr (Inl (_, s)) \<Rightarrow> 2 * length s + 1
      | Inr (Inr (_, _, s)) \<Rightarrow> 2 * length s + 1)") auto

declare jvalue.simps [simp del] jelements.simps [simp del] jmembers.simps [simp del]

definition json_unmarshal :: "string \<Rightarrow> value option" where
  "json_unmarshal s =
     (case jvalue max_nesting (skip_ws s) of
        Some (v, rest) \<Rightarrow> if skip_ws rest = [] then Some v else None
      | None \<Rightarrow> None)"

end
