(* ===== verification/Log_Window.thy ===== *)
theory Log_Window
  imports Float64 Ding_Prelude Step_Machine
begin

text \<open>
  Package \<open>logs\<close>, files \<open>window.go\<close> and \<open>summary.go\<close>: the ring of per-second
  counters behind a log summary, and the assessment of a summary a producer sent. The ring
  refines a history of classified records: a summary that calls itself complete counts exactly
  the records of its window.
\<close>

section \<open>State\<close>

text \<open>\<open>Level\<close> is an integer type; its constants in order.\<close>

definition Unclassified :: int where "Unclassified = 0"
definition Trace :: int where "Trace = 1"
definition Debug :: int where "Debug = 2"
definition Info :: int where "Info = 3"
definition Warning :: int where "Warning = 4"
definition ErrorLevel :: int where "ErrorLevel = 5"
definition Fatal :: int where "Fatal = 6"

lemmas level_defs = Unclassified_def Trace_def Debug_def Info_def Warning_def ErrorLevel_def Fatal_def

record classification =
  cl_level :: int
  cl_invalid :: bool
  cl_blank :: bool

record window_config =
  wc_window :: duration
  wc_min_events :: int
  wc_min_coverage :: float64

record bucket =
  b_second :: int
  b_counts :: "int list"
  b_invalid :: int
  b_channels :: "int list"
  b_dropped :: int

record log_window =
  lw_config :: window_config
  lw_started :: time
  lw_last :: time
  lw_gap_until :: time
  lw_buckets :: "bucket list"

record summary =
  su_version :: int
  su_window_start :: time
  su_window_end :: time
  su_window_seconds :: int
  su_total :: int
  su_classified :: int
  su_unclassified :: int
  su_warnings :: int
  su_errors :: int
  su_fatal :: int
  su_invalid :: int
  su_stdout :: int
  su_stderr :: int
  su_other :: int
  su_dropped :: int
  su_coverage :: float64
  su_warning_ratio :: "float64 option"
  su_error_ratio :: "float64 option"
  su_complete :: bool
  su_ready :: bool
  su_reason :: string

section \<open>Operations\<close>

definition empty_bucket :: "int \<Rightarrow> bucket" where
  "empty_bucket s = \<lparr>b_second = s, b_counts = replicate 7 0, b_invalid = 0, b_channels = replicate 3 0,
     b_dropped = 0\<rparr>"

definition NewWindow :: "window_config \<Rightarrow> time \<Rightarrow> log_window result" where
  "NewWindow c t =
     (if wc_window c < second \<or> wc_window c > hour \<or> wc_window c mod second \<noteq> 0 \<or> wc_min_events c < 1 \<or>
         is_nan (wc_min_coverage c) \<or> flt (wc_min_coverage c) fzero \<or>
         flt (float_of_int 1) (wc_min_coverage c)
      then Inl (Err ''log windows require 1-3600 whole seconds, positive minimum records, and coverage between 0 and 1'')
      else Inr \<lparr>lw_config = c, lw_started = t, lw_last = t, lw_gap_until = zero_time,
        lw_buckets = replicate (nat (wc_window c div second) + 1) (empty_bucket 0)\<rparr>)"

definition gap :: "log_window \<Rightarrow> time \<Rightarrow> log_window" where
  "gap w t =
     (let until = truncate_second t + (wc_window (lw_config w) + second)
      in if until > lw_gap_until w then w\<lparr>lw_gap_until := until\<rparr> else w)"

definition Window_Reset :: "log_window \<Rightarrow> time \<Rightarrow> log_window" where
  "Window_Reset w t = w\<lparr>lw_buckets := map (\<lambda>_. empty_bucket 0) (lw_buckets w), lw_started := t, lw_last := t,
     lw_gap_until := zero_time\<rparr>"

text \<open>Go's \<open>%\<close> takes the sign of its left operand; the ring index adds the length to make
  it non-negative.\<close>

definition go_rem :: "int \<Rightarrow> int \<Rightarrow> int" where
  "go_rem a b = (if a < 0 then - ((- a) mod b) else a mod b)"

definition bucket_index :: "log_window \<Rightarrow> int \<Rightarrow> nat" where
  "bucket_index w s =
     (let n = int (length (lw_buckets w)) in nat (go_rem (go_rem s n + n) n))"

text \<open>The bucket of a second, cleared if it holds another second.\<close>

definition bucket_for :: "log_window \<Rightarrow> int \<Rightarrow> bucket" where
  "bucket_for w s =
     (let b = lw_buckets w ! bucket_index w s in if b_second b \<noteq> s then empty_bucket s else b)"

definition put_bucket :: "log_window \<Rightarrow> int \<Rightarrow> bucket \<Rightarrow> log_window" where
  "put_bucket w s b = w\<lparr>lw_buckets := (lw_buckets w)[bucket_index w s := b]\<rparr>"

definition channel_index :: "string \<Rightarrow> nat" where
  "channel_index ch = (if ch = ''stdout'' then 0 else if ch = ''stderr'' then 1 else 2)"

definition increment :: "int list \<Rightarrow> nat \<Rightarrow> int list" where
  "increment xs i = xs[i := xs ! i + 1]"

definition AddFrom :: "log_window \<Rightarrow> time \<Rightarrow> classification \<Rightarrow> string \<Rightarrow> log_window" where
  "AddFrom w t c0 channel =
     (if cl_blank c0 then w
      else if t < lw_last w - wc_window (lw_config w) then gap w (lw_last w)
      else
        let w1 = (if t > lw_last w then w\<lparr>lw_last := t\<rparr> else w);
            s = unix t;
            b = bucket_for w1 s;
            w2 = put_bucket w1 s b;
            c = (if cl_level c0 < Unclassified \<or> cl_level c0 > Fatal
                 then \<lparr>cl_level = 0, cl_invalid = True, cl_blank = False\<rparr> else c0);
            l = nat (cl_level c)
        in if b_counts b ! l \<ge> 2 ^ 53 div int (length (lw_buckets w)) div 7 then gap w2 t
           else put_bucket w2 s (b\<lparr>b_counts := increment (b_counts b) l,
             b_channels := increment (b_channels b) (channel_index channel),
             b_invalid := (if cl_invalid c then b_invalid b + 1 else b_invalid b)\<rparr>))"

definition Window_Add :: "log_window \<Rightarrow> time \<Rightarrow> classification \<Rightarrow> log_window" where
  "Window_Add w t c = AddFrom w t c ''''"

definition Window_Drop :: "log_window \<Rightarrow> time \<Rightarrow> log_window" where
  "Window_Drop w t =
     (let w1 = gap w t; s = unix t; b = bucket_for w1 s
      in put_bucket w1 s
           (if b_dropped b < 2 ^ 53 div int (length (lw_buckets w1))
            then b\<lparr>b_dropped := b_dropped b + 1\<rparr> else b))"

text \<open>\<open>Snapshot\<close>: the sums over the buckets of the window, then the verdict.\<close>

definition in_window :: "int \<Rightarrow> int \<Rightarrow> bucket \<Rightarrow> bool" where
  "in_window s e b \<longleftrightarrow> \<not> (b_second b < s \<or> b_second b \<ge> e)"

definition sum_over :: "log_window \<Rightarrow> int \<Rightarrow> int \<Rightarrow> (bucket \<Rightarrow> int) \<Rightarrow> int" where
  "sum_over w s e f = sum_list (map f (filter (in_window s e) (lw_buckets w)))"

definition ratio :: "int \<Rightarrow> int \<Rightarrow> float64" where
  "ratio a b = fdiv (float_of_int a) (float_of_int b)"

definition Snapshot :: "log_window \<Rightarrow> time \<Rightarrow> summary" where
  "Snapshot w t =
     (let c = lw_config w; e = truncate_second t; start = e - wc_window c;
          total = sum_over w (unix start) (unix e) (\<lambda>b. sum_list (b_counts b));
          cnt = (\<lambda>l. sum_over w (unix start) (unix e) (\<lambda>b. b_counts b ! nat l));
          invalid = sum_over w (unix start) (unix e) b_invalid;
          classified = total - cnt Unclassified;
          coverage = (if total > 0 then ratio classified total else fzero);
          s = \<lparr>su_version = 1, su_window_start = start, su_window_end = e,
            su_window_seconds = wc_window c div second, su_total = total, su_classified = classified,
            su_unclassified = cnt Unclassified, su_warnings = cnt Warning, su_errors = cnt ErrorLevel,
            su_fatal = cnt Fatal, su_invalid = invalid,
            su_stdout = sum_over w (unix start) (unix e) (\<lambda>b. b_channels b ! 0),
            su_stderr = sum_over w (unix start) (unix e) (\<lambda>b. b_channels b ! 1),
            su_other = sum_over w (unix start) (unix e) (\<lambda>b. b_channels b ! 2),
            su_dropped = sum_over w (unix start) (unix e) b_dropped, su_coverage = coverage,
            su_warning_ratio = None, su_error_ratio = None,
            su_complete = (\<not> e < lw_started w + wc_window c \<and> \<not> e < lw_gap_until w \<and> invalid = 0),
            su_ready = False, su_reason = ''ready''\<rparr>
      in if e < lw_gap_until w then s\<lparr>su_reason := ''collection_gap''\<rparr>
         else if invalid > 0 then s\<lparr>su_reason := ''invalid_records''\<rparr>
         else if e < lw_started w + wc_window c then s\<lparr>su_reason := ''warming_up''\<rparr>
         else if total < wc_min_events c then s\<lparr>su_reason := ''insufficient_records''\<rparr>
         else if flt coverage (wc_min_coverage c) then s\<lparr>su_reason := ''insufficient_coverage''\<rparr>
         else s\<lparr>su_ready := True, su_warning_ratio := Some (ratio (cnt Warning) total),
                su_error_ratio := Some (ratio (cnt ErrorLevel + cnt Fatal) total)\<rparr>)"

text \<open>\<open>Assess\<close>: a producer's counters are checked and its verdict recomputed.\<close>

definition summary_counts :: "summary \<Rightarrow> int list" where
  "summary_counts s = [su_total s, su_classified s, su_unclassified s, su_warnings s, su_errors s, su_fatal s,
     su_invalid s, su_stdout s, su_stderr s, su_other s, su_dropped s]"

definition consistent_counts :: "summary \<Rightarrow> bool" where
  "consistent_counts s \<longleftrightarrow>
     \<not> (su_classified s + su_unclassified s \<noteq> su_total s \<or>
        su_warnings s + su_errors s + su_fatal s > su_classified s \<or> su_invalid s > su_unclassified s)"

text \<open>The \<open>switch\<close> of \<open>Assess\<close>.\<close>

definition assess_verdict :: "summary \<Rightarrow> window_config \<Rightarrow> time \<Rightarrow> summary" where
  "assess_verdict s c started =
     (if su_dropped s > 0 then s\<lparr>su_complete := False, su_reason := ''collection_gap''\<rparr>
      else if su_invalid s > 0 then s\<lparr>su_complete := False, su_reason := ''invalid_records''\<rparr>
      else if su_window_start s < started then s\<lparr>su_complete := False, su_reason := ''warming_up''\<rparr>
      else if \<not> su_complete s then s\<lparr>su_reason := ''collection_gap''\<rparr>
      else if su_total s < wc_min_events c then s\<lparr>su_reason := ''insufficient_records''\<rparr>
      else if flt (su_coverage s) (wc_min_coverage c) then s\<lparr>su_reason := ''insufficient_coverage''\<rparr>
      else s\<lparr>su_ready := True, su_reason := ''ready'',
             su_warning_ratio := Some (ratio (su_warnings s) (su_total s)),
             su_error_ratio := Some (ratio (su_errors s + su_fatal s) (su_total s))\<rparr>)"

definition assess_reset :: "summary \<Rightarrow> summary" where
  "assess_reset s =
     s\<lparr>su_other := (if su_stdout s + su_stderr s + su_other s = 0 then su_total s else su_other s),
       su_warning_ratio := None, su_error_ratio := None, su_ready := False,
       su_coverage := (if su_total s > 0 then ratio (su_classified s) (su_total s) else fzero)\<rparr>"

definition Assess :: "summary \<Rightarrow> window_config \<Rightarrow> time \<Rightarrow> time \<Rightarrow> summary result" where
  "Assess s c started now =
     (if su_version s \<noteq> 1 \<or> su_window_seconds s \<noteq> wc_window c div second \<or>
         su_window_start s \<noteq> su_window_end s - wc_window c \<or>
         su_window_end s \<noteq> truncate_second (su_window_end s) \<or> su_window_end s > now + second \<or>
         \<not> now < su_window_end s + 3 * second
      then Inl (Err ''invalid or stale log summary window'')
      else if \<not> list_all (\<lambda>n. \<not> (n < 0 \<or> n > 2 ^ 53 - 1)) (summary_counts s)
      then Inl (Err ''invalid log summary count'')
      else if \<not> consistent_counts s then Inl (Err ''inconsistent log summary counts'')
      else if su_stdout s + su_stderr s + su_other s \<noteq> 0 \<and> su_stdout s + su_stderr s + su_other s \<noteq> su_total s
      then Inl (Err ''inconsistent channel counts'')
      else Inr (assess_verdict (assess_reset s) c started))"

section \<open>The ring\<close>

lemma go_rem_index: "0 < n \<Longrightarrow> go_rem (go_rem a n + n) n = a mod n"
proof -
  assume n: "0 < n"
  show ?thesis
  proof (cases "a < 0")
    case True
    have "- ((- a) mod n) + n > 0" using n pos_mod_bound [of n "- a"] by simp
    then have "go_rem (go_rem a n + n) n = (- ((- a) mod n) + n) mod n" using True by (simp add: go_rem_def)
    also have "\<dots> = (- (- a)) mod n" by (simp add: mod_minus_eq)
    finally show ?thesis by simp
  next
    case False
    then have "0 \<le> a mod n + n" using n pos_mod_sign [of n a] by simp
    with False show ?thesis by (simp add: go_rem_def)
  qed
qed

lemma bucket_index_mod:
  "lw_buckets w \<noteq> [] \<Longrightarrow> bucket_index w s = nat (s mod int (length (lw_buckets w)))"
  by (simp add: bucket_index_def Let_def go_rem_index)

lemma bucket_index_less: "lw_buckets w \<noteq> [] \<Longrightarrow> bucket_index w s < length (lw_buckets w)"
  by (simp add: bucket_index_mod nat_less_iff)

lemma bucket_index_eqD:
  assumes "lw_buckets w \<noteq> []" "bucket_index w s = bucket_index w t"
  shows "int (length (lw_buckets w)) dvd s - t"
proof -
  have "s mod int (length (lw_buckets w)) = t mod int (length (lw_buckets w))"
    using assms by (simp add: bucket_index_mod eq_nat_nat_iff)
  then show ?thesis by (simp add: mod_eq_dvd_iff)
qed

lemma bucket_index_apart:
  assumes "lw_buckets w \<noteq> []" "bucket_index w s = bucket_index w t" "s \<noteq> t"
  shows "s \<le> t - int (length (lw_buckets w)) \<or> t + int (length (lw_buckets w)) \<le> s"
proof -
  from bucket_index_eqD [OF assms(1,2)] obtain k where k: "s - t = int (length (lw_buckets w)) * k" ..
  with assms(3) have "k \<noteq> 0" by auto
  have n: "0 < int (length (lw_buckets w))" using assms(1) by simp
  show ?thesis
  proof (cases "0 < k")
    case True
    with n have "int (length (lw_buckets w)) * 1 \<le> int (length (lw_buckets w)) * k" by (intro mult_left_mono) auto
    with k show ?thesis by simp
  next
    case False
    with \<open>k \<noteq> 0\<close> n have "int (length (lw_buckets w)) * k \<le> int (length (lw_buckets w)) * (-1)"
      by (intro mult_left_mono) auto
    with k show ?thesis by simp
  qed
qed

text \<open>A bucket sits at the index of its second, unless it is still empty.\<close>

definition view :: "bucket \<Rightarrow> int list \<times> int" where "view b = (b_counts b, b_invalid b)"

definition no_counts :: "int list \<times> int" where "no_counts = (replicate 7 0, 0)"

definition ring_ok :: "log_window \<Rightarrow> bool" where
  "ring_ok w \<longleftrightarrow> lw_buckets w \<noteq> [] \<and>
     (\<forall>i < length (lw_buckets w). length (b_counts (lw_buckets w ! i)) = 7 \<and>
        (bucket_index w (b_second (lw_buckets w ! i)) = i \<or> view (lw_buckets w ! i) = no_counts))"

lemma bucket_index_put [simp]: "bucket_index (put_bucket w s b) t = bucket_index w t"
  by (simp add: bucket_index_def put_bucket_def)

lemma lw_buckets_put: "lw_buckets (put_bucket w s b) = (lw_buckets w)[bucket_index w s := b]"
  by (simp add: put_bucket_def)

lemma bucket_index_fields [simp]:
  "bucket_index (w\<lparr>lw_last := t\<rparr>) s = bucket_index w s"
  "bucket_index (w\<lparr>lw_gap_until := t\<rparr>) s = bucket_index w s"
  by (simp_all add: bucket_index_def)

lemma bucket_for_put:
  assumes "lw_buckets w \<noteq> []" "b_second b = s"
  shows "bucket_for (put_bucket w s b) t =
    (if t = s then b else if bucket_index w t = bucket_index w s then empty_bucket t else bucket_for w t)"
  using bucket_index_less [OF assms(1)] assms(2)
  by (auto simp: bucket_for_def put_bucket_def bucket_index_def Let_def)

lemma ring_ok_put:
  "ring_ok w \<Longrightarrow> b_second b = s \<Longrightarrow> length (b_counts b) = 7 \<Longrightarrow> ring_ok (put_bucket w s b)"
  using bucket_index_less by (auto simp: ring_ok_def lw_buckets_put nth_list_update)

lemma bucket_for_second [simp]: "b_second (bucket_for w s) = s"
  by (simp add: bucket_for_def empty_bucket_def Let_def)

lemma bucket_for_counts: "ring_ok w \<Longrightarrow> length (b_counts (bucket_for w s)) = 7"
  using bucket_index_less by (auto simp: ring_ok_def bucket_for_def empty_bucket_def Let_def)

lemma view_empty [simp]: "view (empty_bucket s) = no_counts"
  by (simp add: view_def no_counts_def empty_bucket_def)

lemma sum_over_seconds:
  assumes ok: "ring_ok w" and f: "\<And>b. view b = no_counts \<Longrightarrow> f b = 0"
  shows "sum_over w s e f = (\<Sum>x \<in> {s..<e}. f (bucket_for w x))"
proof -
  let ?bs = "lw_buckets w"
  let ?at = "\<lambda>x. ?bs ! bucket_index w x"
  let ?S = "{i. i < length ?bs \<and> in_window s e (?bs ! i) \<and> f (?bs ! i) \<noteq> 0}"
  let ?T = "{x \<in> {s..<e}. b_second (?at x) = x \<and> f (?at x) \<noteq> 0}"
  have ne: "?bs \<noteq> []" using ok by (simp add: ring_ok_def)
  have "sum_over w s e f = (\<Sum>i < length ?bs. if in_window s e (?bs ! i) then f (?bs ! i) else 0)"
    unfolding sum_over_def sum_list_map_filter' by (simp add: sum_list_sum_nth atLeast0LessThan)
  also have "\<dots> = (\<Sum>i \<in> ?S. f (?bs ! i))"
    by (intro sum.mono_neutral_cong_right) auto
  also have "\<dots> = (\<Sum>x \<in> ?T. f (?at x))"
  proof (rule sum.reindex_bij_witness [where i = "bucket_index w" and j = "\<lambda>i. b_second (?bs ! i)"])
    fix i assume i: "i \<in> ?S"
    then show eq: "bucket_index w (b_second (?bs ! i)) = i"
      using ok f unfolding ring_ok_def by blast
    show "b_second (?bs ! i) \<in> ?T" using i eq by (auto simp: in_window_def)
    show "f (?at (b_second (?bs ! i))) = f (?bs ! i)" using eq by simp
  qed (use bucket_index_less [OF ne] in \<open>auto simp: in_window_def\<close>)
  also have "\<dots> = (\<Sum>x \<in> {s..<e}. if b_second (?at x) = x then f (?at x) else 0)"
    by (intro sum.mono_neutral_cong_left) auto
  also have "\<dots> = (\<Sum>x \<in> {s..<e}. f (bucket_for w x))"
    by (intro sum.cong refl) (simp add: bucket_for_def Let_def f)
  finally show ?thesis .
qed

section \<open>The history a window stands for\<close>

text \<open>A record as it is counted: its second, its level and whether it is invalid.\<close>

type_synonym counted_record = "int \<times> nat \<times> bool"

definition counted_as :: "classification \<Rightarrow> nat \<times> bool" where
  "counted_as c =
     (if cl_level c < Unclassified \<or> cl_level c > Fatal then (0, True) else (nat (cl_level c), cl_invalid c))"

datatype window_op = WAdd time classification string | WGap time | WDrop time

fun window_step :: "log_window \<Rightarrow> window_op \<Rightarrow> log_window \<times> counted_record list" where
  "window_step w (WAdd t c ch) =
     (AddFrom w t c ch, if cl_blank c then [] else [(unix t, counted_as c)])"
| "window_step w (WGap t) = (gap w t, [])"
| "window_step w (WDrop t) = (Window_Drop w t, [])"

definition tally :: "counted_record list \<Rightarrow> int \<Rightarrow> int list \<times> int" where
  "tally h s = (map (\<lambda>l. int (length (filter (\<lambda>r. fst r = s \<and> fst (snd r) = l) h))) [0..<7],
     int (length (filter (\<lambda>r. fst r = s \<and> snd (snd r)) h)))"

abbreviation wsecs :: "log_window \<Rightarrow> int" where "wsecs w \<equiv> wc_window (lw_config w) div second"

text \<open>Second \<open>s\<close> can no longer be told from the ring: it lies behind the ring, or a loss was
  noted that keeps every window with \<open>s\<close> incomplete.\<close>

definition readable :: "log_window \<Rightarrow> int \<Rightarrow> bool" where
  "readable w s \<longleftrightarrow> unix (lw_last w) - wsecs w \<le> s \<and> lw_gap_until w < (s + wsecs w + 1) * second"

definition refines :: "log_window \<Rightarrow> counted_record list \<Rightarrow> bool" where
  "refines w h \<longleftrightarrow> ring_ok w \<and> 1 \<le> wsecs w \<and> wc_window (lw_config w) = wsecs w * second \<and>
     int (length (lw_buckets w)) = wsecs w + 1 \<and>
     (\<forall>s. readable w s \<longrightarrow> view (bucket_for w s) = tally h s) \<and>
     (\<forall>r \<in> set h. readable w (fst r) \<longrightarrow> fst r \<le> unix (lw_last w)) \<and> (\<forall>r \<in> set h. fst (snd r) < 7)"

lemma tally_snoc:
  "fst p < 7 \<Longrightarrow> tally (h @ [(s, p)]) t =
     (if t = s then (increment (fst (tally h t)) (fst p), snd (tally h t) + (if snd p then 1 else 0))
      else tally h t)"
  by (auto simp: tally_def increment_def list_eq_iff_nth_eq nth_list_update)

lemma tally_none: "\<forall>r \<in> set h. fst r \<noteq> s \<Longrightarrow> tally h s = no_counts"
proof -
  assume "\<forall>r \<in> set h. fst r \<noteq> s"
  then have "filter (\<lambda>r. fst r = s \<and> P r) h = []" for P by (simp add: filter_empty_conv)
  then show ?thesis by (simp add: tally_def no_counts_def map_replicate_const)
qed

lemma counted_as_level: "fst (counted_as c) < 7"
  by (simp add: counted_as_def level_defs nat_less_iff)

lemma gap_fields [simp]:
  "lw_buckets (gap w t) = lw_buckets w" "lw_config (gap w t) = lw_config w" "lw_last (gap w t) = lw_last w"
  "bucket_index (gap w t) s = bucket_index w s" "bucket_for (gap w t) s = bucket_for w s"
  "ring_ok (gap w t) = ring_ok w"
  by (simp_all add: gap_def bucket_index_def bucket_for_def ring_ok_def Let_def)

lemma gap_until_gap:
  "lw_gap_until w \<le> lw_gap_until (gap w t)"
  "wc_window (lw_config w) = wsecs w * second \<Longrightarrow> (unix t + wsecs w + 1) * second \<le> lw_gap_until (gap w t)"
  by (auto simp: gap_def truncate_second_def Let_def algebra_simps)

lemma readable_gap: "readable (gap w t) s \<Longrightarrow> readable w s"
  using gap_until_gap(1) [of w t] by (simp add: readable_def)

lemma readable_gapped:
  assumes "wc_window (lw_config w) = wsecs w * second" "readable (gap w t) s"
  shows "unix t < s"
proof -
  have "(unix t + wsecs w + 1) * second < (s + wsecs w + 1) * second"
    using gap_until_gap(2) [OF assms(1), of t] assms(2) by (simp add: readable_def)
  then show ?thesis by (simp add: second_def)
qed

lemma refines_gap: "refines w h \<Longrightarrow> refines (gap w t) h"
  using readable_gap by (auto simp: refines_def)

text \<open>A lost record is a gap from its second on.\<close>

lemma refines_lost:
  assumes r: "refines w h" and l: "l < 7" and s: "s \<le> unix t"
  shows "refines (gap w t) (h @ [(s, l, v)])"
proof -
  have c: "wc_window (lw_config w) = wsecs w * second" using r by (simp add: refines_def)
  from refines_gap [OF r] l show ?thesis
    using readable_gapped [OF c] s by (fastforce simp: refines_def tally_snoc)
qed

lemma put_bucket_fields [simp]:
  "lw_config (put_bucket w s b) = lw_config w" "lw_last (put_bucket w s b) = lw_last w"
  "lw_gap_until (put_bucket w s b) = lw_gap_until w"
  "length (lw_buckets (put_bucket w s b)) = length (lw_buckets w)"
  by (simp_all add: put_bucket_def)

lemma readable_put [simp]: "readable (put_bucket w s b) = readable w"
  by (simp add: readable_def fun_eq_iff)

lemma refines_put:
  assumes r: "refines w h" and low: "unix (lw_last w) - wsecs w \<le> s0"
    and high: "\<And>s. readable w s \<Longrightarrow> s0 - wsecs w \<le> s"
    and b: "b_second b = s0" "length (b_counts b) = 7" "readable w s0 \<Longrightarrow> view b = tally h' s0"
    and h': "\<And>s. s \<noteq> s0 \<Longrightarrow> tally h' s = tally h s"
      "\<forall>r \<in> set h'. r \<in> set h \<or> fst r = s0 \<and> s0 \<le> unix (lw_last w)" "\<forall>r \<in> set h'. fst (snd r) < 7"
  shows "refines (put_bucket w s0 b) h'"
proof -
  have ne: "lw_buckets w \<noteq> []" and n: "int (length (lw_buckets w)) = wsecs w + 1"
    using r by (auto simp: refines_def ring_ok_def)
  have "view (bucket_for (put_bucket w s0 b) s) = tally h' s" if s: "readable w s" for s
  proof (cases "s = s0 \<or> bucket_index w s \<noteq> bucket_index w s0")
    case True
    with s r b h'(1) show ?thesis by (auto simp: bucket_for_put [OF ne b(1)] refines_def)
  next
    case False
    with bucket_index_apart [OF ne, of s s0] n high [OF s] low have "unix (lw_last w) < s" by auto
    with r s have "\<forall>r \<in> set h. fst r \<noteq> s" by (auto simp: refines_def)
    with False h'(1) show ?thesis by (simp add: bucket_for_put [OF ne b(1)] tally_none)
  qed
  moreover have "fst r \<le> unix (lw_last w)" if "r \<in> set h'" "readable w (fst r)" for r
    using that h'(2) r by (auto simp: refines_def)
  ultimately show ?thesis using r b h'(3) by (simp add: refines_def ring_ok_put)
qed

lemma refines_last:
  assumes "refines w h" "lw_last w \<le> t"
  shows "refines (w\<lparr>lw_last := t\<rparr>) h"
proof -
  have u: "unix (lw_last w) \<le> unix t" by (rule unix_mono [OF assms(2)])
  then have "readable w s" if "readable (w\<lparr>lw_last := t\<rparr>) s" for s
    using that by (simp add: readable_def)
  moreover have "bucket_for (w\<lparr>lw_last := t\<rparr>) s = bucket_for w s" for s
    by (simp add: bucket_for_def)
  ultimately show ?thesis using assms(1) u by (fastforce simp: refines_def ring_ok_def)
qed

lemma refines_Add:
  assumes r: "refines w h" and nb: "\<not> cl_blank c"
  shows "refines (AddFrom w t c ch) (h @ [(unix t, counted_as c)])"
proof (cases "t < lw_last w - wc_window (lw_config w)")
  case True
  have "0 \<le> wc_window (lw_config w)" using r by (auto simp: refines_def second_def)
  with True have "unix t \<le> unix (lw_last w)" by (intro unix_mono) simp
  from refines_lost [OF r counted_as_level this, of c "snd (counted_as c)"] True nb show ?thesis by (simp add: AddFrom_def)
next
  case False
  define w1 where "w1 = (if t > lw_last w then w\<lparr>lw_last := t\<rparr> else w)"
  define b where "b = bucket_for w1 (unix t)"
  define w2 where "w2 = put_bucket w1 (unix t) b"
  have r1: "refines w1 h" unfolding w1_def using r by (simp add: refines_last)
  have W: "wc_window (lw_config w) = wsecs w * second" "wsecs w1 = wsecs w" "1 \<le> wsecs w"
    using r by (simp_all add: refines_def w1_def)
  have "unix (lw_last w + (- wsecs w) * second) \<le> unix t"
    using False W(1) by (intro unix_mono) simp
  then have low: "unix (lw_last w1) - wsecs w1 \<le> unix t"
    unfolding unix_add_seconds using W(3) by (simp add: w1_def W(2))
  have up: "unix t \<le> unix (lw_last w1)" by (simp add: w1_def unix_mono)
  then have high: "unix t - wsecs w1 \<le> s" if "readable w1 s" for s
    using that by (simp add: readable_def)
  have b7: "length (b_counts b) = 7" using r1 by (simp add: b_def refines_def bucket_for_counts)
  have vb: "view b = tally h (unix t)" if "readable w1 (unix t)"
    using that r1 by (simp add: b_def refines_def)
  have r2: "refines w2 h" unfolding w2_def
    using r1 low high b7 vb by (intro refines_put [OF r1]) (auto simp: b_def refines_def)
  let ?l = "fst (counted_as c)" and ?v = "snd (counted_as c)"
  show ?thesis
  proof (cases "b_counts b ! ?l \<ge> 2 ^ 53 div int (length (lw_buckets w)) div 7")
    case True
    have "AddFrom w t c ch = gap w2 t"
      using nb False True by (auto simp: AddFrom_def counted_as_def w2_def b_def w1_def Let_def)
    with refines_lost [OF r2 counted_as_level [of c] order_refl [of "unix t"], of "snd (counted_as c)"] show ?thesis by simp
  next
    case notfull: False
    define b' where "b' = b\<lparr>b_counts := increment (b_counts b) ?l,
       b_channels := increment (b_channels b) (channel_index ch),
       b_invalid := (if ?v then b_invalid b + 1 else b_invalid b)\<rparr>"
    have "AddFrom w t c ch = put_bucket w2 (unix t) b'"
      using nb False notfull
      by (auto simp: AddFrom_def counted_as_def w2_def b_def b'_def w1_def Let_def)
    moreover have "refines (put_bucket w2 (unix t) b') (h @ [(unix t, ?l, ?v)])"
    proof (rule refines_put [OF r2])
      show "view b' = tally (h @ [(unix t, ?l, ?v)]) (unix t)" if "readable w2 (unix t)"
        using vb that counted_as_level [of c] by (auto simp: tally_snoc b'_def view_def w2_def prod_eq_iff)
      show "tally (h @ [(unix t, ?l, ?v)]) s = tally h s" if "s \<noteq> unix t" for s
        using that counted_as_level [of c] by (simp add: tally_snoc)
      show "\<forall>r \<in> set (h @ [(unix t, ?l, ?v)]). fst (snd r) < 7"
        using r2 counted_as_level [of c] by (auto simp: refines_def)
    qed (use low high up b7 in \<open>auto simp: b'_def w2_def increment_def b_def\<close>)
    ultimately show ?thesis by simp
  qed
qed

lemma refines_Drop:
  assumes r: "refines w h" and t: "unix (lw_last w) - wsecs w \<le> unix t"
  shows "refines (Window_Drop w t) h"
proof -
  have c: "wc_window (lw_config w) = wsecs w * second" using r by (simp add: refines_def)
  have r1: "refines (gap w t) h" by (rule refines_gap [OF r])
  let ?b = "bucket_for w (unix t)"
  have b7: "length (b_counts ?b) = 7" using r by (simp add: refines_def bucket_for_counts)
  have no: "\<not> readable (gap w t) (unix t)" using readable_gapped [OF c, of t "unix t"] by auto
  have high: "unix t - wsecs (gap w t) \<le> s" if "readable (gap w t) s" for s
    using readable_gapped [OF c that] r by (auto simp: refines_def)
  have "refines (put_bucket (gap w t) (unix t) b') h"
    if "b_second b' = unix t" "length (b_counts b') = 7" for b'
    using that t no high r1 by (intro refines_put [OF r1]) (auto simp: refines_def)
  with b7 show ?thesis by (simp add: Window_Drop_def Let_def)
qed

text \<open>Losses are noted in time: a dropped record's time is not further behind the last record
  than the window reaches. The collector takes the time under its lock, so it never is.\<close>

fun well_timed :: "log_window \<Rightarrow> window_op list \<Rightarrow> bool" where
  "well_timed w [] = True"
| "well_timed w (op # ops) =
     ((case op of WDrop t \<Rightarrow> unix (lw_last w) - wsecs w \<le> unix t | _ \<Rightarrow> True) \<and>
      well_timed (fst (window_step w op)) ops)"

lemma refines_run:
  assumes "refines w h" "well_timed w ops"
  shows "refines (fst (run window_step w ops)) (h @ snd (run window_step w ops))"
  using assms
proof (induction ops arbitrary: w h)
  case (Cons op ops)
  have "refines (fst (window_step w op)) (h @ snd (window_step w op))"
    using Cons.prems refines_Add [of w h] refines_Drop [of w h] refines_gap [of w h]
    by (cases op) (auto simp: AddFrom_def)
  from Cons.IH [OF this] Cons.prems(2) show ?case by (simp add: run_Cons)
qed simp

lemma refines_New: "NewWindow c t = Inr w \<Longrightarrow> refines w []"
proof -
  assume n: "NewWindow c t = Inr w"
  then have w: "second \<le> wc_window c" "wc_window c mod second = 0"
    "w = \<lparr>lw_config = c, lw_started = t, lw_last = t, lw_gap_until = zero_time,
        lw_buckets = replicate (nat (wc_window c div second) + 1) (empty_bucket 0)\<rparr>"
    by (auto simp: NewWindow_def split: if_splits)
  have s: "second \<noteq> 0" "0 < second" by (simp_all add: second_def)
  have d: "wc_window c = wc_window c div second * second" using w(2) div_mult_mod_eq [of "wc_window c" second] by simp
  have p: "1 \<le> wc_window c div second"
    using zdiv_mono1 [OF w(1) s(2)] s by simp
  have e: "lw_buckets w ! i = empty_bucket 0" if "i < length (lw_buckets w)" for i
    using that nth_replicate [of i "nat (wc_window c div second) + 1" "empty_bucket 0"] by (simp add: w(3) del: replicate_Suc)
  have ne: "lw_buckets w \<noteq> []" by (simp add: w(3))
  have v: "view (bucket_for w s) = no_counts" for s
    by (simp add: bucket_for_def e bucket_index_less [OF ne] Let_def)
  have "ring_ok w" using e ne by (simp add: ring_ok_def) (simp add: empty_bucket_def)
  moreover have "int (length (lw_buckets w)) = wsecs w + 1" using p by (simp add: w(3))
  ultimately show ?thesis using d p v by (simp add: refines_def tally_none) (simp add: w(3))
qed

text \<open>The records of a window, by level.\<close>

definition records_in :: "counted_record list \<Rightarrow> int \<Rightarrow> int \<Rightarrow> counted_record list" where
  "records_in h s e = filter (\<lambda>r. s \<le> fst r \<and> fst r < e) h"

lemma sum_tally_level:
  "(\<Sum>x \<in> {s..<e}. int (length (filter (\<lambda>r. fst r = x \<and> P r) h))) =
     int (length (filter P (records_in h s e)))"
proof (induction h)
  case (Cons r h)
  have "(\<Sum>x \<in> {s..<e}. int (length (filter (\<lambda>r. fst r = x \<and> P r) (r # h)))) =
      (\<Sum>x \<in> {s..<e}. (if x = fst r then (if P r then 1 else 0) else 0) + int (length (filter (\<lambda>r. fst r = x \<and> P r) h)))"
    by (intro sum.cong) auto
  then show ?case using Cons.IH by (simp add: sum.distrib sum.delta records_in_def)
qed (simp add: records_in_def)

lemma Snapshot_counts:
  assumes r: "refines w h" and t: "lw_last w \<le> t" and g: "lw_gap_until w \<le> truncate_second t"
    and s: "s = unix t - wsecs w"
  shows "l < 7 \<Longrightarrow> sum_over w s (unix t) (\<lambda>b. b_counts b ! l) =
      int (length (filter (\<lambda>r. fst (snd r) = l) (records_in h s (unix t))))"
    and "sum_over w s (unix t) b_invalid = int (length (filter (\<lambda>r. snd (snd r)) (records_in h s (unix t))))"
    and "sum_over w s (unix t) (\<lambda>b. sum_list (b_counts b)) = int (length (records_in h s (unix t)))"
proof -
  have ring: "ring_ok w" using r by (simp add: refines_def)
  have v: "view (bucket_for w x) = tally h x" if "x \<in> {s..<unix t}" for x
  proof -
    have "truncate_second t < (x + wsecs w + 1) * second"
      using that s by (simp add: truncate_second_def second_def)
    with that s g unix_mono [OF t] have "readable w x" by (simp add: readable_def)
    with r show ?thesis by (simp add: refines_def)
  qed
  have sums: "sum_over w s (unix t) f = (\<Sum>x \<in> {s..<unix t}. F (tally h x))"
    if "\<And>b. f b = F (view b)" "F no_counts = 0" for f F
  proof -
    have "sum_over w s (unix t) f = (\<Sum>x \<in> {s..<unix t}. f (bucket_for w x))"
      by (rule sum_over_seconds [OF ring]) (simp add: that)
    also have "\<dots> = (\<Sum>x \<in> {s..<unix t}. F (tally h x))"
      by (intro sum.cong refl) (simp only: that(1) v)
    finally show ?thesis .
  qed
  show c: "sum_over w s (unix t) (\<lambda>b. b_counts b ! l) =
      int (length (filter (\<lambda>r. fst (snd r) = l) (records_in h s (unix t))))" if "l < 7" for l
    using that sums [of "\<lambda>b. b_counts b ! l" "\<lambda>v. fst v ! l"]
    by (simp add: view_def no_counts_def tally_def sum_tally_level)
  show "sum_over w s (unix t) b_invalid = int (length (filter (\<lambda>r. snd (snd r)) (records_in h s (unix t))))"
    using sums [of b_invalid snd] by (simp add: view_def no_counts_def tally_def sum_tally_level)
  have "sum_over w s (unix t) (\<lambda>b. sum_list (b_counts b)) =
      (\<Sum>x \<in> {s..<unix t}. sum_list (fst (tally h x)))"
    using sums [of "\<lambda>b. sum_list (b_counts b)" "\<lambda>v. sum_list (fst v)"]
    by (simp add: view_def no_counts_def sum_list_replicate)
  also have "\<dots> = (\<Sum>x \<in> {s..<unix t}. int (length (filter (\<lambda>r. fst r = x \<and> True) h)))"
  proof (intro sum.cong refl)
    fix x
    have "\<forall>r \<in> set h. fst (snd r) < 7" using r by (simp add: refines_def)
    then show "sum_list (fst (tally h x)) = int (length (filter (\<lambda>r. fst r = x \<and> True) h))"
    proof (induction h)
      case (Cons q h)
      have seven: "[0..<7] = [0, 1, 2, 3, 4, 5, 6 :: nat]" by (simp add: upt_rec)
      from Cons show ?case by (auto simp: tally_def seven)
    qed (simp add: tally_def sum_list_replicate map_replicate_const)
  qed
  also have "\<dots> = int (length (records_in h s (unix t)))" by (subst sum_tally_level) simp
  finally show "sum_over w s (unix t) (\<lambda>b. sum_list (b_counts b)) = int (length (records_in h s (unix t)))" .
qed

lemma Snapshot_fields:
  "su_window_start (Snapshot w t) = truncate_second t - wc_window (lw_config w)"
  "su_window_end (Snapshot w t) = truncate_second t"
  "su_total (Snapshot w t) = sum_over w (unix (truncate_second t - wc_window (lw_config w))) (unix t) (\<lambda>b. sum_list (b_counts b))"
  "su_unclassified (Snapshot w t) = sum_over w (unix (truncate_second t - wc_window (lw_config w))) (unix t) (\<lambda>b. b_counts b ! nat Unclassified)"
  "su_warnings (Snapshot w t) = sum_over w (unix (truncate_second t - wc_window (lw_config w))) (unix t) (\<lambda>b. b_counts b ! nat Warning)"
  "su_errors (Snapshot w t) = sum_over w (unix (truncate_second t - wc_window (lw_config w))) (unix t) (\<lambda>b. b_counts b ! nat ErrorLevel)"
  "su_fatal (Snapshot w t) = sum_over w (unix (truncate_second t - wc_window (lw_config w))) (unix t) (\<lambda>b. b_counts b ! nat Fatal)"
  "su_invalid (Snapshot w t) = sum_over w (unix (truncate_second t - wc_window (lw_config w))) (unix t) b_invalid"
  "su_complete (Snapshot w t) \<longleftrightarrow> lw_started w + wc_window (lw_config w) \<le> truncate_second t \<and>
     lw_gap_until w \<le> truncate_second t \<and> su_invalid (Snapshot w t) = 0"
  by (simp_all add: Snapshot_def Let_def not_less)

text \<open>C24: a complete summary is exact. Whatever records were added, in whatever order within the
  ring's reach, and whatever gaps and drops were noted, a summary that is marked complete counts
  exactly the records of its window, per level, and none of them is invalid: lost, late or
  uncountable records always mark it incomplete instead.\<close>

theorem complete_summary_exact:
  assumes "NewWindow c t0 = Inr w0" "well_timed w0 ops" "run window_step w0 ops = (w, h)" "lw_last w \<le> t"
    and "s = Snapshot w t" "su_complete s"
    and "recs = filter (\<lambda>r. unix (su_window_start s) \<le> fst r \<and> fst r < unix (su_window_end s)) h"
  shows "su_total s = int (length recs) \<and>
    su_unclassified s = int (length (filter (\<lambda>r. int (fst (snd r)) = Unclassified) recs)) \<and>
    su_warnings s = int (length (filter (\<lambda>r. int (fst (snd r)) = Warning) recs)) \<and>
    su_errors s = int (length (filter (\<lambda>r. int (fst (snd r)) = ErrorLevel) recs)) \<and>
    su_fatal s = int (length (filter (\<lambda>r. int (fst (snd r)) = Fatal) recs)) \<and>
    filter (\<lambda>r. snd (snd r)) recs = []"
proof -
  have r: "refines w h" using refines_run [OF refines_New [OF assms(1)] assms(2)] assms(3) by simp
  then have "truncate_second t - wc_window (lw_config w) = truncate_second t + (- wsecs w) * second"
    by (simp add: refines_def)
  then have start: "unix (truncate_second t - wc_window (lw_config w)) = unix t - wsecs w"
    by (simp only: unix_add_seconds unix_truncate)
  have recs: "recs = records_in h (unix t - wsecs w) (unix t)"
    unfolding assms(7,5) Snapshot_fields start records_in_def by simp
  have g: "lw_gap_until w \<le> truncate_second t" "su_invalid (Snapshot w t) = 0"
    using assms(5,6) by (simp_all add: Snapshot_fields(9))
  note n = Snapshot_counts [OF r assms(4) g(1) refl]
  have "filter (\<lambda>r. snd (snd r)) recs = []"
    using g(2) n(2) unfolding Snapshot_fields start recs by simp
  then show ?thesis
    unfolding assms(5) recs Snapshot_fields start
    using n(1) [of 0] n(1) [of 4] n(1) [of 5] n(1) [of 6] n(3) by (simp add: level_defs)
qed

definition ex_window_config :: window_config where
  "ex_window_config = \<lparr>wc_window = 2 * second, wc_min_events = 1, wc_min_coverage = fzero\<rparr>"

definition ex_class :: "int \<Rightarrow> classification" where
  "ex_class l = \<lparr>cl_level = l, cl_invalid = False, cl_blank = False\<rparr>"

definition ex_window :: log_window where
  "ex_window = \<lparr>lw_config = ex_window_config, lw_started = 100 * second, lw_last = 100 * second,
     lw_gap_until = zero_time, lw_buckets = replicate 3 (empty_bucket 0)\<rparr>"

definition ex_window_ops :: "window_op list" where
  "ex_window_ops = [WAdd (100 * second + 7) (ex_class Warning) '''', WAdd (101 * second + 1) (ex_class Info) ''stdout'',
     WAdd (102 * second) (ex_class ErrorLevel) ''stderr'', WAdd (101 * second) (ex_class Warning) '''']"

lemma ex_window_new: "NewWindow ex_window_config (100 * second) = Inr ex_window"
  by (simp add: NewWindow_def ex_window_config_def ex_window_def second_def hour_def is_nan_def fzero_def
      float_of_int_def numeral_3_eq_3) code_simp

theorem complete_summary_exact_witness:
  "NewWindow ex_window_config (100 * second) = Inr ex_window \<and> well_timed ex_window ex_window_ops \<and>
   su_complete (Snapshot (fst (run window_step ex_window ex_window_ops)) (103 * second)) \<and>
   su_total (Snapshot (fst (run window_step ex_window ex_window_ops)) (103 * second)) = 3 \<and>
   su_warnings (Snapshot (fst (run window_step ex_window ex_window_ops)) (103 * second)) = 1"
proof -
  let ?w = "fst (run window_step ex_window ex_window_ops)" and ?h = "snd (run window_step ex_window ex_window_ops)"
  have t: "well_timed ex_window ex_window_ops" by code_simp
  have l: "lw_last ?w \<le> 103 * second" by code_simp
  have c: "su_complete (Snapshot ?w (103 * second))" by code_simp
  have h: "?h = [(100, 4, False), (101, 3, False), (102, 5, False), (101, 4, False)]" by code_simp
  have b: "unix (su_window_start (Snapshot ?w (103 * second))) = 101"
    "unix (su_window_end (Snapshot ?w (103 * second))) = 103" by code_simp+
  show ?thesis
    using complete_summary_exact [OF ex_window_new t prod.collapse [symmetric] l refl c refl] ex_window_new t c
    by (simp add: b h level_defs)
qed

lemma assess_verdict_fields:
  "su_total (assess_verdict s c started) = su_total s" "su_classified (assess_verdict s c started) = su_classified s"
  "su_unclassified (assess_verdict s c started) = su_unclassified s"
  "su_warnings (assess_verdict s c started) = su_warnings s" "su_errors (assess_verdict s c started) = su_errors s"
  "su_fatal (assess_verdict s c started) = su_fatal s" "su_invalid (assess_verdict s c started) = su_invalid s"
  "su_dropped (assess_verdict s c started) = su_dropped s" "su_stdout (assess_verdict s c started) = su_stdout s"
  "su_stderr (assess_verdict s c started) = su_stderr s" "su_other (assess_verdict s c started) = su_other s"
  "su_window_start (assess_verdict s c started) = su_window_start s"
  "su_window_end (assess_verdict s c started) = su_window_end s"
  "su_coverage (assess_verdict s c started) = su_coverage s"
  by (simp_all add: assess_verdict_def)

lemma assess_verdict_ready:
  assumes "\<not> su_ready s" "su_warning_ratio s = None" "su_error_ratio s = None"
  shows "su_ready (assess_verdict s c started) \<longleftrightarrow> su_dropped s \<le> 0 \<and> su_invalid s \<le> 0 \<and>
      started \<le> su_window_start s \<and> su_complete s \<and> wc_min_events c \<le> su_total s \<and>
      \<not> flt (su_coverage s) (wc_min_coverage c)"
    and "su_warning_ratio (assess_verdict s c started) =
      (if su_ready (assess_verdict s c started) then Some (ratio (su_warnings s) (su_total s)) else None)"
    and "su_error_ratio (assess_verdict s c started) =
      (if su_ready (assess_verdict s c started) then Some (ratio (su_errors s + su_fatal s) (su_total s)) else None)"
  using assms by (auto simp: assess_verdict_def)

text \<open>A summary a producer sends is never taken at its word: whatever verdict and ratios it
  carries, an accepted summary has counts that add up and a window of the configured length that
  ends within a second of now, and it is \<open>ready\<close> exactly when nothing was dropped or invalid, the
  window lies after the start of the session, the producer called it complete, and it has the
  configured number of records and coverage; only then it has ratios, those of its counts.\<close>

theorem assessed_summary_sound:
  assumes "Assess s c started now = Inr a" "1 \<le> wc_min_events c"
  shows "su_total a = su_classified a + su_unclassified a \<and> su_total a = su_stdout a + su_stderr a + su_other a \<and>
    su_warnings a + su_errors a + su_fatal a \<le> su_classified a \<and> su_invalid a \<le> su_unclassified a \<and>
    list_all (\<lambda>n. 0 \<le> n \<and> n < 2 ^ 53) (summary_counts a) \<and>
    su_window_end a - su_window_start a = wc_window c \<and> su_window_end a \<le> now + second \<and>
    now < su_window_end a + 3 * second \<and>
    (su_ready a \<longleftrightarrow> su_dropped a = 0 \<and> su_invalid a = 0 \<and> started \<le> su_window_start a \<and> su_complete s \<and>
       wc_min_events c \<le> su_total a \<and> \<not> flt (ratio (su_classified a) (su_total a)) (wc_min_coverage c)) \<and>
    su_warning_ratio a = (if su_ready a then Some (ratio (su_warnings a) (su_total a)) else None) \<and>
    su_error_ratio a = (if su_ready a then Some (ratio (su_errors a + su_fatal a) (su_total a)) else None)"
proof -
  let ?r = "assess_reset s"
  from assms(1) have a: "a = assess_verdict ?r c started" and cc: "consistent_counts s"
    and win: "su_window_start s = su_window_end s - wc_window c" "su_window_end s \<le> now + second"
      "now < su_window_end s + 3 * second"
    and nn: "list_all (\<lambda>n. 0 \<le> n \<and> n < 2 ^ 53) (summary_counts s)"
    and ch: "su_stdout s + su_stderr s + su_other s = 0 \<or> su_stdout s + su_stderr s + su_other s = su_total s"
    by (auto simp: Assess_def summary_counts_def split: if_splits)
  have f: "\<not> su_ready ?r" "su_warning_ratio ?r = None" "su_error_ratio ?r = None"
    by (simp_all add: assess_reset_def)
  have reset: "su_total ?r = su_total s" "su_classified ?r = su_classified s" "su_unclassified ?r = su_unclassified s"
    "su_warnings ?r = su_warnings s" "su_errors ?r = su_errors s" "su_fatal ?r = su_fatal s"
    "su_invalid ?r = su_invalid s" "su_dropped ?r = su_dropped s" "su_stdout ?r = su_stdout s"
    "su_stderr ?r = su_stderr s" "su_complete ?r = su_complete s" "su_window_start ?r = su_window_start s"
    "su_window_end ?r = su_window_end s"
    "su_coverage ?r = (if su_total s > 0 then ratio (su_classified s) (su_total s) else fzero)"
    "su_other ?r = (if su_stdout s + su_stderr s + su_other s = 0 then su_total s else su_other s)"
    by (simp_all add: assess_reset_def)
  note v = assess_verdict_ready [OF f, of c started]
  have zero: "su_dropped s \<le> 0 \<longleftrightarrow> su_dropped s = 0" "su_invalid s \<le> 0 \<longleftrightarrow> su_invalid s = 0"
    using nn by (auto simp: summary_counts_def)
  have pos: "0 < su_total s" if "wc_min_events c \<le> su_total s" using that assms(2) by simp
  have sums: "su_total s = su_classified s + su_unclassified s" "su_invalid s \<le> su_unclassified s"
    "su_warnings s + su_errors s + su_fatal s \<le> su_classified s"
    using cc by (auto simp: consistent_counts_def)
  have channels: "su_total s = su_stdout a + su_stderr a + su_other a"
    using ch nn by (auto simp: a assess_verdict_fields reset summary_counts_def)
  have other: "0 \<le> su_other a \<and> su_other a < 2 ^ 53"
    using nn by (auto simp: a assess_verdict_fields reset summary_counts_def)
  have ready: "su_ready a \<longleftrightarrow> su_dropped a = 0 \<and> su_invalid a = 0 \<and> started \<le> su_window_start a \<and> su_complete s \<and>
       wc_min_events c \<le> su_total a \<and> \<not> flt (ratio (su_classified a) (su_total a)) (wc_min_coverage c)"
    using pos by (auto simp: a v(1) assess_verdict_fields reset zero)
  have counts: "list_all (\<lambda>n. 0 \<le> n \<and> n < 2 ^ 53) (summary_counts a)"
    using nn other by (simp add: a assess_verdict_fields reset summary_counts_def)
  have ratios: "su_warning_ratio a = (if su_ready a then Some (ratio (su_warnings a) (su_total a)) else None)"
    "su_error_ratio a = (if su_ready a then Some (ratio (su_errors a + su_fatal a) (su_total a)) else None)"
    unfolding a by (simp_all only: v(2,3) assess_verdict_fields reset)
  show ?thesis
    using sums channels counts win ready ratios by (simp add: a assess_verdict_fields reset)
qed

definition ex_summary :: summary where
  "ex_summary = (Snapshot (fst (run window_step ex_window ex_window_ops)) (103 * second))\<lparr>su_ready := False\<rparr>"

fun assess_ready :: "summary result \<Rightarrow> bool option" where
  "assess_ready (Inl _) = None"
| "assess_ready (Inr a) = Some (su_ready a)"

theorem assessed_summary_sound_witness:
  "\<exists>a. Assess ex_summary ex_window_config (100 * second) (104 * second) = Inr a \<and> su_ready a \<and>
     su_total a = su_classified a + su_unclassified a \<and> su_dropped a = 0"
proof -
  have "assess_ready (Assess ex_summary ex_window_config (100 * second) (104 * second)) = Some True"
    by code_simp
  then obtain a where a: "Assess ex_summary ex_window_config (100 * second) (104 * second) = Inr a" "su_ready a"
    by (cases "Assess ex_summary ex_window_config (100 * second) (104 * second)") simp_all
  have "1 \<le> wc_min_events ex_window_config" by (simp add: ex_window_config_def)
  from assessed_summary_sound [OF a(1) this] a show ?thesis by (intro exI [of _ a]) simp
qed

end
