(* ===== verification/Log_Framing.thy ===== *)
theory Log_Framing
  imports Go_Duration Step_Machine
begin

text \<open>
  Package \<open>logs\<close>, files \<open>frame.go\<close> and \<open>multiline.go\<close>: the framer that cuts
  a byte stream with arbitrary write boundaries into bounded records. The locks are gone:
  every operation is one step of a state machine, and the timer callback of a multiline record
  is an operation of its own. Compiled user patterns are predicates; the pattern compiler is
  the parameter \<open>compile\<close> of \<open>NewConfiguredFramer\<close>.
\<close>

definition MaxRecordBytes :: int where "MaxRecordBytes = 65536"

record frame_config =
  fc_mode :: string
  fc_start :: string
  fc_continue :: string
  fc_max_lines :: int
  fc_flush_after :: string

record multiline =
  m_start :: "string \<Rightarrow> bool"
  m_continuation :: "string \<Rightarrow> bool"
  m_max_lines :: int
  m_lines :: int
  m_deadline :: duration
  m_buf :: string
  m_invalid :: bool
  m_end :: int
  m_epoch :: int

record framer =
  f_buf :: string
  f_oversize :: bool
  f_read :: int
  f_complete :: int
  f_closed :: bool
  f_carriage_return :: bool
  f_multi :: "multiline option"

text \<open>A record handed to \<open>emit\<close>: its bytes and whether it is invalid.\<close>

type_synonym log_record = "string \<times> bool"

section \<open>Operations\<close>

definition NewFramer :: framer where
  "NewFramer = \<lparr>f_buf = [], f_oversize = False, f_read = 0, f_complete = 0, f_closed = False,
     f_carriage_return = False, f_multi = None\<rparr>"

definition NewConfiguredFramer ::
  "(string \<Rightarrow> (string \<Rightarrow> bool) option) \<Rightarrow> frame_config \<Rightarrow> framer result" where
  "NewConfiguredFramer compile c0 =
     (let c = (if fc_mode c0 = '''' then c0\<lparr>fc_mode := ''line''\<rparr> else c0) in
      if fc_mode c \<noteq> ''multiline'' then
        if (fc_mode c \<noteq> ''line'' \<and> fc_mode c \<noteq> ''carriage-return'') \<or> fc_start c \<noteq> '''' \<or>
           fc_continue c \<noteq> '''' \<or> fc_max_lines c \<noteq> 0 \<or> fc_flush_after c \<noteq> ''''
        then Inl (Err ''invalid log framing configuration'')
        else Inr (NewFramer\<lparr>f_carriage_return := (fc_mode c = ''carriage-return'')\<rparr>)
      else
        let max_lines = (if fc_max_lines c = 0 then 100 else fc_max_lines c);
            flush_after = (if fc_flush_after c = '''' then ''1s'' else fc_flush_after c);
            bad = Inl (Err ''multiline requires 2-1000 lines and flushAfter between 100ms and 5s'')
        in case parse_duration flush_after of
             None \<Rightarrow> bad
           | Some d \<Rightarrow>
               if d < 100 * millisecond \<or> d > 5 * second \<or> max_lines < 2 \<or> max_lines > 1000 then bad
               else if fc_start c = '''' \<or> length (fc_start c) > 1024 \<or> fc_continue c = '''' \<or>
                       length (fc_continue c) > 1024
               then Inl (Err ''multiline requires bounded start and continuation patterns'')
               else case compile (fc_start c) of
                      None \<Rightarrow> Inl (Err ''invalid multiline start pattern'')
                    | Some start \<Rightarrow>
                        (case compile (fc_continue c) of
                           None \<Rightarrow> Inl (Err ''invalid multiline continuation pattern'')
                         | Some continuation \<Rightarrow>
                             Inr (NewFramer\<lparr>f_multi := Some \<lparr>m_start = start,
                               m_continuation = continuation, m_max_lines = max_lines, m_lines = 0,
                               m_deadline = d, m_buf = [], m_invalid = False, m_end = 0,
                               m_epoch = 0\<rparr>\<rparr>)))"

definition deliver :: "framer \<Rightarrow> string \<Rightarrow> bool \<Rightarrow> int \<Rightarrow> framer \<times> log_record list" where
  "deliver f data invalid e = (f\<lparr>f_complete := e\<rparr>, [(data, invalid)])"

definition flush :: "framer \<Rightarrow> framer \<times> log_record list" where
  "flush f =
     (case f_multi f of
        None \<Rightarrow> (f, [])
      | Some m \<Rightarrow>
          if m_lines m = 0 then (f, [])
          else let (f1, out) = deliver f (m_buf m) (m_invalid m) (m_end m)
               in (f1\<lparr>f_multi := Some (m\<lparr>m_epoch := m_epoch m + 1, m_buf := [], m_lines := 0,
                     m_invalid := False\<rparr>)\<rparr>, out))"

text \<open>\<open>line\<close>: one complete line, in a multiline framer perhaps part of a longer record.\<close>

definition line :: "framer \<Rightarrow> string \<Rightarrow> bool \<Rightarrow> framer \<times> log_record list" where
  "line f data invalid =
     (case f_multi f of
        None \<Rightarrow> deliver f data invalid (f_read f)
      | Some m \<Rightarrow>
          if invalid then
            if m_lines m > 0 then (f\<lparr>f_multi := Some (m\<lparr>m_invalid := True, m_end := f_read f\<rparr>)\<rparr>, [])
            else deliver f [] True (f_read f)
          else if m_start m data then
            let (f1, out) = flush f
            in case f_multi f1 of
                 None \<Rightarrow> (f1, out)
               | Some m1 \<Rightarrow>
                   (f1\<lparr>f_multi := Some (m1\<lparr>m_lines := 1, m_end := f_read f, m_buf := data,
                      m_epoch := m_epoch m1 + 1\<rparr>)\<rparr>, out)
          else if m_lines m > 0 \<and> m_continuation m data then
            let m1 = m\<lparr>m_lines := m_lines m + 1, m_end := f_read f\<rparr>;
                m2 = (if m_lines m1 > m_max_lines m1 \<or>
                         int (length (m_buf m1) + 1 + length data) > MaxRecordBytes
                      then m1\<lparr>m_invalid := True\<rparr> else m1);
                m3 = (if m_invalid m2 then m2 else m2\<lparr>m_buf := m_buf m2 @ [CHR 0x0A] @ data\<rparr>)
            in (f\<lparr>f_multi := Some m3\<rparr>, [])
          else let (f1, out1) = flush f; (f2, out2) = deliver f1 data False (f_read f1)
               in (f2, out1 @ out2))"

text \<open>\<open>bytes.IndexByte\<close>, and the end of the first line in a chunk.\<close>

fun index_byte :: "char \<Rightarrow> string \<Rightarrow> nat option" where
  "index_byte b [] = None"
| "index_byte b (c # s) = (if c = b then Some 0 else map_option Suc (index_byte b s))"

definition line_end :: "bool \<Rightarrow> string \<Rightarrow> nat option" where
  "line_end cr p =
     (let e = index_byte (CHR 0x0A) p in
      if cr then
        case index_byte (CHR 0x0D) p of
          None \<Rightarrow> e
        | Some c \<Rightarrow> (case e of None \<Rightarrow> Some c | Some n \<Rightarrow> if c < n then Some c else e)
      else e)"

lemma index_byte_less: "index_byte b s = Some n \<Longrightarrow> n < length s"
  by (induction s arbitrary: n) (auto split: if_splits)

lemma line_end_less: "line_end cr p = Some e \<Longrightarrow> e < length p"
  by (auto simp: line_end_def Let_def split: if_splits option.splits dest: index_byte_less)

definition take_part :: "framer \<Rightarrow> string \<Rightarrow> framer" where
  "take_part f part =
     (if f_oversize f then f
      else if int (length (f_buf f) + length part) > MaxRecordBytes then f\<lparr>f_oversize := True, f_buf := []\<rparr>
      else f\<lparr>f_buf := f_buf f @ part\<rparr>)"

text \<open>The loop of \<open>Write\<close>; each turn handles the bytes up to a line's end.\<close>

function write_loop :: "framer \<Rightarrow> string \<Rightarrow> framer \<times> log_record list" where
  "write_loop f p =
     (if p = [] then (f, [])
      else case line_end (f_carriage_return f) p of
             None \<Rightarrow>
               (let f1 = take_part f p in (f1\<lparr>f_read := f_read f1 + int (length p)\<rparr>, []))
           | Some e \<Rightarrow>
               (let f1 = take_part f (take e p);
                    f2 = f1\<lparr>f_read := f_read f1 + int (e + 1)\<rparr>;
                    (f3, out) = line f2 (f_buf f2) (f_oversize f2);
                    f4 = f3\<lparr>f_buf := [], f_oversize := False\<rparr>;
                    (f5, rest) = write_loop f4 (drop (e + 1) p)
                in (f5, out @ rest)))"
  by pat_completeness auto
termination
  by (relation "measure (\<lambda>(_, p). length p)") auto

declare write_loop.simps [simp del]

text \<open>\<open>Write\<close>, \<open>Completed\<close>, \<open>Close\<close>, \<open>Discard\<close> and the timer's callback.\<close>

definition Framer_Write :: "framer \<Rightarrow> string \<Rightarrow> (int \<times> framer \<times> log_record list) result" where
  "Framer_Write f p =
     (if f_closed f then Inl ErrClosed
      else let (f1, out) = write_loop f p in Inr (int (length p), f1, out))"

definition Completed :: "framer \<Rightarrow> int" where "Completed f = f_complete f"

definition Framer_Close :: "framer \<Rightarrow> framer \<times> log_record list" where
  "Framer_Close f =
     (if f_closed f then (f, [])
      else let (f1, out1) = (if f_buf f \<noteq> [] \<or> f_oversize f then line f (f_buf f) (f_oversize f) else (f, []));
               (f2, out2) = flush f1
           in (f2\<lparr>f_buf := [], f_oversize := False, f_closed := True\<rparr>, out1 @ out2))"

definition Framer_Discard :: "framer \<Rightarrow> framer" where
  "Framer_Discard f =
     f\<lparr>f_closed := True, f_buf := [], f_multi := map_option (\<lambda>m. m\<lparr>m_buf := []\<rparr>) (f_multi f)\<rparr>"

definition timer_fired :: "framer \<Rightarrow> int \<Rightarrow> framer \<times> log_record list" where
  "timer_fired f epoch =
     (case f_multi f of
        None \<Rightarrow> (f, [])
      | Some m \<Rightarrow> if \<not> f_closed f \<and> m_epoch m = epoch then flush f else (f, []))"

section \<open>Write boundaries do not matter\<close>

text \<open>A writer whose result depends only on the bytes written: the contract, and what it says
  about every way of cutting a stream into writes.\<close>

locale chunked =
  fixes feed_all :: "'s \<Rightarrow> 'b list \<Rightarrow> 's \<times> 'o list"
  assumes all_nil: "feed_all s [] = (s, [])"
    and all_append: "feed_all s (p @ q) =
      (fst (feed_all (fst (feed_all s p)) q), snd (feed_all s p) @ snd (feed_all (fst (feed_all s p)) q))"
begin

lemma run_all: "run feed_all s chunks = feed_all s (concat chunks)"
  by (induction chunks arbitrary: s) (simp_all add: run_Cons all_nil all_append prod_eq_iff)

lemma chunks_irrelevant: "concat ps = concat qs \<Longrightarrow> run feed_all s ps = run feed_all s qs"
  by (simp add: run_all)

end

text \<open>One byte at a time.\<close>

definition is_end :: "bool \<Rightarrow> char \<Rightarrow> bool" where
  "is_end cr b \<longleftrightarrow> b = CHR 0x0A \<or> (cr \<and> b = CHR 0x0D)"

definition end_line :: "framer \<Rightarrow> framer \<times> log_record list" where
  "end_line f =
     (let f2 = f\<lparr>f_read := f_read f + 1\<rparr>; (f3, out) = line f2 (f_buf f2) (f_oversize f2)
      in (f3\<lparr>f_buf := [], f_oversize := False\<rparr>, out))"

definition feed :: "framer \<Rightarrow> char \<Rightarrow> framer \<times> log_record list" where
  "feed f b =
     (if is_end (f_carriage_return f) b then end_line (take_part f [])
      else ((take_part f [b])\<lparr>f_read := f_read f + 1\<rparr>, []))"

lemma take_part_append: "take_part (take_part f a) b = take_part f (a @ b)"
  by (auto simp: take_part_def)

lemma take_part_simps [simp]:
  "f_read (take_part f a) = f_read f" "f_carriage_return (take_part f a) = f_carriage_return f"
  "f_multi (take_part f a) = f_multi f" "f_closed (take_part f a) = f_closed f"
  "f_complete (take_part f a) = f_complete f"
  "take_part (f\<lparr>f_read := n\<rparr>) a = (take_part f a)\<lparr>f_read := n\<rparr>"
  "(take_part f a)\<lparr>f_read := f_read f\<rparr> = take_part f a"
  by (simp_all add: take_part_def)

lemma flush_frame [simp]:
  "f_carriage_return (fst (flush f)) = f_carriage_return f" "f_read (fst (flush f)) = f_read f"
  "f_buf (fst (flush f)) = f_buf f" "f_oversize (fst (flush f)) = f_oversize f"
  "f_closed (fst (flush f)) = f_closed f"
  by (auto simp: flush_def deliver_def Let_def split: option.splits)

lemma line_frame [simp]:
  "f_carriage_return (fst (line f d i)) = f_carriage_return f" "f_read (fst (line f d i)) = f_read f"
  "f_buf (fst (line f d i)) = f_buf f" "f_oversize (fst (line f d i)) = f_oversize f"
  "f_closed (fst (line f d i)) = f_closed f"
  by (auto simp: line_def deliver_def split_def Let_def split: option.splits)

lemma end_line_frame [simp]: "f_carriage_return (fst (end_line f)) = f_carriage_return f"
  by (simp add: end_line_def Let_def split_def)

lemma index_byte_None: "index_byte b s = None \<longleftrightarrow> b \<notin> set s"
  by (induction s) auto

lemma index_byte_Some: "index_byte b s = Some n \<Longrightarrow> n < length s \<and> s ! n = b \<and> b \<notin> set (take n s)"
  by (induction s arbitrary: n) (auto split: if_splits)

lemma line_end_None: "line_end cr p = None \<Longrightarrow> c \<in> set p \<Longrightarrow> \<not> is_end cr c"
  by (auto simp: line_end_def is_end_def Let_def index_byte_None split: if_splits option.splits)

lemma line_end_Some:
  assumes "line_end cr p = Some e"
  shows "e < length p \<and> is_end cr (p ! e) \<and> (\<forall>c \<in> set (take e p). \<not> is_end cr c)"
proof -
  have lf: "CHR 0x0A \<notin> set (take e p)" if "index_byte (CHR 0x0A) p = Some n" "e \<le> n" for n
    using index_byte_Some [OF that(1)] set_take_subset_set_take [OF that(2), of p] by blast
  have cr: "CHR 0x0D \<notin> set (take e p)" if "index_byte (CHR 0x0D) p = Some n" "e \<le> n" for n
    using index_byte_Some [OF that(1)] set_take_subset_set_take [OF that(2), of p] by blast
  have none: "b \<notin> set (take e p)" if "index_byte b p = None" for b
    using that by (auto simp: index_byte_None dest: in_set_takeD)
  consider "index_byte (CHR 0x0A) p = Some e" "\<not> cr \<or> CHR 0x0D \<notin> set (take e p)"
    | "cr" "index_byte (CHR 0x0D) p = Some e" "CHR 0x0A \<notin> set (take e p)"
    using assms lf cr none
    by (fastforce simp: line_end_def Let_def split: if_splits option.splits)
  then show ?thesis
    by cases (auto simp: is_end_def dest: index_byte_Some)
qed

lemma run_feed_plain:
  assumes "\<forall>b \<in> set p. \<not> is_end (f_carriage_return f) b" "p \<noteq> []"
  shows "run feed f p = ((take_part f p)\<lparr>f_read := f_read f + int (length p)\<rparr>, [])"
  using assms
proof (induction p arbitrary: f)
  case (Cons b p)
  show ?case
  proof (cases "p = []")
    case True
    with Cons.prems show ?thesis by (simp add: run_Cons feed_def)
  next
    case False
    let ?f = "(take_part f [b])\<lparr>f_read := f_read f + 1\<rparr>"
    have "run feed ?f p = ((take_part ?f p)\<lparr>f_read := f_read ?f + int (length p)\<rparr>, [])"
      using Cons.prems False by (intro Cons.IH) simp_all
    moreover have "feed f b = (?f, [])" using Cons.prems by (simp add: feed_def)
    ultimately show ?thesis by (simp add: run_Cons take_part_append algebra_simps)
  qed
qed simp

lemma run_feed_line:
  assumes "\<forall>b \<in> set p. \<not> is_end (f_carriage_return f) b" "is_end (f_carriage_return f) c"
  shows "run feed f (p @ [c]) = end_line ((take_part f p)\<lparr>f_read := f_read f + int (length p)\<rparr>)"
proof (cases "p = []")
  case True
  with assms(2) show ?thesis by (simp add: run_Cons feed_def prod_eq_iff)
next
  case False
  from run_feed_plain [OF assms(1) False] assms(2) show ?thesis
    by (simp add: run_append run_Cons feed_def take_part_append prod_eq_iff)
qed

lemma write_loop_feed: "write_loop f p = run feed f p"
proof (induction f p rule: write_loop.induct)
  case (1 f p)
  show ?case
  proof (cases "p = []")
    case True
    then show ?thesis by (simp add: write_loop.simps)
  next
    case ne: False
    show ?thesis
    proof (cases "line_end (f_carriage_return f) p")
      case None
      then show ?thesis using ne run_feed_plain [of p f] line_end_None [OF None]
        by (subst write_loop.simps) (simp add: Let_def)
    next
      case (Some e)
      let ?f4 = "fst (end_line ((take_part f (take e p))\<lparr>f_read := f_read f + int e\<rparr>))"
      note le = line_end_Some [OF Some]
      have p: "p = (take e p @ [p ! e]) @ drop (e + 1) p"
        using le by (simp add: id_take_nth_drop)
      have len: "length (take e p) = e" using le by simp
      have IH: "write_loop ?f4 (drop (e + 1) p) = run feed ?f4 (drop (e + 1) p)"
        using "1.IH" [OF ne Some refl refl refl prod.collapse refl]
        by (simp add: end_line_def Let_def split_def algebra_simps)
      have w: "write_loop f p = (fst (write_loop ?f4 (drop (e + 1) p)),
          snd (end_line ((take_part f (take e p))\<lparr>f_read := f_read f + int e\<rparr>)) @
          snd (write_loop ?f4 (drop (e + 1) p)))"
        using ne by (subst write_loop.simps) (simp add: Some end_line_def Let_def split_def algebra_simps)
      have r: "run feed f (take e p @ [p ! e]) =
          end_line ((take_part f (take e p))\<lparr>f_read := f_read f + int e\<rparr>)"
        using run_feed_line [of "take e p" f "p ! e"] le len by simp
      have "run feed f p = run feed f ((take e p @ [p ! e]) @ drop (e + 1) p)" using p by simp
      also have "\<dots> = write_loop f p" unfolding run_append [of _ _ "take e p @ [p ! e]"] r w IH ..
      finally show ?thesis by simp
    qed
  qed
qed

interpretation framing: chunked write_loop
  by unfold_locales (simp_all add: write_loop_feed run_append)

section \<open>Line framing against its specification\<close>

text \<open>The lines of a stream, and the bytes after the last line's end.\<close>

definition split_step :: "(char \<Rightarrow> bool) \<Rightarrow> string list \<times> string \<Rightarrow> char \<Rightarrow> string list \<times> string" where
  "split_step e = (\<lambda>(ls, r) c. if e c then (ls @ [r], []) else (ls, r @ [c]))"

definition split_lines :: "(char \<Rightarrow> bool) \<Rightarrow> string \<Rightarrow> string list \<times> string" where
  "split_lines e s = foldl (split_step e) ([], []) s"

definition frame_record :: "string \<Rightarrow> log_record" where
  "frame_record l = (if int (length l) > MaxRecordBytes then ([], True) else (l, False))"

lemma split_step_newline [simp]:
  "split_step (is_end False) (ls, r) c = (if c = CHR 0x0A then (ls @ [r], []) else (ls, r @ [c]))"
  by (simp add: split_step_def is_end_def)

lemma split_lines_snoc [simp]: "split_lines e (s @ [c]) = split_step e (split_lines e s) c"
  by (simp add: split_lines_def)

lemma split_lines_nil [simp]: "split_lines e [] = ([], [])"
  by (simp add: split_lines_def)

text \<open>The lines are the stream: nothing is lost, added or reordered.\<close>

lemma split_lines_concat:
  "concat (map (\<lambda>l. l @ [CHR 0x0A]) (fst (split_lines (is_end False) s))) @ snd (split_lines (is_end False) s) = s"
proof (induction s rule: rev_induct)
  case (snoc c s)
  then show ?case by (cases "split_lines (is_end False) s") simp
qed simp

definition fresh_framer :: "bool \<Rightarrow> framer" where
  "fresh_framer cr = NewFramer\<lparr>f_carriage_return := cr\<rparr>"

lemma run_feed_split:
  "run feed (fresh_framer cr) s =
     (let (ls, r) = split_lines (is_end cr) s in
      ((fresh_framer cr)\<lparr>f_buf := (if int (length r) > MaxRecordBytes then [] else r),
         f_oversize := int (length r) > MaxRecordBytes, f_read := int (length s),
         f_complete := int (length s) - int (length r)\<rparr>, map frame_record ls))"
proof (induction s rule: rev_induct)
  case Nil
  then show ?case by (simp add: fresh_framer_def NewFramer_def MaxRecordBytes_def)
next
  case (snoc c s)
  obtain ls r where s: "split_lines (is_end cr) s = (ls, r)" by fastforce
  show ?case
    using snoc
    by (auto simp: run_append run_Cons s split_step_def feed_def end_line_def take_part_def line_def deliver_def
        frame_record_def fresh_framer_def NewFramer_def MaxRecordBytes_def Let_def)
qed

text \<open>C23: a line framer is exact and independent of write boundaries: whatever way a stream is
  cut into writes, the records it has emitted are the stream's complete lines in order, each
  as it is or, when longer than 64 KiB, as one invalid empty record; \<open>Completed\<close> is the number
  of bytes through the last line's end; and the lines with their ends and the rest are
  the stream.\<close>

theorem framer_emits_lines:
  assumes "run write_loop (fresh_framer False) chunks = (f, records)"
  shows "\<exists>ls r. concat (map (\<lambda>l. l @ [CHR 0x0A]) ls) @ r = concat chunks \<and> CHR 0x0A \<notin> set r \<and>
    (\<forall>l \<in> set ls. CHR 0x0A \<notin> set l) \<and>
    records = map (\<lambda>l. if int (length l) > MaxRecordBytes then ([], True) else (l, False)) ls \<and>
    Completed f = int (length (concat chunks) - length r)"
proof -
  let ?s = "concat chunks"
  obtain ls r where s: "split_lines (is_end False) ?s = (ls, r)" by fastforce
  have no: "CHR 0x0A \<notin> set (snd (split_lines (is_end False) s)) \<and>
      (\<forall>l \<in> set (fst (split_lines (is_end False) s)). CHR 0x0A \<notin> set l)" for s
    by (induction s rule: rev_induct) (auto simp: split_step_def is_end_def split_def)
  have "run feed (fresh_framer False) ?s = (f, records)"
    using assms unfolding framing.run_all write_loop_feed .
  then have "records = map frame_record ls" "Completed f = int (length ?s) - int (length r)"
    by (auto simp: run_feed_split s Completed_def)
  moreover have "length r \<le> length ?s"
    using split_lines_concat [of ?s] unfolding s by (metis fst_conv snd_conv le_add2 length_append)
  ultimately show ?thesis
    using split_lines_concat [of ?s] no [of ?s] unfolding s
    by (intro exI [of _ ls] exI [of _ r]) (simp add: frame_record_def [abs_def] of_nat_diff)
qed

theorem framer_emits_lines_witness:
  "\<exists>f. run write_loop (fresh_framer False) [''er'', ''ror'' @ [CHR 0x0A] @ ''o'', ''k'' @ [CHR 0x0A] @ ''re''] =
     (f, [(''error'', False), (''ok'', False)]) \<and> Completed f = 9 \<and>
   (\<exists>ls r. concat (map (\<lambda>l. l @ [CHR 0x0A]) ls) @ r =
      concat [''er'', ''ror'' @ [CHR 0x0A] @ ''o'', ''k'' @ [CHR 0x0A] @ ''re''] \<and>
      [(''error'', False), (''ok'', False)] =
        map (\<lambda>l. if int (length l) > MaxRecordBytes then ([], True) else (l, False)) ls)"
proof -
  let ?c = "[''er'', ''ror'' @ [CHR 0x0A] @ ''o'', ''k'' @ [CHR 0x0A] @ ''re'']"
  obtain f records where r: "run write_loop (fresh_framer False) ?c = (f, records)" by fastforce
  have "snd (run write_loop (fresh_framer False) ?c) = [(''error'', False), (''ok'', False)]"
    "Completed (fst (run write_loop (fresh_framer False) ?c)) = 9" by code_simp+
  with r have v: "records = [(''error'', False), (''ok'', False)]" "Completed f = 9" by simp_all
  from framer_emits_lines [OF r [unfolded v]] obtain ls rest where
    "concat (map (\<lambda>l. l @ [CHR 0x0A]) ls) @ rest = concat ?c"
    "[(''error'', False), (''ok'', False)] =
      map (\<lambda>l. if int (length l) > MaxRecordBytes then ([], True) else (l, False)) ls"
    by (elim exE conjE)
  with r v show ?thesis by (intro exI conjI) simp_all
qed

section \<open>Every sequence of operations\<close>

datatype framer_op = OpWrite string | OpTimer int | OpClose | OpDiscard

fun framer_step :: "framer \<Rightarrow> framer_op \<Rightarrow> framer \<times> log_record list" where
  "framer_step f (OpWrite p) =
     (case Framer_Write f p of Inl _ \<Rightarrow> (f, []) | Inr (_, f1, out) \<Rightarrow> (f1, out))"
| "framer_step f (OpTimer epoch) = timer_fired f epoch"
| "framer_step f OpClose = Framer_Close f"
| "framer_step f OpDiscard = (Framer_Discard f, [])"

definition multi_ok :: "framer \<Rightarrow> multiline \<Rightarrow> bool" where
  "multi_ok f m \<longleftrightarrow> 0 \<le> m_lines m \<and> int (length (m_buf m)) \<le> MaxRecordBytes \<and>
     (0 < m_lines m \<longrightarrow> f_complete f \<le> m_end m \<and> m_end m \<le> f_read f) \<and>
     (m_lines m = 0 \<longrightarrow> \<not> m_invalid m)"

definition framer_ok :: "framer \<Rightarrow> bool" where
  "framer_ok f \<longleftrightarrow> int (length (f_buf f)) \<le> MaxRecordBytes \<and> 0 \<le> f_complete f \<and> f_complete f \<le> f_read f \<and>
     (case f_multi f of None \<Rightarrow> True | Some m \<Rightarrow> multi_ok f m)"

definition bounded_record :: "log_record \<Rightarrow> bool" where
  "bounded_record r \<longleftrightarrow> int (length (fst r)) \<le> MaxRecordBytes"

text \<open>What an operation of a framer keeps.\<close>

definition safe_result :: "framer \<Rightarrow> framer \<times> log_record list \<Rightarrow> bool" where
  "safe_result f r \<longleftrightarrow> framer_ok (fst r) \<and> list_all bounded_record (snd r) \<and>
     f_complete f \<le> f_complete (fst r)"

lemma flush_safe: "framer_ok f \<Longrightarrow> safe_result f (flush f)"
  by (auto simp: safe_result_def framer_ok_def multi_ok_def flush_def deliver_def bounded_record_def
      MaxRecordBytes_def split: option.splits if_splits)

lemma flush_lines: "f_multi (fst (flush f)) = Some m \<Longrightarrow> m_lines m = 0"
  by (auto simp: flush_def deliver_def Let_def split: option.splits if_splits)

lemma line_safe:
  assumes ok: "framer_ok f" and d: "int (length data) \<le> MaxRecordBytes"
  shows "safe_result f (line f data invalid)"
proof (cases "f_multi f")
  case None
  with ok d show ?thesis
    by (simp add: line_def safe_result_def framer_ok_def deliver_def bounded_record_def)
next
  case (Some m)
  have fl: "safe_result f (flush f)" by (rule flush_safe [OF ok])
  show ?thesis
  proof (cases "invalid \<or> m_lines m > 0 \<and> \<not> m_start m data \<and> m_continuation m data")
    case True
    with Some ok d show ?thesis
      by (auto simp: line_def safe_result_def framer_ok_def multi_ok_def deliver_def bounded_record_def
          MaxRecordBytes_def Let_def)
  next
    case False
    then have "line f data invalid =
       (if m_start m data
        then case f_multi (fst (flush f)) of
               None \<Rightarrow> flush f
             | Some m1 \<Rightarrow> ((fst (flush f))\<lparr>f_multi := Some (m1\<lparr>m_lines := 1, m_end := f_read f,
                 m_buf := data, m_epoch := m_epoch m1 + 1\<rparr>)\<rparr>, snd (flush f))
        else ((fst (flush f))\<lparr>f_complete := f_read f\<rparr>, snd (flush f) @ [(data, False)]))"
      using Some by (auto simp: line_def deliver_def split_def Let_def split: option.splits)
    with fl d flush_lines [of f] show ?thesis
      by (auto simp: safe_result_def framer_ok_def multi_ok_def bounded_record_def split: option.splits)
  qed
qed

lemma framer_ok_take_part: "framer_ok f \<Longrightarrow> framer_ok (take_part f p)"
  by (auto simp: framer_ok_def multi_ok_def take_part_def MaxRecordBytes_def split: option.splits)

lemma framer_ok_read: "framer_ok f \<Longrightarrow> f_read f \<le> n \<Longrightarrow> framer_ok (f\<lparr>f_read := n\<rparr>)"
  by (auto simp: framer_ok_def multi_ok_def split: option.splits)

lemma framer_ok_reset [simp]:
  "framer_ok f \<Longrightarrow> framer_ok (f\<lparr>f_buf := [], f_oversize := b\<rparr>)"
  "framer_ok (f\<lparr>f_closed := c\<rparr>) = framer_ok f"
  by (auto simp: framer_ok_def multi_ok_def MaxRecordBytes_def split: option.splits)

lemma feed_safe:
  assumes "framer_ok f"
  shows "safe_result f (feed f b)"
proof (cases "is_end (f_carriage_return f) b")
  case True
  let ?f = "(take_part f [])\<lparr>f_read := f_read f + 1\<rparr>"
  have ok: "framer_ok ?f" using framer_ok_take_part [OF assms] by (simp add: framer_ok_read)
  then have "int (length (f_buf ?f)) \<le> MaxRecordBytes" by (simp add: framer_ok_def)
  from line_safe [OF ok this, of "f_oversize ?f"] True
  show ?thesis by (simp add: feed_def end_line_def safe_result_def split_def Let_def)
next
  case False
  with framer_ok_take_part [OF assms] show ?thesis
    by (simp add: feed_def safe_result_def framer_ok_read)
qed

interpretation feeding: step_safe feed "\<lambda>_. True" framer_ok bounded_record f_complete
  by unfold_locales (use feed_safe in \<open>auto simp: safe_result_def\<close>)

lemma write_loop_safe: "framer_ok f \<Longrightarrow> safe_result f (write_loop f p)"
  using feeding.run_safe [of f p] feeding.run_inv [of f p]
  by (simp add: write_loop_feed safe_result_def list_all_iff)

lemma Framer_Close_safe: "framer_ok f \<Longrightarrow> safe_result f (Framer_Close f)"
proof -
  assume ok: "framer_ok f"
  then have b: "int (length (f_buf f)) \<le> MaxRecordBytes" by (simp add: framer_ok_def)
  let ?l = "if f_buf f \<noteq> [] \<or> f_oversize f then line f (f_buf f) (f_oversize f) else (f, [])"
  have l: "safe_result f ?l" using line_safe [OF ok b] ok by (simp add: safe_result_def)
  then have "safe_result (fst ?l) (flush (fst ?l))" by (intro flush_safe) (simp add: safe_result_def)
  with l ok show ?thesis
    unfolding Framer_Close_def Let_def split_def safe_result_def
    by (cases "f_closed f") (auto simp del: split_paired_All)
qed

lemma framer_step_safe: "framer_ok f \<Longrightarrow> safe_result f (framer_step f op)"
proof (cases op)
  case (OpWrite p)
  assume "framer_ok f"
  with write_loop_safe [of f p] OpWrite show ?thesis
    by (auto simp: Framer_Write_def safe_result_def split_def)
next
  case (OpTimer e)
  assume "framer_ok f"
  with flush_safe [of f] OpTimer show ?thesis
    by (auto simp: timer_fired_def safe_result_def split: option.splits)
next
  case OpClose
  assume "framer_ok f"
  with Framer_Close_safe [of f] OpClose show ?thesis by simp
next
  case OpDiscard
  assume "framer_ok f"
  with OpDiscard show ?thesis
    by (auto simp: Framer_Discard_def safe_result_def framer_ok_def multi_ok_def MaxRecordBytes_def
        split: option.splits)
qed

interpretation framer_ops: step_safe framer_step "\<lambda>_. True" framer_ok bounded_record f_complete
  by unfold_locales (use framer_step_safe in \<open>auto simp: safe_result_def\<close>)

lemma NewConfiguredFramer_ok: "NewConfiguredFramer compile c = Inr f \<Longrightarrow> framer_ok f \<and> f_complete f = 0"
  by (auto simp: NewConfiguredFramer_def NewFramer_def framer_ok_def multi_ok_def MaxRecordBytes_def Let_def
      split: if_splits option.splits)

text \<open>Whatever a configured framer goes through (writes with any boundaries, multiline timers,
  close, discard), every record it emits is at most 64 KiB, the offset \<open>Completed\<close> never moves
  backwards and never passes the bytes written.\<close>

theorem framer_records_bounded:
  assumes "NewConfiguredFramer compile c = Inr f0" "run framer_step f0 ops = (f, records)"
  shows "(\<forall>(data, invalid) \<in> set records. int (length data) \<le> MaxRecordBytes) \<and>
    0 \<le> Completed f \<and> Completed f \<le> f_read f \<and>
    Completed f \<le> Completed (fst (framer_step f op))"
proof -
  have ok: "framer_ok f0" using NewConfiguredFramer_ok [OF assms(1)] by blast
  have all: "list_all (\<lambda>_. True) ops" by (simp add: list_all_iff)
  from framer_ops.run_safe [OF ok all] framer_ops.run_inv [OF ok all] assms(2)
  have "list_all bounded_record records" "framer_ok f" by simp_all
  moreover from framer_ops.amount_mono [OF this(2)] have "f_complete f \<le> f_complete (fst (framer_step f op))" by simp
  ultimately show ?thesis
    by (auto simp: list_all_iff bounded_record_def framer_ok_def Completed_def)
qed

definition ex_multiline :: frame_config where
  "ex_multiline = \<lparr>fc_mode = ''multiline'', fc_start = ''ERR'', fc_continue = ''at'', fc_max_lines = 0,
     fc_flush_after = ''''\<rparr>"

definition ex_compile :: "string \<Rightarrow> (string \<Rightarrow> bool) option" where
  "ex_compile p = Some (has_prefix p)"

definition ex_framer_ops :: "framer_op list" where
  "ex_framer_ops = [OpWrite (''ERR a'' @ [CHR 0x0A] @ ''at b''), OpWrite ([CHR 0x0A] @ ''ok''), OpClose]"

fun run_new :: "framer result \<Rightarrow> framer_op list \<Rightarrow> (log_record list \<times> int) option" where
  "run_new (Inl _) ops = None"
| "run_new (Inr f) ops = Some (snd (run framer_step f ops), Completed (fst (run framer_step f ops)))"

theorem framer_records_bounded_witness:
  "\<exists>f0 f. NewConfiguredFramer ex_compile ex_multiline = Inr f0 \<and>
     run framer_step f0 ex_framer_ops = (f, [(''ERR a'' @ [CHR 0x0A] @ ''at b'', False), (''ok'', False)]) \<and>
     Completed f = 13 \<and> Completed f \<le> f_read f"
proof -
  have v: "run_new (NewConfiguredFramer ex_compile ex_multiline) ex_framer_ops =
      Some ([(''ERR a'' @ [CHR 0x0A] @ ''at b'', False), (''ok'', False)], 13)" by code_simp
  then obtain f0 where f0: "NewConfiguredFramer ex_compile ex_multiline = Inr f0"
    by (metis run_new.simps(1) old.sum.exhaust option.distinct(1))
  obtain f records where r: "run framer_step f0 ex_framer_ops = (f, records)" by fastforce
  from v have "records = [(''ERR a'' @ [CHR 0x0A] @ ''at b'', False), (''ok'', False)]" "Completed f = 13"
    unfolding f0 by (simp_all add: r)
  with framer_records_bounded [OF f0 r] f0 r show ?thesis by simp
qed

section \<open>Multiline records\<close>

lemma continuation_line:
  assumes "f_multi f = Some m" "0 < m_lines m" "\<not> m_invalid m" "\<not> m_start m l" "m_continuation m l"
    and "m_lines m < m_max_lines m" "int (length (m_buf m) + 1 + length l) \<le> MaxRecordBytes"
  shows "line f l False = (f\<lparr>f_multi := Some (m\<lparr>m_lines := m_lines m + 1, m_end := f_read f,
    m_buf := m_buf m @ [CHR 0x0A] @ l\<rparr>)\<rparr>, [])"
  using assms by (simp add: line_def Let_def)

lemma continuation_lines:
  assumes "f_multi f = Some m" "0 < m_lines m" "\<not> m_invalid m"
    and "\<forall>l \<in> set ls. \<not> m_start m l \<and> m_continuation m l"
    and "m_lines m + int (length ls) \<le> m_max_lines m"
    and "int (length (m_buf m @ concat (map (\<lambda>l. CHR 0x0A # l) ls))) \<le> MaxRecordBytes"
  shows "\<exists>f' m'. run (\<lambda>f l. line f l False) f ls = (f', []) \<and> f_multi f' = Some m' \<and> 0 < m_lines m' \<and>
    \<not> m_invalid m' \<and> m_buf m' = m_buf m @ concat (map (\<lambda>l. CHR 0x0A # l) ls)"
  using assms
proof (induction ls arbitrary: f m)
  case (Cons l ls)
  let ?m = "m\<lparr>m_lines := m_lines m + 1, m_end := f_read f, m_buf := m_buf m @ [CHR 0x0A] @ l\<rparr>"
  have "line f l False = (f\<lparr>f_multi := Some ?m\<rparr>, [])"
    using Cons.prems by (intro continuation_line) auto
  moreover have "\<exists>f' m'. run (\<lambda>f l. line f l False) (f\<lparr>f_multi := Some ?m\<rparr>) ls = (f', []) \<and>
      f_multi f' = Some m' \<and> 0 < m_lines m' \<and> \<not> m_invalid m' \<and>
      m_buf m' = m_buf ?m @ concat (map (\<lambda>l. CHR 0x0A # l) ls)"
    using Cons.prems by (intro Cons.IH) auto
  ultimately show ?case by (auto simp: run_Cons)
qed auto

text \<open>A start line and the continuation lines after it become one record, joined by newlines,
  as long as they stay within the configured number of lines and 64 KiB; nothing of it is emitted
  before it is flushed by the next line, the timer or the end of the stream.\<close>

theorem multiline_joins:
  assumes "f_multi f = Some m" "m_lines m = 0" "\<not> m_invalid m" "m_start m l"
    and "\<forall>c \<in> set cs. \<not> m_start m c \<and> m_continuation m c"
    and "1 + int (length cs) \<le> m_max_lines m"
    and "int (length (l @ concat (map (\<lambda>c. CHR 0x0A # c) cs))) \<le> MaxRecordBytes"
  shows "\<exists>f'. run (\<lambda>f l. line f l False) f (l # cs) = (f', []) \<and>
    snd (flush f') = [(l @ concat (map (\<lambda>c. CHR 0x0A # c) cs), False)]"
proof -
  let ?m = "m\<lparr>m_lines := 1, m_end := f_read f, m_buf := l, m_epoch := m_epoch m + 1\<rparr>"
  have "line f l False = (f\<lparr>f_multi := Some ?m\<rparr>, [])"
    using assms(1-4) by (simp add: line_def flush_def)
  moreover from continuation_lines [of "f\<lparr>f_multi := Some ?m\<rparr>" ?m cs] assms
  obtain f' m' where "run (\<lambda>f l. line f l False) (f\<lparr>f_multi := Some ?m\<rparr>) cs = (f', [])"
    "f_multi f' = Some m'" "0 < m_lines m'" "\<not> m_invalid m'" "m_buf m' = l @ concat (map (\<lambda>c. CHR 0x0A # c) cs)"
    by auto
  ultimately show ?thesis by (auto simp: run_Cons flush_def deliver_def)
qed

definition ex_multi :: multiline where
  "ex_multi = \<lparr>m_start = has_prefix ''ERR'', m_continuation = has_prefix ''at'', m_max_lines = 100,
     m_lines = 0, m_deadline = second, m_buf = [], m_invalid = False, m_end = 0, m_epoch = 0\<rparr>"

theorem multiline_joins_witness:
  "\<exists>f'. run (\<lambda>f l. line f l False) (NewFramer\<lparr>f_multi := Some ex_multi\<rparr>) [''ERR a'', ''at b''] = (f', []) \<and>
     snd (flush f') = [(''ERR a'' @ [CHR 0x0A] @ ''at b'', False)]"
  using multiline_joins [of "NewFramer\<lparr>f_multi := Some ex_multi\<rparr>" ex_multi "''ERR a''" "[''at b'']"]
  by (simp add: ex_multi_def NewFramer_def MaxRecordBytes_def)

end
