(* ===== verification/Log_Classify.thy ===== *)
theory Log_Classify
  imports Go_Regexp Json_Parse Watch_Types Log_Window Log_Framing
begin

text \<open>
  Package \<open>logs\<close>, files \<open>classify.go\<close>, \<open>collector.go\<close> and \<open>stats.go\<close>: the
  parser that assigns a severity to a record, and the collector that queues framed records and
  counts them. The fixed patterns are computed; the compiler of user patterns is the parameter
  \<open>compile\<close>.
\<close>

section \<open>Severity\<close>

definition severity :: "string \<Rightarrow> int" where
  "severity s =
     (let l = to_lower (trim_space s) in
      if l = ''trace'' then Trace
      else if l = ''debug'' then Debug
      else if l = ''info'' then Info
      else if l = ''warn'' \<or> l = ''warning'' then Warning
      else if l = ''error'' \<or> l = ''err'' then ErrorLevel
      else if l = ''fatal'' \<or> l = ''critical'' \<or> l = ''panic'' then Fatal
      else Unclassified)"

record parser_config =
  pc_format :: string
  pc_level_field :: string
  pc_patterns :: "(string \<times> string) list"
  pc_level_map :: "(string \<times> string) list"

record parser =
  pr_config :: parser_config
  pr_patterns :: "(int \<times> (string \<Rightarrow> bool)) list"

definition pattern_names :: "string list" where
  "pattern_names = [''fatal'', ''critical'', ''panic'', ''error'', ''err'', ''warning'', ''warn'', ''info'', ''debug'', ''trace'']"

text \<open>The rules of the configured patterns, highest severity first.\<close>

fun compile_patterns ::
  "(string \<Rightarrow> (string \<Rightarrow> bool) option) \<Rightarrow> (string \<times> string) list \<Rightarrow> string list \<Rightarrow> (int \<times> (string \<Rightarrow> bool)) list result" where
  "compile_patterns compile ps [] = Inr []"
| "compile_patterns compile ps (name # names) =
     (case map_of ps name of
        None \<Rightarrow> compile_patterns compile ps names
      | Some expression \<Rightarrow>
          if expression = '''' \<or> length expression > 1024
          then Inl (Err ''log pattern must contain 1-1024 bytes'')
          else case compile expression of
                 None \<Rightarrow> Inl (Err (''invalid log pattern for '' @ name))
               | Some r \<Rightarrow> bindE (compile_patterns compile ps names) (\<lambda>rs. Inr ((severity name, r) # rs)))"

definition NewParser :: "(string \<Rightarrow> (string \<Rightarrow> bool) option) \<Rightarrow> parser_config \<Rightarrow> parser result" where
  "NewParser compile c0 =
     (let c1 = (if pc_format c0 = '''' then c0\<lparr>pc_format := ''auto''\<rparr> else c0) in
      if pc_format c1 \<noteq> ''auto'' \<and> pc_format c1 \<noteq> ''text'' \<and> pc_format c1 \<noteq> ''jsonl''
      then Inl (Err ''log format must be auto, text, or jsonl'')
      else
        let c = (if pc_level_field c1 = '''' then c1\<lparr>pc_level_field := ''level''\<rparr> else c1) in
        if length (pc_level_field c) > 256 \<or> length (pc_patterns c) > 16 \<or> length (pc_level_map c) > 32
        then Inl (Err ''log parser exceeds configuration limits'')
        else if \<not> list_all (\<lambda>(label, mapped). \<not> (label = '''' \<or> length label > 64 \<or> severity mapped = Unclassified))
                  (pc_level_map c)
        then Inl (Err ''levelMap requires bounded labels mapped to known severities'')
        else if \<not> list_all (\<lambda>(key, _). severity key \<noteq> Unclassified) (pc_patterns c)
        then Inl (Err ''unknown severity in log pattern'')
        else bindE (compile_patterns compile (pc_patterns c) pattern_names) (\<lambda>rules.
          if \<not> list_all (\<lambda>(name, _). name = to_lower name) (pc_patterns c)
          then Inl (Err ''log pattern severity keys must be lowercase'')
          else Inr \<lparr>pr_config = c, pr_patterns = rules\<rparr>))"

section \<open>Fixed patterns\<close>

definition ansi :: re where
  "ansi = Seq (Lit [CHR 0x1B])
     (Alt (seqs [Lit ''['', Star (Range (CHR ''0'') (CHR ''?'')), Star (Range (CHR '' '') (CHR ''/'')),
                 Range (CHR ''@'') (CHR ''~'')])
          (seqs [Lit '']'', Star (NoneOf [CHR 0x07, CHR 0x1B]), Alt (Lit [CHR 0x07]) (Lit [CHR 0x1B, CHR 0x5C])]))"

definition timestamp_prefix :: re where
  "timestamp_prefix = Opt (Seq (Alt
     (seqs [Opt (Lit ''[''), Digit, Digit, Digit, Digit, AnyOf ''-/'', Digit, Digit, AnyOf ''-/'', Digit, Digit,
            AnyOf ''Tt '', Plus (AnyOf ''0123456789:.+Zz-''), Opt (Lit '']'')])
     (seqs [Digit, Digit, Lit '':'', Digit, Digit, Lit '':'', Digit, Digit, Opt (Seq (AnyOf ''.,'') (Plus Digit))]))
     (Plus Space))"

definition header :: re where
  "header = seqs [timestamp_prefix, Opt (Lit ''[''),
     Cap (alts [LitFold ''trace'', LitFold ''debug'', LitFold ''info'', Seq (LitFold ''warn'') (Opt (LitFold ''ing'')),
       LitFold ''error'', LitFold ''err'', LitFold ''fatal'', LitFold ''critical'', LitFold ''panic'']),
     Opt (Lit '']''), alts [Space, Lit '':'', End_Text]]"

text \<open>\<open>(?i)[\w.-]\<close>: under folding it also has U+017F and U+212A.\<close>

definition key_char :: re where
  "key_char = alts [Cls (\<lambda>c. is_digit c \<or> is_alpha c \<or> c = CHR ''_'' \<or> c = CHR ''.'' \<or> c = CHR ''-''),
     Lit [CHR 0xC5, CHR 0xBF], Lit [CHR 0xE2, CHR 0x84, CHR 0xAA]]"

definition level_key :: re where
  "level_key = seqs [timestamp_prefix,
     Star (seqs [Plus key_char, Lit ''='',
       alts [seqs [Lit [CHR 0x22], Star (Alt (Seq (Lit [CHR 0x5C]) (NoneOf [CHR 0x0A])) (NoneOf [CHR 0x22, CHR 0x5C])),
                   Lit [CHR 0x22]],
             seqs [Lit [CHR 0x27], Star (NoneOf [CHR 0x27]), Lit [CHR 0x27]],
             Plus (NoneOf (spaces_re @ [CHR 0x22, CHR 0x27]))],
       Plus Space]),
     LitFold ''level='', Opt (AnyOf [CHR 0x22, CHR 0x27]),
     Cap (alts [LitFold ''trace'', LitFold ''debug'', LitFold ''info'', Seq (LitFold ''warn'') (Opt (LitFold ''ing'')),
       LitFold ''error'', LitFold ''err'', LitFold ''fatal'', LitFold ''critical'', LitFold ''panic'']),
     Opt (AnyOf [CHR 0x22, CHR 0x27]), alts [Space, End_Text]]"

section \<open>Classify\<close>

abbreviation level_only :: "int \<Rightarrow> classification" where
  "level_only l \<equiv> \<lparr>cl_level = l, cl_invalid = False, cl_blank = False\<rparr>"

abbreviation invalid_record :: classification where
  "invalid_record \<equiv> \<lparr>cl_level = 0, cl_invalid = True, cl_blank = False\<rparr>"

text \<open>\<open>strings.Split(field, ".")\<close>.\<close>

fun split_dots :: "string \<Rightarrow> string list" where
  "split_dots [] = [[]]"
| "split_dots (c # s) =
     (if c = CHR ''.'' then [] # split_dots s
      else case split_dots s of [] \<Rightarrow> [[c]] | w # ws \<Rightarrow> (c # w) # ws)"

fun descend :: "value \<Rightarrow> string list \<Rightarrow> value" where
  "descend v [] = v"
| "descend (VObj m) (k # ks) = descend (field_value m k) ks"
| "descend _ (k # ks) = VNil"

text \<open>\<open>fmt.Sprint\<close> of a \<open>float64\<close>: format \<open>'g'\<close>, shortest, exponents below -4 or from
  6 on in scientific notation with at least two digits.\<close>

definition sprint_e :: "int \<Rightarrow> int \<Rightarrow> string" where
  "sprint_e c e =
     (let ds = show_nat c; x = e + int (length ds) - 1
      in take 1 ds @ (if length ds > 1 then ''.'' @ drop 1 ds else '''') @
         (if x < 0 then ''e-'' else ''e+'') @ (if \<bar>x\<bar> < 10 then ''0'' else '''') @ show_nat \<bar>x\<bar>)"

fun sprint_float :: "float64 \<Rightarrow> string" where
  "sprint_float (Fin s m e) =
     (if s then ''-'' else '''') @
     (if m = 0 then ''0''
      else let n = m * pow2 e; d = pow2 (- e);
               (c, x) = shortest_digits (Fin False m e) n d (dec_exp n d) [1..<18];
               exp = x + int (length (show_nat c)) - 1
           in if exp < -4 \<or> exp \<ge> 6 then sprint_e c x else fmt_f c x)"
| "sprint_float (Inf s) = (if s then ''-Inf'' else ''+Inf'')"
| "sprint_float NaN = ''NaN''"

fun label_of :: "value \<Rightarrow> string" where
  "label_of (VStr s) = s"
| "label_of (VFloat x) = sprint_float x"
| "label_of _ = ''''"

text \<open>The JSON part: \<open>Some\<close> classification where the function returns there.\<close>

definition classify_json :: "parser_config \<Rightarrow> string \<Rightarrow> classification option" where
  "classify_json c txt =
     (let jsonl = (pc_format c = ''jsonl'') in
      case json_unmarshal txt of
        None \<Rightarrow> if jsonl then Some invalid_record else None
      | Some v \<Rightarrow>
          if jsonl \<and> (case v of VObj _ \<Rightarrow> False | _ \<Rightarrow> True) then Some invalid_record
          else
            let raw = label_of (descend v (split_dots (pc_level_field c)));
                label = (case map_of (pc_level_map c) raw of Some mapped \<Rightarrow> mapped | None \<Rightarrow> raw)
            in if label \<noteq> '''' \<and> severity label \<noteq> Unclassified then Some (level_only (severity label))
               else if jsonl then Some (level_only 0) else None)"

definition classify_text :: "parser \<Rightarrow> string \<Rightarrow> classification" where
  "classify_text p txt =
     (case find (\<lambda>(_, r). r txt) (pr_patterns p) of
        Some (l, _) \<Rightarrow> level_only l
      | None \<Rightarrow>
          (case first_match header txt of
             Some (_, cap) \<Rightarrow> level_only (severity (case cap of Some s \<Rightarrow> s | None \<Rightarrow> ''''))
           | None \<Rightarrow>
               (case first_match level_key txt of
                  Some (_, cap) \<Rightarrow> level_only (severity (case cap of Some s \<Rightarrow> s | None \<Rightarrow> ''''))
                | None \<Rightarrow> level_only 0)))"

definition Classify :: "parser \<Rightarrow> string \<Rightarrow> classification" where
  "Classify p raw =
     (if \<not> valid_utf8 raw then invalid_record
      else
        let txt = trim_space (remove_all ansi raw); c = pr_config p in
        if txt = [] then \<lparr>cl_level = 0, cl_invalid = False, cl_blank = True\<rparr>
        else if pc_format c = ''jsonl'' \<or> (pc_format c = ''auto'' \<and> hd txt = CHR ''{'') then
          (case classify_json c txt of Some cl \<Rightarrow> cl | None \<Rightarrow> classify_text p txt)
        else classify_text p txt)"

end
