(* ===== verification/Log_Collector.thy ===== *)
theory Log_Collector
  imports Log_Classify
begin

text \<open>
  Package \<open>logs\<close>, files \<open>collector.go\<close> and \<open>stats.go\<close>: framers hand records to a
  bounded queue, a worker classifies and counts them, and snapshots are barriers in the same
  queue. Every critical section is one operation with the time it reads; the worker's loop
  body is an operation of its own, so every interleaving is a sequence of operations.
\<close>

section \<open>State\<close>

record statistics =
  st_records :: int
  st_warnings :: int
  st_errors :: int
  st_unclassified :: int
  st_invalid :: int
  st_dropped :: int

definition no_statistics :: statistics where
  "no_statistics = \<lparr>st_records = 0, st_warnings = 0, st_errors = 0, st_unclassified = 0, st_invalid = 0,
     st_dropped = 0\<rparr>"

text \<open>A queued record, or a snapshot barrier with its frozen time.\<close>

record queued_data =
  q_data :: string
  q_invalid :: bool
  q_at :: time
  q_channel :: string
  q_epoch :: int

datatype queued = QRecord queued_data | QSnapshot time

record collector =
  co_window :: log_window
  co_parser :: parser
  co_queue :: "queued list"
  co_epoch :: int
  co_framing :: frame_config
  co_queued_bytes :: int
  co_statistics :: statistics

definition queue_capacity :: int where "queue_capacity = 4096"
definition queue_bytes :: int where "queue_bytes = 4194304"

section \<open>Operations\<close>

definition NewCollector ::
  "(string \<Rightarrow> (string \<Rightarrow> bool) option) \<Rightarrow> parser_config \<Rightarrow> window_config \<Rightarrow> frame_config \<Rightarrow> time \<Rightarrow> collector result" where
  "NewCollector compile pc wc fc now =
     bindE (NewConfiguredFramer compile fc) (\<lambda>_.
     bindE (NewParser compile pc) (\<lambda>p.
     bindE (NewWindow wc now) (\<lambda>w.
       Inr \<lparr>co_window = w, co_parser = p, co_queue = [], co_epoch = 0, co_framing = fc,
         co_queued_bytes = 0, co_statistics = no_statistics\<rparr>)))"

text \<open>The callback of a stream's framer.\<close>

definition drop_record :: "collector \<Rightarrow> time \<Rightarrow> collector" where
  "drop_record c t =
     c\<lparr>co_statistics := (co_statistics c)\<lparr>st_dropped := st_dropped (co_statistics c) + 1\<rparr>,
       co_window := Window_Drop (co_window c) t\<rparr>"

definition stream_emit :: "collector \<Rightarrow> string \<Rightarrow> log_record \<Rightarrow> time \<Rightarrow> collector" where
  "stream_emit c channel r t =
     (if co_queued_bytes c + int (length (fst r)) > queue_bytes then drop_record c t
      else if int (length (co_queue c)) \<ge> queue_capacity then drop_record c t
      else c\<lparr>co_queue := co_queue c @ [QRecord \<lparr>q_data = fst r, q_invalid = snd r, q_at = t,
               q_channel = channel, q_epoch = co_epoch c\<rparr>],
             co_queued_bytes := co_queued_bytes c + int (length (fst r))\<rparr>)"

definition count_statistics :: "statistics \<Rightarrow> classification \<Rightarrow> statistics" where
  "count_statistics s cl =
     (if cl_blank cl then s
      else s\<lparr>st_records := st_records s + 1,
             st_warnings := st_warnings s + (if cl_level cl = Warning then 1 else 0),
             st_errors := st_errors s + (if cl_level cl = ErrorLevel \<or> cl_level cl = Fatal then 1 else 0),
             st_unclassified := st_unclassified s + (if cl_level cl = Unclassified then 1 else 0),
             st_invalid := st_invalid s + (if cl_invalid cl then 1 else 0)\<rparr>)"

text \<open>One turn of the worker's loop; a barrier answers with its summary.\<close>

definition classify_queued :: "collector \<Rightarrow> queued_data \<Rightarrow> classification" where
  "classify_queued c q = (if q_invalid q then invalid_record else Classify (co_parser c) (q_data q))"

definition worker_step :: "collector \<Rightarrow> collector \<times> summary list" where
  "worker_step c =
     (case co_queue c of
        [] \<Rightarrow> (c, [])
      | QSnapshot t # qs \<Rightarrow> (c\<lparr>co_queue := qs\<rparr>, [Snapshot (co_window c) t])
      | QRecord q # qs \<Rightarrow>
          let cl = classify_queued c q;
              c1 = c\<lparr>co_queue := qs, co_queued_bytes := co_queued_bytes c - int (length (q_data q))\<rparr>
          in if q_epoch q = co_epoch c1 then
               (c1\<lparr>co_window := AddFrom (co_window c1) (q_at q) cl (q_channel q),
                   co_statistics := count_statistics (co_statistics c1) cl\<rparr>, [])
             else (c1, []))"

definition Collector_Gap :: "collector \<Rightarrow> time \<Rightarrow> collector" where
  "Collector_Gap c t = c\<lparr>co_window := gap (co_window c) t\<rparr>"

text \<open>\<open>Snapshot\<close>: a barrier enters the queue; a full queue is a gap, and so is an answer that
  does not arrive in time.\<close>

definition Collector_Snapshot :: "collector \<Rightarrow> time \<Rightarrow> collector \<times> summary list" where
  "Collector_Snapshot c t =
     (if int (length (co_queue c)) \<ge> queue_capacity then
        (let c1 = Collector_Gap c t in (c1, [Snapshot (co_window c1) t]))
      else (c\<lparr>co_queue := co_queue c @ [QSnapshot t]\<rparr>, []))"

definition snapshot_timeout :: "collector \<Rightarrow> time \<Rightarrow> collector \<times> summary list" where
  "snapshot_timeout c t = (let c1 = Collector_Gap c t in (c1, [Snapshot (co_window c1) t]))"

definition Collector_Reset :: "collector \<Rightarrow> time \<Rightarrow> collector" where
  "Collector_Reset c t =
     c\<lparr>co_epoch := co_epoch c + 1, co_statistics := no_statistics, co_window := Window_Reset (co_window c) t\<rparr>"

definition Collector_Statistics :: "collector \<Rightarrow> statistics" where
  "Collector_Statistics c = co_statistics c"

datatype collector_op = CEmit string log_record time | CWork | CSnapshot time | CTimeout time | CGap time | CReset time

fun collector_step :: "collector \<Rightarrow> collector_op \<Rightarrow> collector \<times> summary list" where
  "collector_step c (CEmit ch r t) = (stream_emit c ch r t, [])"
| "collector_step c CWork = worker_step c"
| "collector_step c (CSnapshot t) = Collector_Snapshot c t"
| "collector_step c (CTimeout t) = snapshot_timeout c t"
| "collector_step c (CGap t) = (Collector_Gap c t, [])"
| "collector_step c (CReset t) = (Collector_Reset c t, [])"

section \<open>Bounds and accounting\<close>

fun queued_length :: "queued \<Rightarrow> int" where
  "queued_length (QRecord q) = int (length (q_data q))"
| "queued_length (QSnapshot _) = 0"

fun in_epoch :: "int \<Rightarrow> queued \<Rightarrow> bool" where
  "in_epoch e (QRecord q) = (q_epoch q = e)"
| "in_epoch e (QSnapshot _) = False"

definition collector_ok :: "collector \<Rightarrow> bool" where
  "collector_ok c \<longleftrightarrow> int (length (co_queue c)) \<le> queue_capacity \<and>
     co_queued_bytes c = sum_list (map queued_length (co_queue c)) \<and> co_queued_bytes c \<le> queue_bytes \<and>
     (\<forall>q. QRecord q \<in> set (co_queue c) \<longrightarrow> q_epoch q \<le> co_epoch c)"

lemma queued_length_nonneg: "0 \<le> sum_list (map queued_length qs)"
proof -
  have "0 \<le> queued_length q" for q by (cases q) simp_all
  then show ?thesis by (intro sum_list_nonneg) auto
qed

lemma stream_emit_ok: "collector_ok c \<Longrightarrow> collector_ok (stream_emit c ch r t)"
  by (auto simp: collector_ok_def stream_emit_def drop_record_def)

lemma worker_step_ok: "collector_ok c \<Longrightarrow> collector_ok (fst (worker_step c))"
proof (cases "co_queue c")
  case (Cons x qs)
  assume "collector_ok c"
  with Cons queued_length_nonneg [of qs] show ?thesis
    by (cases x) (auto simp: collector_ok_def worker_step_def Let_def)
qed (simp add: worker_step_def)

lemma collector_step_ok: "collector_ok c \<Longrightarrow> collector_ok (fst (collector_step c op))"
proof (cases op)
  case (CReset t)
  assume "collector_ok c"
  with CReset show ?thesis by (force simp: collector_ok_def Collector_Reset_def)
qed (auto simp: stream_emit_ok worker_step_ok,
     auto simp: collector_ok_def Collector_Snapshot_def snapshot_timeout_def Collector_Gap_def Let_def)

interpretation collector_queue: step_invariant collector_step "\<lambda>_. True" collector_ok
  by unfold_locales (rule collector_step_ok)

text \<open>The collector's queue stays within 4096 records and 4 MiB of data, and its byte count is
  exactly the data queued, whatever streams, worker, snapshots and resets do in whatever order.\<close>

theorem collector_queue_bounded:
  assumes "NewCollector compile pc wc fc now = Inr c0" "run collector_step c0 ops = (c, summaries)"
  shows "int (length (co_queue c)) \<le> queue_capacity \<and>
    co_queued_bytes c = sum_list (map queued_length (co_queue c)) \<and> co_queued_bytes c \<le> queue_bytes"
proof -
  have "collector_ok c0"
    using assms(1) by (auto simp: NewCollector_def collector_ok_def queue_capacity_def queue_bytes_def)
  with collector_queue.run_inv [of c0 ops] assms(2) show ?thesis
    by (simp add: collector_ok_def list_all_iff)
qed

text \<open>The records handed in since the last reset, and the blank ones among those counted.\<close>

record ledger =
  lg_emitted :: int
  lg_blank :: int

fun ledger_step :: "collector \<Rightarrow> ledger \<Rightarrow> collector_op \<Rightarrow> ledger" where
  "ledger_step c g (CEmit ch r t) = g\<lparr>lg_emitted := lg_emitted g + 1\<rparr>"
| "ledger_step c g (CReset t) = \<lparr>lg_emitted = 0, lg_blank = 0\<rparr>"
| "ledger_step c g CWork =
     (case co_queue c of
        QRecord q # _ \<Rightarrow>
          if q_epoch q = co_epoch c \<and> cl_blank (classify_queued c q) then g\<lparr>lg_blank := lg_blank g + 1\<rparr> else g
      | _ \<Rightarrow> g)"
| "ledger_step c g _ = g"

definition accounted_step ::
  "collector \<times> ledger \<Rightarrow> collector_op \<Rightarrow> (collector \<times> ledger) \<times> summary list" where
  "accounted_step = (\<lambda>(c, g) op.
     ((fst (collector_step c op), ledger_step c g op), snd (collector_step c op)))"

definition balanced :: "collector \<times> ledger \<Rightarrow> bool" where
  "balanced = (\<lambda>(c, g). collector_ok c \<and>
     lg_emitted g = st_records (co_statistics c) + lg_blank g + st_dropped (co_statistics c) +
       int (length (filter (in_epoch (co_epoch c)) (co_queue c))))"

lemma later_epoch_empty:
  assumes "collector_ok c"
  shows "filter (in_epoch (co_epoch c + 1)) (co_queue c) = []"
proof -
  have "\<not> in_epoch (co_epoch c + 1) x" if "x \<in> set (co_queue c)" for x
    using assms that by (cases x) (auto simp: collector_ok_def)
  then show ?thesis by (simp add: filter_empty_conv)
qed

lemma balanced_step: "balanced s \<Longrightarrow> balanced (fst (accounted_step s op))"
proof -
  assume b: "balanced s"
  obtain c g where s: "s = (c, g)" by fastforce
  with b have ok: "collector_ok c" and eq: "lg_emitted g = st_records (co_statistics c) + lg_blank g +
      st_dropped (co_statistics c) + int (length (filter (in_epoch (co_epoch c)) (co_queue c)))"
    by (simp_all add: balanced_def)
  have ok': "collector_ok (fst (collector_step c op))" by (rule collector_step_ok [OF ok])
  show ?thesis
  proof (cases op)
    case CWork
    show ?thesis
    proof (cases "co_queue c")
      case (Cons x qs)
      with CWork eq ok' s show ?thesis
        by (cases x) (auto simp: balanced_def accounted_step_def worker_step_def count_statistics_def Let_def)
    qed (use CWork ok eq s in \<open>simp add: balanced_def accounted_step_def worker_step_def\<close>)
  next
    case (CReset t)
    with ok' s later_epoch_empty [OF ok] show ?thesis
      by (simp add: balanced_def accounted_step_def Collector_Reset_def no_statistics_def)
  qed (use eq ok' s in \<open>auto simp: balanced_def accounted_step_def stream_emit_def drop_record_def
        Collector_Snapshot_def snapshot_timeout_def Collector_Gap_def Let_def\<close>)
qed

interpretation accounting: step_invariant accounted_step "\<lambda>_. True" balanced
  by unfold_locales (rule balanced_step)

text \<open>C25: no record disappears silently: after any interleaving of streams, worker, snapshots and
  resets, every record handed in since the last reset has been counted in the statistics, was
  blank, is counted as dropped, or still waits in the queue.\<close>

theorem records_accounted:
  assumes "NewCollector compile pc wc fc now = Inr c0"
    and "run accounted_step (c0, \<lparr>lg_emitted = 0, lg_blank = 0\<rparr>) ops = ((c, g), summaries)"
  shows "lg_emitted g = st_records (Collector_Statistics c) + lg_blank g + st_dropped (Collector_Statistics c) +
    int (length (filter (in_epoch (co_epoch c)) (co_queue c)))"
proof -
  have "balanced (c0, \<lparr>lg_emitted = 0, lg_blank = 0\<rparr>)"
    using assms(1) by (auto simp: NewCollector_def balanced_def collector_ok_def queue_capacity_def
        queue_bytes_def no_statistics_def)
  from accounting.run_inv [OF this, of ops] assms(2) show ?thesis
    by (simp add: balanced_def Collector_Statistics_def list_all_iff)
qed

text \<open>Overload is never mistaken for silence: when the queue refuses a record, it is counted as
  dropped and every summary whose window still reaches the second of the loss is incomplete.\<close>

theorem overload_marks_summaries:
  assumes "wc_window (lw_config (co_window c)) = wsecs (co_window c) * second"
    and "c' = stream_emit c ch r t" "co_queue c' = co_queue c"
    and "unix t' \<le> unix t + wsecs (co_window c)"
  shows "st_dropped (co_statistics c') = st_dropped (co_statistics c) + 1 \<and>
    \<not> su_complete (Snapshot (co_window c') t')"
proof -
  have d: "c' = drop_record c t"
    using assms(2,3) by (auto simp: stream_emit_def split: if_splits)
  have "(unix t + wsecs (co_window c) + 1) * second \<le> lw_gap_until (gap (co_window c) t)"
    using gap_until_gap(2) [OF assms(1)] .
  moreover have "truncate_second t' < (unix t + wsecs (co_window c) + 1) * second"
    using assms(4) by (simp add: truncate_second_def second_def)
  ultimately have "truncate_second t' < lw_gap_until (co_window c')"
    by (simp add: d drop_record_def Window_Drop_def Let_def)
  then show ?thesis by (simp add: d drop_record_def Snapshot_fields(9))
qed

section \<open>A collector at work\<close>

definition ex_parser_config :: parser_config where
  "ex_parser_config = \<lparr>pc_format = ''text'', pc_level_field = ''level'', pc_patterns = [], pc_level_map = []\<rparr>"

definition ex_line_framing :: frame_config where
  "ex_line_framing = \<lparr>fc_mode = '''', fc_start = '''', fc_continue = '''', fc_max_lines = 0, fc_flush_after = ''''\<rparr>"

definition ex_collector :: collector where
  "ex_collector = \<lparr>co_window = ex_window, co_parser = \<lparr>pr_config = ex_parser_config, pr_patterns = []\<rparr>,
     co_queue = [], co_epoch = 0, co_framing = ex_line_framing, co_queued_bytes = 0,
     co_statistics = no_statistics\<rparr>"

lemma ex_collector_new:
  "NewCollector ex_compile ex_parser_config ex_window_config ex_line_framing (100 * second) = Inr ex_collector"
  by (simp add: NewCollector_def NewConfiguredFramer_def NewParser_def ex_line_framing_def ex_parser_config_def
      pattern_names_def ex_window_new ex_collector_def)

definition ex_collector_ops :: "collector_op list" where
  "ex_collector_ops = [CEmit ''stdout'' (''xy'', True) (100 * second), CEmit ''stderr'' (''z'', True) (100 * second), CWork]"

text \<open>A collector whose queue has no bytes left.\<close>

definition ex_full :: collector where "ex_full = ex_collector\<lparr>co_queued_bytes := queue_bytes\<rparr>"

theorem collector_queue_bounded_witness:
  "NewCollector ex_compile ex_parser_config ex_window_config ex_line_framing (100 * second) = Inr ex_collector \<and>
   co_queued_bytes (fst (run collector_step ex_collector ex_collector_ops)) = 1 \<and>
   co_queued_bytes (fst (run collector_step ex_collector ex_collector_ops)) \<le> queue_bytes"
proof -
  have "co_queued_bytes (fst (run collector_step ex_collector ex_collector_ops)) = 1" by code_simp
  with collector_queue_bounded [OF ex_collector_new prod.collapse [symmetric], of ex_collector_ops]
    ex_collector_new show ?thesis by simp
qed

theorem records_accounted_witness:
  "\<exists>c g s. NewCollector ex_compile ex_parser_config ex_window_config ex_line_framing (100 * second) = Inr ex_collector \<and>
     run accounted_step (ex_collector, \<lparr>lg_emitted = 0, lg_blank = 0\<rparr>) ex_collector_ops = ((c, g), s) \<and>
     lg_emitted g = 2 \<and> lg_blank g = 0 \<and> st_records (Collector_Statistics c) = 1 \<and>
     int (length (filter (in_epoch (co_epoch c)) (co_queue c))) = 1"
proof -
  let ?r = "run accounted_step (ex_collector, \<lparr>lg_emitted = 0, lg_blank = 0\<rparr>) ex_collector_ops"
  obtain c g s where r: "?r = ((c, g), s)" by (metis prod.exhaust)
  have "lg_emitted (snd (fst ?r)) = 2" "lg_blank (snd (fst ?r)) = 0"
    "st_records (co_statistics (fst (fst ?r))) = 1" "st_dropped (co_statistics (fst (fst ?r))) = 0" by code_simp+
  then have v: "lg_emitted g = 2" "lg_blank g = 0" "st_records (Collector_Statistics c) = 1"
    "st_dropped (Collector_Statistics c) = 0" by (simp_all add: r Collector_Statistics_def)
  with records_accounted [OF ex_collector_new r]
  have "int (length (filter (in_epoch (co_epoch c)) (co_queue c))) = 1" by simp
  with v r ex_collector_new show ?thesis by (intro exI conjI)
qed

theorem overload_marks_summaries_witness:
  "st_dropped (co_statistics (stream_emit ex_full '''' (''x'', False) (101 * second))) = 1 \<and>
   \<not> su_complete (Snapshot (co_window (stream_emit ex_full '''' (''x'', False) (101 * second))) (103 * second))"
proof -
  have q: "co_queue (stream_emit ex_full '''' (''x'', False) (101 * second)) = co_queue ex_full"
    by (simp add: stream_emit_def ex_full_def drop_record_def)
  have w: "wc_window (lw_config (co_window ex_full)) = wsecs (co_window ex_full) * second"
    and u: "unix (103 * second) \<le> unix (101 * second) + wsecs (co_window ex_full)"
    and z: "st_dropped (co_statistics ex_full) = 0"
    by (simp_all add: ex_full_def ex_collector_def ex_window_def ex_window_config_def no_statistics_def
        second_def unix_def)
  from overload_marks_summaries [OF w refl q u] z show ?thesis by simp
qed

section \<open>Levels and rules\<close>







definition ex_rules :: parser_config where
  "ex_rules = \<lparr>pc_format = ''text'', pc_level_field = '''', pc_patterns = [(''warn'', ''d''), (''fatal'', ''disk'')],
     pc_level_map = []\<rparr>"


lemma names_trimmed: "n \<in> set pattern_names \<Longrightarrow> trim_space n = n \<and> to_lower n = n"
proof -
  have "list_all (\<lambda>n. trim_space n = n \<and> to_lower n = n) pattern_names" by code_simp
  then show "n \<in> set pattern_names \<Longrightarrow> trim_space n = n \<and> to_lower n = n" by (simp add: list_all_iff)
qed

lemma padded_severity: "trim_space key \<in> set pattern_names \<Longrightarrow> severity key \<noteq> Unclassified"
proof -
  assume k: "trim_space key \<in> set pattern_names"
  have "severity key = severity (trim_space key)" using names_trimmed [OF k] by (simp add: severity_def Let_def)
  moreover have "list_all (\<lambda>n. severity n \<noteq> Unclassified) pattern_names" by code_simp
  ultimately show ?thesis using k by (simp add: list_all_iff)
qed

lemma unnamed_pattern:
  "key \<notin> set names \<Longrightarrow> compile_patterns compile ((key, expression) # ps) names = compile_patterns compile ps names"
  by (induction names) (auto split: option.split)

lemma classify_patterns: "Classify (p\<lparr>pr_config := (pr_config p)\<lparr>pc_patterns := ps\<rparr>\<rparr>) raw = Classify p raw"
proof -
  have "classify_json (c\<lparr>pc_patterns := ps\<rparr>) t = classify_json c t" for c t
    by (auto simp: classify_json_def Let_def split: option.split)
  moreover have "classify_text (p\<lparr>pr_config := c\<rparr>) t = classify_text p t" for c t
    by (simp add: classify_text_def cong: option.case_cong)
  ultimately show ?thesis by (simp add: Classify_def Let_def cong: option.case_cong)
qed

text \<open>C27: pattern keys are checked with surrounding space trimmed but looked up as written. A lower-case key
  with space around the name of a severity is accepted, whatever its expression, and never used: records are classified as if it were
  not configured.\<close>

theorem padded_pattern_key_ignored:
  assumes "NewParser compile pc = Inr p" "length (pc_patterns pc) < 16"
    and "trim_space key \<in> set pattern_names" "trim_space key \<noteq> key" "to_lower key = key"
  shows "\<exists>p'. NewParser compile (pc\<lparr>pc_patterns := (key, expression) # pc_patterns pc\<rparr>) = Inr p' \<and> pr_patterns p' = pr_patterns p \<and>
    (\<forall>raw. Classify p' raw = Classify p raw)"
proof -
  have "key \<notin> set pattern_names" using names_trimmed [of key] assms(4) by blast
  note kept = unnamed_pattern [OF this, of compile expression "pc_patterns pc"]
  have "NewParser compile (pc\<lparr>pc_patterns := (key, expression) # pc_patterns pc\<rparr>) =
      Inr (p\<lparr>pr_config := (pr_config p)\<lparr>pc_patterns := (key, expression) # pc_patterns pc\<rparr>\<rparr>)"
    using assms(1,2,5) padded_severity [OF assms(3)] kept by (auto simp: NewParser_def Let_def split: if_splits)
  then show ?thesis by (simp add: classify_patterns)
qed

theorem padded_pattern_key_ignored_witness:
  "\<exists>p'. NewParser ex_compile (ex_rules\<lparr>pc_patterns := ('' error'', ''disk'') # pc_patterns ex_rules\<rparr>) = Inr p' \<and>
     length (pr_patterns p') = 2 \<and> ('' error'', ''disk'') \<in> set (pc_patterns (pr_config p'))"
proof -
  have s: "severity ''warn'' = Warning" "severity ''fatal'' = Fatal" "Warning \<noteq> Unclassified" "Fatal \<noteq> Unclassified"
    "to_lower ''warn'' = ''warn''" "to_lower ''fatal'' = ''fatal''" by code_simp+
  obtain p where p: "NewParser ex_compile ex_rules = Inr p" "length (pr_patterns p) = 2"
    using that by (simp add: NewParser_def ex_rules_def pattern_names_def ex_compile_def s del: to_lower.simps)
  have k: "length (pc_patterns ex_rules) < 16" "trim_space '' error'' \<in> set pattern_names" "trim_space '' error'' \<noteq> '' error''"
    "to_lower '' error'' = '' error''" by code_simp+
  obtain p' where p': "NewParser ex_compile (ex_rules\<lparr>pc_patterns := ('' error'', ''disk'') # pc_patterns ex_rules\<rparr>) = Inr p'"
    "pr_patterns p' = pr_patterns p" using padded_pattern_key_ignored [OF p(1) k, of "''disk''"] by blast
  have "pc_patterns (pr_config p') = ('' error'', ''disk'') # pc_patterns ex_rules"
    using p'(1) by (auto simp: NewParser_def Let_def split: if_splits)
  then show ?thesis using p' p(2) by simp
qed

end
