(* ===== verification/Plan_Compile.thy ===== *)
theory Plan_Compile
  imports Transition Log_Classify
begin

text \<open>
  Package \<open>plan\<close>: a declared watch or destination is validated, given its defaults and brought
  into canonical form. URL parsing, the jq compiler, template parsing, pattern compilation and
  the digests are parameters (\<open>compile_env\<close>); a definition's strings are valid UTF-8, as every
  decoder that produces one guarantees, so the JSON copy keeps them.
\<close>

record parsed_url =
  u_scheme :: string
  u_host :: string
  u_hostname :: string
  u_has_user :: bool
  u_fragment :: string

text \<open>The values whose digest identifies the evaluated part of a definition.\<close>

record fingerprint_doc =
  fp_source :: source
  fp_condition :: condition
  fp_policy :: policy
  fp_group_by :: "string list"
  fp_match :: fields
  fp_limits :: limits

record compile_env =
  ce_url_parse :: "string \<Rightarrow> parsed_url option"
  ce_jq_ok :: "string \<Rightarrow> bool"
  ce_template_ok :: "string \<Rightarrow> bool"
  ce_regexp :: "string \<Rightarrow> (string \<Rightarrow> bool) option"
  ce_revision :: "definition_rec \<Rightarrow> string"
  ce_fingerprint :: "fingerprint_doc \<Rightarrow> string"
  ce_destination_revision :: "destination \<Rightarrow> string"

record compiled =
  cd_definition :: definition_rec
  cd_revision :: string
  cd_fingerprint :: string
  cd_permissions :: "string list"

record compiled_destination =
  cds_definition :: destination
  cds_revision :: string

section \<open>Names, durations and references\<close>

definition alnum :: "char \<Rightarrow> bool" where "alnum c \<longleftrightarrow> is_alpha c \<or> is_digit c"

definition identifier_ok :: "string \<Rightarrow> bool" where
  "identifier_ok s \<longleftrightarrow> s \<noteq> [] \<and> length s \<le> 128 \<and> alnum (hd s) \<and>
     list_all (\<lambda>c. alnum c \<or> c \<in> set ''._-'') (tl s)"

definition envName :: "string \<Rightarrow> bool" where
  "envName s \<longleftrightarrow> s \<noteq> [] \<and> (is_alpha (hd s) \<or> hd s = CHR ''_'') \<and>
     list_all (\<lambda>c. alnum c \<or> c = CHR ''_'') (tl s)"

definition fieldName :: "string \<Rightarrow> bool" where
  "fieldName s \<longleftrightarrow> s \<noteq> [] \<and> length s \<le> 128 \<and> (is_alpha (hd s) \<or> hd s = CHR ''_'') \<and>
     list_all (\<lambda>c. alnum c \<or> c \<in> set ''_.-'') (tl s)"

definition plan_header :: "string \<Rightarrow> string \<Rightarrow> metadata \<Rightarrow> string \<Rightarrow> unit result" where
  "plan_header version kind m want =
     (if version \<noteq> APIVersion \<or> kind \<noteq> want then Inl (Err (''expected '' @ APIVersion @ '' '' @ want))
      else if \<not> identifier_ok (md_id m) then Inl (Err ''metadata.id must be a stable 1..128 character identifier'')
      else if length (md_name m) > 256 then Inl (Err ''metadata.name exceeds 256 bytes'')
      else Inr ())"

definition plan_duration :: "string \<Rightarrow> duration \<Rightarrow> duration \<Rightarrow> duration result" where
  "plan_duration v lo hi =
     (case parse_duration v of
        None \<Rightarrow> Inl (Err ''duration out of range'')
      | Some d \<Rightarrow> if d < lo \<or> d > hi then Inl (Err ''duration out of range'') else Inr d)"

fun validRef :: "secret_ref option \<Rightarrow> bool" where
  "validRef None = False"
| "validRef (Some r) = envName (sr_env r)"

definition refs_ok :: "secret_refs \<Rightarrow> bool" where
  "refs_ok rs = list_all (\<lambda>(k, r). \<not> (k = '''' \<or> CHR 0x0D \<in> set k \<or> CHR 0x0A \<in> set k \<or> \<not> validRef (Some r))) rs"

definition refs :: "secret_refs \<Rightarrow> unit result" where
  "refs rs = (if refs_ok rs then Inr () else Inl (Err ''invalid secret reference''))"

fun scalar :: "value \<Rightarrow> bool" where
  "scalar (VArr _) = False"
| "scalar (VObj _) = False"
| "scalar _ = True"

definition validURL :: "compile_env \<Rightarrow> string \<Rightarrow> bool" where
  "validURL env raw =
     (case ce_url_parse env raw of
        None \<Rightarrow> False
      | Some u \<Rightarrow> (u_scheme u = ''http'' \<or> u_scheme u = ''https'') \<and> u_hostname u \<noteq> '''' \<and>
          \<not> u_has_user u \<and> u_fragment u = '''' \<and> \<not> contains raw ''${'')"

definition is_abs :: "string \<Rightarrow> bool" where "is_abs p = has_prefix ''/'' p"

text \<open>A check without a value.\<close>

definition check :: "bool \<Rightarrow> string \<Rightarrow> unit result" where
  "check ok msg = (if ok then Inr () else Inl (Err msg))"

lemma check_Inr [simp]: "check ok msg = Inr u \<longleftrightarrow> ok"
  by (simp add: check_def)

section \<open>Log sources\<close>

definition compileLogInput :: "log_input \<Rightarrow> log_input result" where
  "compileLogInput i =
     (if li_type i = ''external'' then
        if li_path i \<noteq> '''' \<or> li_start i \<noteq> '''' \<or> li_argv i \<noteq> [] \<or> li_directory i \<noteq> '''' \<or> li_env i \<noteq> [] \<or>
           li_reconnect_every i \<noteq> ''''
        then Inl (Err ''external logs do not accept file or command settings'') else Inr i
      else if li_type i = ''file'' then
        if \<not> is_abs (li_path i) \<or> CHR 0x00 \<in> set (li_path i) \<or> li_argv i \<noteq> [] \<or> li_directory i \<noteq> '''' \<or>
           li_env i \<noteq> [] \<or> li_reconnect_every i \<noteq> ''''
        then Inl (Err ''file logs require an absolute path without command settings'')
        else
          let i1 = (if li_start i = '''' then i\<lparr>li_start := ''end''\<rparr> else i)
          in if li_start i1 \<noteq> ''end'' then Inl (Err ''file logs support only live collection from end'') else Inr i1
      else if li_type i = ''command'' then
        if li_path i \<noteq> '''' \<or> li_start i \<noteq> '''' \<or> li_argv i = [] \<or> length (li_argv i) > 100 \<or>
           hd (li_argv i) = '''' \<or> \<not> is_abs (li_directory i)
        then Inl (Err ''log reader requires explicit argv and absolute directory without file settings'')
        else if \<not> list_all (\<lambda>a. \<not> (int (length a) > 8192 \<or> CHR 0x00 \<in> set a)) (li_argv i)
        then Inl (Err ''invalid log reader argument'')
        else bindE (refs (li_env i)) (\<lambda>_.
          if \<not> list_all (\<lambda>(name, _). envName name) (li_env i) then Inl (Err ''invalid log reader environment name'')
          else
            let every = (if li_reconnect_every i = '''' then ''5s'' else li_reconnect_every i)
            in case parse_duration every of
                 None \<Rightarrow> Inl (Err ''log reader reconnectEvery must be between 5s and 5m'')
               | Some d \<Rightarrow>
                   if d < 5 * second \<or> d > 5 * minute
                   then Inl (Err ''log reader reconnectEvery must be between 5s and 5m'')
                   else Inr (i\<lparr>li_reconnect_every := duration_string d\<rparr>))
      else Inl (Err ''unsupported log input type''))"

definition log_defaults :: "log_source \<Rightarrow> log_source" where
  "log_defaults c =
     c\<lparr>ls_format := (if ls_format c = '''' then ''auto'' else ls_format c),
       ls_level_field := (if ls_level_field c = '''' then ''level'' else ls_level_field c),
       ls_text_profile := (if ls_text_profile c = '''' then ''common'' else ls_text_profile c),
       ls_framing := (if ls_framing c = '''' then ''line'' else ls_framing c),
       ls_window := (if ls_window c = '''' then ''60s'' else ls_window c),
       ls_retention := (if ls_retention c = '''' then ''1h'' else ls_retention c)\<rparr>"

definition log_multi_defaults :: "log_multiline option \<Rightarrow> log_multiline option" where
  "log_multi_defaults = map_option (\<lambda>m.
     m\<lparr>lm_max_lines := (if lm_max_lines m = 0 then 100 else lm_max_lines m),
       lm_flush_after := (if lm_flush_after m = '''' then ''1s'' else lm_flush_after m)\<rparr>)"

definition log_frame_config :: "log_source \<Rightarrow> frame_config" where
  "log_frame_config c =
     (case ls_multiline c of
        None \<Rightarrow> \<lparr>fc_mode = ls_framing c, fc_start = '''', fc_continue = '''', fc_max_lines = 0, fc_flush_after = ''''\<rparr>
      | Some m \<Rightarrow> \<lparr>fc_mode = ls_framing c, fc_start = lm_start m, fc_continue = lm_continue m,
          fc_max_lines = lm_max_lines m, fc_flush_after = lm_flush_after m\<rparr>)"

definition log_parser_config :: "log_source \<Rightarrow> parser_config" where
  "log_parser_config c = \<lparr>pc_format = ls_format c, pc_level_field = ls_level_field c,
     pc_patterns = ls_patterns c, pc_level_map = ls_level_map c\<rparr>"

definition log_late_defaults :: "duration \<Rightarrow> log_source \<Rightarrow> log_source" where
  "log_late_defaults retention c =
     c\<lparr>ls_retention := duration_string retention,
       ls_emit_every := (if ls_emit_every c = '''' then ''1s'' else ls_emit_every c),
       ls_min_events := (if ls_min_events c = 0 then 100 else ls_min_events c)\<rparr>"

text \<open>The framer, the parser and the window the settings describe can be built; the result is
  the window's length.\<close>

definition log_components :: "compile_env \<Rightarrow> log_source \<Rightarrow> duration result" where
  "log_components env c =
     bindE (NewConfiguredFramer (ce_regexp env) (log_frame_config c)) (\<lambda>_.
     bindE (NewParser (ce_regexp env) (log_parser_config c)) (\<lambda>_.
     case parse_duration (ls_window c) of
       None \<Rightarrow> Inl (Err ''invalid log window'')
     | Some window \<Rightarrow>
         bindE (NewWindow \<lparr>wc_window = window, wc_min_events = ls_min_events c,
           wc_min_coverage = ls_min_coverage c\<rparr> zero_time) (\<lambda>_. Inr window)))"

definition compileLogs :: "compile_env \<Rightarrow> source \<Rightarrow> source result" where
  "compileLogs env s =
     (case src_logs s of
        None \<Rightarrow> Inl (Err ''logs requires source.logs and does not accept polling or projection fields'')
      | Some c0 \<Rightarrow>
          if src_url s \<noteq> '''' \<or> src_url_ref s \<noteq> None \<or> src_argv s \<noteq> [] \<or> src_directory s \<noteq> '''' \<or>
             src_env s \<noteq> [] \<or> src_headers s \<noteq> [] \<or> src_jq s \<noteq> '''' \<or> src_fields s \<noteq> [] \<or>
             src_every s \<noteq> '''' \<or> src_timeout s \<noteq> '''' \<or> src_observed_at_field s \<noteq> ''''
          then Inl (Err ''logs requires source.logs and does not accept polling or projection fields'')
          else
            bindE (compileLogInput (if li_type (ls_input c0) = '''' then (ls_input c0)\<lparr>li_type := ''external''\<rparr>
                                    else ls_input c0)) (\<lambda>input.
            let c1 = log_defaults (c0\<lparr>ls_input := input\<rparr>) in
            case parse_duration (ls_retention c1) of
              None \<Rightarrow> Inl (Err ''log summary retention must be between 1m and 168h'')
            | Some retention \<Rightarrow>
                if retention < minute \<or> retention > 7 * 24 * hour
                then Inl (Err ''log summary retention must be between 1m and 168h'')
                else
                  let c2 = log_late_defaults retention c1 in
                  if ls_text_profile c2 \<noteq> ''common'' \<or> ls_emit_every c2 \<noteq> ''1s''
                  then Inl (Err ''logs requires common text profile and emitEvery: 1s'')
                  else
                    let c3 = c2\<lparr>ls_multiline := log_multi_defaults (ls_multiline c2)\<rparr> in
                    if ls_format c3 = ''jsonl'' \<and> ls_framing c3 = ''multiline''
                    then Inl (Err ''JSONL uses one object per line'')
                    else bindE (log_components env c3) (\<lambda>window.
                      Inr (s\<lparr>src_logs := Some (c3\<lparr>ls_window := duration_string window\<rparr>)\<rparr>))))"

section \<open>Sources\<close>

definition compile_http :: "compile_env \<Rightarrow> source \<Rightarrow> unit result" where
  "compile_http env s =
     bindE (check (\<not> (src_url s = '''') = (src_url_ref s = None)) ''HTTP source requires exactly one of url or urlRef'') (\<lambda>_.
     bindE (check (src_url s = '''' \<or> validURL env (src_url s)) ''invalid HTTP URL (use secret references for credentials)'') (\<lambda>_.
     bindE (check (src_url_ref s = None \<or> validRef (src_url_ref s)) ''invalid URL secret reference'') (\<lambda>_.
     check (src_argv s = [] \<and> src_directory s = '''' \<and> src_env s = []) ''command fields are invalid for HTTP source'')))"

definition compile_command :: "source \<Rightarrow> unit result" where
  "compile_command s =
     bindE (check (src_argv s \<noteq> [] \<and> length (src_argv s) \<le> 100 \<and> hd (src_argv s) \<noteq> '''' \<and> src_directory s \<noteq> '''' \<and>
       is_abs (src_directory s)) ''command requires explicit argv and absolute directory'') (\<lambda>_.
     bindE (check (list_all (\<lambda>a. CHR 0x00 \<notin> set a \<and> int (length a) \<le> 8192) (src_argv s)) ''invalid command argument'') (\<lambda>_.
     bindE (check (src_url s = '''' \<and> src_url_ref s = None \<and> src_headers s = []) ''HTTP fields are invalid for command source'') (\<lambda>_.
     bindE (refs (src_env s)) (\<lambda>_.
     check (list_all (\<lambda>(name, _). envName name) (src_env s)) ''invalid environment name''))))"

definition compile_push :: "source \<Rightarrow> unit result" where
  "compile_push s =
     check (src_url s = '''' \<and> src_url_ref s = None \<and> src_argv s = [] \<and> src_directory s = '''' \<and> src_every s = '''' \<and>
       src_timeout s = '''' \<and> src_env s = [] \<and> src_headers s = []) ''push does not accept polling or command fields''"

text \<open>The \<open>switch\<close> on the source's type.\<close>

definition compile_source :: "compile_env \<Rightarrow> spec \<Rightarrow> source result" where
  "compile_source env sp =
     (let s = s_source sp; c = s_condition sp in
      if src_logs s \<noteq> None \<and> src_type s \<noteq> ''logs'' then Inl (Err ''source.logs belongs to log sources'')
      else if src_type s = ''logs'' then
        bindE (compileLogs env s) (\<lambda>s1.
          if s_group_by sp \<noteq> [] \<or> s_match sp \<noteq> [] \<or> c_numeric c \<noteq> '''' \<or> c_missing_for c \<noteq> '''' \<or>
             c_operator c = ''changed'' \<or> c_operator c = ''new-event''
          then Inl (Err ''logs evaluates scalar summary fields for one stream without grouping or filtering'')
          else Inr s1)
      else if src_type s = ''http'' then bindE (compile_http env s) (\<lambda>_. Inr s)
      else if src_type s = ''command'' then bindE (compile_command s) (\<lambda>_. Inr s)
      else if src_type s = ''push'' then bindE (compile_push s) (\<lambda>_. Inr s)
      else Inl (Err (''unsupported source type '' @ src_type s)))"

definition polled :: "source \<Rightarrow> bool" where
  "polled s \<longleftrightarrow> src_type s \<noteq> ''push'' \<and> src_type s \<noteq> ''logs''"

definition compile_polling :: "source \<Rightarrow> source result" where
  "compile_polling s =
     (if polled s then
        let s1 = s\<lparr>src_every := (if src_every s = '''' then ''5s'' else src_every s),
                   src_timeout := (if src_timeout s = '''' then ''2s'' else src_timeout s)\<rparr>
        in bindE (plan_duration (src_every s1) second (24 * hour)) (\<lambda>_.
           bindE (plan_duration (src_timeout s1) millisecond (5 * minute)) (\<lambda>_. Inr s1))
      else Inr s)"

definition compile_projection :: "compile_env \<Rightarrow> source \<Rightarrow> unit result" where
  "compile_projection env s =
     bindE (refs (src_headers s)) (\<lambda>_.
     bindE (check (src_observed_at_field s = '''' \<or> fieldName (src_observed_at_field s)) ''observedAtField must name a selected field'') (\<lambda>_.
     bindE (check (length (src_fields s) \<le> 100) ''too many selected fields'') (\<lambda>_.
     bindE (check (list_all (\<lambda>(n, p). fieldName n \<and> fieldName p) (src_fields s)) ''selected fields require simple dotted paths'') (\<lambda>_.
     bindE (check (src_items_path s = '''' \<or> (fieldName (src_items_path s) \<and> src_jq s = ''''))
       ''itemsPath requires a simple dotted path and cannot be combined with jq'') (\<lambda>_.
     bindE (check (src_jq s = '''' \<or> int (length (src_jq s)) \<le> 8192) ''jq exceeds 8192 bytes'') (\<lambda>_.
     check (src_jq s = '''' \<or> ce_jq_ok env (src_jq s)) ''jq does not compile''))))))"


section \<open>Conditions\<close>

text \<open>\<open>regexp.Split\<close> at the operators.\<close>

function split_operators :: "string \<Rightarrow> string list" where
  "split_operators s =
     (case next_op s of
        None \<Rightarrow> [s]
      | Some (i, op) \<Rightarrow> take i s # split_operators (drop (i + (if op = TokAND then 5 else 4)) s))"
  by pat_completeness auto
termination
  by (relation "measure length")
    (auto simp: next_op_def split: option.splits if_splits dest!: str_index_bound)

declare split_operators.simps [simp del]

definition numeric_atom :: "string \<Rightarrow> unit result" where
  "numeric_atom s =
     bindE (ParseCondition (trim_space s)) (\<lambda>c.
     bindE (check (is_finite (cn_literal c)) ''numeric literal must be finite'') (\<lambda>_.
     check (\<not> (cn_run_bounded c \<or> (cn_windowed c \<and> (cn_window c \<le> 0 \<or> cn_window c > 30 * 24 * hour))))
       ''numeric window must be positive and at most 30 days''))"

fun each :: "('a \<Rightarrow> unit result) \<Rightarrow> 'a list \<Rightarrow> unit result" where
  "each f [] = Inr ()"
| "each f (x # xs) = bindE (f x) (\<lambda>_. each f xs)"

definition validateNumeric :: "string \<Rightarrow> unit result" where
  "validateNumeric expr = bindE (ParseExpression expr) (\<lambda>_. each numeric_atom (split_operators expr))"

definition compile_numeric :: "condition \<Rightarrow> condition result" where
  "compile_numeric c =
     bindE (check (c_operator c = '''' \<and> c_value c = VNil \<and> c_missing_for c = '''' \<and> c_dedup_for c = '''')
       ''numeric conditions cannot mix typed operators'') (\<lambda>_.
     bindE (check (\<not> contains (c_numeric c) ''run'') ''run-lifetime aggregation is unsupported'') (\<lambda>_.
     bindE (check (int (length (c_numeric c)) \<le> 4096) ''numeric expression too large'') (\<lambda>_.
     bindE (validateNumeric (c_numeric c)) (\<lambda>_.
     Inr (if c_field c = '''' then c\<lparr>c_field := ''value''\<rparr> else c)))))"

definition compile_missing :: "condition \<Rightarrow> unit result" where
  "compile_missing c =
     bindE (check (c_field c = '''' \<and> c_operator c = '''' \<and> c_value c = VNil \<and> c_dedup_for c = '''')
       ''missing-data condition cannot mix field conditions'') (\<lambda>_.
     bindE (plan_duration (c_missing_for c) second (30 * 24 * hour)) (\<lambda>_. Inr ()))"

fun is_float :: "value \<Rightarrow> bool" where
  "is_float (VFloat _) = True"
| "is_float _ = False"

definition compile_operator :: "condition \<Rightarrow> unit result" where
  "compile_operator c =
     bindE (check (fieldName (c_field c)) ''condition.field is required'') (\<lambda>_.
     if c_operator c = ''eq'' \<or> c_operator c = ''ne'' then
       check (scalar (c_value c)) ''comparison value must be a scalar''
     else if c_operator c \<in> {''gt'', ''gte'', ''lt'', ''lte''} then
       check (is_float (c_value c)) ''ordered comparison requires a numeric value''
     else if c_operator c = ''changed'' then
       check (c_value c = VNil \<and> c_dedup_for c = '''') ''changed takes no value or dedup horizon''
     else if c_operator c = ''new-event'' then
       bindE (check (c_value c = VNil) ''new-event takes no comparison value'') (\<lambda>_.
       bindE (plan_duration (c_dedup_for c) second (7 * 24 * hour)) (\<lambda>_. Inr ()))
     else Inl (Err ''unsupported condition operator''))"

definition compile_condition :: "condition \<Rightarrow> condition result" where
  "compile_condition c =
     bindE (check (c_dedup_for c = '''' \<or> c_operator c = ''new-event'') ''dedupFor belongs to new-event conditions'') (\<lambda>_.
     bindE (if c_numeric c \<noteq> '''' then compile_numeric c
            else if c_missing_for c \<noteq> '''' then bindE (compile_missing c) (\<lambda>_. Inr c)
            else bindE (compile_operator c) (\<lambda>_. Inr c)) (\<lambda>c1.
     bindE (check (c_field c1 = '''' \<or> fieldName (c_field c1)) ''invalid condition field'') (\<lambda>_. Inr c1)))"

section \<open>Policies, grouping and limits\<close>

definition policy_defaults :: "policy \<Rightarrow> policy" where
  "policy_defaults p =
     p\<lparr>p_trigger := (if p_trigger p = '''' then ''transition'' else p_trigger p),
       p_consecutive := (if p_consecutive p = 0 then 1 else p_consecutive p),
       p_recover_after := (if p_recover_after p = 0 then 1 else p_recover_after p),
       p_on_unknown := (if p_on_unknown p = '''' then ''hold-incident'' else p_on_unknown p)\<rparr>"

text \<open>A gap bound that is not given is twice the polling interval, which is at most a day
  here, so the product does not overflow.\<close>

definition gap_default :: "source \<Rightarrow> policy \<Rightarrow> policy" where
  "gap_default s p =
     (if p_max_gap p = '''' \<and> src_every s \<noteq> ''''
      then p\<lparr>p_max_gap := duration_string (duration_or_zero (src_every s) * 2)\<rparr> else p)"

definition compile_policy :: "source \<Rightarrow> condition \<Rightarrow> policy \<Rightarrow> policy result" where
  "compile_policy s c p0 =
     (let p = policy_defaults p0 in
      bindE (check (p_trigger p = ''transition'' \<or> p_trigger p = ''level'') ''trigger must be transition or level'') (\<lambda>_.
      bindE (check (\<not> (p_consecutive p < 1 \<or> p_consecutive p > 10000 \<or> p_recover_after p < 1 \<or> p_recover_after p > 10000 \<or>
          p_on_unknown p \<noteq> ''hold-incident'')) ''invalid count or unknown policy'') (\<lambda>_.
      bindE (if p_trigger p = ''level'' then bindE (plan_duration (p_interval p) 0 (30 * 24 * hour)) (\<lambda>_. Inr ())
             else check (p_interval p = '''') ''interval belongs to level policy'') (\<lambda>_.
      let q = gap_default s p in
      bindE (if p_max_gap q \<noteq> '''' then bindE (plan_duration (p_max_gap q) second (30 * 24 * hour)) (\<lambda>_. Inr ())
             else Inr ()) (\<lambda>_.
      bindE (check (\<not> (c_missing_for c \<noteq> '''' \<and> (p_trigger q \<noteq> ''transition'' \<or> p_consecutive q \<noteq> 1 \<or> p_recover_after q \<noteq> 1)))
        ''missingFor requires transition policy with consecutive=1 and recoverAfter=1'') (\<lambda>_.
      bindE (check (\<not> ((c_operator c = ''changed'' \<or> c_operator c = ''new-event'') \<and>
          (p_trigger q \<noteq> ''level'' \<or> p_consecutive q \<noteq> 1)))
        ''change/event conditions require level policy with consecutive=1'') (\<lambda>_. Inr q)))))))"

definition compile_group_by :: "string list \<Rightarrow> string list result" where
  "compile_group_by gs =
     bindE (check (length gs \<le> 16) ''too many grouping fields'') (\<lambda>_.
     let sorted_gs = sort gs in
     bindE (check (list_all fieldName sorted_gs \<and> distinct_adj sorted_gs) ''invalid/duplicate grouping field'') (\<lambda>_.
     Inr sorted_gs))"

definition compile_match :: "fields \<Rightarrow> unit result" where
  "compile_match m = check (list_all (\<lambda>(k, v). fieldName k \<and> scalar v) m) ''match must contain typed scalar fields''"

definition compile_message :: "compile_env \<Rightarrow> string \<Rightarrow> unit result" where
  "compile_message env m =
     bindE (check (int (length m) \<le> 8192) ''message too long'') (\<lambda>_.
     check (ce_template_ok env m) ''invalid message template'')"

definition limit_defaults :: "limits \<Rightarrow> limits" where
  "limit_defaults l =
     l\<lparr>l_max_entities := (if l_max_entities l = 0 then 1000 else l_max_entities l),
       l_max_samples := (if l_max_samples l = 0 then 10000 else l_max_samples l),
       l_max_bytes := (if l_max_bytes l = 0 then 1048576 else l_max_bytes l),
       l_max_outputs := (if l_max_outputs l = 0 then 100 else l_max_outputs l),
       l_idle_ttl := (if l_idle_ttl l = '''' then ''24h'' else l_idle_ttl l)\<rparr>"

definition compile_limits :: "limits \<Rightarrow> limits result" where
  "compile_limits l0 =
     (let l = limit_defaults l0 in
      bindE (check (\<not> (l_max_entities l < 1 \<or> l_max_entities l > 10000 \<or> l_max_samples l < 1 \<or> l_max_samples l > 100000 \<or>
          l_max_bytes l < 1 \<or> l_max_bytes l > 1048576 \<or> l_max_outputs l < 1 \<or> l_max_outputs l > 100))
        ''watch resource limits exceed supported bounds'') (\<lambda>_.
      bindE (plan_duration (l_idle_ttl l) second (30 * 24 * hour)) (\<lambda>_. Inr l)))"


section \<open>Destinations of a watch\<close>

definition ValidEventType :: "string \<Rightarrow> bool" where
  "ValidEventType s \<longleftrightarrow> s \<in> {''firing'', ''recovered'', ''changed'', ''new-event'', ''source_error'', ''source_recovered'',
     ''gap'', ''state_reset'', ''paused'', ''resumed'', ''deleted'', ''expired''}"

definition default_events :: "string list" where
  "default_events = [''firing'', ''recovered'', ''changed'', ''new-event'', ''source_error'', ''source_recovered'']"

definition target_defaults :: "target \<Rightarrow> target" where
  "target_defaults t = t\<lparr>t_events := (if t_events t = [] then default_events else t_events t)\<rparr>"

text \<open>\<open>seen\<close> holds the references of the targets before this one.\<close>

fun compile_targets :: "string list \<Rightarrow> target list \<Rightarrow> target list result" where
  "compile_targets refs_seen [] = Inr []"
| "compile_targets refs_seen (t0 # ts) =
     bindE (check (identifier_ok (t_ref t0) \<and> t_ref t0 \<notin> set refs_seen) ''invalid/duplicate destination reference'') (\<lambda>_.
     let t = target_defaults t0 in
     bindE (check (list_all ValidEventType (t_events t) \<and> distinct (t_events t)) ''unsupported/duplicate event type'') (\<lambda>_.
     bindE (compile_targets (t_ref t # refs_seen) ts) (\<lambda>rest.
     Inr (t\<lparr>t_events := sort (t_events t)\<rparr> # rest))))"

definition compile_destinations :: "target list \<Rightarrow> target list result" where
  "compile_destinations ts =
     bindE (check (length ts \<le> 32) ''too many destinations'') (\<lambda>_.
     bindE (compile_targets [] ts) (\<lambda>us. Inr (sort_key t_ref us)))"

section \<open>Canonical durations\<close>

definition normalize_duration :: "string \<Rightarrow> string" where
  "normalize_duration v = (if v = '''' then '''' else duration_string (duration_or_zero v))"

definition normalizeDurations :: "spec \<Rightarrow> spec" where
  "normalizeDurations sp = sp\<lparr>
     s_source := (s_source sp)\<lparr>src_every := normalize_duration (src_every (s_source sp)),
       src_timeout := normalize_duration (src_timeout (s_source sp))\<rparr>,
     s_condition := (s_condition sp)\<lparr>c_missing_for := normalize_duration (c_missing_for (s_condition sp)),
       c_dedup_for := normalize_duration (c_dedup_for (s_condition sp))\<rparr>,
     s_policy := (s_policy sp)\<lparr>p_interval := normalize_duration (p_interval (s_policy sp)),
       p_max_gap := normalize_duration (p_max_gap (s_policy sp))\<rparr>,
     s_limits := (s_limits sp)\<lparr>l_idle_ttl := normalize_duration (l_idle_ttl (s_limits sp))\<rparr>\<rparr>"

section \<open>Compilation\<close>

definition ExecutionPermissions :: "string \<Rightarrow> string list" where
  "ExecutionPermissions t =
     (if t = ''http'' then [''http-read'']
      else if t = ''command'' then [''local-command (trusted configuration; not sandboxed)'']
      else if t = ''push'' then [''authenticated-ingest'']
      else if t = ''logs'' then [''authenticated-log-input'']
      else [])"

definition source_permissions :: "source \<Rightarrow> string list" where
  "source_permissions s =
     (case src_logs s of
        Some l \<Rightarrow>
          if src_type s = ''logs'' \<and> li_type (ls_input l) = ''file''
          then [''local-file-read (trusted configuration): '' @ li_path (ls_input l)]
          else if src_type s = ''logs'' \<and> li_type (ls_input l) = ''command''
          then [''local-log-reader (trusted configuration; not sandboxed)'']
          else ExecutionPermissions (src_type s)
      | None \<Rightarrow> ExecutionPermissions (src_type s))"

definition compile_spec :: "compile_env \<Rightarrow> spec \<Rightarrow> spec result" where
  "compile_spec env sp =
     bindE (compile_source env sp) (\<lambda>s0.
     bindE (compile_polling s0) (\<lambda>s.
     bindE (compile_projection env s) (\<lambda>_.
     bindE (compile_condition (s_condition sp)) (\<lambda>c.
     bindE (compile_policy s c (s_policy sp)) (\<lambda>p.
     bindE (compile_group_by (s_group_by sp)) (\<lambda>g.
     bindE (compile_match (s_match sp)) (\<lambda>_.
     bindE (compile_message env (s_message sp)) (\<lambda>_.
     bindE (compile_limits (s_limits sp)) (\<lambda>l.
     bindE (compile_destinations (s_destinations sp)) (\<lambda>ts.
     Inr (normalizeDurations (sp\<lparr>s_source := s, s_condition := c, s_policy := p, s_group_by := g,
       s_limits := l, s_destinations := ts\<rparr>))))))))))))"

definition fingerprint_of :: "spec \<Rightarrow> fingerprint_doc" where
  "fingerprint_of sp = \<lparr>fp_source = s_source sp, fp_condition = s_condition sp, fp_policy = s_policy sp,
     fp_group_by = s_group_by sp, fp_match = s_match sp, fp_limits = s_limits sp\<rparr>"

definition Compile :: "compile_env \<Rightarrow> definition_rec \<Rightarrow> compiled result" where
  "Compile env d =
     bindE (plan_header (d_api_version d) (d_kind d) (d_metadata d) ''Watch'') (\<lambda>_.
     case copy_definition d of
       None \<Rightarrow> Inl (Err ''json: unsupported value'')
     | Some n \<Rightarrow>
         bindE (compile_spec env (d_spec n)) (\<lambda>sp.
         let r = n\<lparr>d_spec := sp\<rparr> in
         Inr \<lparr>cd_definition = r, cd_revision = ce_revision env r,
              cd_fingerprint = ce_fingerprint env (fingerprint_of sp),
              cd_permissions = source_permissions (s_source sp)\<rparr>))"

definition destination_defaults :: "destination_spec \<Rightarrow> destination_spec" where
  "destination_defaults s =
     s\<lparr>ds_max_attempts := (if ds_max_attempts s = 0 then 8 else ds_max_attempts s),
       ds_max_age := (if ds_max_age s = '''' then ''24h'' else ds_max_age s),
       ds_initial_backoff := (if ds_initial_backoff s = '''' then ''1s'' else ds_initial_backoff s)\<rparr>"

definition destination_kind_ok :: "destination_spec \<Rightarrow> unit result" where
  "destination_kind_ok s =
     (if ds_type s = ''console'' \<or> ds_type s = ''desktop'' then
        check (ds_url_ref s = None \<and> ds_headers s = []) ''local destinations take no HTTP settings''
      else if ds_type s \<in> {''webhook'', ''slack'', ''discord''} then
        check (validRef (ds_url_ref s)) ''HTTP destinations require urlRef.env''
      else Inl (Err ''unsupported destination type''))"

definition CompileDestination :: "compile_env \<Rightarrow> destination \<Rightarrow> compiled_destination result" where
  "CompileDestination env d =
     bindE (plan_header (dest_api_version d) (dest_kind d) (dest_metadata d) ''Destination'') (\<lambda>_.
     bindE (destination_kind_ok (dest_spec d)) (\<lambda>_.
     bindE (refs (ds_headers (dest_spec d))) (\<lambda>_.
     let s = destination_defaults (dest_spec d) in
     bindE (check (\<not> (ds_max_attempts s < 1 \<or> ds_max_attempts s > 100)) ''invalid retry attempts'') (\<lambda>_.
     bindE (plan_duration (ds_max_age s) second (7 * 24 * hour)) (\<lambda>_.
     bindE (plan_duration (ds_initial_backoff s) millisecond hour) (\<lambda>_.
     let r = d\<lparr>dest_spec := s\<lparr>ds_max_age := normalize_duration (ds_max_age s),
                 ds_initial_backoff := normalize_duration (ds_initial_backoff s)\<rparr>\<rparr> in
     Inr \<lparr>cds_definition = r, cds_revision = ce_destination_revision env r\<rparr>))))))"

section \<open>Manifests\<close>

datatype yaml_kind = DocumentNode | SequenceNode | MappingNode | ScalarNode | AliasNode

datatype yaml_node = YNode (yn_kind: yaml_kind) (yn_tag: string) (yn_value: string) (yn_content: "yaml_node list")

text \<open>The keys of a mapping are the entries at even positions.\<close>

fun evens :: "'a list \<Rightarrow> 'a list" where
  "evens [] = []"
| "evens [x] = [x]"
| "evens (x # y # xs) = x # evens xs"

fun check_keys :: "string list \<Rightarrow> yaml_node list \<Rightarrow> unit result" where
  "check_keys ks [] = Inr ()"
| "check_keys ks (k # rest) =
     (if yn_kind k \<noteq> ScalarNode \<or> yn_tag k \<noteq> ''!!str'' then Inl (Err ''mapping keys must be strings'')
      else if yn_value k \<in> set ks then Inl (Err ''duplicate field'')
      else check_keys (yn_value k # ks) rest)"

fun checkNode :: "yaml_node \<Rightarrow> unit result" and checkNodes :: "yaml_node list \<Rightarrow> unit result" where
  "checkNode (YNode kind tag v content) =
     (if kind = AliasNode then Inl (Err ''YAML aliases are unsupported'')
      else bindE (if kind = MappingNode then check_keys [] (evens content) else Inr ()) (\<lambda>_. checkNodes content))"
| "checkNodes [] = Inr ()"
| "checkNodes (n # ns) = bindE (checkNode n) (\<lambda>_. checkNodes ns)"

fun lookup_content :: "string \<Rightarrow> yaml_node list \<Rightarrow> yaml_node option" where
  "lookup_content key (k # v # rest) = (if yn_value k = key then Some v else lookup_content key rest)"
| "lookup_content key _ = None"

fun lookupNode :: "yaml_node option \<Rightarrow> string \<Rightarrow> yaml_node option" where
  "lookupNode None key = None"
| "lookupNode (Some n) key = (if yn_kind n \<noteq> MappingNode then None else lookup_content key (yn_content n))"

text \<open>The YAML library: the documents of a stream, the last of them possibly an error, the
  \<open>kind\<close> of a document, and its strict decoding into a resource. A document node has one
  child.\<close>

record yaml_env =
  ye_documents :: "string \<Rightarrow> yaml_node result list"
  ye_kind :: "yaml_node \<Rightarrow> string result"
  ye_watch :: "yaml_node \<Rightarrow> definition_rec result"
  ye_destination :: "yaml_node \<Rightarrow> destination result"

record plan_bundle =
  b_watches :: "compiled list"
  b_destinations :: "compiled_destination list"

definition document_root :: "yaml_node \<Rightarrow> yaml_node option" where
  "document_root n = (case yn_content n of [] \<Rightarrow> None | r # _ \<Rightarrow> Some r)"

definition explicit_value :: "definition_rec \<Rightarrow> yaml_node \<Rightarrow> bool" where
  "explicit_value d n \<longleftrightarrow>
     \<not> (contains ''|eq|ne|gt|gte|lt|lte|'' (''|'' @ c_operator (s_condition (d_spec d)) @ ''|'') \<and>
        c_operator (s_condition (d_spec d)) \<noteq> '''' \<and>
        lookupNode (lookupNode (lookupNode (document_root n) ''spec'') ''condition'') ''value'' = None)"

text \<open>One resource: the bundle with it, and the key it is known by.\<close>

definition parse_resource :: "compile_env \<Rightarrow> yaml_env \<Rightarrow> plan_bundle \<Rightarrow> yaml_node \<Rightarrow> (plan_bundle \<times> string) result" where
  "parse_resource env y b n =
     bindE (checkNode n) (\<lambda>_.
     bindE (ye_kind y n) (\<lambda>kind.
     if kind = ''Watch'' then
       bindE (ye_watch y n) (\<lambda>d.
       bindE (check (explicit_value d n) ''comparison requires an explicit value (null is allowed)'') (\<lambda>_.
       bindE (Compile env d) (\<lambda>c.
       Inr (b\<lparr>b_watches := b_watches b @ [c]\<rparr>, kind @ '':'' @ md_id (d_metadata d)))))
     else if kind = ''Destination'' then
       bindE (ye_destination y n) (\<lambda>d.
       bindE (CompileDestination env d) (\<lambda>c.
       Inr (b\<lparr>b_destinations := b_destinations b @ [c]\<rparr>, kind @ '':'' @ md_id (dest_metadata d))))
     else if lookupNode (document_root n) ''rules'' \<noteq> None \<or> lookupNode (document_root n) ''notifiers'' \<noteq> None
     then Inl (Err ''legacy configuration: use ding migrate --config FILE --out NEW_DIRECTORY, or install legacy v0.14.0'')
     else Inl (Err ''kind must be Watch or Destination'')))"

fun parse_loop :: "compile_env \<Rightarrow> yaml_env \<Rightarrow> nat \<Rightarrow> string list \<Rightarrow> plan_bundle \<Rightarrow> yaml_node result list \<Rightarrow> plan_bundle result" where
  "parse_loop env y count keys b [] = Inr b"
| "parse_loop env y count keys b (Inl e # docs) = Inl (Err ''invalid manifest YAML'')"
| "parse_loop env y count keys b (Inr n # docs) =
     (if count \<ge> 100 then Inl (Err ''manifest exceeds 100 resources'')
      else bindE (parse_resource env y b n) (\<lambda>(b', key).
        if key \<in> set keys then Inl (Err ''duplicate resource'')
        else parse_loop env y (Suc count) (key # keys) b' docs))"

definition Parse :: "compile_env \<Rightarrow> yaml_env \<Rightarrow> string \<Rightarrow> plan_bundle result" where
  "Parse env y data =
     (if int (length data) > 1048576 then Inl (Err ''manifest exceeds 1 MiB'')
      else bindE (parse_loop env y 0 [] \<lparr>b_watches = [], b_destinations = []\<rparr> (ye_documents y data)) (\<lambda>b.
        if length (b_watches b) + length (b_destinations b) = 0 then Inl (Err ''empty manifest'') else Inr b))"

end
