(* ===== verification/Plan_Laws.thy ===== *)
theory Plan_Laws
  imports Plan_Compile
begin

text \<open>
  What compilation promises: a compiled definition is in canonical form, so compiling it
  again changes nothing; its limits and counts are within the supported bounds; and the
  evaluator accepts it.
\<close>

section \<open>Copies\<close>

lemma float_of_int_finite:
  assumes "\<bar>i\<bar> \<le> two63"
  shows "is_finite (float_of_int i)"
proof (cases "i = 0")
  case False
  define n where "n = \<bar>i\<bar>"
  have n: "0 < n" "n \<le> 2 ^ 63" using False assms by (auto simp: n_def two63_def)
  have "(2::int) ^ nat (nbits n - 1) \<le> 2 ^ 63" using nbits_bounds [OF n(1)] n(2) by linarith
  then have "nat (nbits n - 1) \<le> 63" by (rule power_le_imp_le_exp [rotated]) simp
  moreover have "nbits 1 = 1" by (simp add: nbits.simps)
  ultimately have "ratio_exp n 1 \<le> 11"
    by (auto simp: ratio_exp_def Let_def emin_def split: prod.splits)
  then show ?thesis
    using n by (auto simp: float_of_int_def n_def [symmetric] round_ratio_def Let_def emax_def
        split: prod.splits)
qed (simp add: float_of_int_def round_ratio_def)

lemma utf8_width_prefix: "utf8_width s \<noteq> 0 \<Longrightarrow> utf8_width (take (utf8_width s) s @ t) = utf8_width s"
proof -
  assume w: "utf8_width s \<noteq> 0"
  then obtain a u where s: "s = a # u" by (cases s) auto
  consider "u = []" | b where "u = [b]" | b c where "u = [b, c]" | b c d r where "u = b # c # d # r"
    by (metis list.exhaust)
  then show ?thesis using w s by cases (simp_all split: if_splits)
qed

lemma utf8_width_le: "utf8_width s \<le> length s"
  by (cases s) (auto split: list.splits)

lemma coerce_utf8_is_valid: "valid_utf8 (coerce_utf8 s)"
proof (induction s rule: coerce_utf8.induct)
  case (1 s)
  show ?case
  proof (cases "s = []")
    case True
    then show ?thesis by (simp add: coerce_utf8.simps valid_utf8.simps)
  next
    case False
    show ?thesis
    proof (cases "utf8_width s = 0")
      case True
      have w: "utf8_width (replacement_char @ r) = 3" for r
        by (simp add: replacement_char_def in_range_def byte_def second_byte_ok_def)
      have "valid_utf8 (coerce_utf8 (drop 1 s))" using "1.IH"(1) False True by simp
      then have "valid_utf8 (replacement_char @ coerce_utf8 (drop 1 s))"
        using w by (simp add: valid_utf8.simps [of "replacement_char @ _"]) (simp add: replacement_char_def)
      then show ?thesis using False True by (simp add: coerce_utf8.simps [of s] Let_def)
    next
      case w: False
      have l: "length (take (utf8_width s) s) = utf8_width s" using utf8_width_le [of s] by simp
      have "valid_utf8 (coerce_utf8 (drop (utf8_width s) s))" using "1.IH"(2) False w by simp
      then have "valid_utf8 (take (utf8_width s) s @ coerce_utf8 (drop (utf8_width s) s))"
        using w utf8_width_prefix [OF w] l False
        by (simp add: valid_utf8.simps [of "take _ _ @ _"])
      then show ?thesis using False w by (simp add: coerce_utf8.simps [of s] Let_def)
    qed
  qed
qed

lemma coerce_utf8_idem [simp]: "coerce_utf8 (coerce_utf8 s) = coerce_utf8 s"
  by (simp add: coerce_utf8_valid coerce_utf8_is_valid)

text \<open>Go's \<open>int\<close> and \<open>int64\<close> have 64 bits.\<close>

fun int64_value :: "value \<Rightarrow> bool" where
  "int64_value (VInt i) \<longleftrightarrow> \<bar>i\<bar> \<le> two63"
| "int64_value (VInt64 i) \<longleftrightarrow> \<bar>i\<bar> \<le> two63"
| "int64_value _ \<longleftrightarrow> True"

definition int64_definition :: "definition_rec \<Rightarrow> bool" where
  "int64_definition d \<longleftrightarrow> int64_value (c_value (s_condition (d_spec d))) \<and>
     list_all (\<lambda>(k, v). int64_value v) (s_match (d_spec d))"

lemma json_norm_idem:
  "json_norm v = Some w \<Longrightarrow> int64_value v \<Longrightarrow> scalar w \<Longrightarrow> json_norm w = Some w"
  by (cases v) (auto simp: float_of_int_finite split: if_splits option.splits)

lemma json_norm_fields_idem:
  "json_norm_fields m = Some n \<Longrightarrow> list_all (\<lambda>(k, v). int64_value v) m \<Longrightarrow>
     list_all (\<lambda>(k, v). fieldName k \<and> scalar v) n \<Longrightarrow> json_norm_fields n = Some n"
proof (induction m arbitrary: n)
  case (Cons p m)
  obtain k v where p: "p = (k, v)" by fastforce
  with Cons.prems obtain w n' where "json_norm v = Some w" "json_norm_fields m = Some n'"
    "n = (coerce_utf8 k, w) # n'" by (auto split: option.splits)
  with Cons p show ?case by (auto simp: json_norm_idem)
qed simp


section \<open>Durations\<close>

lemma parse_duration_nil [simp]: "parse_duration '''' = None"
  by (simp add: parse_duration_def)

lemma duration_string_nonempty:
  "min_duration \<le> d \<Longrightarrow> d \<le> max_duration \<Longrightarrow> duration_string d \<noteq> ''''"
  using parse_duration_string [of d] by auto

text \<open>A text that was accepted with bounds inside \<open>int64\<close>, and its canonical form.\<close>

definition int64_bounds :: "duration \<Rightarrow> duration \<Rightarrow> bool" where
  "int64_bounds lo hi \<longleftrightarrow> min_duration \<le> lo \<and> hi \<le> max_duration"

lemma normalize_duration_nil [simp]: "normalize_duration '''' = ''''"
  by (simp add: normalize_duration_def)

lemma plan_duration_stable:
  assumes "plan_duration v lo hi = Inr d" "int64_bounds lo hi"
  shows "plan_duration (normalize_duration v) lo hi = Inr d"
    and "normalize_duration (normalize_duration v) = normalize_duration v"
    and "normalize_duration v \<noteq> ''''" and "v \<noteq> ''''" and "lo \<le> d" and "d \<le> hi"
    and "normalize_duration v = duration_string d"
proof -
  have d: "parse_duration v = Some d" "lo \<le> d" "d \<le> hi"
    using assms(1) by (auto simp: plan_duration_def split: option.splits if_splits)
  then have r: "min_duration \<le> d" "d \<le> max_duration" using assms(2) by (auto simp: int64_bounds_def)
  have v: "v \<noteq> ''''" using d(1) by auto
  have n: "normalize_duration v = duration_string d"
    using d(1) v by (simp add: normalize_duration_def duration_or_zero_def)
  note p = parse_duration_string [OF r] and ne = duration_string_nonempty [OF r]
  show "plan_duration (normalize_duration v) lo hi = Inr d" using d p by (simp add: n plan_duration_def)
  show "normalize_duration (normalize_duration v) = normalize_duration v"
    using ne p by (simp add: n) (simp add: normalize_duration_def duration_or_zero_def)
  show "normalize_duration v \<noteq> ''''" using n ne by simp
  show "v \<noteq> ''''" "lo \<le> d" "d \<le> hi" "normalize_duration v = duration_string d" by (fact v d n)+
qed

lemma int64_bounds_plan [simp]:
  "int64_bounds second (24 * hour)" "int64_bounds millisecond (5 * minute)" "int64_bounds second (30 * 24 * hour)"
  "int64_bounds second (7 * 24 * hour)" "int64_bounds 0 (30 * 24 * hour)" "int64_bounds millisecond hour"
  "int64_bounds (5 * second) (5 * minute)" "int64_bounds minute (7 * 24 * hour)" "int64_bounds second hour"
  "int64_bounds second (720 * hour)" "int64_bounds second (168 * hour)" "int64_bounds 0 (720 * hour)"
  "int64_bounds minute (168 * hour)"
  by (simp_all add: int64_bounds_def min_duration_def max_duration_def second_def hour_def millisecond_def minute_def)

definition norm_source :: "source \<Rightarrow> source" where
  "norm_source s = s\<lparr>src_every := normalize_duration (src_every s), src_timeout := normalize_duration (src_timeout s)\<rparr>"

definition norm_condition :: "condition \<Rightarrow> condition" where
  "norm_condition c = c\<lparr>c_missing_for := normalize_duration (c_missing_for c),
     c_dedup_for := normalize_duration (c_dedup_for c)\<rparr>"

definition norm_policy :: "policy \<Rightarrow> policy" where
  "norm_policy p = p\<lparr>p_interval := normalize_duration (p_interval p), p_max_gap := normalize_duration (p_max_gap p)\<rparr>"

definition norm_limits :: "limits \<Rightarrow> limits" where
  "norm_limits l = l\<lparr>l_idle_ttl := normalize_duration (l_idle_ttl l)\<rparr>"

lemma normalizeDurations_parts:
  "normalizeDurations sp = sp\<lparr>s_source := norm_source (s_source sp), s_condition := norm_condition (s_condition sp),
     s_policy := norm_policy (s_policy sp), s_limits := norm_limits (s_limits sp)\<rparr>"
  by (simp add: normalizeDurations_def norm_source_def norm_condition_def norm_policy_def norm_limits_def)

section \<open>Sources compile to themselves\<close>

lemma compileLogInput_stable:
  assumes "compileLogInput i = Inr j"
  shows "compileLogInput j = Inr j" and "li_type j = li_type i"
proof -
  have rest: "compileLogInput j = Inr j \<and> li_type j = li_type i"
  proof (cases "li_type i = ''command''")
    case False
    with assms show ?thesis by (auto simp: compileLogInput_def Let_def split: if_splits)
  next
    case True
    obtain d where d: "5 * second \<le> d" "d \<le> 5 * minute" "j = i\<lparr>li_reconnect_every := duration_string d\<rparr>"
      using assms True
      by (auto simp: compileLogInput_def Let_def not_less split: if_splits option.splits intro: that)
    have "min_duration \<le> d" "d \<le> max_duration"
      using d by (auto simp: min_duration_def max_duration_def second_def minute_def)
    note p = parse_duration_string [OF this] duration_string_nonempty [OF this]
    have "compileLogInput j = Inr j"
      using assms True d p by (auto simp: compileLogInput_def Let_def split: if_splits option.splits)
    then show ?thesis using d by simp
  qed
  then show "compileLogInput j = Inr j" "li_type j = li_type i" by auto
qed

text \<open>The logs settings that compile to themselves.\<close>

definition log_canonical :: "compile_env \<Rightarrow> log_source \<Rightarrow> bool" where
  "log_canonical env c \<longleftrightarrow>
     li_type (ls_input c) \<noteq> '''' \<and> compileLogInput (ls_input c) = Inr (ls_input c) \<and> log_defaults c = c \<and>
     ls_emit_every c = ''1s'' \<and> ls_min_events c \<noteq> 0 \<and> ls_text_profile c = ''common'' \<and>
     log_multi_defaults (ls_multiline c) = ls_multiline c \<and>
     \<not> (ls_format c = ''jsonl'' \<and> ls_framing c = ''multiline'') \<and>
     (\<exists>r. minute \<le> r \<and> r \<le> 7 * 24 * hour \<and> ls_retention c = duration_string r) \<and>
     (\<exists>w. min_duration \<le> w \<and> w \<le> max_duration \<and> ls_window c = duration_string w \<and> log_components env c = Inr w)"

definition log_guard :: "source \<Rightarrow> bool" where
  "log_guard s \<longleftrightarrow> \<not> (src_url s \<noteq> '''' \<or> src_url_ref s \<noteq> None \<or> src_argv s \<noteq> [] \<or> src_directory s \<noteq> '''' \<or>
     src_env s \<noteq> [] \<or> src_headers s \<noteq> [] \<or> src_jq s \<noteq> '''' \<or> src_fields s \<noteq> [] \<or>
     src_every s \<noteq> '''' \<or> src_timeout s \<noteq> '''' \<or> src_observed_at_field s \<noteq> '''')"

lemma compileLogInput_type: "compileLogInput i = Inr j \<Longrightarrow> li_type i \<noteq> ''''"
  by (auto simp: compileLogInput_def)

lemma NewWindow_range: "NewWindow c t = Inr w \<Longrightarrow> second \<le> wc_window c \<and> wc_window c \<le> hour"
  by (auto simp: NewWindow_def split: if_splits)

lemma log_multi_defaults_idem [simp]: "log_multi_defaults (log_multi_defaults m) = log_multi_defaults m"
  by (cases m) (simp_all add: log_multi_defaults_def)

lemma duration_range: "lo \<le> d \<Longrightarrow> d \<le> hi \<Longrightarrow> int64_bounds lo hi \<Longrightarrow> min_duration \<le> d \<and> d \<le> max_duration"
  by (auto simp: int64_bounds_def)

lemma log_components_range: "log_components env c = Inr w \<Longrightarrow> min_duration \<le> w \<and> w \<le> max_duration"
  using NewWindow_range [of "\<lparr>wc_window = w, wc_min_events = ls_min_events c, wc_min_coverage = ls_min_coverage c\<rparr>" zero_time]
    duration_range [of second w hour]
  by (auto simp: log_components_def split: option.splits)

text \<open>Printing the window in canonical form keeps the components.\<close>

lemma log_components_canonical:
  assumes "log_components env c = Inr w"
  shows "log_components env (c\<lparr>ls_window := duration_string w\<rparr>) = Inr w"
proof -
  have "parse_duration (duration_string w) = Some w"
    using log_components_range [OF assms] by (simp add: parse_duration_string)
  then show ?thesis
    using assms by (auto simp: log_components_def log_frame_config_def log_parser_config_def split: option.splits)
qed

lemma compileLogs_canonical:
  assumes "compileLogs env s = Inr t"
  obtains c where "log_canonical env c" "t = s\<lparr>src_logs := Some c\<rparr>" "log_guard s"
proof -
  obtain c0 where c0: "src_logs s = Some c0" and g: "log_guard s"
    using assms by (auto simp: compileLogs_def log_guard_def split: option.splits if_splits)
  define i where "i = (if li_type (ls_input c0) = '''' then (ls_input c0)\<lparr>li_type := ''external''\<rparr> else ls_input c0)"
  obtain input where input: "compileLogInput i = Inr input"
    using assms c0 g by (auto simp: compileLogs_def log_guard_def i_def [symmetric])
  define c1 where "c1 = log_defaults (c0\<lparr>ls_input := input\<rparr>)"
  obtain r where r: "parse_duration (ls_retention c1) = Some r" "minute \<le> r" "r \<le> 7 * 24 * hour"
    using assms c0 g input by (auto simp: compileLogs_def log_guard_def i_def [symmetric] Let_def c1_def [symmetric]
      not_less split: option.splits if_splits intro: that)
  define c3 where "c3 = (log_late_defaults r c1)\<lparr>ls_multiline := log_multi_defaults (ls_multiline (log_late_defaults r c1))\<rparr>"
  have e: "ls_text_profile (log_late_defaults r c1) = ls_text_profile c3" "ls_emit_every (log_late_defaults r c1) = ls_emit_every c3"
    by (simp_all add: c3_def)
  obtain w where
    c3: "ls_text_profile c3 = ''common''" "ls_emit_every c3 = ''1s''"
      "\<not> (ls_format c3 = ''jsonl'' \<and> ls_framing c3 = ''multiline'')"
    and w: "log_components env c3 = Inr w" "t = s\<lparr>src_logs := Some (c3\<lparr>ls_window := duration_string w\<rparr>)\<rparr>"
    using assms c0 g input r
    by (auto simp: compileLogs_def log_guard_def i_def [symmetric] Let_def c1_def [symmetric] e c3_def [symmetric]
      split: if_splits)
  have wr: "min_duration \<le> w \<and> w \<le> max_duration" by (rule log_components_range [OF w(1)])
  have rr: "min_duration \<le> r \<and> r \<le> max_duration"
    using r by (simp add: duration_range [of minute _ "7 * 24 * hour"])
  let ?c = "c3\<lparr>ls_window := duration_string w\<rparr>"
  have "log_defaults ?c = ?c"
    using wr rr by (simp add: log_defaults_def c3_def c1_def log_late_defaults_def duration_string_nonempty)
  moreover have "ls_input c3 = input" "ls_min_events c3 \<noteq> 0" "log_multi_defaults (ls_multiline c3) = ls_multiline c3"
    "ls_retention c3 = duration_string r"
    by (simp_all add: c3_def c1_def log_late_defaults_def log_defaults_def)
  ultimately have "log_canonical env ?c"
    using c3 wr r compileLogInput_stable [OF input] compileLogInput_type [OF input]
      log_components_canonical [OF w(1)]
    by (simp add: log_canonical_def) (metis (no_types))
  then show ?thesis using that w(2) g by blast
qed

lemma compileLogs_fixed:
  assumes "log_canonical env c" "log_guard s" "src_logs s = Some c"
  shows "compileLogs env s = Inr s"
proof -
  obtain r w where r: "minute \<le> r" "r \<le> 7 * 24 * hour" "ls_retention c = duration_string r"
    and w: "ls_window c = duration_string w" "log_components env c = Inr w"
    using assms(1) unfolding log_canonical_def by blast
  have c: "li_type (ls_input c) \<noteq> ''''" "compileLogInput (ls_input c) = Inr (ls_input c)" "log_defaults c = c"
    "ls_emit_every c = ''1s''" "ls_min_events c \<noteq> 0" "ls_text_profile c = ''common''"
    "log_multi_defaults (ls_multiline c) = ls_multiline c" "\<not> (ls_format c = ''jsonl'' \<and> ls_framing c = ''multiline'')"
    using assms(1) unfolding log_canonical_def by blast+
  have u: "log_late_defaults r c = c" "c\<lparr>ls_window := duration_string w\<rparr> = c" "c\<lparr>ls_input := ls_input c\<rparr> = c"
    "s\<lparr>src_logs := Some c\<rparr> = s" "c\<lparr>ls_multiline := ls_multiline c\<rparr> = c"
    using r(3) w(1) assms(3) c by (auto simp: log_late_defaults_def)
  have "parse_duration (ls_retention c) = Some r"
    using r duration_range [of minute r "7 * 24 * hour"] by (simp add: parse_duration_string)
  then show ?thesis
    using assms(2) c r(1,2) w(2) by (auto simp: compileLogs_def log_guard_def assms(3) Let_def u)
qed

definition logs_scope :: "spec \<Rightarrow> bool" where
  "logs_scope sp \<longleftrightarrow> \<not> (s_group_by sp \<noteq> [] \<or> s_match sp \<noteq> [] \<or> c_numeric (s_condition sp) \<noteq> '''' \<or>
     c_missing_for (s_condition sp) \<noteq> '''' \<or> c_operator (s_condition sp) = ''changed'' \<or>
     c_operator (s_condition sp) = ''new-event'')"

definition source_shape :: "compile_env \<Rightarrow> source \<Rightarrow> bool" where
  "source_shape env s \<longleftrightarrow>
     src_type s = ''logs'' \<and> log_guard s \<and> (\<exists>c. src_logs s = Some c \<and> log_canonical env c) \<or>
     src_type s = ''http'' \<and> src_logs s = None \<and> compile_http env s = Inr () \<or>
     src_type s = ''command'' \<and> src_logs s = None \<and> compile_command s = Inr () \<or>
     src_type s = ''push'' \<and> src_logs s = None \<and> compile_push s = Inr ()"

lemma compile_source_shape:
  assumes "compile_source env sp = Inr s"
  shows "source_shape env s" and "src_type s = ''logs'' \<Longrightarrow> logs_scope sp"
proof -
  have "source_shape env s \<and> (src_type s = ''logs'' \<longrightarrow> logs_scope sp)"
  proof (cases "src_type (s_source sp) = ''logs''")
    case True
    then obtain c where "log_canonical env c" "s = (s_source sp)\<lparr>src_logs := Some c\<rparr>" "log_guard (s_source sp)"
      and "logs_scope sp"
      using assms by (auto simp: compile_source_def Let_def logs_scope_def split: if_splits elim: compileLogs_canonical)
    then show ?thesis using True by (auto simp: source_shape_def log_guard_def)
  next
    case False
    then show ?thesis
      using assms by (auto simp: compile_source_def Let_def source_shape_def split: if_splits)
  qed
  then show "source_shape env s" "src_type s = ''logs'' \<Longrightarrow> logs_scope sp" by auto
qed

lemma compile_source_fixed:
  assumes "source_shape env (s_source sp)" "src_type (s_source sp) = ''logs'' \<Longrightarrow> logs_scope sp"
  shows "compile_source env sp = Inr (s_source sp)"
proof (cases "src_type (s_source sp) = ''logs''")
  case True
  then have "compileLogs env (s_source sp) = Inr (s_source sp)"
    using assms(1) by (auto simp: source_shape_def compileLogs_fixed)
  then show ?thesis using True assms(2) by (auto simp: compile_source_def Let_def logs_scope_def)
next
  case False
  then show ?thesis using assms(1) by (auto simp: compile_source_def Let_def source_shape_def)
qed

lemma compile_http_norm [simp]: "compile_http env (norm_source s) = compile_http env s"
  by (simp add: compile_http_def norm_source_def)

lemma compile_command_norm [simp]: "compile_command (norm_source s) = compile_command s"
  by (simp add: compile_command_def norm_source_def)

lemma compile_projection_norm [simp]: "compile_projection env (norm_source s) = compile_projection env s"
  by (simp add: compile_projection_def norm_source_def)

lemma norm_source_simps [simp]:
  "src_type (norm_source s) = src_type s" "src_logs (norm_source s) = src_logs s"
  "polled (norm_source s) = polled s"
  by (simp_all add: norm_source_def polled_def)

text \<open>A source that passed both stages is polled at a bounded rate, or not at all.\<close>

definition polling_shape :: "source \<Rightarrow> bool" where
  "polling_shape s \<longleftrightarrow>
     (if polled s
      then (\<exists>d. plan_duration (src_every s) second (24 * hour) = Inr d) \<and>
           (\<exists>d. plan_duration (src_timeout s) millisecond (5 * minute) = Inr d)
      else src_every s = '''' \<and> src_timeout s = '''')"

lemma unpolled_silent: "source_shape env s \<Longrightarrow> \<not> polled s \<Longrightarrow> src_every s = '''' \<and> src_timeout s = ''''"
  by (auto simp: source_shape_def polled_def log_guard_def compile_push_def)

lemma compile_polling_shape:
  assumes "compile_polling s = Inr t" "source_shape env s"
  shows "source_shape env t" and "polling_shape t" and "src_type t = src_type s"
proof -
  have "source_shape env t \<and> polling_shape t \<and> src_type t = src_type s"
  proof (cases "polled s")
    case True
    then have "src_type s = ''http'' \<and> src_logs s = None \<and> compile_http env s = Inr () \<or>
        src_type s = ''command'' \<and> src_logs s = None \<and> compile_command s = Inr ()"
      using assms(2) by (auto simp: source_shape_def polled_def)
    moreover have "compile_http env t = compile_http env s" "compile_command t = compile_command s"
      "src_type t = src_type s" "src_logs t = src_logs s" "polled t"
      using assms(1) True
      by (auto simp: compile_polling_def Let_def compile_http_def compile_command_def polled_def)
    moreover have "polling_shape t" using assms(1) True \<open>polled t\<close>
      by (auto simp: compile_polling_def polling_shape_def Let_def)
    ultimately show ?thesis by (auto simp: source_shape_def)
  next
    case False
    then show ?thesis
      using assms unpolled_silent [OF assms(2)] by (auto simp: compile_polling_def polling_shape_def)
  qed
  then show "source_shape env t" "polling_shape t" "src_type t = src_type s" by auto
qed

lemma polling_shape_norm:
  assumes "polling_shape s"
  shows "polling_shape (norm_source s)" and "norm_source (norm_source s) = norm_source s"
    and "compile_polling (norm_source s) = Inr (norm_source s)"
proof -
  have "polling_shape (norm_source s) \<and> norm_source (norm_source s) = norm_source s \<and>
      compile_polling (norm_source s) = Inr (norm_source s)"
  proof (cases "polled s")
    case True
    then obtain d e where "plan_duration (src_every s) second (24 * hour) = Inr d"
      "plan_duration (src_timeout s) millisecond (5 * minute) = Inr e"
      using assms by (auto simp: polling_shape_def)
    note p = plan_duration_stable [OF this(1), simplified] plan_duration_stable [OF this(2), simplified]
    show ?thesis
      using True p(1-4) p(8-11) by (simp add: polling_shape_def compile_polling_def Let_def polled_def)
        (simp add: norm_source_def)
  next
    case False
    then show ?thesis using assms by (auto simp: polling_shape_def compile_polling_def) (auto simp: norm_source_def)
  qed
  then show "polling_shape (norm_source s)" "norm_source (norm_source s) = norm_source s"
    "compile_polling (norm_source s) = Inr (norm_source s)" by auto
qed

lemma source_shape_norm: "source_shape env s \<Longrightarrow> source_shape env (norm_source s)"
  by (auto simp: source_shape_def)
    (auto simp: norm_source_def log_guard_def compile_push_def)

section \<open>Conditions, policies and limits compile to themselves\<close>

lemma norm_condition_simps [simp]:
  "c_field (norm_condition c) = c_field c" "c_operator (norm_condition c) = c_operator c"
  "c_value (norm_condition c) = c_value c" "c_numeric (norm_condition c) = c_numeric c"
  by (simp_all add: norm_condition_def)

lemma norm_condition_id: "c_missing_for c = '''' \<Longrightarrow> c_dedup_for c = '''' \<Longrightarrow> norm_condition c = c"
  by (simp add: norm_condition_def)

lemma fieldName_value [simp]: "fieldName ''value''"
  by (simp add: fieldName_def is_alpha_def is_lower_def is_upper_def alnum_def byte_def)

text \<open>The three kinds of condition; at most one duration is set.\<close>

lemma compile_condition_cases:
  assumes "compile_condition c = Inr c1"
  shows "scalar (c_value c1) \<and> c_value c1 = c_value c \<and> c_operator c1 = c_operator c \<and> c_numeric c1 = c_numeric c \<and>
     c_missing_for c1 = c_missing_for c \<and>
     (c_missing_for c1 = '''' \<or> (\<exists>d. plan_duration (c_missing_for c1) second (30 * 24 * hour) = Inr d)) \<and>
     (c_dedup_for c1 = '''' \<or> (\<exists>d. plan_duration (c_dedup_for c1) second (7 * 24 * hour) = Inr d)) \<and>
     compile_condition c1 = Inr c1"
proof -
  consider "c_numeric c \<noteq> ''''" | "c_numeric c = ''''" "c_missing_for c \<noteq> ''''"
    | "c_numeric c = ''''" "c_missing_for c = ''''" by blast
  then show ?thesis
  proof cases
    case 1
    then show ?thesis using assms by (auto simp: compile_condition_def compile_numeric_def split: if_splits)
  next
    case 2
    then show ?thesis using assms by (auto simp: compile_condition_def compile_missing_def)
  next
    case 3
    have v: "is_float v \<Longrightarrow> scalar v" for v by (cases v) auto
    from 3 show ?thesis using assms v
      by (auto simp: compile_condition_def compile_operator_def split: if_splits)
  qed
qed

lemma compile_condition_norm:
  assumes "compile_condition c = Inr c1"
  shows "compile_condition (norm_condition c1) = Inr (norm_condition c1)"
    and "norm_condition (norm_condition c1) = norm_condition c1"
    and "(c_missing_for (norm_condition c1) = '''') = (c_missing_for c1 = '''')"
proof -
  note C = compile_condition_cases [OF assms]
  have m: "(normalize_duration (c_missing_for c1) = '''' \<longleftrightarrow> c_missing_for c1 = '''') \<and>
      normalize_duration (normalize_duration (c_missing_for c1)) = normalize_duration (c_missing_for c1) \<and>
      (c_missing_for c1 \<noteq> '''' \<longrightarrow> (\<exists>d. plan_duration (normalize_duration (c_missing_for c1)) second (30 * 24 * hour) = Inr d))"
    using C plan_duration_stable [of "c_missing_for c1" second "30 * 24 * hour"] by fastforce
  have d: "(normalize_duration (c_dedup_for c1) = '''' \<longleftrightarrow> c_dedup_for c1 = '''') \<and>
      normalize_duration (normalize_duration (c_dedup_for c1)) = normalize_duration (c_dedup_for c1) \<and>
      (c_dedup_for c1 \<noteq> '''' \<longrightarrow> (\<exists>d. plan_duration (normalize_duration (c_dedup_for c1)) second (7 * 24 * hour) = Inr d))"
    using C plan_duration_stable [of "c_dedup_for c1" second "7 * 24 * hour"] by fastforce
  show "norm_condition (norm_condition c1) = norm_condition c1"
    using m d by (simp add: norm_condition_def)
  show n: "(c_missing_for (norm_condition c1) = '''') = (c_missing_for c1 = '''')"
    using m by (simp add: norm_condition_def)
  have e: "c_missing_for (norm_condition c1) = normalize_duration (c_missing_for c1)"
    "c_dedup_for (norm_condition c1) = normalize_duration (c_dedup_for c1)"
    by (simp_all add: norm_condition_def)
  have f: "compile_condition c1 = Inr c1" using C by blast
  show "compile_condition (norm_condition c1) = Inr (norm_condition c1)"
  proof (cases "c_missing_for c1 = '''' \<and> c_dedup_for c1 = ''''")
    case True
    then show ?thesis using f norm_condition_id by simp
  next
    case False
    have "c_numeric c1 = ''''" using f False by (auto simp: compile_condition_def compile_numeric_def split: if_splits)
    then show ?thesis
      using f m d e by (auto simp: compile_condition_def compile_missing_def compile_operator_def split: if_splits)
  qed
qed

lemma norm_policy_simps [simp]:
  "p_trigger (norm_policy p) = p_trigger p" "p_consecutive (norm_policy p) = p_consecutive p"
  "p_recover_after (norm_policy p) = p_recover_after p" "p_on_unknown (norm_policy p) = p_on_unknown p"
  by (simp_all add: norm_policy_def)

text \<open>A compiled policy: its defaults are filled in and its counts and durations in range.\<close>

definition policy_shape :: "source \<Rightarrow> condition \<Rightarrow> policy \<Rightarrow> bool" where
  "policy_shape s c p \<longleftrightarrow>
     (p_trigger p = ''transition'' \<and> p_interval p = '''' \<or>
      p_trigger p = ''level'' \<and> (\<exists>d. plan_duration (p_interval p) 0 (30 * 24 * hour) = Inr d)) \<and>
     1 \<le> p_consecutive p \<and> p_consecutive p \<le> 10000 \<and> 1 \<le> p_recover_after p \<and> p_recover_after p \<le> 10000 \<and>
     p_on_unknown p = ''hold-incident'' \<and> (src_every s \<noteq> '''' \<longrightarrow> p_max_gap p \<noteq> '''') \<and>
     (p_max_gap p = '''' \<or> (\<exists>d. plan_duration (p_max_gap p) second (30 * 24 * hour) = Inr d)) \<and>
     (c_missing_for c \<noteq> '''' \<longrightarrow> p_trigger p = ''transition'' \<and> p_consecutive p = 1 \<and> p_recover_after p = 1) \<and>
     (c_operator c = ''changed'' \<or> c_operator c = ''new-event'' \<longrightarrow> p_trigger p = ''level'' \<and> p_consecutive p = 1)"

lemma gap_default_simps [simp]:
  "p_trigger (gap_default s p) = p_trigger p" "p_consecutive (gap_default s p) = p_consecutive p"
  "p_recover_after (gap_default s p) = p_recover_after p" "p_on_unknown (gap_default s p) = p_on_unknown p"
  "p_interval (gap_default s p) = p_interval p"
  by (simp_all add: gap_default_def)

lemma gap_default_nonempty:
  assumes "polling_shape s" "src_every s \<noteq> ''''"
  shows "p_max_gap (gap_default s p) \<noteq> ''''"
proof -
  obtain d where d: "plan_duration (src_every s) second (24 * hour) = Inr d"
    using assms by (auto simp: polling_shape_def split: if_splits)
  then have "duration_or_zero (src_every s) = d" "second \<le> d" "d \<le> 24 * hour"
    by (auto simp: plan_duration_def duration_or_zero_def split: option.splits if_splits)
  then have "min_duration \<le> duration_or_zero (src_every s) * 2" "duration_or_zero (src_every s) * 2 \<le> max_duration"
    by (auto simp: min_duration_def max_duration_def second_def hour_def)
  then show ?thesis using assms(2) by (auto simp: gap_default_def duration_string_nonempty)
qed

lemma compile_policy_shape:
  assumes "compile_policy s c p = Inr q" "polling_shape s"
  shows "policy_shape s c q"
proof -
  have q: "q = gap_default s (policy_defaults p)" using assms(1) by (auto simp: compile_policy_def Let_def)
  have "src_every s \<noteq> '''' \<longrightarrow> p_max_gap q \<noteq> ''''" using gap_default_nonempty [OF assms(2)] q by blast
  then show ?thesis
    using assms(1) by (auto simp: compile_policy_def Let_def policy_shape_def split: if_splits)
qed

lemma compile_policy_fixed: "policy_shape s c p \<Longrightarrow> compile_policy s c p = Inr p"
  unfolding policy_shape_def by (auto simp: compile_policy_def Let_def policy_defaults_def gap_default_def)

lemma policy_shape_norm:
  assumes "policy_shape s c p"
    and "(src_every t = '''') = (src_every s = '''')" "(c_missing_for e = '''') = (c_missing_for c = '''')"
    and "c_operator e = c_operator c"
  shows "policy_shape t e (norm_policy p)" and "norm_policy (norm_policy p) = norm_policy p"
proof -
  have i: "normalize_duration (normalize_duration (p_interval p)) = normalize_duration (p_interval p) \<and>
      (p_interval p = '''' \<longrightarrow> normalize_duration (p_interval p) = '''') \<and>
      (p_trigger p = ''level'' \<longrightarrow> (\<exists>d. plan_duration (normalize_duration (p_interval p)) 0 (30 * 24 * hour) = Inr d))"
    using assms(1) plan_duration_stable [of "p_interval p" 0 "30 * 24 * hour"] by (fastforce simp: policy_shape_def)
  have g: "normalize_duration (normalize_duration (p_max_gap p)) = normalize_duration (p_max_gap p) \<and>
      (normalize_duration (p_max_gap p) = '''' \<longleftrightarrow> p_max_gap p = '''') \<and>
      (p_max_gap p \<noteq> '''' \<longrightarrow> (\<exists>d. plan_duration (normalize_duration (p_max_gap p)) second (30 * 24 * hour) = Inr d))"
    using assms(1) plan_duration_stable [of "p_max_gap p" second "30 * 24 * hour"] by (fastforce simp: policy_shape_def)
  have e: "p_interval (norm_policy p) = normalize_duration (p_interval p)"
    "p_max_gap (norm_policy p) = normalize_duration (p_max_gap p)" by (simp_all add: norm_policy_def)
  show "policy_shape t e (norm_policy p)"
    using assms i g unfolding policy_shape_def e norm_policy_simps by (auto simp del: parse_duration_nil)
  show "norm_policy (norm_policy p) = norm_policy p" using i g by (simp add: norm_policy_def)
qed

definition limits_shape :: "limits \<Rightarrow> bool" where
  "limits_shape l \<longleftrightarrow> 1 \<le> l_max_entities l \<and> l_max_entities l \<le> 10000 \<and> 1 \<le> l_max_samples l \<and>
     l_max_samples l \<le> 100000 \<and> 1 \<le> l_max_bytes l \<and> l_max_bytes l \<le> 1048576 \<and> 1 \<le> l_max_outputs l \<and>
     l_max_outputs l \<le> 100 \<and> (\<exists>d. plan_duration (l_idle_ttl l) second (30 * 24 * hour) = Inr d)"

lemma compile_limits_shape: "compile_limits l = Inr m \<Longrightarrow> limits_shape m"
  by (auto simp: compile_limits_def Let_def limits_shape_def)

lemma compile_limits_fixed: "limits_shape l \<Longrightarrow> compile_limits l = Inr l"
  by (auto simp: compile_limits_def Let_def limits_shape_def limit_defaults_def plan_duration_def)

lemma limits_shape_norm:
  assumes "limits_shape l"
  shows "limits_shape (norm_limits l)" and "norm_limits (norm_limits l) = norm_limits l"
  using assms plan_duration_stable [of "l_idle_ttl l" second "30 * 24 * hour"]
  by (auto simp: limits_shape_def norm_limits_def)

section \<open>Grouping and destinations\<close>

lemma sorted_distinct_adj: "sorted (xs :: 'a :: linorder list) \<Longrightarrow> distinct_adj xs \<longleftrightarrow> distinct xs"
proof (induction xs)
  case (Cons x xs)
  then show ?case by (cases xs) (auto simp: order.antisym)
qed simp

lemma compile_group_by_shape:
  "compile_group_by gs = Inr hs \<Longrightarrow> length hs \<le> 16 \<and> sorted hs \<and> distinct hs \<and> list_all fieldName hs"
  using sorted_distinct_adj [of "sort gs"] by (auto simp: compile_group_by_def Let_def)

lemma compile_group_by_fixed: "length gs \<le> 16 \<Longrightarrow> sorted gs \<Longrightarrow> distinct gs \<Longrightarrow> list_all fieldName gs \<Longrightarrow>
    compile_group_by gs = Inr gs"
  by (simp add: compile_group_by_def Let_def sort_key_id_if_sorted sorted_distinct_adj)

definition target_shape :: "target \<Rightarrow> bool" where
  "target_shape t \<longleftrightarrow> identifier_ok (t_ref t) \<and> t_events t \<noteq> [] \<and> list_all ValidEventType (t_events t) \<and>
     sorted (t_events t) \<and> distinct (t_events t)"

lemma compile_targets_shape:
  "compile_targets ks ts = Inr us \<Longrightarrow>
     list_all target_shape us \<and> distinct (map t_ref us) \<and> set (map t_ref us) \<inter> set ks = {} \<and> length us = length ts"
proof (induction ks ts arbitrary: us rule: compile_targets.induct)
  case (2 ks t ts)
  let ?t = "target_defaults t"
  obtain vs where vs: "compile_targets (t_ref ?t # ks) ts = Inr vs"
    and us: "us = ?t\<lparr>t_events := sort (t_events ?t)\<rparr> # vs"
    and ok: "identifier_ok (t_ref t)" "t_ref t \<notin> set ks" "list_all ValidEventType (t_events ?t)" "distinct (t_events ?t)"
    using "2.prems" by (auto simp: Let_def)
  have "t_events ?t \<noteq> []" by (simp add: target_defaults_def default_events_def)
  then have "sort (t_events ?t) \<noteq> []" by (metis set_empty set_sort)
  moreover have "t_ref ?t = t_ref t" by (simp add: target_defaults_def)
  moreover have "list_all target_shape vs \<and> distinct (map t_ref vs) \<and> set (map t_ref vs) \<inter> set (t_ref ?t # ks) = {} \<and>
      length vs = length ts"
    using "2.IH" ok vs by simp
  ultimately show ?case using ok us by (auto simp: target_shape_def list_all_iff)
qed simp

lemma compile_targets_fixed:
  "list_all target_shape ts \<Longrightarrow> distinct (map t_ref ts) \<Longrightarrow> set (map t_ref ts) \<inter> set ks = {} \<Longrightarrow>
     compile_targets ks ts = Inr ts"
proof (induction ts arbitrary: ks)
  case (Cons t ts)
  have "target_defaults t = t" "sort (t_events t) = t_events t"
    using Cons.prems(1) by (auto simp: target_defaults_def target_shape_def sort_key_id_if_sorted)
  then show ?case using Cons by (simp add: target_shape_def Let_def)
qed simp

definition targets_shape :: "target list \<Rightarrow> bool" where
  "targets_shape ts \<longleftrightarrow> length ts \<le> 32 \<and> list_all target_shape ts \<and> distinct (map t_ref ts) \<and> sorted (map t_ref ts)"

lemma compile_destinations_shape:
  assumes "compile_destinations ts = Inr us"
  shows "targets_shape us"
proof -
  obtain vs where "compile_targets [] ts = Inr vs" "us = sort_key t_ref vs" "length ts \<le> 32"
    using assms by (auto simp: compile_destinations_def)
  then show ?thesis using compile_targets_shape [of "[]" ts vs]
    by (auto simp: targets_shape_def list_all_iff distinct_map)
qed

lemma compile_destinations_fixed: "targets_shape ts \<Longrightarrow> compile_destinations ts = Inr ts"
  by (simp add: targets_shape_def compile_destinations_def compile_targets_fixed sort_key_id_if_sorted)

section \<open>Canonical definitions\<close>

text \<open>The form every compiled definition has.\<close>

definition spec_canonical :: "compile_env \<Rightarrow> spec \<Rightarrow> bool" where
  "spec_canonical env sp \<longleftrightarrow>
     source_shape env (s_source sp) \<and> (src_type (s_source sp) = ''logs'' \<longrightarrow> logs_scope sp) \<and>
     polling_shape (s_source sp) \<and> norm_source (s_source sp) = s_source sp \<and>
     compile_projection env (s_source sp) = Inr () \<and>
     compile_condition (s_condition sp) = Inr (s_condition sp) \<and> norm_condition (s_condition sp) = s_condition sp \<and>
     policy_shape (s_source sp) (s_condition sp) (s_policy sp) \<and> norm_policy (s_policy sp) = s_policy sp \<and>
     compile_group_by (s_group_by sp) = Inr (s_group_by sp) \<and> compile_match (s_match sp) = Inr () \<and>
     compile_message env (s_message sp) = Inr () \<and> limits_shape (s_limits sp) \<and>
     norm_limits (s_limits sp) = s_limits sp \<and> targets_shape (s_destinations sp)"

lemma compile_spec_canonical:
  assumes "compile_spec env sp = Inr sq"
  shows "spec_canonical env sq" and "s_match sq = s_match sp" and "c_value (s_condition sq) = c_value (s_condition sp)"
proof -
  obtain s0 s c p g l ts where
    st: "compile_source env sp = Inr s0" "compile_polling s0 = Inr s" "compile_projection env s = Inr ()"
      "compile_condition (s_condition sp) = Inr c" "compile_policy s c (s_policy sp) = Inr p"
      "compile_group_by (s_group_by sp) = Inr g" "compile_match (s_match sp) = Inr ()"
      "compile_message env (s_message sp) = Inr ()" "compile_limits (s_limits sp) = Inr l"
      "compile_destinations (s_destinations sp) = Inr ts"
    and sq: "sq = normalizeDurations (sp\<lparr>s_source := s, s_condition := c, s_policy := p, s_group_by := g,
       s_limits := l, s_destinations := ts\<rparr>)"
    using assms by (auto simp: compile_spec_def)
  note shape0 = compile_source_shape [OF st(1)]
  note shape = compile_polling_shape [OF st(2) shape0(1)]
  note pol = polling_shape_norm [OF shape(2)]
  note cn = compile_condition_norm [OF st(4)] and cc = compile_condition_cases [OF st(4)]
  note ps = compile_policy_shape [OF st(5) shape(2)]
  have every: "(src_every (norm_source s) = '''') = (src_every s = '''')"
    using shape(2) pol(1) by (auto simp: polling_shape_def plan_duration_def split: if_splits)
  note pn = policy_shape_norm [OF ps every cn(3), simplified]
  note ln = limits_shape_norm [OF compile_limits_shape [OF st(9)]]
  have q: "sq = sp\<lparr>s_source := norm_source s, s_condition := norm_condition c, s_policy := norm_policy p,
      s_group_by := g, s_limits := norm_limits l, s_destinations := ts\<rparr>"
    by (simp add: sq normalizeDurations_parts)
  have "src_type s = ''logs'' \<longrightarrow> logs_scope sq"
  proof
    assume "src_type s = ''logs''"
    then have sc: "logs_scope sp" using shape0(2) shape(3) by simp
    then have "g = []" using st(6) by (auto simp: compile_group_by_def logs_scope_def)
    then show "logs_scope sq" using sc cc cn(3) by (auto simp: logs_scope_def q)
  qed
  moreover have "compile_group_by g = Inr g"
    using compile_group_by_fixed compile_group_by_shape [OF st(6)] by blast
  ultimately show "spec_canonical env sq"
    using st(3,7,8) source_shape_norm [OF shape(1)] pol cn pn ln compile_destinations_shape [OF st(10)]
    by (simp add: spec_canonical_def q)
  show "s_match sq = s_match sp" "c_value (s_condition sq) = c_value (s_condition sp)"
    using cc by (simp_all add: q)
qed

lemma compile_spec_fixed:
  assumes "spec_canonical env sp"
  shows "compile_spec env sp = Inr sp"
proof -
  have "compile_polling (s_source sp) = Inr (s_source sp)"
    using assms polling_shape_norm(3) [of "s_source sp"] by (simp add: spec_canonical_def)
  moreover have "compile_source env sp = Inr (s_source sp)"
    using assms compile_source_fixed [of env sp] by (simp add: spec_canonical_def)
  moreover have "normalizeDurations sp = sp"
    using assms by (simp add: normalizeDurations_parts spec_canonical_def)
  ultimately show ?thesis
    using assms by (simp add: compile_spec_def spec_canonical_def compile_policy_fixed compile_limits_fixed
      compile_destinations_fixed)
qed

lemma log_canonical_finite:
  assumes "log_canonical env c"
  shows "is_finite (ls_min_coverage c)"
proof -
  obtain w where "log_components env c = Inr w" using assms by (auto simp: log_canonical_def)
  then have "\<not> is_nan (ls_min_coverage c)" "\<not> flt (ls_min_coverage c) fzero" "\<not> flt (float_of_int 1) (ls_min_coverage c)"
    by (auto simp: log_components_def NewWindow_def split: option.splits if_splits)
  moreover have "flt (float_of_int 1) (Inf False)" "flt (Inf True) fzero" "is_nan NaN" by code_simp+
  ultimately show ?thesis
  proof (cases "ls_min_coverage c")
    case (Inf s)
    then show ?thesis using \<open>flt (Inf True) fzero\<close> \<open>flt (float_of_int 1) (Inf False)\<close>
        \<open>\<not> flt (ls_min_coverage c) fzero\<close> \<open>\<not> flt (float_of_int 1) (ls_min_coverage c)\<close> by (cases s) auto
  qed auto
qed

lemma copy_canonical:
  assumes n: "copy_definition d = Some n" and i: "int64_definition d"
    and sp: "spec_canonical env (d_spec r)" "s_match (d_spec r) = s_match (d_spec n)"
      "c_value (s_condition (d_spec r)) = c_value (s_condition (d_spec n))"
  shows "copy_definition r = Some r"
proof -
  obtain v m where vm: "json_norm (c_value (s_condition (d_spec d))) = Some v"
    "json_norm_fields (s_match (d_spec d)) = Some m"
    "s_match (d_spec n) = m" "c_value (s_condition (d_spec n)) = v"
    using n by (auto simp: copy_definition_def split: option.splits if_splits)
  have "scalar (c_value (s_condition (d_spec r)))"
    using compile_condition_cases [of "s_condition (d_spec r)"] sp(1) unfolding spec_canonical_def by blast
  then have "scalar v" using sp vm by simp
  moreover have "list_all (\<lambda>(k, v). fieldName k \<and> scalar v) m"
    using sp vm by (simp add: spec_canonical_def compile_match_def)
  ultimately have v: "json_norm (c_value (s_condition (d_spec r))) = Some (c_value (s_condition (d_spec r)))"
    "json_norm_fields (s_match (d_spec r)) = Some (s_match (d_spec r))"
    using i vm sp json_norm_idem json_norm_fields_idem by (auto simp: int64_definition_def)
  have "(case src_logs (s_source (d_spec r)) of Some l \<Rightarrow> is_finite (ls_min_coverage l) | None \<Rightarrow> True)"
    using sp(1) log_canonical_finite by (auto simp: spec_canonical_def source_shape_def split: option.splits)
  then show ?thesis using v by (simp add: copy_definition_def)
qed

lemma copy_header:
  "copy_definition d = Some n \<Longrightarrow> d_api_version n = d_api_version d \<and> d_kind n = d_kind d \<and> d_metadata n = d_metadata d"
  by (auto simp: copy_definition_def split: option.splits if_splits)

lemma Compile_elim:
  assumes "Compile env d = Inr c"
  obtains n sp where "plan_header (d_api_version d) (d_kind d) (d_metadata d) ''Watch'' = Inr ()"
    "copy_definition d = Some n" "compile_spec env (d_spec n) = Inr sp" "cd_definition c = n\<lparr>d_spec := sp\<rparr>"
    "c = \<lparr>cd_definition = n\<lparr>d_spec := sp\<rparr>, cd_revision = ce_revision env (n\<lparr>d_spec := sp\<rparr>),
          cd_fingerprint = ce_fingerprint env (fingerprint_of sp), cd_permissions = source_permissions (s_source sp)\<rparr>"
  using assms by (auto simp: Compile_def Let_def split: option.splits)

text \<open>C28: compiling is idempotent. The definition that a successful compilation stores is in
  canonical form: compiling it again succeeds and returns the same definition, revision,
  fingerprint and permissions.
\<close>

theorem compile_idempotent:
  assumes "Compile env d = Inr c" "int64_definition d"
  shows "Compile env (cd_definition c) = Inr c"
proof -
  obtain n sp where *: "plan_header (d_api_version d) (d_kind d) (d_metadata d) ''Watch'' = Inr ()"
    "copy_definition d = Some n" "compile_spec env (d_spec n) = Inr sp"
    and c: "c = \<lparr>cd_definition = n\<lparr>d_spec := sp\<rparr>, cd_revision = ce_revision env (n\<lparr>d_spec := sp\<rparr>),
      cd_fingerprint = ce_fingerprint env (fingerprint_of sp), cd_permissions = source_permissions (s_source sp)\<rparr>"
    using assms(1) by (rule Compile_elim)
  note sp = compile_spec_canonical [OF *(3)]
  have "copy_definition (n\<lparr>d_spec := sp\<rparr>) = Some (n\<lparr>d_spec := sp\<rparr>)"
    using copy_canonical [OF *(2) assms(2), of env "n\<lparr>d_spec := sp\<rparr>"] sp by simp
  then show ?thesis
    using *(1) copy_header [OF *(2)] compile_spec_fixed [OF sp(1)] by (simp add: Compile_def c Let_def)
qed

text \<open>A declared watch with most settings left out, in the shape of \<open>examples/watches\<close>.\<close>

definition ex_compile_env :: compile_env where
  "ex_compile_env = \<lparr>ce_url_parse = (\<lambda>s. Some \<lparr>u_scheme = ''https'', u_host = ''example.com'', u_hostname = ''example.com'', u_has_user = False, u_fragment = ''''\<rparr>),
     ce_jq_ok = (\<lambda>_. True), ce_template_ok = (\<lambda>_. True), ce_regexp = (\<lambda>_. Some (\<lambda>_. False)),
     ce_revision = (\<lambda>d. md_id (d_metadata d)), ce_fingerprint = (\<lambda>f. src_url (fp_source f)),
     ce_destination_revision = (\<lambda>d. md_id (dest_metadata d))\<rparr>"

definition ex_declared :: definition_rec where
  "ex_declared = \<lparr>d_api_version = APIVersion, d_kind = ''Watch'', d_metadata = \<lparr>md_id = ''cpu'', md_name = ''''\<rparr>,
     d_spec = \<lparr>s_source = \<lparr>src_logs = None, src_observed_at_field = '''', src_type = ''http'', src_url = ''https://example.com/cpu'',
         src_url_ref = None, src_every = ''60s'', src_timeout = '''', src_headers = [], src_fields = [(''load'', ''cpu.load'')],
         src_items_path = ''hosts'', src_jq = '''', src_argv = [], src_directory = '''', src_env = []\<rparr>,
       s_condition = \<lparr>c_field = '''', c_operator = '''', c_value = VNil, c_numeric = ''avg(value) over 5m > 90'',
         c_missing_for = '''', c_dedup_for = ''''\<rparr>,
       s_policy = \<lparr>p_trigger = '''', p_consecutive = 0, p_recover_after = 3, p_on_unknown = '''', p_interval = '''', p_max_gap = ''''\<rparr>,
       s_group_by = [''zone'', ''host''], s_match = [(''env'', VStr ''prod''), (''cores'', VInt 8)], s_message = '''',
       s_destinations = [\<lparr>t_ref = ''slack'', t_events = []\<rparr>, \<lparr>t_ref = ''console'', t_events = [''recovered'', ''firing'']\<rparr>],
       s_limits = \<lparr>l_max_entities = 0, l_max_samples = 500, l_max_bytes = 0, l_max_outputs = 0, l_idle_ttl = ''''\<rparr>\<rparr>\<rparr>"

theorem compile_idempotent_witness:
  "\<exists>c. Compile ex_compile_env ex_declared = Inr c \<and> int64_definition ex_declared \<and>
     p_max_gap (s_policy (d_spec (cd_definition c))) = ''2m0s'' \<and> s_group_by (d_spec (cd_definition c)) = [''host'', ''zone''] \<and>
     map t_ref (s_destinations (d_spec (cd_definition c))) = [''console'', ''slack''] \<and>
     Compile ex_compile_env (cd_definition c) = Inr c"
proof -
  have e: "case Compile ex_compile_env ex_declared of Inl _ \<Rightarrow> False
    | Inr c \<Rightarrow> p_max_gap (s_policy (d_spec (cd_definition c))) = ''2m0s'' \<and> s_group_by (d_spec (cd_definition c)) = [''host'', ''zone''] \<and>
     map t_ref (s_destinations (d_spec (cd_definition c))) = [''console'', ''slack'']"
    by code_simp
  have i: "int64_definition ex_declared" by code_simp
  show ?thesis
    using e i compile_idempotent [of ex_compile_env ex_declared] by (auto split: sum.splits)
qed

end
