(* ===== verification/Plan_Manifest.thy ===== *)
theory Plan_Manifest
  imports Plan_Laws Transition_Runs
begin

text \<open>
  Compiled watches in the evaluator, compiled destinations, and manifests: what \<open>Parse\<close>
  accepts.
\<close>

section \<open>The evaluator accepts compiled watches\<close>

text \<open>The atoms the tokenizer finds are those the validation splits off.\<close>

lemma tokenize_loop_atoms:
  "tokenize_loop toks s = Inr ts \<Longrightarrow> TokAtom v \<in> set ts \<Longrightarrow>
     TokAtom v \<in> set toks \<or> v \<in> trim_space ` set (split_operators s)"
proof (induction toks s rule: tokenize_loop.induct)
  case (1 toks s)
  show ?case
  proof (cases "s = []")
    case True
    then show ?thesis using "1.prems" by (simp add: tokenize_loop.simps [of toks "[]"])
  next
    case s: False
    show ?thesis
    proof (cases "next_op s")
      case None
      then show ?thesis
        using "1.prems" s by (auto simp: tokenize_loop.simps [of toks s] split_operators.simps [of s] Let_def split: if_splits)
    next
      case (Some p)
      obtain i op where p: "p = (i, op)" by fastforce
      have na: "\<not> is_atom op" using next_op_operator Some p by blast
      have "TokAtom v \<in> set (toks @ [TokAtom (trim_space (take i s)), op]) \<or>
          v \<in> trim_space ` set (split_operators (drop (i + (if op = TokAND then 5 else 4)) s))"
        using "1.IH" [OF s Some p [symmetric] refl] "1.prems" Some p s
        by (auto simp: tokenize_loop.simps [of toks s] Let_def split: if_splits)
      then show ?thesis
        using Some p na by (auto simp: split_operators.simps [of s])
    qed
  qed
qed

lemma each_Inr: "each f xs = Inr u \<longleftrightarrow> (\<forall>x \<in> set xs. f x = Inr ())"
  by (induction xs) auto

lemma Windows_items:
  "w \<in> set (Windows e) \<Longrightarrow> \<exists>c i. IAtom c i \<in> set (inorder e) \<and> cn_windowed c \<and> w_window w = cn_window c \<and>
     w_run_bounded w = cn_run_bounded c"
  by (induction e) (auto split: if_splits)

lemma validateNumeric_windows:
  assumes "validateNumeric s = Inr u" "ParseExpression s = Inr e" "w \<in> set (Windows e)"
  shows "\<not> w_run_bounded w \<and> 0 < w_window w \<and> w_window w \<le> 30 * 24 * hour"
proof -
  obtain toks where t: "tokenize s = Inr toks" "list_all2 item_token (inorder e) toks"
    using ParseExpression_sound [OF assms(2)] by blast
  obtain c i where c: "IAtom c i \<in> set (inorder e)" "cn_windowed c" "w_window w = cn_window c"
    "w_run_bounded w = cn_run_bounded c" using Windows_items [OF assms(3)] by blast
  obtain k where k: "k < length (inorder e)" "inorder e ! k = IAtom c i" using c(1) by (metis in_set_conv_nth)
  then have "item_token (IAtom c i) (toks ! k)" "k < length toks"
    using t(2) by (auto simp: list_all2_conv_all_nth)
  then obtain v where v: "toks ! k = TokAtom v" "ParseCondition v = Inr c" "TokAtom v \<in> set toks"
    by (cases "toks ! k") (auto simp: in_set_conv_nth)
  have "tokenize_loop [] s = Inr toks" using t(1) by (auto simp: tokenize_def split: if_splits)
  then obtain a where a: "a \<in> set (split_operators s)" "v = trim_space a"
    using tokenize_loop_atoms [of "[]" s toks v] v(3) by auto
  have "numeric_atom a = Inr ()" using assms(1) a(1) by (auto simp: validateNumeric_def each_Inr)
  then show ?thesis using v(2) a(2) c by (auto simp: numeric_atom_def)
qed

lemma Compile_canonical:
  assumes "Compile env d = Inr c" "int64_definition d"
  shows "spec_canonical env (d_spec (cd_definition c))" and "copy_definition (cd_definition c) = Some (cd_definition c)"
proof -
  obtain n sp where n: "copy_definition d = Some n" "compile_spec env (d_spec n) = Inr sp"
    and c: "cd_definition c = n\<lparr>d_spec := sp\<rparr>"
    using assms(1) by (rule Compile_elim)
  note sp = compile_spec_canonical [OF n(2)]
  show "spec_canonical env (d_spec (cd_definition c))" using sp c by simp
  show "copy_definition (cd_definition c) = Some (cd_definition c)"
    using copy_canonical [OF n(1) assms(2), of env "cd_definition c"] sp c by simp
qed

lemma signal_condition_plain:
  assumes "compile_condition c = Inr c" "c_operator c = ''changed'' \<or> c_operator c = ''new-event''"
  shows "c_value c = VNil" and "c_numeric c = ''''" and "c_missing_for c = ''''"
  using assms by (auto simp: compile_condition_def compile_numeric_def compile_missing_def compile_operator_def
      split: if_splits)

lemma compile_condition_numeric:
  "compile_condition c = Inr c \<Longrightarrow> c_numeric c \<noteq> '''' \<Longrightarrow> validateNumeric (c_numeric c) = Inr ()"
  by (auto simp: compile_condition_def compile_numeric_def split: if_splits)

lemma max_window_of_le: "w \<le> m \<Longrightarrow> \<forall>l \<in> set ls. w_window l \<le> m \<Longrightarrow> max_window_of w ls \<le> m"
  by (induction w ls rule: max_window_of.induct) auto

text \<open>C29: the evaluator accepts every compiled watch: with a template parser that agrees with
  the compiler's, \<open>condition.New\<close> succeeds on the compiled definition, and the longest
  window it has to remember is at most 30 days.\<close>

theorem compiled_watch_evaluable:
  assumes "Compile env d = Inr c" "int64_definition d" "env_template_ok renv = ce_template_ok env"
  shows "\<exists>ev. New renv (cd_definition c) rv = Inr ev \<and> configured ev \<and> ev_max_window ev \<le> 30 * 24 * hour"
proof -
  let ?d = "cd_definition c"
  let ?c = "s_condition (d_spec ?d)"
  note C = Compile_canonical [OF assms(1,2)]
  have cc: "compile_condition ?c = Inr ?c" and ps: "policy_shape (s_source (d_spec ?d)) ?c (s_policy (d_spec ?d))"
    and ls: "limits_shape (s_limits (d_spec ?d))" and msg: "env_template_ok renv (s_message (d_spec ?d))"
    using C(1) assms(3) by (auto simp: spec_canonical_def compile_message_def)
  obtain x w where x: "(if c_numeric ?c \<noteq> '''' then
         bindE (ParseExpression (c_numeric ?c)) (\<lambda>x.
           if list_ex w_run_bounded (Windows x) then Inl (Err ''run windows unsupported'')
           else Inr (Some x, max_window_of 0 (Windows x)))
       else Inr (None, 0)) = Inr (x, w)" "w \<le> 30 * 24 * hour"
  proof (cases "c_numeric ?c = ''''")
    case False
    note v = compile_condition_numeric [OF cc False]
    obtain e where e: "ParseExpression (c_numeric ?c) = Inr e" using v by (auto simp: validateNumeric_def)
    note W = validateNumeric_windows [OF v e]
    have "\<not> list_ex w_run_bounded (Windows e)" using W by (auto simp: list_ex_iff)
    moreover have "max_window_of 0 (Windows e) \<le> 30 * 24 * hour"
      using W by (intro max_window_of_le) (auto simp: hour_def)
    ultimately show ?thesis using that False e by simp
  qed (simp add: that hour_def)
  have "\<exists>ev. New renv ?d rv = Inr ev \<and> ev_max_window ev = w"
    using C(2) ps ls msg x(1) signal_condition_plain [OF cc]
    by (auto simp: New_def Let_def policy_shape_def limits_shape_def)
  then show ?thesis using New_configured x(2) by blast
qed

theorem compiled_watch_evaluable_witness:
  "\<exists>c ev. Compile ex_compile_env ex_declared = Inr c \<and> New ex_env (cd_definition c) ''r1'' = Inr ev \<and> configured ev"
proof -
  have e: "case Compile ex_compile_env ex_declared of Inl _ \<Rightarrow> False | Inr c \<Rightarrow> True" by code_simp
  have i: "int64_definition ex_declared" by code_simp
  have t: "env_template_ok ex_env = ce_template_ok ex_compile_env" by (simp add: ex_env_def ex_compile_env_def)
  show ?thesis
    using e compiled_watch_evaluable [OF _ i t, of _ "''r1''"] by (auto split: sum.splits)
qed

section \<open>Destinations\<close>

text \<open>Compiling a destination is idempotent, and a compiled destination retries 1 to 100 times,
  for at most 7 days, with a first delay between 1 ms and an hour.\<close>

theorem destination_idempotent:
  assumes "CompileDestination env d = Inr c"
  shows "CompileDestination env (cds_definition c) = Inr c \<and>
    1 \<le> ds_max_attempts (dest_spec (cds_definition c)) \<and> ds_max_attempts (dest_spec (cds_definition c)) \<le> 100 \<and>
    (\<exists>a. parse_duration (ds_max_age (dest_spec (cds_definition c))) = Some a \<and> second \<le> a \<and> a \<le> 7 * 24 * hour) \<and>
    (\<exists>b. parse_duration (ds_initial_backoff (dest_spec (cds_definition c))) = Some b \<and> millisecond \<le> b \<and> b \<le> hour)"
proof -
  define s where "s = destination_defaults (dest_spec d)"
  obtain a b where h: "plan_header (dest_api_version d) (dest_kind d) (dest_metadata d) ''Destination'' = Inr ()"
    "destination_kind_ok (dest_spec d) = Inr ()" "refs (ds_headers (dest_spec d)) = Inr ()"
    and m: "1 \<le> ds_max_attempts s" "ds_max_attempts s \<le> 100"
    and ab: "plan_duration (ds_max_age s) second (7 * 24 * hour) = Inr a" "plan_duration (ds_initial_backoff s) millisecond hour = Inr b"
    and c: "cds_definition c = d\<lparr>dest_spec := s\<lparr>ds_max_age := normalize_duration (ds_max_age s),
      ds_initial_backoff := normalize_duration (ds_initial_backoff s)\<rparr>\<rparr>"
      "cds_revision c = ce_destination_revision env (cds_definition c)"
    using assms by (auto simp: CompileDestination_def Let_def s_def)
  note A = plan_duration_stable [OF ab(1), simplified] and B = plan_duration_stable [OF ab(2), simplified]
  let ?r = "dest_spec (cds_definition c)"
  have r: "ds_max_age ?r = normalize_duration (ds_max_age s)" "ds_initial_backoff ?r = normalize_duration (ds_initial_backoff s)"
    "ds_max_attempts ?r = ds_max_attempts s" "ds_type ?r = ds_type (dest_spec d)" "ds_url_ref ?r = ds_url_ref (dest_spec d)"
    "ds_headers ?r = ds_headers (dest_spec d)"
    by (simp_all add: c s_def destination_defaults_def)
  have dd: "destination_defaults ?r = ?r" using A(3) B(3) m by (simp add: destination_defaults_def r)
  have k: "destination_kind_ok ?r = Inr ()" using h(2) unfolding destination_kind_ok_def r .
  have n: "(cds_definition c)\<lparr>dest_spec := ?r\<lparr>ds_max_age := normalize_duration (ds_max_age ?r),
      ds_initial_backoff := normalize_duration (ds_initial_backoff ?r)\<rparr>\<rparr> = cds_definition c"
    using A(2) B(2) by (simp add: c)
  have hd: "dest_api_version (cds_definition c) = dest_api_version d" "dest_kind (cds_definition c) = dest_kind d"
    "dest_metadata (cds_definition c) = dest_metadata d" by (simp_all add: c(1))
  have "CompileDestination env (cds_definition c) = Inr c"
    unfolding CompileDestination_def Let_def dd k hd n r(6)
    using h m A(1) B(1) by (simp add: r(1-3) c(2) [symmetric])
  moreover have "1 \<le> ds_max_attempts ?r \<and> ds_max_attempts ?r \<le> 100" using m r by simp
  moreover have "\<exists>a. parse_duration (ds_max_age ?r) = Some a \<and> second \<le> a \<and> a \<le> 7 * 24 * hour"
    using A(1) by (auto simp: r plan_duration_def split: option.splits if_splits)
  moreover have "\<exists>b. parse_duration (ds_initial_backoff ?r) = Some b \<and> millisecond \<le> b \<and> b \<le> hour"
    using B(1) by (auto simp: r plan_duration_def split: option.splits if_splits)
  ultimately show ?thesis by blast
qed

definition ex_destination :: destination where
  "ex_destination = \<lparr>dest_api_version = APIVersion, dest_kind = ''Destination'', dest_metadata = \<lparr>md_id = ''ops'', md_name = ''''\<rparr>,
     dest_spec = \<lparr>ds_type = ''webhook'', ds_url_ref = Some \<lparr>sr_env = ''OPS_URL''\<rparr>, ds_headers = [], ds_max_attempts = 0,
       ds_max_age = ''1.5h'', ds_initial_backoff = ''''\<rparr>\<rparr>"

theorem destination_idempotent_witness:
  "\<exists>c. CompileDestination ex_compile_env ex_destination = Inr c \<and>
     ds_max_age (dest_spec (cds_definition c)) = ''1h30m0s'' \<and> CompileDestination ex_compile_env (cds_definition c) = Inr c"
proof -
  have "case CompileDestination ex_compile_env ex_destination of Inl _ \<Rightarrow> False
    | Inr c \<Rightarrow> ds_max_age (dest_spec (cds_definition c)) = ''1h30m0s''" by code_simp
  then show ?thesis using destination_idempotent [of ex_compile_env ex_destination] by (auto split: sum.splits)
qed

section \<open>Manifests\<close>

abbreviation watch_id :: "compiled \<Rightarrow> string" where "watch_id c \<equiv> md_id (d_metadata (cd_definition c))"
abbreviation destination_id :: "compiled_destination \<Rightarrow> string" where
  "destination_id c \<equiv> md_id (dest_metadata (cds_definition c))"

text \<open>The bundle built so far and the keys of its resources.\<close>

definition bundle_keys :: "compile_env \<Rightarrow> plan_bundle \<Rightarrow> string list \<Rightarrow> bool" where
  "bundle_keys env b keys \<longleftrightarrow>
     set keys = (\<lambda>c. ''Watch'' @ '':'' @ watch_id c) ` set (b_watches b) \<union>
       (\<lambda>c. ''Destination'' @ '':'' @ destination_id c) ` set (b_destinations b) \<and>
     length keys = length (b_watches b) + length (b_destinations b) \<and>
     distinct (map watch_id (b_watches b)) \<and> distinct (map destination_id (b_destinations b)) \<and>
     (\<forall>c \<in> set (b_watches b). \<exists>d. Compile env d = Inr c) \<and>
     (\<forall>c \<in> set (b_destinations b). \<exists>d. CompileDestination env d = Inr c)"

lemma Compile_metadata: "Compile env d = Inr c \<Longrightarrow> d_metadata (cd_definition c) = d_metadata d"
  by (elim Compile_elim) (simp add: copy_header)

lemma CompileDestination_metadata: "CompileDestination env d = Inr c \<Longrightarrow> dest_metadata (cds_definition c) = dest_metadata d"
  by (auto simp: CompileDestination_def Let_def)

lemma parse_resource_keys:
  assumes "parse_resource env y b n = Inr (b', key)" "bundle_keys env b keys" "key \<notin> set keys"
  shows "bundle_keys env b' (key # keys)"
proof -
  consider d c where "Compile env d = Inr c" "b' = b\<lparr>b_watches := b_watches b @ [c]\<rparr>"
      "key = ''Watch'' @ '':'' @ md_id (d_metadata d)"
    | d c where "CompileDestination env d = Inr c" "b' = b\<lparr>b_destinations := b_destinations b @ [c]\<rparr>"
      "key = ''Destination'' @ '':'' @ md_id (dest_metadata d)"
    using assms(1) by (auto simp: parse_resource_def split: if_splits)
  then show ?thesis
  proof cases
    case 1
    then have "watch_id c \<notin> watch_id ` set (b_watches b)"
      using assms(2,3) Compile_metadata [of env d c] by (auto simp: bundle_keys_def)
    then show ?thesis
      using 1 assms(2) Compile_metadata [of env d c] by (auto simp: bundle_keys_def)
  next
    case 2
    then have "destination_id c \<notin> destination_id ` set (b_destinations b)"
      using assms(2,3) CompileDestination_metadata [of env d c] by (auto simp: bundle_keys_def)
    then show ?thesis
      using 2 assms(2) CompileDestination_metadata [of env d c] by (auto simp: bundle_keys_def)
  qed
qed

lemma parse_loop_keys:
  "parse_loop env y count keys b docs = Inr b' \<Longrightarrow> bundle_keys env b keys \<Longrightarrow> length keys = count \<Longrightarrow> count \<le> 100 \<Longrightarrow>
     \<exists>keys'. bundle_keys env b' keys' \<and> length keys' \<le> 100"
proof (induction env y count keys b docs rule: parse_loop.induct)
  case (3 env y count keys b n docs)
  obtain b1 key where b1: "parse_resource env y b n = Inr (b1, key)" "key \<notin> set keys" "count < 100"
    "parse_loop env y (Suc count) (key # keys) b1 docs = Inr b'"
    using "3.prems"(1) by (fastforce split: if_splits)
  have k: "bundle_keys env b1 (key # keys)"
    by (rule parse_resource_keys [OF b1(1) "3.prems"(2) b1(2)])
  show ?case using "3.IH" [OF _ b1(2,4) k] b1(3) "3.prems"(3) by simp
qed auto

text \<open>An accepted manifest holds between 1 and 100 resources, all of them compiled, and no
  two watches and no two destinations of it share an identifier.\<close>

theorem manifest_resources_unique:
  assumes "Parse env y data = Inr b"
  shows "1 \<le> length (b_watches b) + length (b_destinations b) \<and> length (b_watches b) + length (b_destinations b) \<le> 100 \<and>
    distinct (map watch_id (b_watches b)) \<and> distinct (map destination_id (b_destinations b)) \<and>
    (\<forall>c \<in> set (b_watches b). \<exists>d. Compile env d = Inr c) \<and>
    (\<forall>c \<in> set (b_destinations b). \<exists>d. CompileDestination env d = Inr c)"
proof -
  let ?b0 = "\<lparr>b_watches = [], b_destinations = []\<rparr>"
  have p: "parse_loop env y 0 [] ?b0 (ye_documents y data) = Inr b" "length (b_watches b) + length (b_destinations b) \<noteq> 0"
    using assms by (auto simp: Parse_def split: if_splits)
  have "bundle_keys env ?b0 []" by (simp add: bundle_keys_def)
  then obtain keys where k: "bundle_keys env b keys" "length keys \<le> 100" using parse_loop_keys [OF p(1)] by auto
  then have "length (b_watches b) + length (b_destinations b) \<le> 100" by (simp add: bundle_keys_def)
  moreover have "1 \<le> length (b_watches b) + length (b_destinations b)" using p(2) by linarith
  ultimately show ?thesis using k(1) unfolding bundle_keys_def by blast
qed

text \<open>A YAML library that delivers one document per line of its input, for the example
  watch and destination.\<close>

definition ex_yaml :: yaml_env where
  "ex_yaml = \<lparr>ye_documents = (\<lambda>s. map (\<lambda>c. Inr (YNode DocumentNode '''' [c] [])) s),
     ye_kind = (\<lambda>n. Inr (if yn_value n = ''w'' then ''Watch'' else ''Destination'')),
     ye_watch = (\<lambda>n. Inr ex_declared), ye_destination = (\<lambda>n. Inr ex_destination)\<rparr>"

theorem manifest_resources_unique_witness:
  "\<exists>b. Parse ex_compile_env ex_yaml ''wd'' = Inr b \<and> map watch_id (b_watches b) = [''cpu''] \<and>
     map destination_id (b_destinations b) = [''ops''] \<and> length (b_watches b) + length (b_destinations b) \<le> 100 \<and>
     Parse ex_compile_env ex_yaml ''wdw'' = Inl (Err ''duplicate resource'')"
proof -
  have "case Parse ex_compile_env ex_yaml ''wd'' of Inl _ \<Rightarrow> False
    | Inr b \<Rightarrow> map watch_id (b_watches b) = [''cpu''] \<and> map destination_id (b_destinations b) = [''ops'']" by code_simp
  moreover have "case Parse ex_compile_env ex_yaml ''wdw'' of Inl e \<Rightarrow> e = Err ''duplicate resource'' | Inr _ \<Rightarrow> False"
    by code_simp
  ultimately show ?thesis
    using manifest_resources_unique [of ex_compile_env ex_yaml "''wd''"] by (auto split: sum.splits)
qed

end
