(* ===== verification/Outbox.thy ===== *)
theory Outbox
  imports Plan_Compile "HOL-Library.Product_Lexorder"
begin

text \<open>
  Package \<open>store\<close>, the durable delivery queue: \<open>outbox.go\<close>, \<open>CancelDeliveries\<close> of
  \<open>lifecycle.go\<close> and \<open>Retry\<close> of \<open>inspection.go\<close>, with the SQL statements they execute and
  the triggers of \<open>schema14.sql\<close>. A table is the list of its rows in primary key order, a
  transaction a function from tables to a result with the new tables: a failed transaction
  leaves them unchanged. The random lease token is an argument.
\<close>

section \<open>Stored instants\<close>

definition timestamp :: "time \<Rightarrow> int" where
  "timestamp t = (if is_zero t then 0 else t)"

definition instant :: "int \<Rightarrow> time" where
  "instant ns = (if ns = 0 then zero_time else ns)"

lemma timestamp_instant [simp]: "ns \<noteq> zero_time \<Longrightarrow> timestamp (instant ns) = ns"
  by (simp add: timestamp_def instant_def)

lemma instant_timestamp: "t \<noteq> 0 \<Longrightarrow> instant (timestamp t) = t"
  by (simp add: timestamp_def instant_def)

section \<open>Tables\<close>

record outbox_row =
  ob_id :: int
  ob_event_id :: string
  ob_watch_id :: string
  ob_destination_id :: string
  ob_destination_revision :: string
  ob_payload :: string
  ob_status :: string
  ob_attempts :: int
  ob_next_at :: int
  ob_created_at :: int
  ob_lease_token :: string
  ob_lease_until :: int
  ob_last_error :: string
  ob_retry_started_at :: int

record stream_row =
  sr_watch_id :: string
  sr_destination_id :: string
  sr_last_turn :: int
  sr_active :: bool

record attempt_row =
  at_outbox_id :: int
  at_attempt :: int
  at_time :: int
  at_outcome :: string
  at_detail :: string

record outbox_tables =
  ot_rows :: "outbox_row list"
  ot_sequence :: int
  ot_streams :: "stream_row list"
  ot_backoff :: "(string \<times> int) list"
  ot_attempts :: "attempt_row list"
  ot_destination_revisions :: "((string \<times> string) \<times> destination) list"
  ot_destinations :: "(string \<times> string) list"

record intent =
  in_row :: outbox_row
  in_destination :: compiled_destination

definition empty_tables :: outbox_tables where
  "empty_tables = \<lparr>ot_rows = [], ot_sequence = 0, ot_streams = [], ot_backoff = [], ot_attempts = [],
     ot_destination_revisions = [], ot_destinations = []\<rparr>"

definition live :: "outbox_row \<Rightarrow> bool" where
  "live r \<longleftrightarrow> ob_status r = ''pending'' \<or> ob_status r = ''leased''"

definition stream_key :: "outbox_row \<Rightarrow> string \<times> string" where
  "stream_key r = (ob_watch_id r, ob_destination_id r)"

definition row_key :: "stream_row \<Rightarrow> string \<times> string" where
  "row_key s = (sr_watch_id s, sr_destination_id s)"

section \<open>Triggers\<close>

definition has_live :: "outbox_tables \<Rightarrow> string \<times> string \<Rightarrow> bool" where
  "has_live t k \<longleftrightarrow> list_ex (\<lambda>r. live r \<and> stream_key r = k) (ot_rows t)"

definition next_turn :: "stream_row list \<Rightarrow> int" where
  "next_turn ss = (if ss = [] then 0 else Max (set (map sr_last_turn ss))) + 1"

text \<open>\<open>stream_enqueue\<close> and \<open>stream_retry\<close>: the stream of a row that became live exists and is
  active.\<close>

definition stream_enter :: "string \<times> string \<Rightarrow> outbox_tables \<Rightarrow> outbox_tables" where
  "stream_enter k t =
     (if k \<in> set (map row_key (ot_streams t))
      then t\<lparr>ot_streams := map (\<lambda>s. if row_key s = k then s\<lparr>sr_active := True\<rparr> else s) (ot_streams t)\<rparr>
      else t\<lparr>ot_streams := ot_streams t @ [\<lparr>sr_watch_id = fst k, sr_destination_id = snd k,
             sr_last_turn = next_turn (ot_streams t), sr_active = True\<rparr>]\<rparr>)"

text \<open>\<open>stream_finish\<close>: a row left the live states.\<close>

definition stream_leave :: "string \<times> string \<Rightarrow> outbox_tables \<Rightarrow> outbox_tables" where
  "stream_leave k t =
     t\<lparr>ot_streams := map (\<lambda>s. if row_key s = k then s\<lparr>sr_active := has_live t k\<rparr> else s) (ot_streams t)\<rparr>"

section \<open>Destinations\<close>

definition find_destination :: "compile_env \<Rightarrow> outbox_tables \<Rightarrow> string \<Rightarrow> string \<Rightarrow> compiled_destination result" where
  "find_destination env t ident revision =
     (case (if revision = '''' then map_of (ot_destinations t) ident else Some revision) of
        None \<Rightarrow> Inl ErrNotFound
      | Some rv \<Rightarrow>
          (case map_of (ot_destination_revisions t) (ident, rv) of
             None \<Rightarrow> Inl ErrNotFound
           | Some d \<Rightarrow> Inr \<lparr>cds_definition = d, cds_revision = rv\<rparr>))"

text \<open>The stored revision is immutable: a second insert of the same key does nothing.\<close>

definition SaveDestination :: "compile_env \<Rightarrow> compiled_destination \<Rightarrow> outbox_tables \<Rightarrow> outbox_tables result" where
  "SaveDestination env c t =
     bindE (CompileDestination env (cds_definition c)) (\<lambda>v.
     if cds_revision v \<noteq> cds_revision c then Inl (Err ''invalid destination revision'')
     else
       let ident = md_id (dest_metadata (cds_definition c)); key = (ident, cds_revision c) in
       Inr (t\<lparr>ot_destination_revisions := (if map_of (ot_destination_revisions t) key = None
               then ot_destination_revisions t @ [(key, cds_definition v)] else ot_destination_revisions t),
              ot_destinations := alist_put ident (cds_revision c) (ot_destinations t)\<rparr>))"

section \<open>The queue\<close>

definition Enqueue :: "string \<Rightarrow> string \<Rightarrow> string \<Rightarrow> string \<Rightarrow> string \<Rightarrow> time \<Rightarrow> time \<Rightarrow> outbox_tables \<Rightarrow>
    (outbox_tables \<times> int) result" where
  "Enqueue event watch dest rv payload next_at created t =
     (if list_ex (\<lambda>r. ob_event_id r = event \<and> ob_destination_id r = dest) (ot_rows t)
      then Inl (Err ''UNIQUE constraint failed'')
      else if map_of (ot_destination_revisions t) (dest, rv) = None then Inl (Err ''FOREIGN KEY constraint failed'')
      else
        let ident = ot_sequence t + 1;
            row = \<lparr>ob_id = ident, ob_event_id = event, ob_watch_id = watch, ob_destination_id = dest,
              ob_destination_revision = rv, ob_payload = payload, ob_status = ''pending'', ob_attempts = 0,
              ob_next_at = timestamp next_at, ob_created_at = timestamp created, ob_lease_token = '''',
              ob_lease_until = 0, ob_last_error = '''', ob_retry_started_at = 0\<rparr>
        in Inr (stream_enter (watch, dest) (t\<lparr>ot_rows := ot_rows t @ [row], ot_sequence := ident\<rparr>), ident))"

definition find_row :: "outbox_tables \<Rightarrow> int \<Rightarrow> outbox_row option" where
  "find_row t ident = find (\<lambda>r. ob_id r = ident) (ot_rows t)"

definition Intent :: "compile_env \<Rightarrow> outbox_tables \<Rightarrow> int \<Rightarrow> intent result" where
  "Intent env t ident =
     (case find_row t ident of
        None \<Rightarrow> Inl ErrNotFound
      | Some r \<Rightarrow> bindE (find_destination env t (ob_destination_id r) (ob_destination_revision r)) (\<lambda>d.
          Inr \<lparr>in_row = r, in_destination = d\<rparr>))"

definition stream_head :: "outbox_tables \<Rightarrow> string \<times> string \<Rightarrow> outbox_row option" where
  "stream_head t k = find (\<lambda>r. live r \<and> stream_key r = k) (ot_rows t)"

definition backoff_key :: "string \<Rightarrow> string \<Rightarrow> string" where
  "backoff_key dest rv = ''delivery_backoff:'' @ dest @ '':'' @ rv"

definition backoff_until :: "outbox_tables \<Rightarrow> outbox_row \<Rightarrow> int option" where
  "backoff_until t r = map_of (ot_backoff t) (backoff_key (ob_destination_id r) (ob_destination_revision r))"

definition lease_held :: "outbox_tables \<Rightarrow> outbox_row \<Rightarrow> int \<Rightarrow> bool" where
  "lease_held t r now \<longleftrightarrow> list_ex (\<lambda>p. stream_key p = stream_key r \<and>
     ob_destination_revision p = ob_destination_revision r \<and> ob_status p = ''leased'' \<and> ob_lease_until p > now) (ot_rows t)"

text \<open>The \<open>WHERE\<close> clause of \<open>claimQuery\<close> for the head of a stream.\<close>

definition due :: "outbox_tables \<Rightarrow> int \<Rightarrow> outbox_row \<Rightarrow> bool" where
  "due t now r \<longleftrightarrow>
     (ob_status r = ''pending'' \<and> ob_next_at r \<le> now \<or> ob_status r = ''leased'' \<and> ob_lease_until r \<le> now) \<and>
     (case backoff_until t r of None \<Rightarrow> True | Some u \<Rightarrow> u \<le> now) \<and>
     \<not> lease_held t r now"

definition stream_due :: "outbox_tables \<Rightarrow> int \<Rightarrow> stream_row \<Rightarrow> bool" where
  "stream_due t now s \<longleftrightarrow> sr_active s \<and>
     (case stream_head t (row_key s) of None \<Rightarrow> False | Some r \<Rightarrow> due t now r)"

definition turn_key :: "stream_row \<Rightarrow> int \<times> string \<times> string" where
  "turn_key s = (sr_last_turn s, sr_watch_id s, sr_destination_id s)"

definition claim_query :: "outbox_tables \<Rightarrow> int \<Rightarrow> outbox_row option" where
  "claim_query t now =
     (case sort_key turn_key (filter (stream_due t now) (ot_streams t)) of
        [] \<Rightarrow> None
      | s # _ \<Rightarrow> stream_head t (row_key s))"

definition update_row :: "int \<Rightarrow> (outbox_row \<Rightarrow> outbox_row) \<Rightarrow> outbox_tables \<Rightarrow> outbox_tables" where
  "update_row ident f t = t\<lparr>ot_rows := map (\<lambda>r. if ob_id r = ident then f r else r) (ot_rows t)\<rparr>"

definition lease_row :: "string \<Rightarrow> time \<Rightarrow> outbox_row \<Rightarrow> outbox_row" where
  "lease_row token until r = r\<lparr>ob_status := ''leased'', ob_lease_token := token, ob_lease_until := timestamp until,
     ob_attempts := ob_attempts r + 1\<rparr>"

definition take_turn :: "string \<times> string \<Rightarrow> outbox_tables \<Rightarrow> outbox_tables" where
  "take_turn k t =
     t\<lparr>ot_streams := map (\<lambda>s. if row_key s = k then s\<lparr>sr_last_turn := next_turn (ot_streams t)\<rparr> else s) (ot_streams t)\<rparr>"

definition Claim :: "compile_env \<Rightarrow> time \<Rightarrow> duration \<Rightarrow> string \<Rightarrow> outbox_tables \<Rightarrow> (outbox_tables \<times> intent option) result" where
  "Claim env now lease token t =
     (if lease \<le> 0 then Inl (Err ''lease must be positive'')
      else case claim_query t (timestamp now) of
        None \<Rightarrow> Inr (t, None)
      | Some r \<Rightarrow>
          let t1 = update_row (ob_id r) (lease_row token (now + lease)) t in
          bindE (Intent env t1 (ob_id r)) (\<lambda>i.
          Inr (take_turn (stream_key (in_row i)) t1, Some i)))"

section \<open>Acknowledgement\<close>

datatype outcome = Delivered | Retryable | Permanent | Exhausted | Canceled

fun outcome_string :: "outcome \<Rightarrow> string" where
  "outcome_string Delivered = ''delivered''"
| "outcome_string Retryable = ''retryable''"
| "outcome_string Permanent = ''permanent''"
| "outcome_string Exhausted = ''exhausted''"
| "outcome_string Canceled = ''canceled''"

record delivery_result =
  dr_outcome :: outcome
  dr_retry_at :: time
  dr_detail :: string

definition finish_status :: "outcome \<Rightarrow> string" where
  "finish_status o' = (if o' = Retryable then ''pending'' else outcome_string o')"

definition finish_row :: "delivery_result \<Rightarrow> time \<Rightarrow> outbox_row \<Rightarrow> outbox_row" where
  "finish_row res next_at r = r\<lparr>ob_status := finish_status (dr_outcome res), ob_next_at := timestamp next_at,
     ob_lease_token := '''', ob_lease_until := 0, ob_last_error := dr_detail res\<rparr>"

text \<open>The row an acknowledgement applies to.\<close>

definition leased_row :: "outbox_tables \<Rightarrow> outbox_row \<Rightarrow> outbox_row option" where
  "leased_row t i =
     find (\<lambda>r. ob_id r = ob_id i \<and> ob_status r = ''leased'' \<and> ob_lease_token r = ob_lease_token i) (ot_rows t)"

definition raise_backoff :: "string \<Rightarrow> int \<Rightarrow> (string \<times> int) list \<Rightarrow> (string \<times> int) list" where
  "raise_backoff key v m = alist_put key (case map_of m key of None \<Rightarrow> v | Some u \<Rightarrow> max u v) m"

text \<open>The instant until which the destination is left alone.\<close>

definition pause_until :: "delivery_result \<Rightarrow> time \<Rightarrow> time" where
  "pause_until res next_at =
     (if dr_outcome res = Retryable \<and> next_at > dr_retry_at res then next_at else dr_retry_at res)"

definition leave_if_final :: "outbox_row \<Rightarrow> delivery_result \<Rightarrow> outbox_tables \<Rightarrow> outbox_tables" where
  "leave_if_final r res t = (if dr_outcome res = Retryable then t else stream_leave (stream_key r) t)"

definition Finish :: "outbox_row \<Rightarrow> delivery_result \<Rightarrow> time \<Rightarrow> time \<Rightarrow> outbox_tables \<Rightarrow> outbox_tables result" where
  "Finish i res next_at now t =
     (case leased_row t i of
        None \<Rightarrow> Inl ErrStale
      | Some r \<Rightarrow>
        let t1 = leave_if_final r res (update_row (ob_id i) (finish_row res next_at) t);
            until = pause_until res next_at;
            t2 = (if until > now then t1\<lparr>ot_backoff := raise_backoff (backoff_key (ob_destination_id i) (ob_destination_revision i))
                    (timestamp until) (ot_backoff t1)\<rparr> else t1)
        in Inr (t2\<lparr>ot_attempts := ot_attempts t2 @ [\<lparr>at_outbox_id = ob_id i, at_attempt = ob_attempts i,
             at_time = timestamp now, at_outcome = outcome_string (dr_outcome res), at_detail = dr_detail res\<rparr>]\<rparr>))"

definition cancel_row :: "outbox_row \<Rightarrow> outbox_row" where
  "cancel_row r = r\<lparr>ob_status := ''canceled'', ob_lease_token := '''', ob_lease_until := 0,
     ob_last_error := ''explicit cancellation''\<rparr>"

definition CancelDeliveries :: "string \<Rightarrow> time \<Rightarrow> outbox_tables \<Rightarrow> outbox_tables" where
  "CancelDeliveries watch now t =
     (let hit = (\<lambda>r. ob_watch_id r = watch \<and> live r);
          t1 = t\<lparr>ot_attempts := ot_attempts t @ map (\<lambda>r. \<lparr>at_outbox_id = ob_id r, at_attempt = ob_attempts r,
                 at_time = timestamp now, at_outcome = ''canceled'', at_detail = ''explicit cancellation''\<rparr>)
                 (filter hit (ot_rows t)),
               ot_rows := map (\<lambda>r. if hit r then cancel_row r else r) (ot_rows t)\<rparr>
      in fold stream_leave (remdups (map stream_key (filter hit (ot_rows t)))) t1)"

definition retry_row :: "time \<Rightarrow> outbox_row \<Rightarrow> outbox_row" where
  "retry_row now r = r\<lparr>ob_status := ''pending'', ob_attempts := 0, ob_next_at := timestamp now,
     ob_retry_started_at := timestamp now, ob_last_error := ''''\<rparr>"

definition Retry :: "compile_env \<Rightarrow> int \<Rightarrow> time \<Rightarrow> outbox_tables \<Rightarrow> outbox_tables result" where
  "Retry env ident now t =
     bindE (Intent env t ident) (\<lambda>i.
     let r = in_row i in
     if ob_status r \<noteq> ''permanent'' \<and> ob_status r \<noteq> ''exhausted'' \<and> ob_status r \<noteq> ''canceled'' then Inl ErrConflict
     else Inr (stream_enter (stream_key r) (update_row ident (retry_row now)
       (t\<lparr>ot_attempts := ot_attempts t @ [\<lparr>at_outbox_id = ident, at_attempt = ob_attempts r, at_time = timestamp now,
          at_outcome = ''manual_retry'', at_detail = ''new delivery policy cycle''\<rparr>]\<rparr>))))"

end
