(* ===== verification/Delivery.thy ===== *)
theory Delivery
  imports Outbox
begin

text \<open>
  One delivery attempt: package \<open>delivery\<close>, file \<open>http.go\<close>, and \<open>App.DeliverOne\<close> of package
  \<open>watchrun\<close> with \<open>Resolve\<close> and \<open>URL\<close> of package \<open>source\<close>. What the outside does in an attempt
  (the response, the console, the desktop notifier), the environment lookup, the parsers of HTTP
  dates and provider envelopes and the random fraction are parameters.
\<close>

section \<open>Retry times\<close>

text \<open>\<open>strconv.ParseInt(s, 10, 64)\<close>\<close>

definition parse_int64 :: "string \<Rightarrow> int option" where
  "parse_int64 s =
     (let (neg, ds) = (case s of c # r \<Rightarrow> if c = CHR ''-'' then (True, r) else if c = CHR ''+'' then (False, r) else (False, s)
                       | [] \<Rightarrow> (False, s)) in
      if ds = [] \<or> \<not> list_all is_digit ds then None
      else let n = (if neg then - int_of_digits ds else int_of_digits ds) in
        if n < min_duration \<or> n > max_duration then None else Some n)"

definition year_seconds :: int where "year_seconds = 365 * 24 * 3600"

definition RetryAfter :: "(string \<Rightarrow> time option) \<Rightarrow> string \<Rightarrow> time \<Rightarrow> time" where
  "RetryAfter parse_time v now =
     (let by_date = (case parse_time v of Some d \<Rightarrow> if d > now then d else zero_time | None \<Rightarrow> zero_time) in
      case parse_int64 (trim_space v) of
        Some n \<Rightarrow> if n \<ge> 0 then now + min n year_seconds * second else by_date
      | None \<Rightarrow> by_date)"

text \<open>The loop of \<open>Backoff\<close>; \<open>n\<close> doublings are left.\<close>

fun backoff_loop :: "nat \<Rightarrow> duration \<Rightarrow> duration" where
  "backoff_loop 0 d = d"
| "backoff_loop (Suc n) d = (if d < hour then backoff_loop n (d * 2) else d)"

definition Backoff :: "duration \<Rightarrow> int \<Rightarrow> duration" where
  "Backoff initial attempt =
     (let d = backoff_loop (nat (attempt - 1)) (if initial \<le> 0 then second else initial)
      in if d > hour \<or> d \<le> 0 then hour else d)"

section \<open>Responses\<close>

record http_response =
  rs_status :: int
  rs_retry_after :: string
  rs_body :: "string option"        \<comment> \<open>at most 64 KiB and a byte of it; \<open>None\<close>: reading failed\<close>

record telegram_envelope =
  tg_ok :: bool
  tg_code :: int
  tg_retry :: int

record delivery_env =
  de_parse_time :: "string \<Rightarrow> time option"
  de_discord_retry :: "string \<Rightarrow> float64 option"
  de_telegram :: "string \<Rightarrow> telegram_envelope option"
  de_telegram_retry :: "string \<Rightarrow> int option"
  de_pagerduty_status :: "string \<Rightarrow> string option"

definition result :: "outcome \<Rightarrow> string \<Rightarrow> delivery_result" where
  "result o' d = \<lparr>dr_outcome = o', dr_retry_at = zero_time, dr_detail = d\<rparr>"

definition transient_status :: "int \<Rightarrow> bool" where
  "transient_status c \<longleftrightarrow> c = 408 \<or> c = 429 \<or> c \<ge> 500"

text \<open>\<open>math.Ceil\<close> of a number that is not negative, as an integer.\<close>

fun fceil :: "float64 \<Rightarrow> int" where
  "fceil (Fin s m e) = (let n = m * pow2 e; d = pow2 (- e) in - ((- n) div d))"
| "fceil _ = 0"

definition later :: "time \<Rightarrow> delivery_result \<Rightarrow> delivery_result" where
  "later t r = (if t > dr_retry_at r then r\<lparr>dr_retry_at := t\<rparr> else r)"

definition small_body :: "http_response \<Rightarrow> string option" where
  "small_body rs = (case rs_body rs of Some b \<Rightarrow> if int (length b) \<le> 65536 then Some b else None | None \<Rightarrow> None)"

definition discord_deadline :: "delivery_env \<Rightarrow> http_response \<Rightarrow> time \<Rightarrow> delivery_result \<Rightarrow> delivery_result" where
  "discord_deadline env rs now r =
     (case small_body rs of
        None \<Rightarrow> r
      | Some b \<Rightarrow>
          (case de_discord_retry env b of
             Some x \<Rightarrow>
               if flt fzero x \<and> is_finite x
               then later (now + fceil (fmul (fmin x (float_of_int year_seconds)) (float_of_int second))) r
               else r
           | None \<Rightarrow> r))"

definition telegram_deadline :: "delivery_env \<Rightarrow> http_response \<Rightarrow> time \<Rightarrow> delivery_result \<Rightarrow> delivery_result" where
  "telegram_deadline env rs now r =
     (case small_body rs of
        None \<Rightarrow> r
      | Some b \<Rightarrow>
          (case de_telegram_retry env b of
             Some n \<Rightarrow> if n > 0 then later (RetryAfter (de_parse_time env) (show_int n) now) r else r
           | None \<Rightarrow> r))"

definition refused :: "delivery_env \<Rightarrow> string \<Rightarrow> http_response \<Rightarrow> time \<Rightarrow> delivery_result \<Rightarrow> delivery_result" where
  "refused env provider rs now r =
     (let r1 = (if provider = ''discord'' \<and> rs_status rs = 429 then discord_deadline env rs now r else r)
      in if provider = ''telegram'' then telegram_deadline env rs now r1 else r1)"

definition accepted :: "delivery_env \<Rightarrow> string \<Rightarrow> string \<Rightarrow> time \<Rightarrow> delivery_result \<Rightarrow> delivery_result" where
  "accepted env provider body now r =
     (if provider = ''slack'' then
        if trim_space body \<noteq> ''ok'' then result Permanent ''Slack rejected delivery'' else result Delivered ''''
      else if provider = ''telegram'' then
        (case de_telegram env body of
           None \<Rightarrow> result Retryable ''invalid Telegram response''
         | Some e \<Rightarrow>
             if tg_ok e then result Delivered ''''
             else r\<lparr>dr_outcome := (if transient_status (tg_code e) then Retryable else dr_outcome r),
                    dr_retry_at := (if tg_retry e > 0 then RetryAfter (de_parse_time env) (show_int (tg_retry e)) now
                                    else dr_retry_at r),
                    dr_detail := ''Telegram rejected delivery''\<rparr>)
      else if provider = ''pagerduty'' then
        (case de_pagerduty_status env body of
           None \<Rightarrow> result Retryable ''invalid PagerDuty response''
         | Some st \<Rightarrow> if st \<noteq> ''success'' then result Permanent ''PagerDuty rejected delivery'' else result Delivered '''')
      else result Delivered '''')"

text \<open>\<open>response\<close>: \<open>None\<close> is a request that cannot be built, \<open>Some None\<close> a transport
  failure.\<close>

definition HTTP :: "delivery_env \<Rightarrow> string \<Rightarrow> http_response option option \<Rightarrow> time \<Rightarrow> delivery_result" where
  "HTTP env provider response now =
     (case response of
        None \<Rightarrow> result Permanent ''invalid delivery request''
      | Some None \<Rightarrow> result Retryable ''delivery transport failed''
      | Some (Some rs) \<Rightarrow>
          let r = \<lparr>dr_outcome = (if transient_status (rs_status rs) then Retryable else Permanent),
                   dr_retry_at = RetryAfter (de_parse_time env) (rs_retry_after rs) now,
                   dr_detail = ''HTTP '' @ show_int (rs_status rs)\<rparr>
          in if rs_status rs < 200 \<or> rs_status rs \<ge> 300 then refused env provider rs now r
             else case small_body rs of
               None \<Rightarrow> result Retryable ''invalid delivery response''
             | Some b \<Rightarrow> accepted env provider b now r)"

section \<open>Endpoints\<close>

definition Resolve :: "(string \<Rightarrow> string option) option \<Rightarrow> secret_ref option \<Rightarrow> string result" where
  "Resolve lookup ref =
     (case (ref, lookup) of
        (Some r, Some l) \<Rightarrow>
          (case l (sr_env r) of
             Some v \<Rightarrow> if v = '''' then Inl (Err ''missing credential'') else Inr v
           | None \<Rightarrow> Inl (Err ''missing credential''))
      | _ \<Rightarrow> Inl (Err ''missing credential reference''))"

definition endpoint_ok :: "compile_env \<Rightarrow> string \<Rightarrow> bool" where
  "endpoint_ok env v =
     (case ce_url_parse env v of
        None \<Rightarrow> False
      | Some u \<Rightarrow> \<not> (u_host u = '''' \<or> (u_scheme u \<noteq> ''http'' \<and> u_scheme u \<noteq> ''https'') \<or> u_has_user u))"

section \<open>One delivery\<close>

text \<open>The outside of an attempt: what the console does, whether the payload is a desktop message,
  the notifier (\<open>None\<close> when there is none) and whether it succeeded, and the answer of an
  endpoint.\<close>

record attempt_env =
  ae_compile :: compile_env
  ae_delivery :: delivery_env
  ae_console :: delivery_result
  ae_message_ok :: bool
  ae_notify :: "bool option"
  ae_lookup :: "(string \<Rightarrow> string option) option"
  ae_respond :: "string \<Rightarrow> http_response option option"
  ae_random :: float64
  ae_canceled :: bool

definition attempt_http :: "attempt_env \<Rightarrow> destination_spec \<Rightarrow> time \<Rightarrow> delivery_result" where
  "attempt_http env d now =
     (case Resolve (ae_lookup env) (ds_url_ref d) of
        Inl _ \<Rightarrow> result Permanent ''missing_credentials''
      | Inr endpoint \<Rightarrow>
          if list_ex (\<lambda>(name, ref). isl (Resolve (ae_lookup env) (Some ref))) (ds_headers d)
          then result Permanent ''missing_credentials''
          else if \<not> endpoint_ok (ae_compile env) endpoint then result Permanent ''invalid_endpoint''
          else HTTP (ae_delivery env) (ds_type d) (ae_respond env endpoint) now)"

definition attempt :: "attempt_env \<Rightarrow> destination_spec \<Rightarrow> time \<Rightarrow> delivery_result" where
  "attempt env d now =
     (if ds_type d = ''console'' then ae_console env
      else if ds_type d = ''desktop'' then
        (case (ae_message_ok env, ae_notify env) of
           (True, Some True) \<Rightarrow> result Delivered ''accepted_by_os''
         | (True, Some False) \<Rightarrow> result Retryable ''desktop_unavailable_or_permission_denied''
         | _ \<Rightarrow> result Permanent ''desktop_unavailable'')
      else attempt_http env d now)"

text \<open>The start of the current cycle of attempts.\<close>

definition cycle_start :: "outbox_row \<Rightarrow> time" where
  "cycle_start r = (if is_zero (instant (ob_retry_started_at r)) then instant (ob_created_at r)
     else instant (ob_retry_started_at r))"

definition delivery_deadline :: "destination_spec \<Rightarrow> outbox_row \<Rightarrow> time" where
  "delivery_deadline d r = cycle_start r + duration_or_zero (ds_max_age d)"

definition within_policy :: "destination_spec \<Rightarrow> outbox_row \<Rightarrow> time \<Rightarrow> bool" where
  "within_policy d r now \<longleftrightarrow> ob_attempts r \<le> ds_max_attempts d \<and> now < delivery_deadline d r"

definition first_result :: "attempt_env \<Rightarrow> intent \<Rightarrow> time \<Rightarrow> delivery_result" where
  "first_result env i now =
     (let d = dest_spec (cds_definition (in_destination i)) in
      if within_policy d (in_row i) now then attempt env d now else result Exhausted ''delivery policy exhausted'')"

text \<open>Up to a quarter of the delay.\<close>

definition retry_jitter :: "float64 \<Rightarrow> duration \<Rightarrow> duration" where
  "retry_jitter x delay = ftrunc (fdiv (fmul x (float_of_int delay)) (float_of_int 4))"

definition retry_at :: "attempt_env \<Rightarrow> intent \<Rightarrow> delivery_result \<Rightarrow> time \<Rightarrow> time" where
  "retry_at env i r finished =
     (let d = dest_spec (cds_definition (in_destination i));
          delay = Backoff (duration_or_zero (ds_initial_backoff d)) (ob_attempts (in_row i));
          next = finished + (delay + retry_jitter (ae_random env) delay)
      in if dr_retry_at r > next then dr_retry_at r else next)"

text \<open>The result that is recorded and the instant of the next attempt.\<close>

definition settle :: "attempt_env \<Rightarrow> intent \<Rightarrow> delivery_result \<Rightarrow> time \<Rightarrow> delivery_result \<times> time" where
  "settle env i r finished =
     (let d = dest_spec (cds_definition (in_destination i));
          next = (if dr_outcome r = Retryable then retry_at env i r finished else finished);
          r1 = (if dr_outcome r = Retryable \<and>
                   (ob_attempts (in_row i) \<ge> ds_max_attempts d \<or> \<not> next < delivery_deadline d (in_row i))
                then \<lparr>dr_outcome = Exhausted, dr_retry_at = dr_retry_at r, dr_detail = ''delivery policy exhausted''\<rparr> else r)
      in if ae_canceled env \<and> dr_outcome r1 \<noteq> Delivered then (result Retryable ''shutdown_interrupted'', finished)
         else (r1, next))"

text \<open>A claimed intent is delivered and acknowledged; \<open>during\<close> is what other transactions do to the
  tables between the two. The lease is committed whatever becomes of the acknowledgement.\<close>

definition DeliverOne :: "attempt_env \<Rightarrow> time \<Rightarrow> time \<Rightarrow> string \<Rightarrow> (outbox_tables \<Rightarrow> outbox_tables) \<Rightarrow> outbox_tables \<Rightarrow>
    outbox_tables \<times> bool result" where
  "DeliverOne env now finished token during t =
     (case Claim (ae_compile env) now (30 * second) token t of
        Inl e \<Rightarrow> (t, Inl e)
      | Inr (t1, None) \<Rightarrow> (t1, Inr False)
      | Inr (t1, Some i) \<Rightarrow>
          let (r, next) = settle env i (first_result env i now) finished; u = during t1 in
          (case Finish (in_row i) r next finished u of
             Inl e \<Rightarrow> (u, Inl e)
           | Inr t2 \<Rightarrow> (t2, Inr True)))"

end
