(* ===== verification/Outbox_Laws.thy ===== *)
theory Outbox_Laws
  imports Outbox
begin

text \<open>
  The contract of the delivery queue: an invariant of its tables over every sequence of
  transactions, and on top of it ordering, exclusivity, completeness and fairness of
  \<open>Claim\<close> and the fencing of \<open>Finish\<close>.
\<close>

section \<open>Well-formed tables\<close>

definition rows_ok :: "outbox_tables \<Rightarrow> bool" where
  "rows_ok t \<longleftrightarrow> sorted_wrt (<) (map ob_id (ot_rows t)) \<and> (\<forall>r \<in> set (ot_rows t). ob_id r \<le> ot_sequence t)"

definition stream_keys :: "outbox_tables \<Rightarrow> (string \<times> string) list" where
  "stream_keys t = map row_key (ot_streams t)"

definition streams_ok :: "outbox_tables \<Rightarrow> bool" where
  "streams_ok t \<longleftrightarrow> distinct (stream_keys t) \<and>
     (\<forall>s \<in> set (ot_streams t). sr_active s = has_live t (row_key s)) \<and>
     (\<forall>r \<in> set (ot_rows t). live r \<longrightarrow> stream_key r \<in> set (stream_keys t))"

definition leases_ok :: "outbox_tables \<Rightarrow> bool" where
  "leases_ok t \<longleftrightarrow> (\<forall>r \<in> set (ot_rows t). (ob_status r = ''leased'') = (ob_lease_token r \<noteq> ''''))"

definition references_ok :: "outbox_tables \<Rightarrow> bool" where
  "references_ok t \<longleftrightarrow>
     (\<forall>r \<in> set (ot_rows t). map_of (ot_destination_revisions t) (ob_destination_id r, ob_destination_revision r) \<noteq> None) \<and>
     (\<forall>((d, rv), x) \<in> set (ot_destination_revisions t). rv \<noteq> '''')"

definition tables_ok :: "outbox_tables \<Rightarrow> bool" where
  "tables_ok t \<longleftrightarrow> rows_ok t \<and> streams_ok t \<and> leases_ok t \<and> references_ok t"

named_theorems row_simps

lemma live_leased [simp]: "live (r\<lparr>ob_status := ''leased'', ob_lease_token := k, ob_lease_until := u, ob_attempts := n\<rparr>)"
  by (simp add: live_def)

lemma row_updates [simp, row_simps]:
  "ob_id (lease_row k u r) = ob_id r" "ob_id (finish_row res n r) = ob_id r" "ob_id (cancel_row r) = ob_id r"
  "ob_id (retry_row now r) = ob_id r"
  "stream_key (lease_row k u r) = stream_key r" "stream_key (finish_row res n r) = stream_key r"
  "stream_key (cancel_row r) = stream_key r" "stream_key (retry_row now r) = stream_key r"
  "ob_destination_id (lease_row k u r) = ob_destination_id r" "ob_destination_id (finish_row res n r) = ob_destination_id r"
  "ob_destination_id (cancel_row r) = ob_destination_id r" "ob_destination_id (retry_row now r) = ob_destination_id r"
  "ob_destination_revision (lease_row k u r) = ob_destination_revision r"
  "ob_destination_revision (finish_row res n r) = ob_destination_revision r"
  "ob_destination_revision (cancel_row r) = ob_destination_revision r"
  "ob_destination_revision (retry_row now r) = ob_destination_revision r"
  by (simp_all add: lease_row_def finish_row_def cancel_row_def retry_row_def stream_key_def)

lemma row_status [simp, row_simps]:
  "live (lease_row k u r)" "live (finish_row res n r) \<longleftrightarrow> dr_outcome res = Retryable" "\<not> live (cancel_row r)"
  "live (retry_row now r)"
  "ob_status (lease_row k u r) = ''leased''" "ob_status (finish_row res n r) \<noteq> ''leased''"
  "ob_status (cancel_row r) \<noteq> ''leased''" "ob_status (retry_row now r) = ''pending''"
  "ob_lease_token (lease_row k u r) = k" "ob_lease_token (finish_row res n r) = ''''"
  "ob_lease_token (cancel_row r) = ''''" "ob_lease_token (retry_row now r) = ob_lease_token r"
  by (cases "dr_outcome res"; simp add: live_def lease_row_def finish_row_def cancel_row_def retry_row_def finish_status_def)+

lemma table_fields [simp]:
  "ot_rows (stream_enter k t) = ot_rows t" "ot_rows (stream_leave k t) = ot_rows t" "ot_rows (take_turn k t) = ot_rows t"
  "ot_sequence (stream_enter k t) = ot_sequence t" "ot_sequence (stream_leave k t) = ot_sequence t"
  "ot_sequence (take_turn k t) = ot_sequence t" "ot_sequence (update_row ident f t) = ot_sequence t"
  "ot_streams (update_row ident f t) = ot_streams t"
  "ot_destination_revisions (stream_enter k t) = ot_destination_revisions t"
  "ot_destination_revisions (stream_leave k t) = ot_destination_revisions t"
  "ot_destination_revisions (take_turn k t) = ot_destination_revisions t"
  "ot_destination_revisions (update_row ident f t) = ot_destination_revisions t"
  by (simp_all add: stream_enter_def stream_leave_def take_turn_def update_row_def)

lemma leave_fold_fields [simp]:
  "ot_rows (fold stream_leave ks t) = ot_rows t" "ot_sequence (fold stream_leave ks t) = ot_sequence t"
  "ot_destination_revisions (fold stream_leave ks t) = ot_destination_revisions t"
  by (induction ks arbitrary: t) auto

lemma has_live_rows: "ot_rows t = ot_rows u \<Longrightarrow> has_live t k = has_live u k"
  by (simp add: has_live_def)

text \<open>A change that keeps identifiers and references and never leaves a token on a row that is not
  leased keeps the row invariants.\<close>

definition keeps_row :: "(outbox_row \<Rightarrow> outbox_row) \<Rightarrow> bool" where
  "keeps_row f \<longleftrightarrow> (\<forall>r. ob_id (f r) = ob_id r \<and> stream_key (f r) = stream_key r \<and>
     ob_destination_revision (f r) = ob_destination_revision r)"

lemma keeps_row_ops [simp]:
  "keeps_row (lease_row k u)" "keeps_row (finish_row res n)" "keeps_row cancel_row" "keeps_row (retry_row now)"
  by (simp_all add: keeps_row_def)

lemma keeps_row_if: "keeps_row f \<Longrightarrow> keeps_row (\<lambda>r. if P r then f r else r)"
  by (simp add: keeps_row_def)

lemma rows_ok_map:
  assumes "rows_ok t" "keeps_row f" "ot_rows u = map f (ot_rows t)" "ot_sequence u = ot_sequence t"
  shows "rows_ok u"
proof -
  have "map ob_id (ot_rows u) = map ob_id (ot_rows t)" using assms by (simp add: keeps_row_def)
  moreover have "\<forall>r \<in> set (ot_rows u). ob_id r \<le> ot_sequence u"
    using assms by (auto simp: rows_ok_def keeps_row_def)
  ultimately show ?thesis using assms(1) by (simp only: rows_ok_def)
qed

lemma references_ok_map:
  assumes "references_ok t" "keeps_row f" "ot_rows u = map f (ot_rows t)"
    "ot_destination_revisions u = ot_destination_revisions t"
  shows "references_ok u"
  using assms by (auto simp: references_ok_def keeps_row_def stream_key_def)

lemma leases_ok_map:
  assumes "leases_ok t" "ot_rows u = map f (ot_rows t)"
    "\<And>r. r \<in> set (ot_rows t) \<Longrightarrow> (ob_status (f r) = ''leased'') = (ob_lease_token (f r) \<noteq> '''')"
  shows "leases_ok u"
  using assms by (auto simp: leases_ok_def)

definition sets_lease :: "(outbox_row \<Rightarrow> outbox_row) \<Rightarrow> bool" where
  "sets_lease f \<longleftrightarrow> (\<forall>r. (ob_status (f r) = ''leased'') = (ob_lease_token (f r) \<noteq> ''''))"

lemma sets_lease_ops [simp]: "k \<noteq> '''' \<Longrightarrow> sets_lease (lease_row k u)" "sets_lease (finish_row res n)" "sets_lease cancel_row"
  by (simp_all add: sets_lease_def)

lemma leases_ok_if:
  "leases_ok t \<Longrightarrow> ot_rows u = map (\<lambda>r. if P r then f r else r) (ot_rows t) \<Longrightarrow> sets_lease f \<Longrightarrow> leases_ok u"
  by (auto simp: leases_ok_def sets_lease_def)

section \<open>Streams follow the rows\<close>

lemma row_key_active [simp]: "row_key (s\<lparr>sr_active := b\<rparr>) = row_key s" "row_key (s\<lparr>sr_last_turn := n\<rparr>) = row_key s"
  by (simp_all add: row_key_def)

text \<open>Leaving and taking a turn keep the keys; entering may add one.\<close>

lemma stream_keys_ops [simp]:
  "stream_keys (stream_leave k t) = stream_keys t" "stream_keys (take_turn k t) = stream_keys t"
  "stream_keys (update_row ident f t) = stream_keys t"
  "stream_keys (stream_enter k t) = (if k \<in> set (stream_keys t) then stream_keys t else stream_keys t @ [k])"
  by (auto simp: stream_keys_def stream_leave_def take_turn_def stream_enter_def update_row_def row_key_def)

text \<open>All streams outside \<open>K\<close> agree with the rows.\<close>

definition streams_ok_but :: "(string \<times> string) set \<Rightarrow> outbox_tables \<Rightarrow> bool" where
  "streams_ok_but K t \<longleftrightarrow> distinct (stream_keys t) \<and>
     (\<forall>s \<in> set (ot_streams t). row_key s \<notin> K \<longrightarrow> sr_active s = has_live t (row_key s)) \<and>
     (\<forall>r \<in> set (ot_rows t). live r \<longrightarrow> stream_key r \<in> K \<or> stream_key r \<in> set (stream_keys t))"

lemma stream_enter_rows:
  "s \<in> set (ot_streams (stream_enter k t)) \<Longrightarrow>
     (\<exists>s0 \<in> set (ot_streams t). row_key s0 = row_key s \<and> sr_active s = (row_key s = k \<or> sr_active s0)) \<or>
     row_key s = k \<and> sr_active s"
  by (auto simp: stream_enter_def row_key_def split: if_splits)

lemma stream_enter_ok:
  assumes "streams_ok_but {k} t" "has_live t k"
  shows "streams_ok (stream_enter k t)"
proof -
  have h: "has_live (stream_enter k t) j = has_live t j" for j by (rule has_live_rows) simp
  have "\<forall>s \<in> set (ot_streams (stream_enter k t)). sr_active s = has_live t (row_key s)"
    using assms stream_enter_rows [of _ k t] unfolding streams_ok_but_def by fastforce
  then show ?thesis using assms by (auto simp: streams_ok_def streams_ok_but_def h)
qed

lemma stream_leave_ok:
  assumes "streams_ok_but (insert k K) t" "has_live t k \<longrightarrow> k \<in> set (stream_keys t)"
  shows "streams_ok_but K (stream_leave k t)"
proof -
  have h: "has_live (stream_leave k t) j = has_live t j" for j by (rule has_live_rows) simp
  have "\<forall>s \<in> set (ot_streams (stream_leave k t)). row_key s \<notin> K \<longrightarrow> sr_active s = has_live t (row_key s)"
    using assms(1) by (auto simp: streams_ok_but_def stream_leave_def)
  moreover have "\<forall>r \<in> set (ot_rows t). live r \<longrightarrow> stream_key r = k \<longrightarrow> k \<in> set (stream_keys t)"
    using assms(2) by (auto simp: has_live_def list_ex_iff)
  ultimately show ?thesis using assms(1) by (auto simp: streams_ok_but_def h)
qed

lemma streams_ok_empty: "streams_ok t \<longleftrightarrow> streams_ok_but {} t"
  by (auto simp: streams_ok_def streams_ok_but_def)

lemma leave_all_ok:
  assumes "streams_ok_but (set ks) t" "\<forall>k \<in> set ks. has_live t k \<longrightarrow> k \<in> set (stream_keys t)"
  shows "streams_ok (fold stream_leave ks t)"
  using assms
proof (induction ks arbitrary: t)
  case (Cons k ks)
  have "has_live (stream_leave k t) j = has_live t j" for j by (rule has_live_rows) simp
  then show ?case using Cons stream_leave_ok [of k "set ks" t] by simp
qed (simp add: streams_ok_empty)

lemma take_turn_ok: "streams_ok t \<Longrightarrow> streams_ok (take_turn k t)"
  using has_live_rows [of "take_turn k t" t] by (auto simp: streams_ok_def) (auto simp: take_turn_def)

text \<open>Changing one row touches only its stream.\<close>

lemma update_row_but:
  assumes "streams_ok t" "keeps_row f" "\<forall>r \<in> set (ot_rows t). ob_id r = ident \<longrightarrow> stream_key r = k"
  shows "streams_ok_but {k} (update_row ident f t)"
proof -
  have h: "j \<noteq> k \<Longrightarrow> has_live (update_row ident f t) j = has_live t j" for j
    using assms(2,3) by (auto simp: has_live_def list_ex_iff update_row_def keeps_row_def)
  have "\<forall>r \<in> set (ot_rows (update_row ident f t)). live r \<longrightarrow> stream_key r = k \<or> stream_key r \<in> set (stream_keys t)"
    using assms by (auto simp: streams_ok_def update_row_def keeps_row_def)
  then show ?thesis
    using assms(1) h by (auto simp: streams_ok_but_def streams_ok_def)
qed

lemma update_row_rows [simp]: "ot_rows (update_row ident f t) = map (\<lambda>r. if ob_id r = ident then f r else r) (ot_rows t)"
  by (simp add: update_row_def)

lemma streams_ok_cong:
  "streams_ok u \<Longrightarrow> ot_rows u = ot_rows t \<Longrightarrow> ot_streams t = ot_streams u \<Longrightarrow> streams_ok t"
  using has_live_rows [of t u] by (simp add: streams_ok_def stream_keys_def)

lemma streams_ok_map:
  assumes "streams_ok t" "ot_rows u = map f (ot_rows t)" "ot_streams u = ot_streams t"
    "\<And>p. p \<in> set (ot_rows t) \<Longrightarrow> live (f p) = live p \<and> stream_key (f p) = stream_key p"
  shows "streams_ok u"
proof -
  have "has_live u k = has_live t k" for k using assms(2,4) by (auto simp: has_live_def list_ex_iff)
  then show ?thesis using assms by (auto simp: streams_ok_def stream_keys_def)
qed

section \<open>Every transaction keeps the tables well-formed\<close>

text \<open>A digest is never empty.\<close>

definition digests :: "compile_env \<Rightarrow> bool" where
  "digests env \<longleftrightarrow> (\<forall>d. ce_destination_revision env d \<noteq> '''')"

lemma has_live_appended: "has_live (t\<lparr>ot_rows := ot_rows t @ [r], ot_sequence := n\<rparr>) k \<longleftrightarrow> has_live t k \<or> live r \<and> stream_key r = k"
  by (auto simp: has_live_def)

lemma Enqueue_ok:
  assumes "tables_ok t" "Enqueue e w d rv p n c t = Inr (t', ident)"
  shows "tables_ok t'" and "ident = ot_sequence t + 1" and "map_of (ot_destination_revisions t) (d, rv) \<noteq> None"
proof -
  let ?row = "\<lparr>ob_id = ot_sequence t + 1, ob_event_id = e, ob_watch_id = w, ob_destination_id = d, ob_destination_revision = rv,
    ob_payload = p, ob_status = ''pending'', ob_attempts = 0, ob_next_at = timestamp n, ob_created_at = timestamp c,
    ob_lease_token = '''', ob_lease_until = 0, ob_last_error = '''', ob_retry_started_at = 0\<rparr>"
  let ?t1 = "t\<lparr>ot_rows := ot_rows t @ [?row], ot_sequence := ot_sequence t + 1\<rparr>"
  have t': "t' = stream_enter (w, d) ?t1" and i: "ident = ot_sequence t + 1"
    and fk: "map_of (ot_destination_revisions t) (d, rv) \<noteq> None"
    using assms(2) by (auto simp: Enqueue_def Let_def split: if_splits)
  have l: "live ?row" "stream_key ?row = (w, d)" by (simp_all add: live_def stream_key_def)
  have "streams_ok_but {(w, d)} ?t1"
    using assms(1) by (auto simp: tables_ok_def streams_ok_def streams_ok_but_def has_live_appended l)
      (auto simp: stream_keys_def)
  moreover have "has_live ?t1 (w, d)" by (simp add: has_live_appended l)
  ultimately have "streams_ok t'" using stream_enter_ok t' by simp
  moreover have "rows_ok t'" using assms(1) by (fastforce simp: t' tables_ok_def rows_ok_def sorted_wrt_append)
  moreover have "leases_ok t'" "references_ok t'" using assms(1) fk by (auto simp: t' tables_ok_def leases_ok_def references_ok_def)
  ultimately show "tables_ok t'" by (simp add: tables_ok_def)
  show "ident = ot_sequence t + 1" "map_of (ot_destination_revisions t) (d, rv) \<noteq> None" by (fact i fk)+
qed

lemma find_by_key: "distinct (map f xs) \<Longrightarrow> x \<in> set xs \<Longrightarrow> find (\<lambda>y. f y = f x) xs = Some x"
  by (induction xs) force+

lemma find_row_Some:
  assumes "rows_ok t" "r \<in> set (ot_rows t)"
  shows "find_row t (ob_id r) = Some r"
proof -
  have "distinct (map ob_id (ot_rows t))" using assms(1) strict_sorted_iff by (auto simp: rows_ok_def)
  then show ?thesis using assms(2) by (simp add: find_row_def find_by_key)
qed

lemma same_id_same_row:
  assumes "rows_ok t" "r \<in> set (ot_rows t)" "p \<in> set (ot_rows t)" "ob_id p = ob_id r"
  shows "p = r"
  using find_row_Some [OF assms(1,2)] find_row_Some [OF assms(1,3)] assms(4) by simp

lemma find_row_member: "find_row t ident = Some r \<Longrightarrow> r \<in> set (ot_rows t) \<and> ob_id r = ident"
  by (auto simp: find_row_def find_Some_iff)

lemma find_destination_ok:
  assumes "references_ok t" "r \<in> set (ot_rows t)"
  obtains d where "find_destination env t (ob_destination_id r) (ob_destination_revision r) = Inr d"
proof -
  obtain x where x: "map_of (ot_destination_revisions t) (ob_destination_id r, ob_destination_revision r) = Some x"
    using assms by (auto simp: references_ok_def)
  then have "ob_destination_revision r \<noteq> ''''"
    using assms(1) map_of_SomeD [OF x] by (auto simp: references_ok_def)
  then show ?thesis using that x by (simp add: find_destination_def)
qed

lemma Intent_ok:
  assumes "rows_ok t" "references_ok t" "r \<in> set (ot_rows t)"
  obtains i where "Intent env t (ob_id r) = Inr i" "in_row i = r"
proof -
  obtain d where d: "find_destination env t (ob_destination_id r) (ob_destination_revision r) = Inr d"
    using find_destination_ok [OF assms(2,3)] by blast
  have "Intent env t (ob_id r) = Inr \<lparr>in_row = r, in_destination = d\<rparr>"
    by (simp add: Intent_def find_row_Some [OF assms(1,3)] d)
  then show ?thesis using that by simp
qed

lemma Intent_row: "Intent env t ident = Inr i \<Longrightarrow> in_row i \<in> set (ot_rows t) \<and> ob_id (in_row i) = ident"
  by (auto simp: Intent_def dest!: find_row_member split: option.splits)

lemma stream_head_Some:
  "stream_head t k = Some r \<Longrightarrow> r \<in> set (ot_rows t) \<and> live r \<and> stream_key r = k"
  by (auto simp: stream_head_def find_Some_iff)

lemma claim_query_Some:
  assumes "claim_query t now = Some r"
  obtains s where "s \<in> set (ot_streams t)" "stream_due t now s" "stream_head t (row_key s) = Some r" "due t now r"
    "\<And>s'. s' \<in> set (ot_streams t) \<Longrightarrow> stream_due t now s' \<Longrightarrow> turn_key s \<le> turn_key s'"
proof -
  let ?ss = "sort_key turn_key (filter (stream_due t now) (ot_streams t))"
  obtain s rest where s: "?ss = s # rest" "stream_head t (row_key s) = Some r"
    using assms by (auto simp: claim_query_def split: list.splits)
  have st: "set ?ss = {s \<in> set (ot_streams t). stream_due t now s}" by auto
  have "s \<in> set (ot_streams t) \<and> stream_due t now s" using st s(1) by (metis (lifting) list.set_intros(1) mem_Collect_eq)
  moreover have "sorted (map turn_key (s # rest))" using s(1) by (metis sorted_sort_key)
  then have le: "\<forall>s' \<in> set rest. turn_key s \<le> turn_key s'" by simp
  have "turn_key s \<le> turn_key s'" if "s' \<in> set (ot_streams t)" "stream_due t now s'" for s'
  proof -
    have "s' \<in> set (s # rest)" using that st s(1) by auto
    then show ?thesis using le by auto
  qed
  moreover have "due t now r" using calculation(1) s(2) by (simp add: stream_due_def)
  ultimately show ?thesis using that s(2) by blast
qed

lemma claim_query_None:
  "claim_query t now = None \<longleftrightarrow> (\<forall>s \<in> set (ot_streams t). \<not> stream_due t now s)"
proof -
  let ?ss = "sort_key turn_key (filter (stream_due t now) (ot_streams t))"
  have st: "set ?ss = {s \<in> set (ot_streams t). stream_due t now s}" by auto
  show ?thesis
  proof (cases ?ss)
    case Nil
    then show ?thesis using st by (auto simp: claim_query_def)
  next
    case (Cons s rest)
    then have "stream_due t now s" "s \<in> set (ot_streams t)" using st by auto
    then show ?thesis using Cons by (auto simp: claim_query_def stream_due_def split: option.splits)
  qed
qed

text \<open>What a successful claim did.\<close>

lemma Claim_elim:
  assumes "Claim env now lease token t = Inr (t', Some i)"
  obtains r where "claim_query t (timestamp now) = Some r" "0 < lease" "r \<in> set (ot_rows t)" "live r"
    "t' = take_turn (stream_key (in_row i)) (update_row (ob_id r) (lease_row token (now + lease)) t)"
    "Intent env (update_row (ob_id r) (lease_row token (now + lease)) t) (ob_id r) = Inr i"
proof -
  obtain r where r: "claim_query t (timestamp now) = Some r" "0 < lease"
    "Intent env (update_row (ob_id r) (lease_row token (now + lease)) t) (ob_id r) = Inr i"
    "t' = take_turn (stream_key (in_row i)) (update_row (ob_id r) (lease_row token (now + lease)) t)"
    using assms by (auto simp: Claim_def Let_def split: if_splits option.splits)
  moreover have "r \<in> set (ot_rows t)" "live r"
    using r(1) by (auto elim!: claim_query_Some dest: stream_head_Some)
  ultimately show ?thesis using that by blast
qed

lemma claimed_row:
  assumes "rows_ok t" "r \<in> set (ot_rows t)" "Intent env (update_row (ob_id r) f t) (ob_id r) = Inr i" "keeps_row f"
  shows "in_row i = f r"
proof -
  have "in_row i \<in> set (ot_rows (update_row (ob_id r) f t))" "ob_id (in_row i) = ob_id r"
    using Intent_row [OF assms(3)] by auto
  then obtain p where "p \<in> set (ot_rows t)" "in_row i = (if ob_id p = ob_id r then f p else p)" by auto
  then show ?thesis
    using same_id_same_row [OF assms(1,2)] assms(4) \<open>ob_id (in_row i) = ob_id r\<close> by (auto simp: keeps_row_def split: if_splits)
qed

lemma Claim_ok:
  assumes "tables_ok t" "Claim env now lease token t = Inr (t', Some i)" "token \<noteq> ''''"
  shows "tables_ok t'" and "\<exists>r. claim_query t (timestamp now) = Some r \<and> in_row i = lease_row token (now + lease) r"
proof -
  obtain r where r: "claim_query t (timestamp now) = Some r" "r \<in> set (ot_rows t)" "live r"
    "t' = take_turn (stream_key (in_row i)) (update_row (ob_id r) (lease_row token (now + lease)) t)"
    "Intent env (update_row (ob_id r) (lease_row token (now + lease)) t) (ob_id r) = Inr i"
    using assms(2) by (rule Claim_elim)
  let ?t1 = "update_row (ob_id r) (lease_row token (now + lease)) t"
  have ok: "rows_ok t" "streams_ok t" "leases_ok t" "references_ok t" using assms(1) by (auto simp: tables_ok_def)
  have i: "in_row i = lease_row token (now + lease) r" using claimed_row [OF ok(1) r(2,5)] by simp
  show "\<exists>r. claim_query t (timestamp now) = Some r \<and> in_row i = lease_row token (now + lease) r" using r(1) i by blast
  have live: "live (if ob_id p = ob_id r then lease_row token (now + lease) p else p) = live p" if "p \<in> set (ot_rows t)" for p
    using same_id_same_row [OF ok(1) r(2) that] r(3) by auto
  have "streams_ok ?t1" using streams_ok_map [OF ok(2), of ?t1 "\<lambda>p. if ob_id p = ob_id r then lease_row token (now + lease) p else p"] live by simp
  then have "streams_ok t'" using take_turn_ok r(4) by simp
  moreover have rows: "ot_rows t' = map (\<lambda>p. if ob_id p = ob_id r then lease_row token (now + lease) p else p) (ot_rows t)"
    by (simp add: r(4))
  have kr: "keeps_row (\<lambda>p. if ob_id p = ob_id r then lease_row token (now + lease) p else p)"
    by (rule keeps_row_if) simp
  have same: "ot_sequence t' = ot_sequence t" "ot_destination_revisions t' = ot_destination_revisions t" by (simp_all add: r(4))
  have "rows_ok t'" by (rule rows_ok_map [OF ok(1) kr rows same(1)])
  moreover have "references_ok t'" by (rule references_ok_map [OF ok(4) kr rows same(2)])
  moreover have "leases_ok t'" by (rule leases_ok_if [OF ok(3) rows]) (simp add: assms(3))
  ultimately show "tables_ok t'" by (simp add: tables_ok_def)
qed

lemma Claim_idle: "Claim env now lease token t = Inr (t', None) \<Longrightarrow> t' = t \<and> claim_query t (timestamp now) = None"
  by (auto simp: Claim_def Let_def split: if_splits option.splits)

lemma leased_row_Some:
  assumes "leased_row t i = Some r"
  shows "r \<in> set (ot_rows t)" "ob_id r = ob_id i" "ob_status r = ''leased''" "ob_lease_token r = ob_lease_token i"
  using assms by (auto simp: leased_row_def find_Some_iff)

text \<open>The tables after a successful acknowledgement, as far as the invariant sees them.\<close>

lemma Finish_elim:
  assumes "Finish i res next_at now t = Inr t'"
  obtains r where "leased_row t i = Some r"
    "ot_rows t' = map (\<lambda>r. if ob_id r = ob_id i then finish_row res next_at r else r) (ot_rows t)"
    "ot_streams t' = ot_streams (leave_if_final r res (update_row (ob_id i) (finish_row res next_at) t))"
    "ot_sequence t' = ot_sequence t" "ot_destination_revisions t' = ot_destination_revisions t"
    "ot_attempts t' = ot_attempts t @ [\<lparr>at_outbox_id = ob_id i, at_attempt = ob_attempts i, at_time = timestamp now,
       at_outcome = outcome_string (dr_outcome res), at_detail = dr_detail res\<rparr>]"
  using assms
  by (auto simp: Finish_def Let_def leave_if_final_def stream_leave_def update_row_def split: if_splits option.splits)

lemma Finish_ok:
  assumes "tables_ok t" "Finish i res next_at now t = Inr t'"
  shows "tables_ok t'"
proof -
  have ok: "rows_ok t" "streams_ok t" "leases_ok t" "references_ok t" using assms(1) by (auto simp: tables_ok_def)
  let ?f = "\<lambda>r. if ob_id r = ob_id i then finish_row res next_at r else r"
  let ?u = "update_row (ob_id i) (finish_row res next_at) t"
  obtain r where lr: "leased_row t i = Some r" and f: "ot_rows t' = map ?f (ot_rows t)"
    "ot_streams t' = ot_streams (leave_if_final r res ?u)"
    "ot_sequence t' = ot_sequence t" "ot_destination_revisions t' = ot_destination_revisions t"
    using assms(2) by (rule Finish_elim)
  note r = leased_row_Some [OF lr]
  have only: "p = r" if "p \<in> set (ot_rows t)" "ob_id p = ob_id i" for p
    using same_id_same_row [OF ok(1) r(1) that(1)] that(2) r(2) by simp
  have live: "live r" using r(3) by (simp add: live_def)
  have kr: "keeps_row ?f" by (rule keeps_row_if) simp
  have key: "stream_key r \<in> set (stream_keys t)" using ok(2) r(1) live by (auto simp: streams_ok_def)
  have "streams_ok (leave_if_final r res ?u)"
  proof (cases "dr_outcome res = Retryable")
    case True
    then have "live (?f p) = live p \<and> stream_key (?f p) = stream_key p" if "p \<in> set (ot_rows t)" for p
      using only [OF that] live by auto
    then show ?thesis using True streams_ok_map [OF ok(2), of ?u ?f] by (simp add: leave_if_final_def)
  next
    case False
    have "streams_ok_but {stream_key r} ?u"
      using update_row_but [OF ok(2), of "finish_row res next_at" "ob_id i" "stream_key r"] only by auto
    then have "streams_ok (stream_leave (stream_key r) ?u)"
      using stream_leave_ok [of "stream_key r" "{}" ?u] key by (simp add: streams_ok_empty)
    then show ?thesis using False by (simp add: leave_if_final_def)
  qed
  moreover have "ot_rows (leave_if_final r res ?u) = ot_rows t'" by (simp add: f leave_if_final_def)
  ultimately have "streams_ok t'" using f(2) by (rule streams_ok_cong)
  moreover have "rows_ok t'" by (rule rows_ok_map [OF ok(1) kr f(1,3)])
  moreover have "references_ok t'" by (rule references_ok_map [OF ok(4) kr f(1,4)])
  moreover have "leases_ok t'" by (rule leases_ok_if [OF ok(3) f(1)]) simp
  ultimately show ?thesis by (simp add: tables_ok_def)
qed

lemma Cancel_ok:
  assumes "tables_ok t"
  shows "tables_ok (CancelDeliveries w now t)"
proof -
  have ok: "rows_ok t" "streams_ok t" "leases_ok t" "references_ok t" using assms(1) by (auto simp: tables_ok_def)
  let ?hit = "\<lambda>r. ob_watch_id r = w \<and> live r"
  let ?f = "\<lambda>r. if ?hit r then cancel_row r else r"
  let ?ks = "remdups (map stream_key (filter ?hit (ot_rows t)))"
  obtain t1 where t1: "CancelDeliveries w now t = fold stream_leave ?ks t1" "ot_rows t1 = map ?f (ot_rows t)"
    "ot_streams t1 = ot_streams t" "ot_sequence t1 = ot_sequence t" "ot_destination_revisions t1 = ot_destination_revisions t"
    by (simp add: CancelDeliveries_def Let_def)
  have keys: "stream_keys t1 = stream_keys t" by (simp add: stream_keys_def t1)
  have live1: "live p \<Longrightarrow> p \<in> set (ot_rows t1) \<Longrightarrow> p \<in> set (ot_rows t)" for p using t1(2) by auto
  have h: "k \<notin> set ?ks \<Longrightarrow> has_live t1 k = has_live t k" for k
    by (auto simp: has_live_def list_ex_iff t1(2))
  have "streams_ok_but (set ?ks) t1"
    unfolding streams_ok_but_def using ok(2) live1 h t1(3) keys by (auto simp: streams_ok_def)
  moreover have "\<forall>k \<in> set ?ks. has_live t1 k \<longrightarrow> k \<in> set (stream_keys t1)"
    using ok(2) live1 by (auto simp: streams_ok_def has_live_def list_ex_iff keys)
  ultimately have "streams_ok (fold stream_leave ?ks t1)" by (rule leave_all_ok)
  then have "streams_ok (CancelDeliveries w now t)" by (simp only: t1(1))
  moreover have kr: "keeps_row ?f" by (rule keeps_row_if) simp
  have rows: "ot_rows (CancelDeliveries w now t) = map ?f (ot_rows t)" by (simp add: t1(1,2))
  have same: "ot_sequence (CancelDeliveries w now t) = ot_sequence t"
    "ot_destination_revisions (CancelDeliveries w now t) = ot_destination_revisions t" by (simp_all add: t1)
  have "rows_ok (CancelDeliveries w now t)" by (rule rows_ok_map [OF ok(1) kr rows same(1)])
  moreover have "references_ok (CancelDeliveries w now t)" by (rule references_ok_map [OF ok(4) kr rows same(2)])
  moreover have "leases_ok (CancelDeliveries w now t)" by (rule leases_ok_if [OF ok(3) rows]) simp
  ultimately show ?thesis by (simp add: tables_ok_def)
qed

lemma Retry_elim:
  assumes "Retry env ident now t = Inr t'"
  obtains i where "Intent env t ident = Inr i" "\<not> live (in_row i)"
    "ot_rows t' = map (\<lambda>r. if ob_id r = ident then retry_row now r else r) (ot_rows t)"
    "ot_streams t' = ot_streams (stream_enter (stream_key (in_row i)) (update_row ident (retry_row now) t))"
    "ot_sequence t' = ot_sequence t" "ot_destination_revisions t' = ot_destination_revisions t"
  using assms by (auto simp: Retry_def Let_def live_def stream_enter_def update_row_def split: if_splits)

lemma Retry_ok:
  assumes "tables_ok t" "Retry env ident now t = Inr t'"
  shows "tables_ok t'"
proof -
  have ok: "rows_ok t" "streams_ok t" "leases_ok t" "references_ok t" using assms(1) by (auto simp: tables_ok_def)
  let ?f = "\<lambda>r. if ob_id r = ident then retry_row now r else r"
  let ?u = "update_row ident (retry_row now) t"
  obtain i where i: "Intent env t ident = Inr i" "\<not> live (in_row i)" and rows: "ot_rows t' = map ?f (ot_rows t)"
    and st: "ot_streams t' = ot_streams (stream_enter (stream_key (in_row i)) ?u)"
    and same: "ot_sequence t' = ot_sequence t" "ot_destination_revisions t' = ot_destination_revisions t"
    using assms(2) by (rule Retry_elim)
  let ?r = "in_row i"
  have r: "?r \<in> set (ot_rows t)" "ob_id ?r = ident" using Intent_row [OF i(1)] by auto
  have only: "p = ?r" if "p \<in> set (ot_rows t)" "ob_id p = ident" for p
    using same_id_same_row [OF ok(1) r(1)] that r(2) by simp
  have kr: "keeps_row ?f" by (rule keeps_row_if) simp
  have "streams_ok_but {stream_key ?r} ?u"
    using update_row_but [OF ok(2), of "retry_row now" ident "stream_key ?r"] only by auto
  moreover have "?f ?r \<in> set (map ?f (ot_rows t))" using imageI [OF r(1), of ?f] by simp
  then have "retry_row now ?r \<in> set (ot_rows ?u)" using r(2) by (simp only: update_row_rows if_True simp_thms)
  then have "has_live ?u (stream_key ?r)"
    unfolding has_live_def list_ex_iff by (rule bexI [rotated]) simp
  ultimately have "streams_ok (stream_enter (stream_key ?r) ?u)" by (rule stream_enter_ok)
  moreover have "ot_rows (stream_enter (stream_key ?r) ?u) = ot_rows t'" by (simp add: rows)
  ultimately have "streams_ok t'" using st by (rule streams_ok_cong)
  moreover have "rows_ok t'" by (rule rows_ok_map [OF ok(1) kr rows same(1)])
  moreover have "references_ok t'" by (rule references_ok_map [OF ok(4) kr rows same(2)])
  moreover have "ob_lease_token ?r = ''''" using ok(3) r(1) i(2) by (auto simp: leases_ok_def live_def)
  then have "leases_ok t'" using ok(3) only rows by (auto simp: leases_ok_def)
  ultimately show ?thesis by (simp add: tables_ok_def)
qed

lemma SaveDestination_elim:
  assumes "SaveDestination env c t = Inr t'"
  obtains v where "CompileDestination env (cds_definition c) = Inr v" "cds_revision v = cds_revision c"
    "ot_rows t' = ot_rows t" "ot_streams t' = ot_streams t" "ot_sequence t' = ot_sequence t"
    "ot_destination_revisions t' = ot_destination_revisions t \<or>
     ot_destination_revisions t' = ot_destination_revisions t @ [((md_id (dest_metadata (cds_definition c)), cds_revision c), cds_definition v)]"
  using assms by (auto simp: SaveDestination_def Let_def split: if_splits)

lemma CompileDestination_revision:
  "CompileDestination env d = Inr v \<Longrightarrow> cds_revision v = ce_destination_revision env (cds_definition v)"
  by (auto simp: CompileDestination_def Let_def)

lemma SaveDestination_ok:
  assumes "tables_ok t" "SaveDestination env c t = Inr t'" "digests env"
  shows "tables_ok t'"
proof -
  obtain v where v: "CompileDestination env (cds_definition c) = Inr v" "cds_revision v = cds_revision c"
    "ot_rows t' = ot_rows t" "ot_streams t' = ot_streams t" "ot_sequence t' = ot_sequence t"
    "ot_destination_revisions t' = ot_destination_revisions t \<or>
     ot_destination_revisions t' = ot_destination_revisions t @ [((md_id (dest_metadata (cds_definition c)), cds_revision c), cds_definition v)]"
    using assms(2) by (rule SaveDestination_elim)
  have "cds_revision c \<noteq> ''''" using CompileDestination_revision [OF v(1)] v(2) assms(3) by (simp add: digests_def)
  moreover have "map_of (ot_destination_revisions t) k \<noteq> None \<Longrightarrow> map_of (ot_destination_revisions t') k \<noteq> None" for k
    using v(6) by (auto simp: map_add_def split: option.splits)
  ultimately have "references_ok t'"
    using assms(1) v(3,6) by (auto simp: tables_ok_def references_ok_def)
  then show ?thesis
    using assms(1) v has_live_rows [of t' t]
    by (simp add: tables_ok_def rows_ok_def leases_ok_def streams_ok_def stream_keys_def)
qed

section \<open>The queue as a transition system\<close>

datatype queue_event =
    Saved
  | Enqueued int
  | Idle time
  | Claimed time outbox_row
  | Finished outbox_row outcome
  | CanceledAll string
  | Retried int

text \<open>One transaction. A claim draws a token that is not empty.\<close>

inductive qstep :: "compile_env \<Rightarrow> outbox_tables \<Rightarrow> queue_event \<Rightarrow> outbox_tables \<Rightarrow> bool" for env where
  save: "SaveDestination env c t = Inr t' \<Longrightarrow> qstep env t Saved t'"
| enqueue: "Enqueue e w d rv p n c t = Inr (t', ident) \<Longrightarrow> qstep env t (Enqueued ident) t'"
| idle: "Claim env now lease token t = Inr (t', None) \<Longrightarrow> qstep env t (Idle now) t'"
| claim: "Claim env now lease token t = Inr (t', Some i) \<Longrightarrow> token \<noteq> '''' \<Longrightarrow> qstep env t (Claimed now (in_row i)) t'"
| finish: "Finish i res next_at now t = Inr t' \<Longrightarrow> qstep env t (Finished i (dr_outcome res)) t'"
| cancel: "qstep env t (CanceledAll w) (CancelDeliveries w now t)"
| retry: "Retry env ident now t = Inr t' \<Longrightarrow> qstep env t (Retried ident) t'"

inductive_cases qstep_elims: "qstep env t e t'"
inductive_cases claimed_elim: "qstep env t (Claimed now r) t'"
inductive_cases finished_elim: "qstep env t (Finished r out) t'"

inductive qrun :: "compile_env \<Rightarrow> outbox_tables \<Rightarrow> queue_event list \<Rightarrow> outbox_tables \<Rightarrow> bool" for env where
  start: "qrun env t [] t"
| more: "qrun env t es u \<Longrightarrow> qstep env u e t' \<Longrightarrow> qrun env t (es @ [e]) t'"

lemma qstep_ok:
  assumes "qstep env t e t'" "tables_ok t" "digests env"
  shows "tables_ok t'"
  using assms
proof cases
  case idle
  then show ?thesis using assms(2) Claim_idle by blast
qed (use assms in \<open>auto intro: SaveDestination_ok Enqueue_ok Claim_ok Finish_ok Cancel_ok Retry_ok\<close>)

lemma empty_tables_ok [simp]: "tables_ok empty_tables"
  by (simp add: tables_ok_def rows_ok_def streams_ok_def leases_ok_def references_ok_def empty_tables_def stream_keys_def)

lemma qrun_ok: "qrun env t es t' \<Longrightarrow> tables_ok t \<Longrightarrow> digests env \<Longrightarrow> tables_ok t'"
  by (induction rule: qrun.induct) (auto dest: qstep_ok)

end
