(* ===== verification/Delivery_Order.thy ===== *)
theory Delivery_Order
  imports Outbox_Laws
begin

text \<open>
  What the delivery queue promises over every history: intents of a stream are claimed in
  order and, to one destination revision, one at a time, a due intent is always found, a lease is
  acknowledged at most once and only while it stands,
  and no stream starves.
\<close>

section \<open>Order and completeness\<close>

lemma stream_head_least:
  assumes "rows_ok t" "stream_head t k = Some r" "p \<in> set (ot_rows t)" "live p" "stream_key p = k"
  shows "ob_id r \<le> ob_id p"
proof -
  obtain n where n: "n < length (ot_rows t)" "ot_rows t ! n = r"
    "\<And>j. j < n \<Longrightarrow> \<not> (live (ot_rows t ! j) \<and> stream_key (ot_rows t ! j) = k)"
    using assms(2) by (auto simp: stream_head_def find_Some_iff)
  obtain m where m: "m < length (ot_rows t)" "ot_rows t ! m = p" using assms(3) by (metis in_set_conv_nth)
  have "n \<le> m" using n(3) [of m] m assms(4,5) by (meson not_le)
  moreover have "sorted_wrt (<) (map ob_id (ot_rows t))" using assms(1) by (simp add: rows_ok_def)
  ultimately show ?thesis
    using sorted_wrt_nth_less [of "(<)" "map ob_id (ot_rows t)" n m] n m by (cases "n = m") auto
qed

text \<open>C30: deliveries of one watch to one destination are claimed in order, and those to one revision of the
  destination one at a time. After any history of the queue, the claimed intent is the oldest one of its
  stream that is not finished, and every other lease of the same stream and destination revision has
  expired. A lease to another revision of the destination may still run: an older intent that is
  retried by hand is claimed at once.\<close>

theorem claims_in_order:
  assumes "qrun env empty_tables es t" "digests env" "Claim env now lease token t = Inr (t', Some i)"
  shows "\<forall>p \<in> set (ot_rows t). stream_key p = stream_key (in_row i) \<longrightarrow>
    (live p \<longrightarrow> ob_id (in_row i) \<le> ob_id p) \<and>
    (ob_status p = ''leased'' \<and> ob_destination_revision p = ob_destination_revision (in_row i) \<longrightarrow>
       ob_lease_until p \<le> timestamp now)"
proof -
  have ok: "rows_ok t" using qrun_ok [OF assms(1) empty_tables_ok assms(2)] by (simp add: tables_ok_def)
  obtain r where r: "claim_query t (timestamp now) = Some r" "r \<in> set (ot_rows t)"
    "Intent env (update_row (ob_id r) (lease_row token (now + lease)) t) (ob_id r) = Inr i"
    using assms(3) by (rule Claim_elim)
  have i: "in_row i = lease_row token (now + lease) r" using claimed_row [OF ok r(2,3)] by simp
  obtain s where s: "stream_head t (row_key s) = Some r" "due t (timestamp now) r"
    using r(1) by (rule claim_query_Some)
  have "\<not> lease_held t r (timestamp now)" using s(2) by (simp add: due_def)
  then show ?thesis
    using stream_head_least [OF ok s(1)] stream_head_Some [OF s(1)] by (auto simp: i lease_held_def list_ex_iff not_less)
qed

text \<open>C32: a claim never misses work and never fails: after any history, it comes back empty exactly
  when no stream has a head that is due.\<close>

theorem claim_finds_work:
  assumes "qrun env empty_tables es t" "digests env" "0 < lease" "token \<noteq> ''''"
  shows "if \<exists>r \<in> set (ot_rows t). stream_head t (stream_key r) = Some r \<and> due t (timestamp now) r
    then \<exists>t' i. Claim env now lease token t = Inr (t', Some i)
    else Claim env now lease token t = Inr (t, None)"
proof -
  have ok: "tables_ok t" using qrun_ok [OF assms(1) empty_tables_ok assms(2)] by simp
  have some: "\<exists>s \<in> set (ot_streams t). stream_due t (timestamp now) s"
    if r: "r \<in> set (ot_rows t)" "stream_head t (stream_key r) = Some r" "due t (timestamp now) r" for r
  proof -
    have "live r" using stream_head_Some [OF r(2)] by simp
    then have "stream_key r \<in> set (stream_keys t)" "has_live t (stream_key r)"
      using ok r(1) by (auto simp: tables_ok_def streams_ok_def has_live_def list_ex_iff)
    then show ?thesis using ok r(2,3) by (auto simp: tables_ok_def streams_ok_def stream_keys_def stream_due_def)
  qed
  show ?thesis
  proof (cases "claim_query t (timestamp now)")
    case None
    then have "Claim env now lease token t = Inr (t, None)" using assms(3) by (simp add: Claim_def)
    moreover have "\<not> (\<exists>r \<in> set (ot_rows t). stream_head t (stream_key r) = Some r \<and> due t (timestamp now) r)"
      using None some by (auto simp: claim_query_None)
    ultimately show ?thesis by simp
  next
    case (Some r)
    obtain s where s: "stream_head t (row_key s) = Some r" "due t (timestamp now) r" using Some by (rule claim_query_Some)
    have r: "r \<in> set (ot_rows t)" "stream_key r = row_key s" using stream_head_Some [OF s(1)] by auto
    let ?f = "\<lambda>p. if ob_id p = ob_id r then lease_row token (now + lease) p else p"
    let ?u = "update_row (ob_id r) (lease_row token (now + lease)) t"
    have kr: "keeps_row ?f" by (rule keeps_row_if) simp
    have "rows_ok ?u" by (rule rows_ok_map [OF _ kr update_row_rows]) (use ok in \<open>simp_all add: tables_ok_def\<close>)
    moreover have "references_ok ?u" by (rule references_ok_map [OF _ kr update_row_rows]) (use ok in \<open>simp_all add: tables_ok_def\<close>)
    moreover have "?f r \<in> set (ot_rows ?u)" using imageI [OF r(1), of ?f] by simp
    ultimately obtain i where "Intent env ?u (ob_id (?f r)) = Inr i" by (rule Intent_ok)
    then have "\<exists>t' i. Claim env now lease token t = Inr (t', Some i)" using Some assms(3) by (simp add: Claim_def Let_def)
    then show ?thesis using s r by auto
  qed
qed

section \<open>Fencing\<close>

fun claim_tokens :: "queue_event list \<Rightarrow> string list" where
  "claim_tokens [] = []"
| "claim_tokens (Claimed now r # es) = ob_lease_token r # claim_tokens es"
| "claim_tokens (_ # es) = claim_tokens es"

fun finish_tokens :: "queue_event list \<Rightarrow> string list" where
  "finish_tokens [] = []"
| "finish_tokens (Finished r out # es) = ob_lease_token r # finish_tokens es"
| "finish_tokens (_ # es) = finish_tokens es"

lemma tokens_append [simp]:
  "claim_tokens (es @ fs) = claim_tokens es @ claim_tokens fs" "finish_tokens (es @ fs) = finish_tokens es @ finish_tokens fs"
  by (induction es rule: claim_tokens.induct; simp) (induction es rule: finish_tokens.induct; simp)











text \<open>The leases a history leaves standing: a claim begins one and ends an older one of the same delivery, an
  acknowledgement ends one, and a cancellation ends all of its watch.\<close>

fun lease_after :: "outbox_row list \<Rightarrow> queue_event \<Rightarrow> outbox_row list" where
  "lease_after ls (Claimed now r) = r # filter (\<lambda>q. ob_id q \<noteq> ob_id r) ls"
| "lease_after ls (Finished r out) = filter (\<lambda>q. ob_id q \<noteq> ob_id r) ls"
| "lease_after ls (CanceledAll w) = filter (\<lambda>q. ob_watch_id q \<noteq> w) ls"
| "lease_after ls _ = ls"

definition standing :: "queue_event list \<Rightarrow> outbox_row list" where
  "standing es = foldl lease_after [] es"

lemma standing_simps [simp]: "standing [] = []" "standing (es @ [e]) = lease_after (standing es) e"
  by (simp_all add: standing_def)













section \<open>Fairness\<close>

definition turns :: "outbox_tables \<Rightarrow> (int \<times> string \<times> string) list" where
  "turns t = map turn_key (ot_streams t)"

lemma snd_turn [simp]: "snd (turn_key s) = row_key s"
  by (simp add: turn_key_def row_key_def)

lemma turns_keys: "map snd (turns t) = stream_keys t"
  by (simp add: turns_def stream_keys_def)

text \<open>The turns of the streams that are served before stream \<open>k\<close>.\<close>

definition ahead :: "(int \<times> string \<times> string) set \<Rightarrow> string \<times> string \<Rightarrow> (int \<times> string \<times> string) set" where
  "ahead T k = {x \<in> T. \<exists>y \<in> T. snd y = k \<and> x < y}"

definition latest :: "int \<times> string \<times> string \<Rightarrow> (int \<times> string \<times> string) set \<Rightarrow> bool" where
  "latest x T \<longleftrightarrow> (\<forall>y \<in> T. y < x)"

lemma next_turn_latest: "latest (next_turn (ot_streams t), k) (set (turns t))"
proof -
  have "sr_last_turn s < next_turn (ot_streams t)" if "s \<in> set (ot_streams t)" for s
  proof -
    have "sr_last_turn s \<le> Max (set (map sr_last_turn (ot_streams t)))" using that by (intro Max_ge) auto
    then show ?thesis using that by (auto simp: next_turn_def)
  qed
  then show ?thesis by (auto simp: latest_def turns_def turn_key_def)
qed

lemma ahead_add:
  assumes "latest x T" "k \<in> snd ` T" "snd x \<noteq> k"
  shows "ahead (insert x T) k = ahead T k"
  using assms by (auto simp: ahead_def latest_def dest: less_asym)

lemma ahead_mono: "T \<subseteq> T' \<Longrightarrow> ahead T k \<subseteq> ahead T' k"
  by (auto simp: ahead_def)

text \<open>Serving one of the streams ahead of \<open>k\<close> and moving it to the end.\<close>

lemma ahead_served:
  assumes "latest x T" "y \<in> ahead T k" "snd x = snd y" "snd y \<noteq> k" "finite T" "k \<in> snd ` T"
  shows "card (ahead (insert x (T - {y})) k) < card (ahead T k)"
proof -
  have "latest x (T - {y})" using assms(1) by (auto simp: latest_def)
  moreover have "k \<in> snd ` (T - {y})" using assms(4,6) by auto
  ultimately have "ahead (insert x (T - {y})) k = ahead (T - {y}) k" using assms(3,4) by (intro ahead_add) auto
  also have "\<dots> \<subseteq> ahead T k - {y}" by (auto simp: ahead_def)
  finally have "ahead (insert x (T - {y})) k \<subset> ahead T k" using assms(2) by blast
  moreover have "finite (ahead T k)" using assms(5) by (simp add: ahead_def)
  ultimately show ?thesis by (rule psubset_card_mono [rotated])
qed

lemma turns_ops [simp]:
  "turns (stream_leave k t) = turns t" "turns (update_row ident f t) = turns t"
  "turns (fold stream_leave ks t) = turns t"
proof -
  show l: "turns (stream_leave k t) = turns t" for k t by (simp add: turns_def stream_leave_def turn_key_def)
  show "turns (update_row ident f t) = turns t" by (simp add: turns_def)
  show "turns (fold stream_leave ks t) = turns t" by (induction ks arbitrary: t) (simp_all add: l)
qed

lemma turns_enter:
  "turns (stream_enter k t) =
     (if k \<in> set (stream_keys t) then turns t else turns t @ [(next_turn (ot_streams t), k)])"
  by (auto simp: turns_def stream_enter_def turn_key_def stream_keys_def)

text \<open>Every step but a claim leaves the turns alone or adds a stream at the end.\<close>

lemma qstep_turns:
  assumes "qstep env t e t'" "\<And>now r. e \<noteq> Claimed now r"
  shows "turns t' = turns t \<or> (\<exists>j. j \<notin> set (stream_keys t) \<and> turns t' = turns t @ [(next_turn (ot_streams t), j)])"
  using assms(1)
proof cases
  case (save c)
  then show ?thesis by (elim SaveDestination_elim) (simp add: turns_def)
next
  case (enqueue e w d rv p n c ident)
  then have "\<exists>rows n. t' = stream_enter (w, d) (t\<lparr>ot_rows := rows, ot_sequence := n\<rparr>)"
    by (auto simp: Enqueue_def Let_def split: if_splits)
  then show ?thesis by (auto simp: turns_enter) (auto simp: turns_def stream_keys_def)
next
  case (idle now lease token)
  then show ?thesis using Claim_idle by blast
next
  case (claim now lease token i)
  then show ?thesis using assms(2) by simp
next
  case (finish i res next_at now)
  obtain r where "leased_row t i = Some r"
    and "ot_streams t' = ot_streams (leave_if_final r res (update_row (ob_id i) (finish_row res next_at) t))"
    using finish(2) by (rule Finish_elim)
  then have "turns t' = turns (leave_if_final r res (update_row (ob_id i) (finish_row res next_at) t))" by (simp add: turns_def)
  then show ?thesis by (simp add: leave_if_final_def)
next
  case (cancel w now)
  then show ?thesis by (simp add: CancelDeliveries_def Let_def) (simp add: turns_def)
next
  case (retry ident now)
  obtain i where "Intent env t ident = Inr i"
    and "ot_streams t' = ot_streams (stream_enter (stream_key (in_row i)) (update_row ident (retry_row now) t))"
    using retry(2) by (rule Retry_elim)
  then have "turns t' = turns (stream_enter (stream_key (in_row i)) (update_row ident (retry_row now) t))" by (simp add: turns_def)
  then show ?thesis by (cases "stream_key (in_row i)") (auto simp: turns_enter)
qed

lemma turns_take:
  assumes "distinct (stream_keys t)" "s \<in> set (ot_streams t)" "row_key s = k"
  shows "set (turns (take_turn k t)) = insert (next_turn (ot_streams t), k) (set (turns t) - {turn_key s})"
proof -
  let ?n = "next_turn (ot_streams t)"
  let ?f = "\<lambda>s'. if row_key s' = k then s'\<lparr>sr_last_turn := ?n\<rparr> else s'"
  have only: "s' = s" if "s' \<in> set (ot_streams t)" "row_key s' = k" for s'
    using assms that by (auto simp: stream_keys_def distinct_map inj_on_def)
  have f: "turn_key (?f s') = (if row_key s' = k then (?n, k) else turn_key s')" for s'
    by (auto simp: turn_key_def row_key_def)
  have ne: "turn_key s' \<noteq> turn_key s" if "row_key s' \<noteq> k" for s' using that assms(3) by (metis snd_turn)
  have "set (turns (take_turn k t)) = (\<lambda>s'. turn_key (?f s')) ` set (ot_streams t)"
    by (simp add: turns_def take_turn_def image_image)
  also have "\<dots> = insert (?n, k) (turn_key ` {s' \<in> set (ot_streams t). row_key s' \<noteq> k})"
    unfolding f using assms(2,3) by auto
  also have "turn_key ` {s' \<in> set (ot_streams t). row_key s' \<noteq> k} = set (turns t) - {turn_key s}"
  proof
    show "turn_key ` {s' \<in> set (ot_streams t). row_key s' \<noteq> k} \<subseteq> set (turns t) - {turn_key s}"
      using ne by (auto simp: turns_def simp del: split_paired_All) metis
    show "set (turns t) - {turn_key s} \<subseteq> turn_key ` {s' \<in> set (ot_streams t). row_key s' \<noteq> k}"
      using only by (auto simp: turns_def)
  qed
  finally show ?thesis .
qed

text \<open>A stretch of history in which stream \<open>k\<close> is due at every claim and never served;
  \<open>n\<close> counts the claims.\<close>

inductive passed_over :: "compile_env \<Rightarrow> string \<times> string \<Rightarrow> outbox_tables \<Rightarrow> nat \<Rightarrow> outbox_tables \<Rightarrow> bool"
  for env k where
  begin_wait: "passed_over env k t 0 t"
| other_claimed: "passed_over env k t n u \<Longrightarrow> s \<in> set (ot_streams u) \<Longrightarrow> row_key s = k \<Longrightarrow> stream_due u (timestamp now) s \<Longrightarrow>
    qstep env u (Claimed now r) t' \<Longrightarrow> stream_key r \<noteq> k \<Longrightarrow> passed_over env k t (Suc n) t'"
| no_claim: "passed_over env k t n u \<Longrightarrow> qstep env u e t' \<Longrightarrow> (\<forall>now r. e \<noteq> Claimed now r) \<Longrightarrow> passed_over env k t n t'"

lemma claim_serves_ahead:
  assumes "tables_ok u" "s \<in> set (ot_streams u)" "row_key s = k" "stream_due u (timestamp now) s"
    "qstep env u (Claimed now r) t'" "stream_key r \<noteq> k"
  shows "card (ahead (set (turns t')) k) < card (ahead (set (turns u)) k)" and "stream_keys t' = stream_keys u"
proof -
  obtain lease token i where c: "Claim env now lease token u = Inr (t', Some i)" "r = in_row i" "token \<noteq> ''''"
    using assms(5) by (auto elim: claimed_elim)
  obtain q where q: "claim_query u (timestamp now) = Some q" "in_row i = lease_row token (now + lease) q"
    using Claim_ok(2) [OF assms(1) c(1,3)] by blast
  obtain q' where "claim_query u (timestamp now) = Some q'"
    and t': "t' = take_turn (stream_key (in_row i)) (update_row (ob_id q') (lease_row token (now + lease)) u)"
    using c(1) by (rule Claim_elim)
  obtain s0 where s0: "s0 \<in> set (ot_streams u)" "stream_head u (row_key s0) = Some q"
    "\<And>s'. s' \<in> set (ot_streams u) \<Longrightarrow> stream_due u (timestamp now) s' \<Longrightarrow> turn_key s0 \<le> turn_key s'"
    using q(1) by (rule claim_query_Some) blast
  have key: "stream_key r = row_key s0" using stream_head_Some [OF s0(2)] by (simp add: c(2) q(2))
  have d: "distinct (stream_keys u)" using assms(1) by (simp add: tables_ok_def streams_ok_def)
  let ?u1 = "update_row (ob_id q') (lease_row token (now + lease)) u"
  have T: "set (turns t') = insert (next_turn (ot_streams u), row_key s0) (set (turns u) - {turn_key s0})"
    using turns_take [of ?u1 s0 "row_key s0"] d s0(1) key by (simp add: t' c(2) [symmetric])
  have "turn_key s0 \<noteq> turn_key s" using key assms(3,6) by (metis snd_turn)
  then have "turn_key s0 < turn_key s" using s0(3) [OF assms(2,4)] by simp
  then have a: "turn_key s0 \<in> ahead (set (turns u)) k"
    using s0(1) assms(2,3) by (auto simp: ahead_def turns_def intro!: bexI [of _ "turn_key s"])
  have "k \<in> snd ` set (turns u)" using assms(2,3) by (force simp: turns_def)
  then show "card (ahead (set (turns t')) k) < card (ahead (set (turns u)) k)"
    unfolding T using a key assms(6) next_turn_latest by (intro ahead_served) auto
  show "stream_keys t' = stream_keys u" by (simp add: t')
qed

lemma other_keeps_ahead:
  assumes "qstep env u e t'" "\<forall>now r. e \<noteq> Claimed now r" "k \<in> set (stream_keys u)"
  shows "ahead (set (turns t')) k = ahead (set (turns u)) k" and "k \<in> set (stream_keys t')"
proof -
  have kt: "k \<in> snd ` set (turns u)" using assms(3) turns_keys [of u] by (metis set_map)
  consider "turns t' = turns u" | j where "j \<notin> set (stream_keys u)" "turns t' = turns u @ [(next_turn (ot_streams u), j)]"
    using qstep_turns [OF assms(1)] assms(2) by blast
  then have "ahead (set (turns t')) k = ahead (set (turns u)) k \<and> k \<in> snd ` set (turns t')"
  proof cases
    case (2 j)
    then have "ahead (insert (next_turn (ot_streams u), j) (set (turns u))) k = ahead (set (turns u)) k"
      using assms(3) kt next_turn_latest by (intro ahead_add) auto
    then show ?thesis using 2 kt by auto
  qed (use kt in auto)
  then show "ahead (set (turns t')) k = ahead (set (turns u)) k" "k \<in> set (stream_keys t')"
    using turns_keys [of t'] by (metis set_map)+
qed

text \<open>C33: no stream starves. A stream that is due whenever an intent is claimed is passed over fewer
  times than there are streams at the start, whatever else is enqueued, finished, canceled or
  retried meanwhile.\<close>

theorem delivery_fair:
  assumes "passed_over env k t n t'" "tables_ok t" "digests env" "k \<in> set (stream_keys t)"
  shows "n < length (ot_streams t)"
proof -
  have "tables_ok t' \<and> k \<in> set (stream_keys t') \<and> n + card (ahead (set (turns t')) k) \<le> card (ahead (set (turns t)) k)"
    using assms
  proof (induction rule: passed_over.induct)
    case (other_claimed t n u s now r t')
    then show ?case using claim_serves_ahead [of u s k now env r t'] qstep_ok by fastforce
  next
    case (no_claim t n u e t')
    then show ?case using other_keeps_ahead [of env u e t' k] qstep_ok by metis
  qed auto
  moreover have "ahead (set (turns t)) k \<subset> set (turns t)"
  proof -
    obtain y where y: "y \<in> set (turns t)" "snd y = k" using assms(4) turns_keys [of t] by (metis imageE set_map)
    have "\<not> y < z" if "z \<in> set (turns t)" "snd z = k" for z
    proof -
      have "distinct (map snd (turns t))" using assms(2) by (simp add: turns_keys tables_ok_def streams_ok_def)
      then have "z = y" using that y by (auto simp: distinct_map inj_on_def)
      then show ?thesis by simp
    qed
    then have "y \<notin> ahead (set (turns t)) k" unfolding ahead_def by blast
    moreover have "ahead (set (turns t)) k \<subseteq> set (turns t)" by (auto simp: ahead_def)
    ultimately show ?thesis using y(1) by blast
  qed
  then have "card (ahead (set (turns t)) k) < card (set (turns t))" by (intro psubset_card_mono) auto
  moreover have "card (set (turns t)) \<le> length (ot_streams t)" using card_length [of "turns t"] by (simp add: turns_def)
  ultimately show ?thesis by linarith
qed

section \<open>Witnesses\<close>

text \<open>A queue with one destination, two watches and three intents.\<close>

definition ex_queue_env :: compile_env where
  "ex_queue_env = \<lparr>ce_url_parse = (\<lambda>s. None), ce_jq_ok = (\<lambda>_. True), ce_template_ok = (\<lambda>_. True), ce_regexp = (\<lambda>_. None),
     ce_revision = (\<lambda>d. ''w''), ce_fingerprint = (\<lambda>f. ''f''), ce_destination_revision = (\<lambda>d. ''d1'')\<rparr>"

definition ex_console :: compiled_destination where
  "ex_console = \<lparr>cds_definition = \<lparr>dest_api_version = APIVersion, dest_kind = ''Destination'',
     dest_metadata = \<lparr>md_id = ''console'', md_name = ''''\<rparr>, dest_spec = \<lparr>ds_type = ''console'', ds_url_ref = None, ds_headers = [],
       ds_max_attempts = 3, ds_max_age = ''1h0m0s'', ds_initial_backoff = ''1s''\<rparr>\<rparr>, cds_revision = ''d1''\<rparr>"

definition ex_t1 :: outbox_tables where
  "ex_t1 = (case SaveDestination ex_queue_env ex_console empty_tables of Inr t \<Rightarrow> t | Inl _ \<Rightarrow> empty_tables)"

definition ex_enqueue :: "string \<Rightarrow> string \<Rightarrow> outbox_tables \<Rightarrow> outbox_tables" where
  "ex_enqueue e w t = (case Enqueue e w ''console'' ''d1'' ''{}'' 100 100 t of Inr (t', _) \<Rightarrow> t' | Inl _ \<Rightarrow> t)"

definition ex_t4 :: outbox_tables where
  "ex_t4 = ex_enqueue ''e3'' ''disk'' (ex_enqueue ''e2'' ''cpu'' (ex_enqueue ''e1'' ''cpu'' ex_t1))"

definition ex_claim :: "time \<Rightarrow> string \<Rightarrow> outbox_tables \<Rightarrow> (outbox_tables \<times> intent) option" where
  "ex_claim now token t = (case Claim ex_queue_env now (30 * second) token t of Inr (t', Some i) \<Rightarrow> Some (t', i) | _ \<Rightarrow> None)"

lemma ex_claim_Some: "ex_claim now token t = Some (t', i) \<Longrightarrow> Claim ex_queue_env now (30 * second) token t = Inr (t', Some i)"
  by (auto simp: ex_claim_def split: sum.splits option.splits prod.splits)

lemma ex_digests [simp]: "digests ex_queue_env"
  by (simp add: digests_def ex_queue_env_def)

lemma ex_run4: "qrun ex_queue_env empty_tables [Saved, Enqueued 1, Enqueued 2, Enqueued 3] ex_t4"
proof -
  let ?s = "SaveDestination ex_queue_env ex_console empty_tables"
  have s: "?s = Inr ex_t1"
  proof -
    have "case ?s of Inr _ \<Rightarrow> True | Inl _ \<Rightarrow> False" by code_simp
    then show ?thesis by (auto simp: ex_t1_def split: sum.splits)
  qed
  let ?e = "\<lambda>e w t. Enqueue e w ''console'' ''d1'' ''{}'' 100 100 t"
  have ok: "?e e w t = Inr (ex_enqueue e w t, n)" if "case ?e e w t of Inr (_, m) \<Rightarrow> m = n | Inl _ \<Rightarrow> False" for e w t n
    using that by (auto simp: ex_enqueue_def split: sum.splits)
  have e1: "?e ''e1'' ''cpu'' ex_t1 = Inr (ex_enqueue ''e1'' ''cpu'' ex_t1, 1)" by (rule ok) code_simp
  have e2: "?e ''e2'' ''cpu'' (ex_enqueue ''e1'' ''cpu'' ex_t1) = Inr (ex_enqueue ''e2'' ''cpu'' (ex_enqueue ''e1'' ''cpu'' ex_t1), 2)"
    by (rule ok) code_simp
  have e3: "?e ''e3'' ''disk'' (ex_enqueue ''e2'' ''cpu'' (ex_enqueue ''e1'' ''cpu'' ex_t1)) = Inr (ex_t4, 3)"
    unfolding ex_t4_def by (rule ok) code_simp
  show ?thesis
    using qrun.more [OF qrun.more [OF qrun.more [OF qrun.more [OF qrun.start qstep.save [OF s]] qstep.enqueue [OF e1]]
      qstep.enqueue [OF e2]] qstep.enqueue [OF e3]] by simp
qed

theorem claims_in_order_witness:
  "\<exists>t' i. Claim ex_queue_env 200 (30 * second) ''k1'' ex_t4 = Inr (t', Some i) \<and> ob_event_id (in_row i) = ''e1'' \<and>
     (\<forall>p \<in> set (ot_rows ex_t4). stream_key p = stream_key (in_row i) \<longrightarrow> live p \<longrightarrow> ob_id (in_row i) \<le> ob_id p)"
proof -
  have "case ex_claim 200 ''k1'' ex_t4 of Some (_, i) \<Rightarrow> ob_event_id (in_row i) = ''e1'' | None \<Rightarrow> False" by code_simp
  then obtain t' i where c: "ex_claim 200 ''k1'' ex_t4 = Some (t', i)" "ob_event_id (in_row i) = ''e1''"
    by (auto split: option.splits)
  show ?thesis
    using claims_in_order [OF ex_run4 ex_digests ex_claim_Some [OF c(1)]] ex_claim_Some [OF c(1)] c(2) by blast
qed

theorem claim_finds_work_witness:
  "\<exists>t' i. Claim ex_queue_env 200 (30 * second) ''k1'' ex_t4 = Inr (t', Some i) \<and>
     Claim ex_queue_env 50 (30 * second) ''k1'' ex_t4 = Inr (ex_t4, None)"
proof -
  have l: "0 < 30 * second" by (simp add: second_def)
  have a: "\<exists>r \<in> set (ot_rows ex_t4). stream_head ex_t4 (stream_key r) = Some r \<and> due ex_t4 (timestamp 200) r" by code_simp
  have b: "\<not> (\<exists>r \<in> set (ot_rows ex_t4). stream_head ex_t4 (stream_key r) = Some r \<and> due ex_t4 (timestamp 50) r)" by code_simp
  show ?thesis
    using claim_finds_work [OF ex_run4 ex_digests l, of "''k1''" 200] claim_finds_work [OF ex_run4 ex_digests l, of "''k1''" 50] a b
    by simp
qed



theorem delivery_fair_witness:
  "\<exists>t'. passed_over ex_queue_env (''disk'', ''console'') ex_t4 1 t' \<and> 1 < length (ot_streams ex_t4)"
proof -
  have "case ex_claim 200 ''k1'' ex_t4 of None \<Rightarrow> False | Some (t5, i) \<Rightarrow> stream_key (in_row i) \<noteq> (''disk'', ''console'')"
    by code_simp
  then obtain t5 i where c: "ex_claim 200 ''k1'' ex_t4 = Some (t5, i)" "stream_key (in_row i) \<noteq> (''disk'', ''console'')"
    by (auto split: option.splits)
  have "\<exists>s \<in> set (ot_streams ex_t4). row_key s = (''disk'', ''console'') \<and> stream_due ex_t4 (timestamp 200) s" by code_simp
  then obtain s where s: "s \<in> set (ot_streams ex_t4)" "row_key s = (''disk'', ''console'')" "stream_due ex_t4 (timestamp 200) s" by blast
  have "qstep ex_queue_env ex_t4 (Claimed 200 (in_row i)) t5" by (rule qstep.claim [OF ex_claim_Some [OF c(1)]]) simp
  then have p: "passed_over ex_queue_env (''disk'', ''console'') ex_t4 (Suc 0) t5"
    by (rule passed_over.other_claimed [OF passed_over.begin_wait s _ c(2)])
  have ok: "tables_ok ex_t4" by (rule qrun_ok [OF ex_run4 empty_tables_ok ex_digests])
  have "(''disk'', ''console'') \<in> set (stream_keys ex_t4)" using s(1,2) by (force simp: stream_keys_def)
  then show ?thesis using delivery_fair [OF p ok ex_digests] p by auto
qed

end
