(* ===== verification/Keyed_Table.thy ===== *)
theory Keyed_Table
  imports Ding_Prelude
begin

text \<open>
  Tables with a primary key. A table is the list of its rows in key order, the order of the primary
  key index; \<open>tbl_put\<close> is an insert with \<open>ON CONFLICT DO UPDATE\<close>, \<open>tbl_del\<close> a delete. The locale
  states what the store relies on, with the algebra of updates proved once.
\<close>

section \<open>Interface\<close>

locale keyed_table =
  fixes get :: "'t \<Rightarrow> 'k \<Rightarrow> 'v option"
    and put :: "'k \<Rightarrow> 'v \<Rightarrow> 't \<Rightarrow> 't"
    and del :: "'k \<Rightarrow> 't \<Rightarrow> 't"
    and ok :: "'t \<Rightarrow> bool"
  assumes get_put: "ok t \<Longrightarrow> get (put k v t) = (get t)(k \<mapsto> v)"
    and get_del: "ok t \<Longrightarrow> get (del k t) = (get t)(k := None)"
    and ok_put: "ok t \<Longrightarrow> ok (put k v t)"
    and ok_del: "ok t \<Longrightarrow> ok (del k t)"
    and canonical: "ok t \<Longrightarrow> ok u \<Longrightarrow> get t = get u \<Longrightarrow> t = u"
begin

lemmas table_laws = get_put get_del ok_put ok_del

lemma put_put_same: "ok t \<Longrightarrow> put k v (put k w t) = put k v t"
  by (rule canonical) (auto simp: table_laws)

lemma put_put_other: "ok t \<Longrightarrow> j \<noteq> k \<Longrightarrow> put j v (put k w t) = put k w (put j v t)"
  by (rule canonical) (auto simp: table_laws)

lemma del_put_same: "ok t \<Longrightarrow> del k (put k v t) = del k t"
  by (rule canonical) (auto simp: table_laws)

lemma del_put_other: "ok t \<Longrightarrow> j \<noteq> k \<Longrightarrow> del j (put k v t) = put k v (del j t)"
  by (rule canonical) (auto simp: table_laws)

lemma del_absent: "ok t \<Longrightarrow> get t k = None \<Longrightarrow> del k t = t"
  by (rule canonical) (auto simp: table_laws)

end

section \<open>Rows in key order\<close>

fun tbl_put :: "('k :: linorder) \<Rightarrow> 'v \<Rightarrow> ('k \<times> 'v) list \<Rightarrow> ('k \<times> 'v) list" where
  "tbl_put k v [] = [(k, v)]"
| "tbl_put k v ((a, b) # t) =
     (if a < k then (a, b) # tbl_put k v t else if a = k then (k, v) # t else (k, v) # (a, b) # t)"

definition tbl_del :: "'k \<Rightarrow> ('k \<times> 'v) list \<Rightarrow> ('k \<times> 'v) list" where
  "tbl_del k t = filter (\<lambda>r. fst r \<noteq> k) t"

definition tbl_ok :: "(('k :: linorder) \<times> 'v) list \<Rightarrow> bool" where
  "tbl_ok t \<longleftrightarrow> sorted (map fst t) \<and> distinct (map fst t)"

lemma tbl_ok_simps [simp]:
  "tbl_ok []" "tbl_ok ((a, b) # t) \<longleftrightarrow> tbl_ok t \<and> (\<forall>r \<in> set t. a < fst r)"
  by (auto simp: tbl_ok_def less_le)

lemma tbl_put_keys: "fst ` set (tbl_put k v t) = insert k (fst ` set t)"
  by (induction k v t rule: tbl_put.induct) auto

lemma tbl_put_map_of:
  assumes "tbl_ok t"
  shows "map_of (tbl_put k v t) = (map_of t)(k \<mapsto> v)"
  using assms
proof (induction k v t rule: tbl_put.induct)
  case (2 k v a b t)
  then show ?case by (auto simp: fun_eq_iff)
qed simp

lemma tbl_put_ok: "tbl_ok t \<Longrightarrow> tbl_ok (tbl_put k v t)"
proof (induction k v t rule: tbl_put.induct)
  case (2 k v a b t)
  have "fst ` set (tbl_put k v t) = insert k (fst ` set t)" by (rule tbl_put_keys)
  then have "\<forall>r \<in> set (tbl_put k v t). fst r = k \<or> (\<exists>q \<in> set t. fst r = fst q)" by (auto simp: set_eq_iff image_iff)
  then show ?case using 2 by force
qed simp

lemma tbl_del_ok: "tbl_ok t \<Longrightarrow> tbl_ok (tbl_del k t)"
  by (induction t) (auto simp: tbl_del_def)

lemma tbl_del_map_of: "map_of (tbl_del k t) = (map_of t)(k := None)"
  by (induction t) (auto simp: tbl_del_def fun_eq_iff)

lemma tbl_canonical:
  assumes "tbl_ok t" "tbl_ok u" "map_of t = map_of u"
  shows "t = u"
proof -
  have d: "distinct (map fst t)" "distinct (map fst u)" using assms(1,2) by (auto simp: tbl_ok_def)
  then have "set t = set u" using assms(3) by (simp add: map_of_inject_set)
  then have "map fst t = map fst u"
    using assms(1,2) d by (intro sorted_distinct_set_unique) (auto simp: tbl_ok_def)
  moreover have "map (\<lambda>k. (k, the (map_of r k))) (map fst r) = r" if "distinct (map fst r)" for r :: "('a \<times> 'b) list"
    using that by (auto intro!: map_idI)
  ultimately show ?thesis using d assms(3) by metis
qed

interpretation tbl: keyed_table map_of tbl_put tbl_del tbl_ok
  by unfold_locales (simp_all add: tbl_put_map_of tbl_del_map_of tbl_put_ok tbl_del_ok tbl_canonical)

lemma tbl_get_iff: "tbl_ok t \<Longrightarrow> map_of t k = Some v \<longleftrightarrow> (k, v) \<in> set t"
  by (simp add: tbl_ok_def)

lemma tbl_filter_ok: "tbl_ok t \<Longrightarrow> tbl_ok (filter P t)"
  by (induction t) auto

lemma tbl_card: "tbl_ok t \<Longrightarrow> length t = card (dom (map_of t))"
  by (metis tbl_ok_def dom_map_of_conv_image_fst distinct_card length_map set_map)

text \<open>Rows of a table that are changed in place keep their keys.\<close>

lemma tbl_map_ok: "(\<And>r. fst (f r) = fst r) \<Longrightarrow> tbl_ok (map f t) = tbl_ok t"
proof -
  assume "\<And>r. fst (f r) = fst r"
  then have "map fst (map f t) = map fst t" by simp
  then show ?thesis unfolding tbl_ok_def by (simp only:)
qed

end
