(* ===== verification/Push_Receipts.thy ===== *)
theory Push_Receipts
  imports Outbox
begin

text \<open>
  Package \<open>store\<close>, file \<open>push.go\<close>: the receipts of pushed requests, their use as idempotency
  keys, and the cached number of receipts in force with the triggers of \<open>schema8.sql\<close> that
  maintain it. A receipt body is stored as the receipt itself; \<open>writable\<close> tells a writing
  transaction from a reading one.
\<close>

section \<open>Tables\<close>

record push_receipt =
  pr_acceptance_id :: string
  pr_watch_id :: string
  pr_generation :: int
  pr_revision :: string
  pr_first :: int
  pr_last :: int
  pr_duplicate :: bool
  pr_accepted_at :: time
  pr_expires_at :: time

record push_usage =
  pu_requests :: int
  pu_bytes :: int
  pu_observations :: int

type_synonym push_key = "string \<times> string \<times> string"

record push_row =
  pw_key :: push_key                \<comment> \<open>lifetime, producer and input key\<close>
  pw_digest :: string
  pw_body :: push_receipt
  pw_expires_at :: int

record push_stats =
  ps_total :: int
  ps_expired :: int
  ps_checked_at :: int
  ps_earliest :: int

record push_tables =
  pt_receipts :: "push_row list"
  pt_stats :: "push_stats option"
  pt_last :: "(string \<times> string \<times> push_receipt) list"
  pt_usage :: push_usage

definition empty_push :: push_tables where
  "empty_push = \<lparr>pt_receipts = [], pt_stats = Some \<lparr>ps_total = 0, ps_expired = 0, ps_checked_at = 0, ps_earliest = 0\<rparr>,
     pt_last = [], pt_usage = \<lparr>pu_requests = 0, pu_bytes = 0, pu_observations = 0\<rparr>\<rparr>"

section \<open>Triggers\<close>

definition expired_count :: "int \<Rightarrow> push_row list \<Rightarrow> int" where
  "expired_count now rs = int (length (filter (\<lambda>r. pw_expires_at r \<le> now) rs))"

text \<open>\<open>coalesce(min(expires_at),0)\<close>\<close>

definition earliest_of :: "push_row list \<Rightarrow> int" where
  "earliest_of rs = (if rs = [] then 0 else Min (set (map pw_expires_at rs)))"

definition expired_by :: "int \<Rightarrow> push_stats \<Rightarrow> int" where
  "expired_by e s = (if e \<le> ps_checked_at s then 1 else 0)"

definition stats_insert :: "int \<Rightarrow> push_stats \<Rightarrow> push_stats" where
  "stats_insert e s = s\<lparr>ps_total := ps_total s + 1, ps_expired := ps_expired s + expired_by e s,
     ps_earliest := (if ps_total s = 0 then e else min (ps_earliest s) e)\<rparr>"

definition stats_delete :: "int \<Rightarrow> push_row list \<Rightarrow> push_stats \<Rightarrow> push_stats" where
  "stats_delete e rest s = s\<lparr>ps_total := ps_total s - 1, ps_expired := ps_expired s - expired_by e s,
     ps_earliest := earliest_of rest\<rparr>"

definition stats_expiry :: "int \<Rightarrow> int \<Rightarrow> push_row list \<Rightarrow> push_stats \<Rightarrow> push_stats" where
  "stats_expiry old new rs s =
     (if old \<noteq> new then s\<lparr>ps_expired := ps_expired s - expired_by old s + expired_by new s, ps_earliest := earliest_of rs\<rparr>
      else s)"

section \<open>Operations\<close>

definition find_receipt :: "push_key \<Rightarrow> push_row list \<Rightarrow> push_row option" where
  "find_receipt k rs = find (\<lambda>r. pw_key r = k) rs"

definition PushReceipt :: "push_key \<Rightarrow> string \<Rightarrow> time \<Rightarrow> push_tables \<Rightarrow> push_receipt result" where
  "PushReceipt k digest now t =
     (case find_receipt k (filter (\<lambda>r. pw_expires_at r > timestamp now) (pt_receipts t)) of
        None \<Rightarrow> Inl ErrNotFound
      | Some r \<Rightarrow> if digest \<noteq> pw_digest r then Inl ErrIdempotency else Inr ((pw_body r)\<lparr>pr_duplicate := True\<rparr>))"

definition replace_receipt :: "push_row \<Rightarrow> push_row list \<Rightarrow> push_row list" where
  "replace_receipt row rs = map (\<lambda>r. if pw_key r = pw_key row then row else r) rs"

text \<open>\<open>qSavePushReceipt\<close>: insert, or update the row with this key.\<close>

definition upsert_receipt :: "push_row \<Rightarrow> push_tables \<Rightarrow> push_tables" where
  "upsert_receipt row t =
     (case find_receipt (pw_key row) (pt_receipts t) of
        None \<Rightarrow> t\<lparr>pt_receipts := pt_receipts t @ [row], pt_stats := map_option (stats_insert (pw_expires_at row)) (pt_stats t)\<rparr>
      | Some old \<Rightarrow>
          let rs = replace_receipt row (pt_receipts t) in
          t\<lparr>pt_receipts := rs, pt_stats := map_option (stats_expiry (pw_expires_at old) (pw_expires_at row) rs) (pt_stats t)\<rparr>)"

definition add_usage :: "int \<Rightarrow> int \<Rightarrow> push_usage \<Rightarrow> push_usage" where
  "add_usage bytes observations u = \<lparr>pu_requests = pu_requests u + 1, pu_bytes = pu_bytes u + bytes,
     pu_observations = pu_observations u + observations\<rparr>"

definition SavePushReceipt :: "push_key \<Rightarrow> string \<Rightarrow> push_receipt \<Rightarrow> int \<Rightarrow> int \<Rightarrow> push_tables \<Rightarrow> push_tables" where
  "SavePushReceipt k digest receipt bytes observations t =
     (let t1 = upsert_receipt \<lparr>pw_key = k, pw_digest = digest, pw_body = receipt, pw_expires_at = timestamp (pr_expires_at receipt)\<rparr> t
      in t1\<lparr>pt_last := alist_put (pr_watch_id receipt) (fst k, receipt) (pt_last t1),
            pt_usage := add_usage bytes observations (pt_usage t1)\<rparr>)"

text \<open>The number of receipts in force, read when there is no cached row.\<close>

definition rebuildPushReceiptCount :: "bool \<Rightarrow> time \<Rightarrow> push_tables \<Rightarrow> push_tables \<times> int" where
  "rebuildPushReceiptCount writable now t =
     (let ts = timestamp now; total = int (length (pt_receipts t)); expired = expired_count ts (pt_receipts t)
      in (if writable then t\<lparr>pt_stats := Some \<lparr>ps_total = total, ps_expired = expired, ps_checked_at = ts,
            ps_earliest = earliest_of (pt_receipts t)\<rparr>\<rparr> else t, total - expired))"

text \<open>How many receipts have expired, from the cached number when it can be used.\<close>

definition expired_now :: "int \<Rightarrow> push_stats \<Rightarrow> push_row list \<Rightarrow> int" where
  "expired_now ts s rs =
     (if ts < ps_checked_at s then expired_count ts rs
      else if ts > ps_checked_at s
      then ps_expired s + int (length (filter (\<lambda>r. pw_expires_at r > ps_checked_at s \<and> pw_expires_at r \<le> ts) rs))
      else ps_expired s)"

definition PushReceiptCount :: "bool \<Rightarrow> time \<Rightarrow> push_tables \<Rightarrow> push_tables \<times> int" where
  "PushReceiptCount writable now t =
     (case pt_stats t of
        None \<Rightarrow> rebuildPushReceiptCount writable now t
      | Some s \<Rightarrow>
          let ts = timestamp now in
          if ps_total s = 0 \<or> ts < ps_earliest s then (t, ps_total s)
          else
            let n = expired_now ts s (pt_receipts t) in
            (if writable \<and> (n \<noteq> ps_expired s \<or> ts < ps_checked_at s)
             then t\<lparr>pt_stats := Some (s\<lparr>ps_expired := n, ps_checked_at := ts\<rparr>)\<rparr> else t, ps_total s - n))"

definition PushUsage :: "push_tables \<Rightarrow> push_usage" where
  "PushUsage t = pt_usage t"

definition LastPush :: "string \<Rightarrow> string \<Rightarrow> push_tables \<Rightarrow> push_receipt result" where
  "LastPush lifetime watch t =
     (case map_of (pt_last t) watch of
        Some (l, r) \<Rightarrow> if l = lifetime then Inr r else Inl ErrNotFound
      | None \<Rightarrow> Inl ErrNotFound)"

text \<open>Deletion of receipts, one row at a time as the trigger sees it; retention deletes the
  expired ones.\<close>

fun delete_rows :: "(push_row \<Rightarrow> bool) \<Rightarrow> push_row list \<Rightarrow> push_row list \<Rightarrow> push_stats option \<Rightarrow> push_row list \<times> push_stats option" where
  "delete_rows P kept [] st = (kept, st)"
| "delete_rows P kept (r # rs) st =
     (if P r then delete_rows P kept rs (map_option (stats_delete (pw_expires_at r) (kept @ rs)) st)
      else delete_rows P (kept @ [r]) rs st)"

definition delete_receipts :: "(push_row \<Rightarrow> bool) \<Rightarrow> push_tables \<Rightarrow> push_tables" where
  "delete_receipts P t = (let (rs, st) = delete_rows P [] (pt_receipts t) (pt_stats t) in t\<lparr>pt_receipts := rs, pt_stats := st\<rparr>)"

definition retain_receipts :: "time \<Rightarrow> push_tables \<Rightarrow> push_tables" where
  "retain_receipts now t = delete_receipts (\<lambda>r. pw_expires_at r \<le> timestamp now) t"

section \<open>The cached count\<close>

definition stats_ok :: "push_row list \<Rightarrow> push_stats \<Rightarrow> bool" where
  "stats_ok rs s \<longleftrightarrow> ps_total s = int (length rs) \<and> ps_expired s = expired_count (ps_checked_at s) rs \<and>
     (rs \<noteq> [] \<longrightarrow> ps_earliest s = earliest_of rs)"

definition push_ok :: "push_tables \<Rightarrow> bool" where
  "push_ok t \<longleftrightarrow> distinct (map pw_key (pt_receipts t)) \<and>
     (case pt_stats t of None \<Rightarrow> True | Some s \<Rightarrow> stats_ok (pt_receipts t) s)"

lemma expired_count_simps [simp]:
  "expired_count a [] = 0"
  "expired_count a (r # rs) = (if pw_expires_at r \<le> a then 1 else 0) + expired_count a rs"
  "expired_count a (rs @ qs) = expired_count a rs + expired_count a qs"
  by (auto simp: expired_count_def)

lemma expired_count_range: "0 \<le> expired_count a rs \<and> expired_count a rs \<le> int (length rs)"
  by (induction rs) auto

lemma earliest_of_le: "r \<in> set rs \<Longrightarrow> earliest_of rs \<le> pw_expires_at r"
  by (auto simp: earliest_of_def)

lemma earliest_of_snoc: "rs \<noteq> [] \<Longrightarrow> earliest_of (rs @ [r]) = min (earliest_of rs) (pw_expires_at r)"
  by (simp add: earliest_of_def min.commute)

lemma before_earliest: "a < earliest_of rs \<Longrightarrow> expired_count a rs = 0"
  using earliest_of_le by (fastforce simp: expired_count_def filter_empty_conv)

lemma stats_ok_insert: "stats_ok rs s \<Longrightarrow> stats_ok (rs @ [row]) (stats_insert (pw_expires_at row) s)"
  by (cases "rs = []") (auto simp: stats_ok_def stats_insert_def expired_by_def earliest_of_snoc earliest_of_def)

lemma stats_ok_delete:
  "stats_ok (kept @ r # rs) s \<Longrightarrow> stats_ok (kept @ rs) (stats_delete (pw_expires_at r) (kept @ rs) s)"
  by (auto simp: stats_ok_def stats_delete_def expired_by_def)

lemma find_split:
  "find P xs = Some y \<Longrightarrow> \<exists>us vs. xs = us @ y # vs \<and> P y \<and> (\<forall>u \<in> set us. \<not> P u)"
proof (induction xs)
  case (Cons x xs)
  show ?case
  proof (cases "P x")
    case True
    then have "x # xs = [] @ y # xs" "P y" using Cons.prems by auto
    then show ?thesis by (metis empty_iff empty_set)
  next
    case False
    then obtain us vs where "xs = us @ y # vs" "P y" "\<forall>u \<in> set us. \<not> P u" using Cons by auto
    then have "x # xs = (x # us) @ y # vs" "P y" "\<forall>u \<in> set (x # us). \<not> P u" using False by auto
    then show ?thesis by blast
  qed
qed simp

lemma replace_receipt_split:
  assumes "distinct (map pw_key rs)" "find_receipt (pw_key row) rs = Some old"
  obtains xs ys where "rs = xs @ old # ys" "replace_receipt row rs = xs @ row # ys"
proof -
  obtain xs ys where rs: "rs = xs @ old # ys" "pw_key old = pw_key row" "\<forall>x \<in> set xs. pw_key x \<noteq> pw_key row"
    using find_split assms(2) unfolding find_receipt_def by fast
  moreover have "\<forall>y \<in> set ys. pw_key y \<noteq> pw_key row" using assms(1) rs(1,2) by (auto simp: image_iff)
  ultimately have "replace_receipt row rs = xs @ row # ys" by (auto simp: replace_receipt_def intro!: map_idI)
  with rs(1) show thesis by (rule that)
qed

lemma replace_receipt_keys [simp]: "map pw_key (replace_receipt row rs) = map pw_key rs"
  by (simp add: replace_receipt_def)

lemma stats_ok_expiry:
  assumes "stats_ok rs s" "distinct (map pw_key rs)" "find_receipt (pw_key row) rs = Some old"
  shows "stats_ok (replace_receipt row rs) (stats_expiry (pw_expires_at old) (pw_expires_at row) (replace_receipt row rs) s)"
proof -
  obtain xs ys where "rs = xs @ old # ys" "replace_receipt row rs = xs @ row # ys"
    using assms(2,3) by (rule replace_receipt_split)
  then show ?thesis using assms(1) by (auto simp: stats_ok_def stats_expiry_def expired_by_def earliest_of_def)
qed

lemma upsert_ok:
  assumes "push_ok t"
  shows "push_ok (upsert_receipt row t)"
proof (cases "find_receipt (pw_key row) (pt_receipts t)")
  case None
  then have "pw_key row \<notin> pw_key ` set (pt_receipts t)" by (auto simp: find_receipt_def find_None_iff)
  then show ?thesis using None assms by (auto simp: push_ok_def upsert_receipt_def stats_ok_insert split: option.splits)
next
  case (Some old)
  then show ?thesis using assms by (auto simp: push_ok_def upsert_receipt_def Let_def stats_ok_expiry split: option.splits)
qed

lemma delete_rows_keys: "fst (delete_rows P kept rs st) = kept @ filter (\<lambda>r. \<not> P r) rs"
  by (induction P kept rs st rule: delete_rows.induct) auto

lemma delete_rows_ok:
  assumes "\<And>s. st = Some s \<Longrightarrow> stats_ok (kept @ rs) s" "delete_rows P kept rs st = (qs, Some s')"
  shows "stats_ok qs s'"
  using assms
proof (induction P kept rs st rule: delete_rows.induct)
  case (2 P kept r rs st)
  then show ?case by (cases st) (auto simp: stats_ok_delete split: if_splits)
qed simp

lemma delete_receipts_ok: "push_ok t \<Longrightarrow> push_ok (delete_receipts P t)"
  using delete_rows_keys [of P "[]" "pt_receipts t" "pt_stats t"]
    delete_rows_ok [of "pt_stats t" "[]" "pt_receipts t" P]
  by (auto simp: push_ok_def delete_receipts_def distinct_map_filter split: option.splits prod.splits)

lemma expired_now_exact: "stats_ok rs s \<Longrightarrow> expired_now a s rs = expired_count a rs"
proof -
  have "int (length (filter (\<lambda>r. pw_expires_at r \<le> c) rs)) + int (length (filter (\<lambda>r. pw_expires_at r > c \<and> pw_expires_at r \<le> a) rs))
      = int (length (filter (\<lambda>r. pw_expires_at r \<le> a) rs))" if "c < a" for c
    using that by (induction rs) auto
  then show "stats_ok rs s \<Longrightarrow> ?thesis" by (auto simp: expired_now_def stats_ok_def expired_count_def)
qed

lemma in_force_count: "int (length rs) - expired_count a rs = int (length (filter (\<lambda>r. pw_expires_at r > a) rs))"
  by (induction rs) auto

lemma count_exact:
  assumes "push_ok t"
  shows "snd (PushReceiptCount w now t) = int (length (filter (\<lambda>r. pw_expires_at r > timestamp now) (pt_receipts t)))"
proof (cases "pt_stats t")
  case None
  then show ?thesis by (simp add: PushReceiptCount_def rebuildPushReceiptCount_def Let_def in_force_count)
next
  case (Some s)
  then have ok: "stats_ok (pt_receipts t) s" using assms by (simp add: push_ok_def)
  have "expired_count (timestamp now) (pt_receipts t) = 0" if "ps_total s = 0 \<or> timestamp now < ps_earliest s"
  proof (cases "pt_receipts t = []")
    case False
    then have "timestamp now < earliest_of (pt_receipts t)" using that ok by (auto simp: stats_ok_def)
    then show ?thesis by (rule before_earliest)
  qed simp
  then show ?thesis
    using Some ok in_force_count [of "pt_receipts t" "timestamp now"]
    by (auto simp: PushReceiptCount_def Let_def expired_now_exact stats_ok_def)
qed

lemma count_ok: "push_ok t \<Longrightarrow> push_ok (fst (PushReceiptCount w now t))"
  by (auto simp: PushReceiptCount_def rebuildPushReceiptCount_def Let_def push_ok_def stats_ok_def expired_now_exact
      split: option.splits)

lemma count_keeps_receipts [simp]:
  "pt_receipts (fst (PushReceiptCount w now t)) = pt_receipts t"
  "pt_last (fst (PushReceiptCount w now t)) = pt_last t"
  "pt_usage (fst (PushReceiptCount w now t)) = pt_usage t"
  by (auto simp: PushReceiptCount_def rebuildPushReceiptCount_def Let_def split: option.splits)

lemma reader_changes_nothing: "fst (PushReceiptCount False now t) = t"
  by (auto simp: PushReceiptCount_def rebuildPushReceiptCount_def Let_def split: option.splits)

lemma push_ok_fields: "pt_receipts u = pt_receipts t \<Longrightarrow> pt_stats u = pt_stats t \<Longrightarrow> push_ok u = push_ok t"
  by (simp add: push_ok_def split: option.split)

lemma save_ok:
  assumes "push_ok t"
  shows "push_ok (SavePushReceipt k digest receipt bytes obs t)"
proof -
  let ?row = "\<lparr>pw_key = k, pw_digest = digest, pw_body = receipt, pw_expires_at = timestamp (pr_expires_at receipt)\<rparr>"
  have "push_ok (upsert_receipt ?row t)" using assms by (rule upsert_ok)
  moreover have "push_ok (SavePushReceipt k digest receipt bytes obs t) = push_ok (upsert_receipt ?row t)"
    by (rule push_ok_fields) (simp_all add: SavePushReceipt_def Let_def)
  ultimately show ?thesis by simp
qed

section \<open>Histories\<close>

text \<open>What transactions do to the receipts: save one, delete some, count with any clock, or lose the
  cached row.\<close>

inductive push_run :: "push_tables \<Rightarrow> push_tables \<Rightarrow> bool" where
  start: "push_run t t"
| saved: "push_run t u \<Longrightarrow> push_run t (SavePushReceipt k digest receipt bytes obs u)"
| deleted: "push_run t u \<Longrightarrow> push_run t (delete_receipts P u)"
| counted: "push_run t u \<Longrightarrow> push_run t (fst (PushReceiptCount w now u))"
| uncached: "push_run t u \<Longrightarrow> push_run t (u\<lparr>pt_stats := None\<rparr>)"

lemma push_run_ok: "push_run t u \<Longrightarrow> push_ok t \<Longrightarrow> push_ok u"
proof (induction rule: push_run.induct)
  case (uncached t u)
  then show ?case by (simp add: push_ok_def)
qed (simp_all add: save_ok delete_receipts_ok count_ok)

lemma empty_push_ok: "push_ok empty_push"
  by (simp add: push_ok_def empty_push_def stats_ok_def)

text \<open>C37: the cached number of receipts is exact. After any history of saves, deletions, counts with
  clocks that run forward or jump back, and losses of the cache, \<open>PushReceiptCount\<close> returns the
  number of stored receipts that have not expired, changes no receipt, and changes nothing at all
  in a reading transaction.\<close>

theorem push_count_exact:
  assumes "push_run empty_push t"
  shows "snd (PushReceiptCount w now t) = int (length (filter (\<lambda>r. timestamp now < pw_expires_at r) (pt_receipts t))) \<and>
    pt_receipts (fst (PushReceiptCount w now t)) = pt_receipts t \<and> fst (PushReceiptCount False now t) = t"
  using count_exact [OF push_run_ok [OF assms empty_push_ok]] reader_changes_nothing by simp

definition ex_receipt :: "string \<Rightarrow> time \<Rightarrow> push_receipt" where
  "ex_receipt name expires = \<lparr>pr_acceptance_id = name, pr_watch_id = ''orders'', pr_generation = 1, pr_revision = ''r1'',
     pr_first = 1, pr_last = 1, pr_duplicate = False, pr_accepted_at = 1, pr_expires_at = expires\<rparr>"

definition ex_push :: push_tables where
  "ex_push = SavePushReceipt (''life'', ''shop'', ''k2'') ''d2'' (ex_receipt ''b'' 200) 10 1
     (fst (PushReceiptCount True 150 (SavePushReceipt (''life'', ''shop'', ''k1'') ''d1'' (ex_receipt ''a'' 100) 10 1 empty_push)))"

theorem push_count_exact_witness:
  "snd (PushReceiptCount True 50 ex_push) = 2 \<and> snd (PushReceiptCount True 150 ex_push) = 1 \<and>
   snd (PushReceiptCount True 200 ex_push) = 0"
proof -
  have "push_run empty_push ex_push" unfolding ex_push_def by (intro push_run.intros)
  note exact = push_count_exact [OF this, of True, THEN conjunct1]
  have "int (length (filter (\<lambda>r. timestamp 50 < pw_expires_at r) (pt_receipts ex_push))) = 2 \<and>
    int (length (filter (\<lambda>r. timestamp 150 < pw_expires_at r) (pt_receipts ex_push))) = 1 \<and>
    int (length (filter (\<lambda>r. timestamp 200 < pw_expires_at r) (pt_receipts ex_push))) = 0"
    by code_simp
  then show ?thesis by (simp only: exact)
qed

section \<open>Idempotency keys\<close>

lemma find_filter_none: "(\<And>x. x \<in> set xs \<Longrightarrow> \<not> P x) \<Longrightarrow> find P (filter Q xs) = None"
  by (auto simp: find_None_iff)

lemma find_replaced:
  "find_receipt k (filter Q (replace_receipt row rs)) =
     (if k = pw_key row
      then (if Q row \<and> (\<exists>r \<in> set rs. pw_key r = k) then Some row else None)
      else find_receipt k (filter Q rs))"
  by (induction rs) (auto simp: find_receipt_def replace_receipt_def)

lemma find_receipt_appended:
  "find_receipt k (rs @ [row]) =
     (case find_receipt k rs of Some r \<Rightarrow> Some r | None \<Rightarrow> if pw_key row = k then Some row else None)"
  by (induction rs) (auto simp: find_receipt_def)

lemma find_upserted:
  "find_receipt k (filter Q (pt_receipts (upsert_receipt row t))) =
     (if k = pw_key row then (if Q row then Some row else None) else find_receipt k (filter Q (pt_receipts t)))"
proof (cases "find_receipt (pw_key row) (pt_receipts t)")
  case None
  then have "find_receipt (pw_key row) (filter Q (pt_receipts t)) = None"
    by (auto simp: find_receipt_def find_None_iff)
  then show ?thesis using None by (auto simp: upsert_receipt_def find_receipt_appended split: option.split)
next
  case (Some old)
  then have "\<exists>r \<in> set (pt_receipts t). pw_key r = pw_key row" by (auto simp: find_receipt_def find_Some_iff)
  then show ?thesis using Some by (auto simp: upsert_receipt_def Let_def find_replaced)
qed

lemma PushReceipt_saved:
  "PushReceipt k' digest' now (SavePushReceipt k digest receipt bytes obs t) =
     (if k' \<noteq> k then PushReceipt k' digest' now t
      else if timestamp (pr_expires_at receipt) \<le> timestamp now then Inl ErrNotFound
      else if digest' \<noteq> digest then Inl ErrIdempotency
      else Inr (receipt\<lparr>pr_duplicate := True\<rparr>))"
  by (auto simp: PushReceipt_def SavePushReceipt_def Let_def find_upserted)

text \<open>A saved receipt is an idempotency key until it expires. Asking again with the same key and
  digest returns the saved receipt, marked as a duplicate; the same key with other request bytes is
  refused; after the expiry the key is free again; and no other key is affected.\<close>

theorem receipt_is_idempotency_key:
  "PushReceipt k' digest' now (SavePushReceipt k digest receipt bytes obs t) =
     (if k' \<noteq> k then PushReceipt k' digest' now t
      else if timestamp (pr_expires_at receipt) \<le> timestamp now then Inl ErrNotFound
      else if digest' \<noteq> digest then Inl ErrIdempotency
      else Inr (receipt\<lparr>pr_duplicate := True\<rparr>))"
  by (rule PushReceipt_saved)

text \<open>Retention never forgets a key that is still in force.\<close>

lemma retained_key_kept:
  assumes "timestamp now \<le> timestamp later'"
  shows "PushReceipt k digest later' (retain_receipts now t) = PushReceipt k digest later' t"
proof -
  have f: "filter (\<lambda>r. timestamp later' < pw_expires_at r) (filter (\<lambda>r. \<not> pw_expires_at r \<le> timestamp now) rs)
      = filter (\<lambda>r. timestamp later' < pw_expires_at r) rs" for rs
    using assms by (induction rs) auto
  have rs: "pt_receipts (retain_receipts now t) = filter (\<lambda>r. \<not> pw_expires_at r \<le> timestamp now) (pt_receipts t)"
    using delete_rows_keys [of "\<lambda>r. pw_expires_at r \<le> timestamp now" "[]" "pt_receipts t" "pt_stats t"]
    by (auto simp: retain_receipts_def delete_receipts_def split: prod.splits)
  show ?thesis unfolding PushReceipt_def rs f by (rule refl)
qed

end
