(* ===== verification/Store_State.thy ===== *)
theory Store_State
  imports Keyed_Table Push_Receipts Transition
begin

text \<open>
  Package \<open>store\<close>: the tables behind the runtime and the operations of a transaction on them
  (\<open>records.go\<close>, \<open>lifecycle.go\<close>, \<open>runtime.go\<close>, \<open>entity_batch.go\<close>, \<open>entity_subset.go\<close>,
  \<open>entity_pins.go\<close>, \<open>observation_batch.go\<close> and the replay checkpoints of \<open>inspection.go\<close>), in the
  SQLite dialect with the keys and references of the schema. JSON columns hold the values they
  encode. A transaction is a function from the database to a result, so a failure keeps the
  database as it was.
\<close>

section \<open>Tables\<close>

record watch_record =
  wr_lifetime :: string
  wr_plan :: compiled
  wr_generation :: int
  wr_status :: string
  wr_next_at :: time
  wr_cursor :: string
  wr_last_input_at :: time
  wr_last_error :: string

record watch_row =
  wt_revision :: string
  wt_generation :: int
  wt_status :: string
  wt_next_at :: int
  wt_cursor :: string
  wt_last_input_at :: int
  wt_last_error :: string
  wt_lifetime :: string

record revision_row =
  rr_fingerprint :: string
  rr_definition :: definition_rec
  rr_created_at :: int

record observation_row =
  oo_watch_id :: string
  oo_revision :: string
  oo_generation :: int
  oo_input_id :: string
  oo_accepted_at :: int
  oo_body :: observation

record entity_row =
  er_revision :: string
  er_state :: cstate
  er_updated_at :: int

record timer =
  tm_watch_id :: string
  tm_entity :: string
  tm_kind :: string
  tm_generation :: int
  tm_due :: time
  tm_body :: string

record timer_row =
  tw_generation :: int
  tw_due_at :: int
  tw_body :: string

record receipt_row =
  rc_first :: int
  rc_last :: int
  rc_expires_at :: int

record checkpoint =
  cp_prior :: cstate
  cp_input :: observation
  cp_source_recovered :: bool

type_synonym entity_key = "string \<times> string"
type_synonym pin = "string \<times> string"

record db =
  db_purged :: "string list"
  db_revisions :: "((string \<times> string) \<times> revision_row) list"
  db_watches :: "(string \<times> watch_row) list"
  db_observations :: "(int \<times> observation_row) list"
  db_observation_sequence :: int
  db_receipts :: "((string \<times> int \<times> string) \<times> receipt_row) list"
  db_entities :: "(entity_key \<times> entity_row) list"
  db_pins :: "((entity_key \<times> pin) \<times> unit) list"
  db_timers :: "((string \<times> string \<times> string) \<times> timer_row) list"
  db_events :: "(int \<times> event) list"
  db_event_sequence :: int
  db_evidence :: "(string \<times> int) list"
  db_replays :: "(string \<times> checkpoint) list"
  db_outbox :: outbox_tables
  db_push :: push_tables

definition empty_db :: db where
  "empty_db = \<lparr>db_purged = [], db_revisions = [], db_watches = [], db_observations = [], db_observation_sequence = 0,
     db_receipts = [], db_entities = [], db_pins = [], db_timers = [], db_events = [], db_event_sequence = 0,
     db_evidence = [], db_replays = [], db_outbox = empty_tables, db_push = empty_push\<rparr>"

abbreviation unique_error :: err where "unique_error \<equiv> Err ''UNIQUE constraint failed''"
abbreviation foreign_key_error :: err where "foreign_key_error \<equiv> Err ''FOREIGN KEY constraint failed''"

section \<open>Watches\<close>

definition scanWatch :: "watch_row \<Rightarrow> revision_row \<Rightarrow> watch_record" where
  "scanWatch w r =
     \<lparr>wr_lifetime = wt_lifetime w,
      wr_plan = \<lparr>cd_definition = rr_definition r, cd_revision = wt_revision w, cd_fingerprint = rr_fingerprint r,
        cd_permissions = ExecutionPermissions (src_type (s_source (d_spec (rr_definition r))))\<rparr>,
      wr_generation = wt_generation w, wr_status = wt_status w, wr_next_at = instant (wt_next_at w),
      wr_cursor = wt_cursor w, wr_last_input_at = instant (wt_last_input_at w), wr_last_error = wt_last_error w\<rparr>"

definition Watch :: "db \<Rightarrow> string \<Rightarrow> watch_record result" where
  "Watch d ident =
     (case map_of (db_watches d) ident of
        None \<Rightarrow> Inl ErrNotFound
      | Some w \<Rightarrow>
          (case map_of (db_revisions d) (ident, wt_revision w) of
             None \<Rightarrow> Inl ErrNotFound
           | Some r \<Rightarrow> Inr (scanWatch w r)))"

definition Watches :: "db \<Rightarrow> watch_record list" where
  "Watches d = concat (map (\<lambda>(ident, _). case Watch d ident of Inr r \<Rightarrow> [r] | Inl _ \<Rightarrow> []) (db_watches d))"

text \<open>The lifetime of a stored watch changes only when a deleted watch is brought back.\<close>

definition watch_upsert :: "watch_row \<Rightarrow> watch_row option \<Rightarrow> watch_row" where
  "watch_upsert new old =
     (case old of
        None \<Rightarrow> new
      | Some w \<Rightarrow> if wt_status w = ''deleted'' \<and> wt_status new \<noteq> ''deleted'' then new else new\<lparr>wt_lifetime := wt_lifetime w\<rparr>)"

definition SaveWatch :: "compile_env \<Rightarrow> watch_record \<Rightarrow> string \<Rightarrow> time \<Rightarrow> db \<Rightarrow> db result" where
  "SaveWatch env r lifetime now d =
     (if md_id (d_metadata (cd_definition (wr_plan r))) \<in> set (db_purged d)
      then Inl (Err ''permanently deleted watch IDs cannot be reused; use a new watch ID'')
      else bindE (Compile env (cd_definition (wr_plan r))) (\<lambda>c.
        if cd_revision c \<noteq> cd_revision (wr_plan r) \<or> cd_fingerprint c \<noteq> cd_fingerprint (wr_plan r) \<or> wr_generation r < 1
        then Inl (Err ''invalid compiled watch metadata'')
        else if wr_status r \<notin> {''running'', ''paused'', ''deleted''} then Inl (Err ''CHECK constraint failed'')
        else
          let ident = md_id (d_metadata (cd_definition c)); key = (ident, cd_revision c);
              revisions = (if map_of (db_revisions d) key = None
                then tbl_put key \<lparr>rr_fingerprint = cd_fingerprint c, rr_definition = cd_definition c, rr_created_at = timestamp now\<rparr> (db_revisions d)
                else db_revisions d);
              row = \<lparr>wt_revision = cd_revision c, wt_generation = wr_generation r, wt_status = wr_status r,
                wt_next_at = timestamp (wr_next_at r), wt_cursor = wr_cursor r, wt_last_input_at = timestamp (wr_last_input_at r),
                wt_last_error = wr_last_error r, wt_lifetime = lifetime\<rparr>
          in Inr (d\<lparr>db_revisions := revisions,
               db_watches := tbl_put ident (watch_upsert row (map_of (db_watches d) ident)) (db_watches d)\<rparr>)))"

text \<open>A result is recorded only for the generation it was acquired for, while the watch runs.\<close>

definition Checkpoint :: "string \<Rightarrow> int \<Rightarrow> time \<Rightarrow> time \<Rightarrow> string \<Rightarrow> db \<Rightarrow> db result" where
  "Checkpoint ident generation nextAt lastAt cursor d =
     (case map_of (db_watches d) ident of
        Some w \<Rightarrow>
          if wt_generation w = generation \<and> wt_status w = ''running''
          then Inr (d\<lparr>db_watches := tbl_put ident (w\<lparr>wt_next_at := timestamp nextAt, wt_last_input_at := timestamp lastAt,
                 wt_cursor := cursor, wt_last_error := ''''\<rparr>) (db_watches d)\<rparr>)
          else Inl ErrStale
      | None \<Rightarrow> Inl ErrStale)"

definition LastError :: "string \<Rightarrow> int \<Rightarrow> string \<Rightarrow> time \<Rightarrow> db \<Rightarrow> db" where
  "LastError ident generation detail nx d =
     (case map_of (db_watches d) ident of
        Some w \<Rightarrow>
          if wt_generation w = generation
          then d\<lparr>db_watches := tbl_put ident (if is_zero nx then w\<lparr>wt_last_error := detail\<rparr>
                 else w\<lparr>wt_last_error := detail, wt_next_at := timestamp nx\<rparr>) (db_watches d)\<rparr>
          else d
      | None \<Rightarrow> d)"

section \<open>Observations\<close>

definition input_seen :: "db \<Rightarrow> string \<Rightarrow> int \<Rightarrow> string \<Rightarrow> bool" where
  "input_seen d ident generation input \<longleftrightarrow>
     list_ex (\<lambda>(_, r). oo_watch_id r = ident \<and> oo_generation r = generation \<and> oo_input_id r = input) (db_observations d)"

definition AppendObservation :: "string \<Rightarrow> string \<Rightarrow> int \<Rightarrow> observation \<Rightarrow> db \<Rightarrow> (db \<times> int) result" where
  "AppendObservation ident revision generation ob d =
     (if input_seen d ident generation (o_input_id ob) then Inl unique_error
      else if map_of (db_revisions d) (ident, revision) = None then Inl foreign_key_error
      else
        let s = db_observation_sequence d + 1 in
        Inr (d\<lparr>db_observations := db_observations d @ [(s, \<lparr>oo_watch_id = ident, oo_revision = revision, oo_generation = generation,
                 oo_input_id = o_input_id ob, oo_accepted_at = timestamp (o_accepted_at ob), oo_body = ob\<rparr>)],
               db_observation_sequence := s\<rparr>, s))"

fun AppendObservations :: "string \<Rightarrow> string \<Rightarrow> int \<Rightarrow> observation list \<Rightarrow> db \<Rightarrow> (db \<times> int list) result" where
  "AppendObservations ident revision generation [] d = Inr (d, [])"
| "AppendObservations ident revision generation (ob # obs) d =
     bindE (AppendObservation ident revision generation ob d) (\<lambda>(d1, s).
     bindE (AppendObservations ident revision generation obs d1) (\<lambda>(d2, ss). Inr (d2, s # ss)))"

text \<open>The stored body with the sequence the table gave it.\<close>

fun Observations :: "db \<Rightarrow> string \<Rightarrow> int list \<Rightarrow> observation list result" where
  "Observations d ident [] = Inr []"
| "Observations d ident (s # ss) =
     (case map_of (db_observations d) s of
        Some r \<Rightarrow>
          if oo_watch_id r = ident
          then bindE (Observations d ident ss) (\<lambda>os. Inr ((oo_body r)\<lparr>o_sequence := s\<rparr> # os))
          else Inl ErrNotFound
      | None \<Rightarrow> Inl ErrNotFound)"

section \<open>Entity state\<close>

text \<open>What a state refers to, so that retention keeps it.\<close>

definition entityReferences :: "cstate \<Rightarrow> pin list" where
  "entityReferences st =
     map (\<lambda>s. (''input'', show_int s))
       (filter (\<lambda>s. s > 0) (evidence st @ [last_sequence st, fresh_sequence st, baseline_sequence st] @ map sm_sequence (samples st)))
     @ map (\<lambda>e. (''event'', e)) (filter (\<lambda>e. e \<noteq> '''') [incident_event st, health_event st])"

text \<open>Pins that are not wanted any more are deleted, missing ones inserted.\<close>

definition syncEntityPins :: "entity_key \<Rightarrow> cstate \<Rightarrow> ((entity_key \<times> pin) \<times> unit) list \<Rightarrow> ((entity_key \<times> pin) \<times> unit) list" where
  "syncEntityPins key st pins =
     (let wanted = entityReferences st;
          kept = filter (\<lambda>((k, p), _). k = key \<longrightarrow> p \<in> set wanted) pins
      in fold (\<lambda>p t. if map_of kept (key, p) = None then tbl_put (key, p) () t else t) wanted kept)"

definition saveEntityData :: "string \<Rightarrow> string \<Rightarrow> string \<Rightarrow> cstate \<Rightarrow> time \<Rightarrow> db \<Rightarrow> db result" where
  "saveEntityData ident key revision st now d =
     (if map_of (db_revisions d) (ident, revision) = None then Inl foreign_key_error
      else Inr (d\<lparr>db_entities := tbl_put (ident, key) \<lparr>er_revision = revision, er_state = st, er_updated_at = timestamp now\<rparr> (db_entities d),
             db_pins := syncEntityPins (ident, key) st (db_pins d)\<rparr>))"

fun save_all :: "string \<Rightarrow> string \<Rightarrow> time \<Rightarrow> (string \<times> cstate) list \<Rightarrow> db \<Rightarrow> db result" where
  "save_all ident revision now [] d = Inr d"
| "save_all ident revision now ((key, st) # rest) d =
     bindE (saveEntityData ident key revision st now d) (save_all ident revision now rest)"

definition SaveEntities :: "string \<Rightarrow> string \<Rightarrow> (string \<times> cstate) list \<Rightarrow> time \<Rightarrow> db \<Rightarrow> db result" where
  "SaveEntities ident revision states now d = save_all ident revision now (sort_key fst states) d"

definition Entity :: "db \<Rightarrow> string \<Rightarrow> string \<Rightarrow> cstate option" where
  "Entity d ident key = map_option er_state (map_of (db_entities d) (ident, key))"

definition Entities :: "db \<Rightarrow> string \<Rightarrow> (string \<times> cstate) list" where
  "Entities d ident = map (\<lambda>((_, key), r). (key, er_state r)) (filter (\<lambda>((w, _), _). w = ident) (db_entities d))"

definition EntitySubset :: "db \<Rightarrow> string \<Rightarrow> string list \<Rightarrow> (string \<times> cstate) list" where
  "EntitySubset d ident keys = filter (\<lambda>(key, _). key \<in> set keys) (Entities d ident)"

definition EntityCount :: "db \<Rightarrow> string \<Rightarrow> int" where
  "EntityCount d ident = int (length (filter (\<lambda>((w, _), _). w = ident) (db_entities d)))"

text \<open>Deleting an entity deletes its pins.\<close>

definition DeleteEntity :: "string \<Rightarrow> string \<Rightarrow> db \<Rightarrow> db" where
  "DeleteEntity ident key d =
     d\<lparr>db_entities := tbl_del (ident, key) (db_entities d), db_pins := filter (\<lambda>((k, _), _). k \<noteq> (ident, key)) (db_pins d)\<rparr>"

section \<open>Timers and receipts\<close>

text \<open>An empty body stands for an empty object; \<open>valid\<close> is \<open>json.Valid\<close>.\<close>

definition SaveTimer :: "(string \<Rightarrow> bool) \<Rightarrow> timer \<Rightarrow> db \<Rightarrow> db result" where
  "SaveTimer valid tm d =
     (if tm_body tm \<noteq> '''' \<and> \<not> valid (tm_body tm) then Inl (Err ''invalid timer body'')
      else if map_of (db_watches d) (tm_watch_id tm) = None then Inl foreign_key_error
      else Inr (d\<lparr>db_timers := tbl_put (tm_watch_id tm, tm_entity tm, tm_kind tm)
             \<lparr>tw_generation = tm_generation tm, tw_due_at = timestamp (tm_due tm),
              tw_body = (if tm_body tm = '''' then ''{}'' else tm_body tm)\<rparr> (db_timers d)\<rparr>))"

definition timer_of :: "(string \<times> string \<times> string) \<times> timer_row \<Rightarrow> timer" where
  "timer_of r = (case r of ((w, e, k), t) \<Rightarrow>
     \<lparr>tm_watch_id = w, tm_entity = e, tm_kind = k, tm_generation = tw_generation t, tm_due = instant (tw_due_at t), tm_body = tw_body t\<rparr>)"

definition Timer :: "db \<Rightarrow> string \<Rightarrow> string \<Rightarrow> string \<Rightarrow> timer result" where
  "Timer d ident key kind =
     (case map_of (db_timers d) (ident, key, kind) of
        None \<Rightarrow> Inl ErrNotFound
      | Some t \<Rightarrow> Inr (timer_of ((ident, key, kind), t)))"

definition DeleteTimer :: "timer \<Rightarrow> db \<Rightarrow> db" where
  "DeleteTimer tm d =
     (let key = (tm_watch_id tm, tm_entity tm, tm_kind tm) in
      d\<lparr>db_timers := (case map_of (db_timers d) key of
          Some t \<Rightarrow> if tw_generation t = tm_generation tm \<and> tw_due_at t = timestamp (tm_due tm) then tbl_del key (db_timers d) else db_timers d
        | None \<Rightarrow> db_timers d)\<rparr>)"

definition DeleteTimers :: "string \<Rightarrow> db \<Rightarrow> db" where
  "DeleteTimers ident d = d\<lparr>db_timers := filter (\<lambda>((w, _), _). w \<noteq> ident) (db_timers d)\<rparr>"

definition timer_due :: "db \<Rightarrow> int \<Rightarrow> (string \<times> string \<times> string) \<times> timer_row \<Rightarrow> bool" where
  "timer_due d now r =
     (case map_of (db_watches d) (fst (fst r)) of
        Some w \<Rightarrow> wt_status w = ''running'' \<and> tw_generation (snd r) = wt_generation w \<and> tw_due_at (snd r) \<le> now
      | None \<Rightarrow> False)"

definition DueTimers :: "db \<Rightarrow> time \<Rightarrow> int \<Rightarrow> timer list result" where
  "DueTimers d now limit =
     (if limit < 1 \<or> limit > 1000 then Inl (Err ''invalid timer limit'')
      else Inr (map timer_of (take (nat limit)
        (sort_key (\<lambda>((w, e, _), t). (tw_due_at t, w, e)) (filter (timer_due d (timestamp now)) (db_timers d))))))"

definition Receipt :: "db \<Rightarrow> string \<Rightarrow> int \<Rightarrow> string \<Rightarrow> time \<Rightarrow> (int \<times> int) result" where
  "Receipt d ident generation input now =
     (case map_of (db_receipts d) (ident, generation, input) of
        Some r \<Rightarrow> if rc_expires_at r > timestamp now then Inr (rc_first r, rc_last r) else Inl ErrNotFound
      | None \<Rightarrow> Inl ErrNotFound)"

definition SaveReceipt :: "string \<Rightarrow> int \<Rightarrow> string \<Rightarrow> int \<Rightarrow> int \<Rightarrow> time \<Rightarrow> db \<Rightarrow> db result" where
  "SaveReceipt ident generation input first last' expires d =
     (if map_of (db_watches d) ident = None then Inl foreign_key_error
      else Inr (d\<lparr>db_receipts := tbl_put (ident, generation, input)
             \<lparr>rc_first = first, rc_last = last', rc_expires_at = timestamp expires\<rparr> (db_receipts d)\<rparr>))"

section \<open>State of a watch as a whole\<close>

definition ResetState :: "string \<Rightarrow> db \<Rightarrow> db" where
  "ResetState ident d =
     d\<lparr>db_entities := filter (\<lambda>((w, _), _). w \<noteq> ident) (db_entities d),
       db_pins := filter (\<lambda>(((w, _), _), _). w \<noteq> ident) (db_pins d),
       db_timers := filter (\<lambda>((w, _), _). w \<noteq> ident) (db_timers d),
       db_receipts := filter (\<lambda>((w, _), _). w \<noteq> ident) (db_receipts d)\<rparr>"

definition RevisionState :: "string \<Rightarrow> string \<Rightarrow> int \<Rightarrow> db \<Rightarrow> db" where
  "RevisionState ident revision generation d =
     d\<lparr>db_entities := map (\<lambda>((w, k), r). ((w, k), if w = ident then r\<lparr>er_revision := revision\<rparr> else r)) (db_entities d),
       db_timers := map (\<lambda>((w, k), t). ((w, k), if w = ident then t\<lparr>tw_generation := generation\<rparr> else t)) (db_timers d)\<rparr>"

section \<open>Events\<close>

fun add_evidence :: "string \<Rightarrow> int list \<Rightarrow> db \<Rightarrow> db result" where
  "add_evidence e [] d = Inr d"
| "add_evidence e (s # ss) d =
     (if (e, s) \<in> set (db_evidence d) then Inl unique_error
      else if map_of (db_observations d) s = None then Inl foreign_key_error
      else add_evidence e ss (d\<lparr>db_evidence := db_evidence d @ [(e, s)]\<rparr>))"

definition AppendEvent :: "event \<Rightarrow> db \<Rightarrow> (db \<times> int) result" where
  "AppendEvent e d =
     (if list_ex (\<lambda>(_, x). e_id x = e_id e) (db_events d) then Inl unique_error
      else if map_of (db_revisions d) (e_watch_id e, e_revision e) = None then Inl foreign_key_error
      else
        let s = db_event_sequence d + 1 in
        bindE (add_evidence (e_id e) (e_evidence e) (d\<lparr>db_events := db_events d @ [(s, e)], db_event_sequence := s\<rparr>)) (\<lambda>d1.
        Inr (d1, s)))"

text \<open>A page of events after a sequence, of one watch or of all.\<close>

definition Events :: "db \<Rightarrow> string \<Rightarrow> int \<Rightarrow> int \<Rightarrow> event list result" where
  "Events d ident after limit =
     (if limit < 1 \<or> limit > 1000 then Inl (Err ''event limit must be 1..1000'')
      else Inr (map (\<lambda>(s, e). e\<lparr>e_sequence := s\<rparr>) (take (nat limit)
        (filter (\<lambda>(s, e). s > after \<and> (ident = '''' \<or> e_watch_id e = ident)) (db_events d)))))"

definition SaveReplay :: "string \<Rightarrow> checkpoint \<Rightarrow> db \<Rightarrow> db result" where
  "SaveReplay e c d =
     (if map_of (db_replays d) e \<noteq> None then Inl unique_error
      else if \<not> list_ex (\<lambda>(_, x). e_id x = e) (db_events d) then Inl foreign_key_error
      else Inr (d\<lparr>db_replays := db_replays d @ [(e, c)]\<rparr>))"

definition Replay :: "db \<Rightarrow> string \<Rightarrow> checkpoint result" where
  "Replay d e = (case map_of (db_replays d) e of Some c \<Rightarrow> Inr c | None \<Rightarrow> Inl ErrNotFound)"

definition Pending :: "db \<Rightarrow> int" where
  "Pending d = int (length (filter live (ot_rows (db_outbox d))))"

text \<open>The outbox references the events.\<close>

definition db_enqueue :: "string \<Rightarrow> string \<Rightarrow> string \<Rightarrow> string \<Rightarrow> string \<Rightarrow> time \<Rightarrow> time \<Rightarrow> db \<Rightarrow> (db \<times> int) result" where
  "db_enqueue e ident dest rv payload next_at created d =
     (if \<not> list_ex (\<lambda>(_, x). e_id x = e) (db_events d) then Inl foreign_key_error
      else bindE (Enqueue e ident dest rv payload next_at created (db_outbox d)) (\<lambda>(ot, n). Inr (d\<lparr>db_outbox := ot\<rparr>, n)))"

end
