(* ===== verification/Acceptance.thy ===== *)
theory Acceptance
  imports Store_State
begin

text \<open>
  The acceptance of a batch of observations: \<open>App.acceptPush\<close> of package \<open>watchrun\<close>
  (\<open>app.go\<close>), with its entity cache (\<open>acceptance_entities.go\<close>), the events it appends and the
  deliveries it enqueues (\<open>appendEvent\<close> of \<open>lifecycle.go\<close>, \<open>appendEvaluated\<close> of
  \<open>inspection.go\<close>) and the time of the next poll (\<open>jitter.go\<close>). Parameters are the evaluator's
  runtime, the rendering of payloads, the JSON encoding of an observation, the live bytes of the
  database, the first eight bytes of a digest, and what the clock and the shutdown flag read.
\<close>

section \<open>Environment\<close>

record run_limits =
  rl_max_destinations :: int
  rl_max_watches :: int
  rl_max_pending :: int
  rl_max_bytes :: int
  rl_retention :: duration

definition DefaultLimits :: run_limits where
  "DefaultLimits = \<lparr>rl_max_destinations = 0, rl_max_watches = 1000, rl_max_pending = 10000, rl_max_bytes = 1073741824,
     rl_retention = 7 * 24 * hour\<rparr>"

record accept_env =
  av_runtime :: runtime_env
  av_compile :: compile_env
  av_render :: "string \<Rightarrow> event \<Rightarrow> string result"
  av_encode :: "observation \<Rightarrow> string option"
  av_json_valid :: "string \<Rightarrow> bool"
  av_bytes :: "db \<Rightarrow> int"
  av_digest64 :: "string \<Rightarrow> int"
  av_jitter :: duration
  av_limits :: run_limits
  av_closing :: bool                \<comment> \<open>read before the transaction\<close>
  av_closing_inside :: bool         \<comment> \<open>read inside it\<close>
  av_canceled :: bool

record batch =
  ba_expected_cursor :: "string option"
  ba_fresh_until :: time
  ba_entity :: string
  ba_deadline :: time
  ba_observations :: "observation list"
  ba_cursor :: string
  ba_retry_at :: time

record push_input =
  pi_valid_until :: time
  pi_producer :: string
  pi_key :: string
  pi_digest :: string
  pi_bytes :: int
  pi_max_receipts :: int
  pi_horizon :: duration

record receipt =
  re_first :: int
  re_last :: int
  re_duplicate :: bool

section \<open>Next poll\<close>

text \<open>The remainder of an unsigned number by a positive bound.\<close>

definition nextPoll :: "accept_env \<Rightarrow> time \<Rightarrow> duration \<Rightarrow> string \<Rightarrow> time" where
  "nextPoll env now interval ident =
     (let nx = now + interval in
      if av_jitter env \<le> 0 then nx
      else
        let bound = min (av_jitter env) (5 * second)
        in nx + av_digest64 env (ident @ ''/'' @ show_int now) mod bound)"

section \<open>Events and deliveries\<close>

fun enqueue_targets :: "accept_env \<Rightarrow> string \<Rightarrow> event \<Rightarrow> time \<Rightarrow> target list \<Rightarrow> db \<Rightarrow> db result" where
  "enqueue_targets env ident e now [] d = Inr d"
| "enqueue_targets env ident e now (tg # tgs) d =
     (if e_type e \<notin> set (t_events tg) then enqueue_targets env ident e now tgs d
      else if Pending d \<ge> rl_max_pending (av_limits env) then Inl ErrQuota
      else
        bindE (find_destination (av_compile env) (db_outbox d) (t_ref tg) '''') (\<lambda>dest.
        bindE (av_render env (ds_type (dest_spec (cds_definition dest))) e) (\<lambda>payload.
        bindE (db_enqueue (e_id e) ident (t_ref tg) (cds_revision dest) payload now now d) (\<lambda>(d1, _).
        enqueue_targets env ident e now tgs d1))))"

definition appendEvent :: "accept_env \<Rightarrow> watch_record \<Rightarrow> event \<Rightarrow> time \<Rightarrow> db \<Rightarrow> db result" where
  "appendEvent env r e now d =
     bindE (AppendEvent e d) (\<lambda>(d1, s).
     enqueue_targets env (md_id (d_metadata (cd_definition (wr_plan r)))) (e\<lparr>e_sequence := s\<rparr>) now
       (s_destinations (d_spec (cd_definition (wr_plan r)))) d1)"

text \<open>The checkpoint of a new-event firing keeps only the identifier that fired.\<close>

definition field_string :: "fields \<Rightarrow> string \<Rightarrow> string" where
  "field_string fs f = (case map_of fs f of Some (VStr s) \<Rightarrow> s | _ \<Rightarrow> '''')"

definition trim_checkpoint :: "watch_record \<Rightarrow> event \<Rightarrow> time \<Rightarrow> checkpoint \<Rightarrow> checkpoint" where
  "trim_checkpoint r e now c =
     (let sp = d_spec (cd_definition (wr_plan r)) in
      if c_operator (s_condition sp) = ''new-event'' \<and> e_type e = ''new-event'' \<and>
         int (length (filter (\<lambda>(_, expiry). now < expiry) (seen (cp_prior c)))) < l_max_samples (s_limits sp)
      then
        let ident = field_string (o_fields (cp_input c)) (c_field (s_condition sp)) in
        c\<lparr>cp_prior := (cp_prior c)\<lparr>seen := (case map_of (seen (cp_prior c)) ident of Some x \<Rightarrow> [(ident, x)] | None \<Rightarrow> [])\<rparr>\<rparr>
      else c)"

definition appendEvaluated :: "accept_env \<Rightarrow> watch_record \<Rightarrow> event \<Rightarrow> time \<Rightarrow> checkpoint \<Rightarrow> db \<Rightarrow> db result" where
  "appendEvaluated env r e now c d =
     bindE (appendEvent env r e now d) (SaveReplay (e_id e) (trim_checkpoint r e now c))"

fun append_all :: "accept_env \<Rightarrow> watch_record \<Rightarrow> event list \<Rightarrow> time \<Rightarrow> checkpoint \<Rightarrow> db \<Rightarrow> db result" where
  "append_all env r [] now c d = Inr d"
| "append_all env r (e # es) now c d = bindE (appendEvaluated env r e now c d) (append_all env r es now c)"

section \<open>The entity cache\<close>

record entity_cache =
  ec_states :: "(string \<times> cstate) list"
  ec_pending :: "(string \<times> cstate) list"
  ec_known :: "string list"
  ec_all :: bool
  ec_n :: int

definition newAcceptanceEntities :: entity_cache where
  "newAcceptanceEntities = \<lparr>ec_states = [], ec_pending = [], ec_known = [], ec_all = False, ec_n = -1\<rparr>"

text \<open>What the transaction works on: the watch, its evaluator and the instant of acceptance.\<close>

record accept_ctx =
  ax_env :: accept_env
  ax_current :: watch_record
  ax_evaluator :: evaluator
  ax_now :: time

abbreviation ax_plan :: "accept_ctx \<Rightarrow> compiled" where "ax_plan x \<equiv> wr_plan (ax_current x)"
abbreviation ax_spec :: "accept_ctx \<Rightarrow> spec" where "ax_spec x \<equiv> d_spec (cd_definition (ax_plan x))"
abbreviation ax_id :: "accept_ctx \<Rightarrow> string" where "ax_id x \<equiv> md_id (d_metadata (cd_definition (ax_plan x)))"

definition cache_flush :: "accept_ctx \<Rightarrow> db \<times> entity_cache \<Rightarrow> (db \<times> entity_cache) result" where
  "cache_flush x s =
     (case s of (d, c) \<Rightarrow>
        if ec_pending c = [] then Inr (d, c)
        else bindE (SaveEntities (ax_id x) (cd_revision (ax_plan x)) (ec_pending c) (ax_now x) d) (\<lambda>d1.
             Inr (d1, c\<lparr>ec_pending := []\<rparr>)))"

fun wanted_keys :: "evaluator \<Rightarrow> observation list \<Rightarrow> string list result" where
  "wanted_keys ev [] = Inr [SourceEntity]"
| "wanted_keys ev (ob # obs) =
     (if o_health ob \<noteq> ''ok'' then wanted_keys ev obs
      else bindE (Route ev [] ob) (\<lambda>(keys, _).
           bindE (wanted_keys ev obs) (\<lambda>rest. Inr (keys @ rest))))"

definition cache_preload :: "accept_ctx \<Rightarrow> observation list \<Rightarrow> db \<times> entity_cache \<Rightarrow> (db \<times> entity_cache) result" where
  "cache_preload x obs s =
     (if length obs < 2 then Inr s
      else bindE (wanted_keys (ax_evaluator x) obs) (\<lambda>wanted.
        case s of (d, c) \<Rightarrow> Inr (d, c\<lparr>ec_states := EntitySubset d (ax_id x) wanted, ec_known := wanted\<rparr>)))"

definition cache_load :: "accept_ctx \<Rightarrow> string \<Rightarrow> db \<times> entity_cache \<Rightarrow> (db \<times> entity_cache) \<times> cstate option" where
  "cache_load x key s =
     (case s of (d, c) \<Rightarrow>
        let c1 = (if \<not> ec_all c \<and> key \<notin> set (ec_known c)
                  then c\<lparr>ec_known := key # ec_known c,
                         ec_states := (case Entity d (ax_id x) key of Some st \<Rightarrow> alist_put key st (ec_states c) | None \<Rightarrow> ec_states c)\<rparr>
                  else c)
        in ((d, c1), map_of (ec_states c1) key))"

definition cache_all :: "accept_ctx \<Rightarrow> db \<times> entity_cache \<Rightarrow> (db \<times> entity_cache) result" where
  "cache_all x s =
     (if ec_all (snd s) then Inr s
      else bindE (cache_flush x s) (\<lambda>(d, c).
        let states = Entities d (ax_id x) in
        Inr (d, c\<lparr>ec_states := states, ec_all := True, ec_n := int (length states)\<rparr>)))"

definition cache_route :: "accept_ctx \<Rightarrow> observation \<Rightarrow> db \<times> entity_cache \<Rightarrow>
    ((db \<times> entity_cache) \<times> string list \<times> bool) result" where
  "cache_route x ob s =
     bindE (if o_health ob = ''ok''
            then (case cache_load x SourceEntity s of (s1, st) \<Rightarrow> Inr (s1, if st = None then [] else [SourceEntity]))
            else if o_health ob \<noteq> ''timer'' \<or> o_entity ob = ''''
            then bindE (cache_all x s) (\<lambda>s1. Inr (s1, map fst (ec_states (snd s1))))
            else Inr (s, []))
       (\<lambda>(s1, existing). bindE (Route (ax_evaluator x) existing ob) (\<lambda>(keys, clear). Inr (s1, keys, clear)))"

definition cache_count :: "accept_ctx \<Rightarrow> db \<times> entity_cache \<Rightarrow> (db \<times> entity_cache) \<times> int" where
  "cache_count x s =
     (case s of (d, c) \<Rightarrow>
        if ec_n c < 0 then let n = EntityCount d (ax_id x) in ((d, c\<lparr>ec_n := n\<rparr>), n) else ((d, c), ec_n c))"

definition cache_saved :: "string \<Rightarrow> cstate \<Rightarrow> db \<times> entity_cache \<Rightarrow> db \<times> entity_cache" where
  "cache_saved key st s =
     (case s of (d, c) \<Rightarrow>
        (d, c\<lparr>ec_n := (if map_of (ec_states c) key = None \<and> ec_n c \<ge> 0 then ec_n c + 1 else ec_n c),
              ec_states := alist_put key st (ec_states c), ec_known := key # ec_known c,
              ec_pending := alist_put key st (ec_pending c)\<rparr>))"

definition cache_removed :: "string \<Rightarrow> db \<times> entity_cache \<Rightarrow> db \<times> entity_cache" where
  "cache_removed key s =
     (case s of (d, c) \<Rightarrow>
        (d, c\<lparr>ec_n := (if map_of (ec_states c) key \<noteq> None \<and> ec_n c \<ge> 0 then ec_n c - 1 else ec_n c),
              ec_states := alist_del key (ec_states c), ec_pending := alist_del key (ec_pending c),
              ec_known := key # ec_known c\<rparr>))"

section \<open>One observation\<close>

text \<open>The loop over the observations reaches the entities through these operations; the code
  passes the cache. \<open>eo_db\<close> runs an operation of the transaction.\<close>

record 's entity_ops =
  eo_route :: "observation \<Rightarrow> 's \<Rightarrow> ('s \<times> string list \<times> bool) result"
  eo_load :: "string \<Rightarrow> 's \<Rightarrow> 's \<times> cstate option"
  eo_count :: "'s \<Rightarrow> 's \<times> int"
  eo_saved :: "string \<Rightarrow> cstate \<Rightarrow> 's \<Rightarrow> 's result"
  eo_removed :: "string \<Rightarrow> 's \<Rightarrow> 's"
  eo_db :: "(db \<Rightarrow> db result) \<Rightarrow> 's \<Rightarrow> 's result"

definition cached_ops :: "accept_ctx \<Rightarrow> (db \<times> entity_cache) entity_ops" where
  "cached_ops x =
     \<lparr>eo_route = cache_route x, eo_load = cache_load x, eo_count = cache_count x,
      eo_saved = (\<lambda>key st s. Inr (cache_saved key st s)), eo_removed = cache_removed,
      eo_db = (\<lambda>f s. case s of (d, c) \<Rightarrow> bindE (f d) (\<lambda>d1. Inr (d1, c)))\<rparr>"

text \<open>The state of the entity, or a new one when there is room.\<close>

definition entity_state :: "'s entity_ops \<Rightarrow> accept_ctx \<Rightarrow> string \<Rightarrow> 's \<Rightarrow> ('s \<times> cstate) result" where
  "entity_state ops x key s =
     (case eo_load ops key s of
        (s1, Some st) \<Rightarrow> Inr (s1, st)
      | (s1, None) \<Rightarrow>
          (case eo_count ops s1 of (s2, n) \<Rightarrow>
             if n \<ge> l_max_entities (s_limits (ax_spec x)) then Inl ErrQuota else Inr (s2, zero_state\<lparr>entity := key\<rparr>)))"

definition missing_timer :: "accept_ctx \<Rightarrow> string \<Rightarrow> cstate \<Rightarrow> timer" where
  "missing_timer x key st = \<lparr>tm_watch_id = ax_id x, tm_entity = key, tm_kind = ''missing'',
     tm_generation = wr_generation (ax_current x), tm_due = missing_at st, tm_body = ''''\<rparr>"

definition accept_entity :: "'s entity_ops \<Rightarrow> accept_ctx \<Rightarrow> observation \<Rightarrow> string \<Rightarrow> 's \<Rightarrow> 's result" where
  "accept_entity ops x ob key s =
     bindE (entity_state ops x key s) (\<lambda>(s1, st).
     bindE (Evaluate (av_runtime (ax_env x)) (ax_evaluator x) st ob (ax_now x)) (\<lambda>res.
     bindE (if c_missing_for (s_condition (ax_spec x)) \<noteq> '''' \<and> (o_health ob = ''ok'' \<or> o_health ob = ''unchanged'')
            then eo_db ops (SaveTimer (av_json_valid (ax_env x)) (missing_timer x key (tr_state res))) s1 else Inr s1) (\<lambda>s2.
     bindE (eo_saved ops key (tr_state res) s2) (\<lambda>s3.
     eo_db ops (append_all (ax_env x) (ax_current x) (tr_events res) (ax_now x)
       \<lparr>cp_prior = st, cp_input = ob, cp_source_recovered = False\<rparr>) s3))))"

fun accept_keys :: "'s entity_ops \<Rightarrow> accept_ctx \<Rightarrow> observation \<Rightarrow> string list \<Rightarrow> 's \<Rightarrow> 's result" where
  "accept_keys ops x ob [] s = Inr s"
| "accept_keys ops x ob (key # keys) s = bindE (accept_entity ops x ob key s) (accept_keys ops x ob keys)"

text \<open>The placeholder of the source is removed; if it was unhealthy, the source has recovered.\<close>

definition clear_source :: "'s entity_ops \<Rightarrow> accept_ctx \<Rightarrow> observation \<Rightarrow> 's \<Rightarrow> 's result" where
  "clear_source ops x ob s =
     (case eo_load ops SourceEntity s of
        (s1, None) \<Rightarrow> Inl (Err ''unexpected end of JSON input'')
      | (s1, Some b) \<Rightarrow>
          bindE (eo_db ops (\<lambda>d. Inr (DeleteEntity (ax_id x) SourceEntity d)) s1) (\<lambda>s2.
          let s3 = eo_removed ops SourceEntity s2 in
          if source_unhealthy b
          then eo_db ops (appendEvaluated (ax_env x) (ax_current x) (SourceRecovered (av_runtime (ax_env x)) (ax_evaluator x) ob) (ax_now x)
                 \<lparr>cp_prior = b, cp_input = ob, cp_source_recovered = True\<rparr>) s3
          else Inr s3))"

definition accept_observation :: "'s entity_ops \<Rightarrow> accept_ctx \<Rightarrow> observation \<Rightarrow> 's \<Rightarrow> 's result" where
  "accept_observation ops x ob s =
     bindE (eo_route ops ob s) (\<lambda>(s1, keys, clear).
     bindE (if clear then clear_source ops x ob s1 else Inr s1) (accept_keys ops x ob keys))"

fun accept_observations :: "'s entity_ops \<Rightarrow> accept_ctx \<Rightarrow> observation list \<Rightarrow> 's \<Rightarrow> 's result" where
  "accept_observations ops x [] s = Inr s"
| "accept_observations ops x (ob # obs) s = bindE (accept_observation ops x ob s) (accept_observations ops x obs)"

text \<open>All observations of the batch, with their sequences, through the cache.\<close>

definition accept_cached :: "accept_ctx \<Rightarrow> observation list \<Rightarrow> db \<Rightarrow> db result" where
  "accept_cached x obs d =
     bindE (cache_preload x obs (d, newAcceptanceEntities)) (\<lambda>s.
     bindE (accept_observations (cached_ops x) x obs s) (\<lambda>s1.
     bindE (cache_flush x s1) (\<lambda>s2. Inr (fst s2))))"

section \<open>The transaction\<close>

text \<open>A pushed request: a receipt in force answers it, otherwise there must be room for one more.\<close>

definition push_admission :: "push_input \<Rightarrow> watch_record \<Rightarrow> watch_record \<Rightarrow> time \<Rightarrow> db \<Rightarrow> (db \<times> push_receipt option) result" where
  "push_admission p record current now d =
     (if \<not> is_zero (pi_valid_until p) \<and> \<not> now < pi_valid_until p then Inl ErrProducerExpired
      else if wr_lifetime current \<noteq> wr_lifetime record \<or> wr_status current = ''deleted'' then Inl ErrStale
      else case PushReceipt (wr_lifetime record, pi_producer p, pi_key p) (pi_digest p) now (db_push d) of
        Inr saved \<Rightarrow> Inr (d, Some saved)
      | Inl e \<Rightarrow>
          if e \<noteq> ErrNotFound then Inl e
          else case PushReceiptCount True now (db_push d) of (t, n) \<Rightarrow>
            if n \<ge> pi_max_receipts p then Inl ErrQuota else Inr (d\<lparr>db_push := t\<rparr>, None))"

definition same_watch :: "watch_record \<Rightarrow> watch_record \<Rightarrow> bool" where
  "same_watch record current \<longleftrightarrow> wr_generation current = wr_generation record \<and>
     cd_revision (wr_plan current) = cd_revision (wr_plan record) \<and> wr_status current = ''running''"

text \<open>A batch made by a timer consumes it.\<close>

definition take_timer :: "string \<Rightarrow> watch_record \<Rightarrow> batch \<Rightarrow> time \<Rightarrow> db \<Rightarrow> db result" where
  "take_timer ident current b now d =
     (if is_zero (ba_deadline b) then Inr d
      else case Timer d ident (ba_entity b) ''missing'' of
        Inl _ \<Rightarrow> Inl ErrStale
      | Inr tm \<Rightarrow>
          if tm_generation tm \<noteq> wr_generation current \<or> tm_due tm \<noteq> ba_deadline b \<or> now < tm_due tm then Inl ErrStale
          else Inr (DeleteTimer tm d))"

definition next_at_of :: "accept_env \<Rightarrow> watch_record \<Rightarrow> string \<Rightarrow> batch \<Rightarrow> time \<Rightarrow> time" where
  "next_at_of env current ident b now =
     (let nx = nextPoll env now (duration_or_zero (src_every (s_source (d_spec (cd_definition (wr_plan current)))))) ident
      in if ba_retry_at b > nx then ba_retry_at b else nx)"

definition gap_observation :: observation where
  "gap_observation = \<lparr>o_entity = '''', o_deadline = None, o_sequence = 0, o_input_id = '''', o_accepted_at = zero_time,
     o_observed_at = None, o_fields = [], o_health = ''gap'', o_detail = ''backpressure_gap''\<rparr>"

definition stamp_observation :: "batch \<Rightarrow> string \<Rightarrow> time \<Rightarrow> int \<Rightarrow> observation \<Rightarrow> observation" where
  "stamp_observation b input now i ob =
     (let o1 = ob\<lparr>o_accepted_at := now, o_input_id := input @ '':'' @ show_int i @ '':'' @ show_int now, o_sequence := 0\<rparr>
      in if is_zero (ba_deadline b) then o1 else o1\<lparr>o_entity := ba_entity b, o_deadline := Some (ba_deadline b)\<rparr>)"

fun stamp_all :: "accept_env \<Rightarrow> int \<Rightarrow> batch \<Rightarrow> string \<Rightarrow> time \<Rightarrow> int \<Rightarrow> observation list \<Rightarrow> observation list result" where
  "stamp_all env limit b input now i [] = Inr []"
| "stamp_all env limit b input now i (ob # obs) =
     (let o1 = stamp_observation b input now i ob in
      case av_encode env o1 of
        None \<Rightarrow> Inl (Err ''json: unsupported value'')
      | Some data \<Rightarrow>
          if int (length data) > limit then Inl ErrQuota
          else bindE (stamp_all env limit b input now (i + 1) obs) (\<lambda>os. Inr (o1 # os)))"

definition receipt_ttl :: "watch_record \<Rightarrow> duration" where
  "receipt_ttl current =
     (case src_logs (s_source (d_spec (cd_definition (wr_plan current)))) of
        None \<Rightarrow> 24 * hour
      | Some l \<Rightarrow> let ttl = duration_or_zero (ls_retention l) in if ttl \<le> 0 then hour else ttl)"

text \<open>The end of the transaction: quota, then the receipt.\<close>

definition seal :: "accept_env \<Rightarrow> watch_record \<Rightarrow> string \<Rightarrow> string \<Rightarrow> push_input option \<Rightarrow> int \<Rightarrow> time \<Rightarrow> time \<Rightarrow> int \<Rightarrow> int \<Rightarrow> db \<Rightarrow>
    (db \<times> push_receipt option) result" where
  "seal env current ident input push observations now later' first last' d =
     (if av_bytes env d > rl_max_bytes (av_limits env) then Inl ErrQuota
      else case push of
        Some p \<Rightarrow>
          if \<not> is_zero (pi_valid_until p) \<and> \<not> later' < pi_valid_until p then Inl ErrProducerExpired
          else
            let r = \<lparr>pr_acceptance_id = input, pr_watch_id = ident, pr_generation = wr_generation current,
                  pr_revision = cd_revision (wr_plan current), pr_first = first, pr_last = last', pr_duplicate = False,
                  pr_accepted_at = now, pr_expires_at = now + pi_horizon p\<rparr>;
                d1 = d\<lparr>db_push := SavePushReceipt (wr_lifetime current, pi_producer p, pi_key p) (pi_digest p) r
                  (pi_bytes p) observations (db_push d)\<rparr>
            in if av_bytes env d1 > rl_max_bytes (av_limits env) then Inl ErrQuota else Inr (d1, Some r)
      | None \<Rightarrow>
          bindE (SaveReceipt ident (wr_generation current) input first last' (now + receipt_ttl current) d) (\<lambda>d1. Inr (d1, None)))"

text \<open>A batch that is neither stale nor a duplicate.\<close>

definition accept_new :: "accept_env \<Rightarrow> watch_record \<Rightarrow> evaluator \<Rightarrow> batch \<Rightarrow> string \<Rightarrow> push_input option \<Rightarrow> time \<Rightarrow> time \<Rightarrow> db \<Rightarrow>
    (db \<times> receipt \<times> push_receipt option) result" where
  "accept_new env current ev b input push now later' d =
     (let ident = md_id (d_metadata (cd_definition (wr_plan current))); timer_input = \<not> is_zero (ba_deadline b) in
      bindE (if timer_input then Inr d
             else Checkpoint ident (wr_generation current) (next_at_of env current ident b now) now (ba_cursor b) d) (\<lambda>d1.
      if av_bytes env d1 \<ge> rl_max_bytes (av_limits env) \<or> Pending d1 \<ge> rl_max_pending (av_limits env) then Inl ErrQuota
      else
        let given = (if wr_last_error current \<noteq> '''' \<and> \<not> timer_input then gap_observation # ba_observations b else ba_observations b) in
        bindE (stamp_all env (l_max_bytes (s_limits (d_spec (cd_definition (wr_plan current))))) b input now 0 given) (\<lambda>obs.
        bindE (AppendObservations ident (cd_revision (wr_plan current)) (wr_generation current) obs d1) (\<lambda>(d2, ss).
        bindE (accept_cached \<lparr>ax_env = env, ax_current = current, ax_evaluator = ev, ax_now = now\<rparr>
                 (map2 (\<lambda>ob s. ob\<lparr>o_sequence := s\<rparr>) obs ss) d2) (\<lambda>d3.
        bindE (seal env current ident input push (int (length given)) now later' (hd ss) (last ss) d3) (\<lambda>(d4, saved).
        Inr (d4, \<lparr>re_first = hd ss, re_last = last ss, re_duplicate = False\<rparr>, saved)))))))"

definition stale_batch :: "batch \<Rightarrow> watch_record \<Rightarrow> time \<Rightarrow> bool" where
  "stale_batch b current now \<longleftrightarrow>
     (case ba_expected_cursor b of Some c \<Rightarrow> wr_cursor current \<noteq> c | None \<Rightarrow> False) \<or>
     (\<not> is_zero (ba_fresh_until b) \<and> \<not> now < ba_fresh_until b)"

definition accept_tx :: "accept_env \<Rightarrow> watch_record \<Rightarrow> evaluator \<Rightarrow> batch \<Rightarrow> string \<Rightarrow> push_input option \<Rightarrow> time \<Rightarrow> time \<Rightarrow> db \<Rightarrow>
    (db \<times> receipt \<times> push_receipt option) result" where
  "accept_tx env record ev b input push now later' d =
     (if av_closing_inside env then Inl ErrClosing
      else
      bindE (Watch d (md_id (d_metadata (cd_definition (wr_plan record))))) (\<lambda>current.
      bindE (case push of None \<Rightarrow> Inr (d, None) | Some p \<Rightarrow> push_admission p record current now d) (\<lambda>(d1, saved).
      case saved of
        Some r \<Rightarrow> Inr (d1, \<lparr>re_first = pr_first r, re_last = pr_last r, re_duplicate = True\<rparr>, Some r)
      | None \<Rightarrow>
          if \<not> same_watch record current then Inl ErrStale
          else
            let ident = md_id (d_metadata (cd_definition (wr_plan current))) in
            bindE (take_timer ident current b now d1) (\<lambda>d2.
            case Receipt d2 ident (wr_generation current) input now of
              Inr (first, last') \<Rightarrow> Inr (d2, \<lparr>re_first = first, re_last = last', re_duplicate = True\<rparr>, None)
            | Inl e \<Rightarrow>
                if e \<noteq> ErrNotFound then Inl e
                else if stale_batch b current now then Inl ErrStale
                else accept_new env current ev b input push now later' d2))))"

text \<open>The whole operation: a failure other than a stale input is noted on the watch in a
  transaction of its own.\<close>

definition failure_noted :: "accept_env \<Rightarrow> push_input option \<Rightarrow> err \<Rightarrow> bool" where
  "failure_noted env push e \<longleftrightarrow> push = None \<and> e \<noteq> ErrStale \<and> e \<noteq> ErrClosing \<and> \<not> av_canceled env"

definition acceptPush :: "accept_env \<Rightarrow> watch_record \<Rightarrow> batch \<Rightarrow> string \<Rightarrow> push_input option \<Rightarrow> time \<Rightarrow> time \<Rightarrow> db \<Rightarrow>
    db \<times> (receipt \<times> push_receipt option) result" where
  "acceptPush env record b input push now later' d =
     (if av_closing env then (d, Inl ErrClosing)
      else if input = '''' \<or> length input > 256 then (d, Inl (Err ''invalid input identity''))
      else if ba_observations b = [] \<or>
        int (length (ba_observations b)) > l_max_outputs (s_limits (d_spec (cd_definition (wr_plan record))))
      then (d, Inl (Err ''invalid observation count''))
      else case New (av_runtime env) (cd_definition (wr_plan record)) (cd_revision (wr_plan record)) of
        Inl e \<Rightarrow> (d, Inl e)
      | Inr ev \<Rightarrow>
          (case accept_tx env record ev b input push now later' d of
             Inr (d1, r) \<Rightarrow> (d1, Inr r)
           | Inl e \<Rightarrow>
               (if failure_noted env push e
                then LastError (md_id (d_metadata (cd_definition (wr_plan record)))) (wr_generation record)
                       (if e = ErrQuota then ''quota_exceeded'' else ''acceptance_failed'') zero_time d
                else d, Inl e)))"

end
