(* ===== verification/Example_Store.thy ===== *)
theory Example_Store
  imports Acceptance Example_Watch
begin

text \<open>
  A concrete database and batch for the acceptance theorems.
\<close>

text \<open>A watch grouped by host that notifies the console when it fires, and a batch of two hosts.\<close>

definition ex_hosts_definition :: definition_rec where
  "ex_hosts_definition = ex_definition\<lparr>d_spec := ex_spec\<lparr>s_policy := ex_policy\<lparr>p_consecutive := 1\<rparr>, s_group_by := [''host''],
     s_destinations := [\<lparr>t_ref = ''console'', t_events = [''firing'']\<rparr>]\<rparr>\<rparr>"

definition ex_console_destination :: destination where
  "ex_console_destination = \<lparr>dest_api_version = APIVersion, dest_kind = ''Destination'',
     dest_metadata = \<lparr>md_id = ''console'', md_name = ''''\<rparr>,
     dest_spec = \<lparr>ds_type = ''console'', ds_url_ref = None, ds_headers = [], ds_max_attempts = 3, ds_max_age = ''1h0m0s'',
       ds_initial_backoff = ''1s''\<rparr>\<rparr>"

definition ex_compiled :: compiled where
  "ex_compiled = \<lparr>cd_definition = ex_hosts_definition, cd_revision = ''r1'', cd_fingerprint = ''f1'', cd_permissions = [''http-read'']\<rparr>"

definition ex_record :: watch_record where
  "ex_record = \<lparr>wr_lifetime = ''life'', wr_plan = ex_compiled, wr_generation = 1, wr_status = ''running'', wr_next_at = 30 * second,
     wr_cursor = '''', wr_last_input_at = zero_time, wr_last_error = ''''\<rparr>"

definition ex_db :: db where
  "ex_db = empty_db\<lparr>
     db_revisions := [((''api-health'', ''r1''), \<lparr>rr_fingerprint = ''f1'', rr_definition = ex_hosts_definition, rr_created_at = 1\<rparr>)],
     db_watches := [(''api-health'', \<lparr>wt_revision = ''r1'', wt_generation = 1, wt_status = ''running'', wt_next_at = 30 * second, wt_cursor = '''',
       wt_last_input_at = 0, wt_last_error = '''', wt_lifetime = ''life''\<rparr>)],
     db_outbox := empty_tables\<lparr>ot_destination_revisions := [((''console'', ''d1''), ex_console_destination)],
       ot_destinations := [(''console'', ''d1'')]\<rparr>\<rparr>"

definition ex_accept_env :: accept_env where
  "ex_accept_env = \<lparr>av_runtime = ex_env, av_compile = \<lparr>ce_url_parse = (\<lambda>_. None), ce_jq_ok = (\<lambda>_. True), ce_template_ok = (\<lambda>_. True),
     ce_regexp = (\<lambda>_. None), ce_revision = (\<lambda>_. ''r1''), ce_fingerprint = (\<lambda>_. ''f1''), ce_destination_revision = (\<lambda>_. ''d1'')\<rparr>,
     av_render = (\<lambda>_ e. Inr (e_id e)), av_encode = (\<lambda>o'. Some (o_input_id o')), av_json_valid = (\<lambda>_. True), av_bytes = (\<lambda>_. 4096),
     av_digest64 = (\<lambda>_. 7), av_jitter = 0, av_limits = DefaultLimits, av_closing = False, av_closing_inside = False, av_canceled = False\<rparr>"

definition ex_host :: "string \<Rightarrow> int \<Rightarrow> observation" where
  "ex_host h code = \<lparr>o_entity = '''', o_deadline = None, o_sequence = 0, o_input_id = h, o_accepted_at = 30 * second, o_observed_at = None,
     o_fields = [(''host'', VStr h), (''http.status'', VFloat (float_of_int code))], o_health = ''ok'', o_detail = ''''\<rparr>"


definition ex_ctx :: accept_ctx where
  "ex_ctx = \<lparr>ax_env = ex_accept_env, ax_current = ex_record, ax_evaluator = ex_evaluator\<lparr>ev_definition := ex_hosts_definition\<rparr>,
     ax_now = 30 * second\<rparr>"

definition ex_batch :: batch where
  "ex_batch = \<lparr>ba_expected_cursor = None, ba_fresh_until = zero_time, ba_entity = '''', ba_deadline = zero_time,
     ba_observations = [ex_host ''a'' 503, ex_host ''b'' 200], ba_cursor = ''c1'', ba_retry_at = zero_time\<rparr>"

end
