(* ===== verification/Acceptance_Cache.thy ===== *)
theory Acceptance_Cache
  imports Example_Store
begin

text \<open>
  The entity cache of an acceptance is transparent: processing a batch through the cache and
  flushing it gives the same database as reading and writing every entity directly. The argument
  is a simulation: a locale states what the loop needs of two ways to reach the entities, and is
  interpreted on the cache and on direct access.
\<close>

section \<open>Related results\<close>

abbreviation rel_result :: "('a \<Rightarrow> 'b \<Rightarrow> bool) \<Rightarrow> 'a result \<Rightarrow> 'b result \<Rightarrow> bool" where
  "rel_result \<equiv> rel_sum (=)"

lemma rel_bindE [intro]:
  assumes "rel_result R r r'" "\<And>a b. R a b \<Longrightarrow> rel_result S (f a) (g b)"
  shows "rel_result S (bindE r f) (bindE r' g)"
  using assms by (cases r; cases r') auto

lemma rel_bindE_pair:
  assumes "rel_result (rel_prod P (=)) r r'" "\<And>a b u. P a b \<Longrightarrow> rel_result S (F a u) (G b u)"
  shows "rel_result S (bindE r (\<lambda>(a, u). F a u)) (bindE r' (\<lambda>(b, v). G b v))"
  using assms by (cases r; cases r') auto

lemma rel_result_mono: "rel_result R r r' \<Longrightarrow> (\<And>a b. R a b \<Longrightarrow> S a b) \<Longrightarrow> rel_result S r r'"
  by (cases r; cases r') auto

lemma rel_result_Inr: "rel_result R r (Inr b) \<longleftrightarrow> (\<exists>a. r = Inr a \<and> R a b)"
  by (cases r) auto

section \<open>Two ways to reach the entities\<close>

text \<open>Operations of the transaction that neither read nor write entities and pins.\<close>

definition with_entities :: "(entity_key \<times> entity_row) list \<Rightarrow> ((entity_key \<times> pin) \<times> unit) list \<Rightarrow> db \<Rightarrow> db" where
  "with_entities E P d = d\<lparr>db_entities := E, db_pins := P\<rparr>"

definition entity_free :: "(db \<Rightarrow> db result) \<Rightarrow> bool" where
  "entity_free f \<longleftrightarrow> (\<forall>d E P. f (with_entities E P d) = map_sum id (with_entities E P) (f d)) \<and>
     (\<forall>d d'. f d = Inr d' \<longrightarrow> db_revisions d' = db_revisions d)"

lemma with_entities_simps [simp]:
  "with_entities E P (with_entities E' P' d) = with_entities E P d"
  "with_entities (db_entities d) (db_pins d) d = d"
  "db_entities (with_entities E P d) = E" "db_pins (with_entities E P d) = P"
  "db_revisions (with_entities E P d) = db_revisions d" "db_watches (with_entities E P d) = db_watches d"
  "db_events (with_entities E P d) = db_events d" "db_event_sequence (with_entities E P d) = db_event_sequence d"
  "db_observations (with_entities E P d) = db_observations d" "db_evidence (with_entities E P d) = db_evidence d"
  "db_replays (with_entities E P d) = db_replays d" "db_outbox (with_entities E P d) = db_outbox d"
  "db_timers (with_entities E P d) = db_timers d"
  by (simp_all add: with_entities_def)

locale entity_access =
  fixes A :: "'a entity_ops" and C :: "'c entity_ops" and x :: accept_ctx
    and R :: "'a \<Rightarrow> 'c \<Rightarrow> bool" and ready :: "string \<Rightarrow> 'c \<Rightarrow> bool"
  assumes route: "R a c \<Longrightarrow> rel_result (rel_prod R (=)) (eo_route A ob a) (eo_route C ob c)"
    and load: "R a c \<Longrightarrow> rel_prod R (=) (eo_load A k a) (eo_load C k c)"
    and load_ready: "R a c \<Longrightarrow> eo_load C k c = (c', Some st) \<Longrightarrow> ready k c'"
    and count: "R a c \<Longrightarrow> rel_prod R (=) (eo_count A a) (eo_count C c)"
    and count_ready: "R a c \<Longrightarrow> eo_load C k c = (c', None) \<Longrightarrow> ready k (fst (eo_count C c'))"
    and db: "R a c \<Longrightarrow> entity_free f \<Longrightarrow> rel_result R (eo_db A f a) (eo_db C f c)"
    and db_ready: "ready k c \<Longrightarrow> eo_db C f c = Inr c' \<Longrightarrow> ready k c'"
    and saved: "R a c \<Longrightarrow> ready k c \<Longrightarrow> rel_result R (eo_saved A k st a) (eo_saved C k st c)"
    and removed: "R a c \<Longrightarrow> ready k c \<Longrightarrow>
      rel_result (\<lambda>a' c'. R (eo_removed A k a') (eo_removed C k c'))
        (eo_db A (\<lambda>d. Inr (DeleteEntity (ax_id x) k d)) a) (eo_db C (\<lambda>d. Inr (DeleteEntity (ax_id x) k d)) c)"
    and timer_free: "entity_free (SaveTimer (av_json_valid (ax_env x)) (missing_timer x k st))"
    and append_free: "entity_free (append_all (ax_env x) (ax_current x) es (ax_now x) cp)"
    and evaluated_free: "entity_free (appendEvaluated (ax_env x) (ax_current x) e (ax_now x) cp)"
begin

lemma entity_state_rel:
  assumes "R a c"
  shows "rel_result (rel_prod (\<lambda>a' c'. R a' c' \<and> ready k c') (=)) (entity_state A x k a) (entity_state C x k c)"
proof -
  obtain a1 r where a: "eo_load A k a = (a1, r)" by fastforce
  obtain c1 where c: "eo_load C k c = (c1, r)" and R1: "R a1 c1" using load [OF assms, of k] a by (cases "eo_load C k c") auto
  show ?thesis
  proof (cases r)
    case (Some st)
    then show ?thesis using a c R1 load_ready [OF assms] by (auto simp: entity_state_def)
  next
    case None
    obtain a2 n where a2: "eo_count A a1 = (a2, n)" by fastforce
    then obtain c2 where c2: "eo_count C c1 = (c2, n)" and R2: "R a2 c2" using count [OF R1] by (cases "eo_count C c1") auto
    have "ready k c2" using count_ready [OF assms] c None c2 by (metis fst_conv)
    then show ?thesis using a c None a2 c2 R2 by (auto simp: entity_state_def)
  qed
qed

lemma accept_entity_rel:
  assumes "R a c"
  shows "rel_result R (accept_entity A x ob k a) (accept_entity C x ob k c)"
  unfolding accept_entity_def
proof (rule rel_bindE_pair [OF entity_state_rel [OF assms, of k]])
  fix a1 c1 st
  assume 1: "R a1 c1 \<and> ready k c1"
  let ?now = "c_missing_for (s_condition (ax_spec x)) \<noteq> '''' \<and> (o_health ob = ''ok'' \<or> o_health ob = ''unchanged'')"
  let ?timer = "\<lambda>res. SaveTimer (av_json_valid (ax_env x)) (missing_timer x k (tr_state res))"
  have timer: "rel_result (\<lambda>a' c'. R a' c' \<and> ready k c') (if ?now then eo_db A (?timer res) a1 else Inr a1)
      (if ?now then eo_db C (?timer res) c1 else Inr c1)" for res
    using db [OF conjunct1 [OF 1] timer_free [of k "tr_state res"]] db_ready [OF conjunct2 [OF 1]] 1
    by (cases "eo_db A (?timer res) a1"; cases "eo_db C (?timer res) c1") auto
  show "rel_result R (bindE (Evaluate (av_runtime (ax_env x)) (ax_evaluator x) st ob (ax_now x)) (\<lambda>res.
       bindE (if ?now then eo_db A (?timer res) a1 else Inr a1) (\<lambda>s2. bindE (eo_saved A k (tr_state res) s2)
       (eo_db A (append_all (ax_env x) (ax_current x) (tr_events res) (ax_now x) \<lparr>cp_prior = st, cp_input = ob, cp_source_recovered = False\<rparr>)))))
     (bindE (Evaluate (av_runtime (ax_env x)) (ax_evaluator x) st ob (ax_now x)) (\<lambda>res.
       bindE (if ?now then eo_db C (?timer res) c1 else Inr c1) (\<lambda>s2. bindE (eo_saved C k (tr_state res) s2)
       (eo_db C (append_all (ax_env x) (ax_current x) (tr_events res) (ax_now x) \<lparr>cp_prior = st, cp_input = ob, cp_source_recovered = False\<rparr>)))))"
    by (rule rel_bindE [where R = "(=)"], simp add: sum.rel_eq, hypsubst, rule rel_bindE [OF timer], rule rel_bindE, rule saved,
        simp, simp, rule db, assumption, rule append_free)
qed

lemma accept_keys_rel: "R a c \<Longrightarrow> rel_result R (accept_keys A x ob ks a) (accept_keys C x ob ks c)"
proof (induction ks arbitrary: a c)
  case (Cons k ks)
  show ?case unfolding accept_keys.simps by (rule rel_bindE [OF accept_entity_rel [OF Cons.prems] Cons.IH])
qed simp

lemma clear_source_rel:
  assumes "R a c"
  shows "rel_result R (clear_source A x ob a) (clear_source C x ob c)"
proof -
  obtain a1 r where a: "eo_load A SourceEntity a = (a1, r)" by fastforce
  obtain c1 where c: "eo_load C SourceEntity c = (c1, r)" and R1: "R a1 c1"
    using load [OF assms, of SourceEntity] a by (cases "eo_load C SourceEntity c") auto
  show ?thesis
  proof (cases r)
    case None
    then show ?thesis using a c by (simp add: clear_source_def)
  next
    case (Some b)
    then have "ready SourceEntity c1" using load_ready [OF assms] c by simp
    note del = removed [OF R1 this]
    show ?thesis
      unfolding clear_source_def a c Some prod.case option.case Let_def
      by (rule rel_bindE [OF del]) (auto intro: db evaluated_free)
  qed
qed

lemma accept_observation_rel:
  assumes "R a c"
  shows "rel_result R (accept_observation A x ob a) (accept_observation C x ob c)"
  unfolding accept_observation_def
proof (rule rel_bindE_pair [OF route [OF assms]])
  fix a1 c1 and u :: "string list \<times> bool"
  assume R1: "R a1 c1"
  show "rel_result R (case u of (keys, clear) \<Rightarrow> bindE (if clear then clear_source A x ob a1 else Inr a1) (accept_keys A x ob keys))
      (case u of (keys, clear) \<Rightarrow> bindE (if clear then clear_source C x ob c1 else Inr c1) (accept_keys C x ob keys))"
    unfolding case_prod_beta by (rule rel_bindE [where R = R]) (auto intro: clear_source_rel R1 accept_keys_rel)
qed

theorem accept_observations_rel: "R a c \<Longrightarrow> rel_result R (accept_observations A x obs a) (accept_observations C x obs c)"
proof (induction obs arbitrary: a c)
  case (Cons ob obs)
  show ?case unfolding accept_observations.simps by (rule rel_bindE [OF accept_observation_rel [OF Cons.prems] Cons.IH])
qed simp

end

section \<open>Operations that leave the entities alone\<close>

lemma entity_freeI:
  assumes "\<And>d E P. f (with_entities E P d) = map_sum id (with_entities E P) (f d)"
    "\<And>d d'. f d = Inr d' \<Longrightarrow> db_revisions d' = db_revisions d"
  shows "entity_free f"
  using assms by (simp add: entity_free_def)

lemma entity_free_bind: "entity_free f \<Longrightarrow> entity_free g \<Longrightarrow> entity_free (\<lambda>d. bindE (f d) g)"
proof (rule entity_freeI)
  fix d E P
  assume f: "entity_free f" and g: "entity_free g"
  have "f (with_entities E P d) = map_sum id (with_entities E P) (f d)" using f by (simp add: entity_free_def)
  then show "bindE (f (with_entities E P d)) g = map_sum id (with_entities E P) (bindE (f d) g)"
    using g by (cases "f d") (simp_all add: entity_free_def)
qed (auto simp: entity_free_def)

lemma entity_free_Inr: "entity_free Inr"
  by (rule entity_freeI) auto

lemma SaveTimer_free: "entity_free (SaveTimer valid tm)"
  by (rule entity_freeI) (auto simp: SaveTimer_def with_entities_def split: if_splits)

lemma SaveReplay_free: "entity_free (SaveReplay e c)"
  by (rule entity_freeI) (auto simp: SaveReplay_def with_entities_def split: if_splits)

lemma add_evidence_free: "entity_free (add_evidence e ss)"
proof (induction ss)
  case Nil
  have "add_evidence e [] = Inr" by (rule ext) simp
  then show ?case by (simp add: entity_free_Inr)
next
  case (Cons s ss)
  show ?case
  proof (rule entity_freeI)
    fix d E P
    have "(with_entities E P d)\<lparr>db_evidence := v\<rparr> = with_entities E P (d\<lparr>db_evidence := v\<rparr>)" for v
      by (simp add: with_entities_def)
    then show "add_evidence e (s # ss) (with_entities E P d) = map_sum id (with_entities E P) (add_evidence e (s # ss) d)"
      using Cons by (simp add: entity_free_def)
  next
    fix d d'
    assume "add_evidence e (s # ss) d = Inr d'"
    then have "add_evidence e ss (d\<lparr>db_evidence := db_evidence d @ [(e, s)]\<rparr>) = Inr d'" by (simp split: if_splits)
    then show "db_revisions d' = db_revisions d" using Cons unfolding entity_free_def by fastforce
  qed
qed

lemma db_enqueue_free:
  "db_enqueue e i dest rv pl na cr (with_entities E P d) =
     map_sum id (\<lambda>(d', n). (with_entities E P d', n)) (db_enqueue e i dest rv pl na cr d)"
  by (cases "Enqueue e i dest rv pl na cr (db_outbox d)") (auto simp: db_enqueue_def with_entities_def)

lemma map_sum_bindE: "map_sum id h (bindE r f) = bindE r (\<lambda>a. map_sum id h (f a))"
  by (cases r) auto

lemma bindE_with_entities:
  assumes "entity_free g"
  shows "bindE (map_sum id (\<lambda>(d', n). (with_entities E P d', n)) r) (\<lambda>(d1, _). g d1) =
    bindE r (\<lambda>(d1, _). map_sum id (with_entities E P) (g d1))"
  using assms by (cases r) (auto simp: entity_free_def)

lemma enqueue_targets_free: "entity_free (enqueue_targets env i e now tgs)"
proof (induction tgs)
  case Nil
  have "enqueue_targets env i e now [] = Inr" by (rule ext) simp
  then show ?case by (simp add: entity_free_Inr)
next
  case (Cons tg tgs)
  show ?case
  proof (rule entity_freeI)
    fix d E P
    have p: "Pending (with_entities E P d) = Pending d" by (simp add: Pending_def)
    show "enqueue_targets env i e now (tg # tgs) (with_entities E P d) =
        map_sum id (with_entities E P) (enqueue_targets env i e now (tg # tgs) d)"
      unfolding enqueue_targets.simps p with_entities_simps db_enqueue_free
      using Cons [unfolded entity_free_def]
      by (simp add: map_sum_bindE bindE_with_entities [OF Cons] if_distrib [of "map_sum id (with_entities E P)"]
          prod.case_distrib [of "map_sum id (with_entities E P)"])
  next
    fix d d'
    assume a: "enqueue_targets env i e now (tg # tgs) d = Inr d'"
    have "db_revisions d2 = db_revisions d1" if "enqueue_targets env i e now tgs d1 = Inr d2" for d1 d2
      using Cons that by (simp add: entity_free_def)
    then show "db_revisions d' = db_revisions d" using a by (auto simp: db_enqueue_def split: if_splits)
  qed
qed

lemma AppendEvent_free:
  "AppendEvent e (with_entities E P d) = map_sum id (\<lambda>(d', n). (with_entities E P d', n)) (AppendEvent e d)"
proof -
  have "(with_entities E P d)\<lparr>db_events := v, db_event_sequence := w\<rparr> = with_entities E P (d\<lparr>db_events := v, db_event_sequence := w\<rparr>)" for v w
    by (simp add: with_entities_def)
  moreover have "add_evidence i ss (with_entities E P d') = map_sum id (with_entities E P) (add_evidence i ss d')" for i ss d'
    using add_evidence_free by (simp add: entity_free_def)
  ultimately show ?thesis
    by (cases "add_evidence (e_id e) (e_evidence e) (d\<lparr>db_events := db_events d @ [(db_event_sequence d + 1, e)],
          db_event_sequence := db_event_sequence d + 1\<rparr>)")
      (simp_all add: AppendEvent_def Let_def)
qed

lemma AppendEvent_revisions: "AppendEvent e d = Inr (d', n) \<Longrightarrow> db_revisions d' = db_revisions d"
proof -
  have "db_revisions d2 = db_revisions d1" if "add_evidence i ss d1 = Inr d2" for i ss d1 d2
    using add_evidence_free [of i ss] that by (simp add: entity_free_def)
  then show "AppendEvent e d = Inr (d', n) \<Longrightarrow> ?thesis" by (fastforce simp: AppendEvent_def Let_def split: if_splits)
qed

lemma appendEvent_free: "entity_free (appendEvent env r e now)"
proof (rule entity_freeI)
  fix d E P
  show "appendEvent env r e now (with_entities E P d) = map_sum id (with_entities E P) (appendEvent env r e now d)"
    using enqueue_targets_free by (cases "AppendEvent e d") (auto simp: appendEvent_def AppendEvent_free entity_free_def)
next
  fix d d'
  assume "appendEvent env r e now d = Inr d'"
  then obtain d1 n where "AppendEvent e d = Inr (d1, n)"
    "enqueue_targets env (md_id (d_metadata (cd_definition (wr_plan r)))) (e\<lparr>e_sequence := n\<rparr>) now
       (s_destinations (d_spec (cd_definition (wr_plan r)))) d1 = Inr d'"
    by (auto simp: appendEvent_def)
  then show "db_revisions d' = db_revisions d"
    using enqueue_targets_free AppendEvent_revisions unfolding entity_free_def by metis
qed

lemma appendEvaluated_free: "entity_free (appendEvaluated env r e now c)"
  using entity_free_bind [OF appendEvent_free SaveReplay_free] by (simp add: appendEvaluated_def [abs_def])

lemma append_all_free: "entity_free (append_all env r es now c)"
proof (induction es)
  case Nil
  have "append_all env r [] now c = Inr" by (rule ext) simp
  then show ?case by (simp add: entity_free_Inr)
next
  case (Cons e es)
  have "append_all env r (e # es) now c = (\<lambda>d. bindE (appendEvaluated env r e now c d) (append_all env r es now c))"
    by (rule ext) simp
  then show ?case using entity_free_bind [OF appendEvaluated_free Cons] by simp
qed

section \<open>Entities and pins of the database\<close>

lemma tbl_put_if_absent:
  assumes "tbl_ok t"
  shows "tbl_ok (fold (\<lambda>p u. if P p then u else tbl_put (g p) () u) ps t) \<and>
    map_of (fold (\<lambda>p u. if P p then u else tbl_put (g p) () u) ps t) k =
      (if \<exists>p \<in> set ps. \<not> P p \<and> g p = k then Some () else map_of t k)"
  using assms
proof (induction ps arbitrary: t)
  case (Cons p ps)
  have "tbl_ok (if P p then t else tbl_put (g p) () t)" using Cons.prems by (simp add: tbl.ok_put)
  from Cons.IH [OF this] show ?case using Cons.prems by (auto simp: tbl.get_put)
qed simp

lemma map_of_kept_pins:
  assumes "tbl_ok pins"
  shows "map_of (filter (\<lambda>((k, p), _). k = key \<longrightarrow> p \<in> W) pins) (k, p) =
    (if k = key \<and> p \<notin> W then None else map_of pins (k, p))"
proof -
  have "alist_wf pins" using assms by (simp add: tbl_ok_def alist_wf_def)
  from map_of_filter_wf [OF this, of "\<lambda>(k, p) _. k = key \<longrightarrow> p \<in> W"] show ?thesis
    by (auto simp: case_prod_beta' split: option.split)
qed

lemma syncEntityPins_map_of:
  assumes "tbl_ok pins"
  shows "tbl_ok (syncEntityPins key st pins) \<and>
    map_of (syncEntityPins key st pins) (k, p) =
      (if k = key then (if p \<in> set (entityReferences st) then Some () else None) else map_of pins (k, p))"
proof -
  let ?kept = "filter (\<lambda>((k, p), _). k = key \<longrightarrow> p \<in> set (entityReferences st)) pins"
  have ok: "tbl_ok ?kept" using assms by (rule tbl_filter_ok)
  have eq: "syncEntityPins key st pins =
      fold (\<lambda>p u. if map_of ?kept (key, p) \<noteq> None then u else tbl_put (key, p) () u) (entityReferences st) ?kept"
    unfolding syncEntityPins_def Let_def by (intro arg_cong [where f = "\<lambda>f. fold f _ _"] ext) simp
  show ?thesis
    unfolding eq using tbl_put_if_absent [OF ok, of "\<lambda>p. map_of ?kept (key, p) \<noteq> None" "Pair key" "entityReferences st" "(k, p)"]
    by (auto simp: map_of_kept_pins [OF assms] unit_eq split: if_splits)
qed

section \<open>Direct access\<close>

text \<open>The reference: every read and write goes to the database.\<close>

definition existing_keys :: "accept_ctx \<Rightarrow> observation \<Rightarrow> db \<Rightarrow> string list" where
  "existing_keys x ob d =
     (if o_health ob = ''ok'' then (if Entity d (ax_id x) SourceEntity = None then [] else [SourceEntity])
      else if o_health ob \<noteq> ''timer'' \<or> o_entity ob = '''' then map fst (Entities d (ax_id x))
      else [])"

definition direct_ops :: "accept_ctx \<Rightarrow> db entity_ops" where
  "direct_ops x =
     \<lparr>eo_route = (\<lambda>ob d. bindE (Route (ax_evaluator x) (existing_keys x ob d) ob) (\<lambda>(keys, clear). Inr (d, keys, clear))),
      eo_load = (\<lambda>key d. (d, Entity d (ax_id x) key)),
      eo_count = (\<lambda>d. (d, EntityCount d (ax_id x))),
      eo_saved = (\<lambda>key st d. saveEntityData (ax_id x) key (cd_revision (ax_plan x)) st (ax_now x) d),
      eo_removed = (\<lambda>key d. d),
      eo_db = (\<lambda>f d. f d)\<rparr>"

definition accept_direct :: "accept_ctx \<Rightarrow> observation list \<Rightarrow> db \<Rightarrow> db result" where
  "accept_direct x obs d = accept_observations (direct_ops x) x obs d"

section \<open>Entities as a map\<close>

lemma Entities_wf: "tbl_ok (db_entities d) \<Longrightarrow> alist_wf (Entities d i)"
proof -
  have "distinct (map fst (map (\<lambda>((w, k), r). (k, er_state r)) (filter (\<lambda>((w, k), r). w = i) E)))" if "tbl_ok E" for E
    using that by (induction E) (fastforce simp: image_iff)+
  then show "tbl_ok (db_entities d) \<Longrightarrow> ?thesis" by (simp add: alist_wf_def Entities_def case_prod_beta')
qed

lemma map_of_Entities: "map_of (Entities d i) k = Entity d i k"
proof -
  have "map_of (map (\<lambda>((w, k), r). (k, er_state r)) (filter (\<lambda>((w, k), r). w = i) E)) k =
      map_option er_state (map_of E (i, k))" for E
    by (induction E) auto
  then show ?thesis by (simp add: Entities_def Entity_def case_prod_beta')
qed

lemma map_of_EntitySubset:
  assumes "tbl_ok (db_entities d)"
  shows "map_of (EntitySubset d i ks) k = (if k \<in> set ks then Entity d i k else None)"
  using map_of_filter_wf [OF Entities_wf [OF assms], of "\<lambda>k _. k \<in> set ks" i k]
  by (auto simp: EntitySubset_def map_of_Entities split: option.split)

lemma EntityCount_length: "EntityCount d i = int (length (Entities d i))"
  by (simp add: EntityCount_def Entities_def)

lemma wf_length_card: "alist_wf m \<Longrightarrow> length m = card (dom (map_of m))"
  by (metis alist_wf_def dom_map_of_conv_image_fst distinct_card length_map set_map)

lemma EntityCount_card: "tbl_ok (db_entities d) \<Longrightarrow> EntityCount d i = int (card (dom (Entity d i)))"
  using wf_length_card [OF Entities_wf] map_of_Entities by (metis EntityCount_length ext)

lemma sort_same_keys:
  assumes "alist_wf m" "alist_wf n" "map_of m = map_of n"
  shows "sort (map fst m) = sort (map fst n)"
proof -
  have "set (map fst m) = set (map fst n)" using assms(3) by (metis dom_map_of_conv_image_fst set_map)
  then show ?thesis using assms(1,2) by (intro sorted_distinct_set_unique) (auto simp: alist_wf_def)
qed

lemma finite_Entity: "finite (dom (Entity d i))"
  by (metis finite_dom_map_of map_of_Entities ext)

lemma Route_sorted:
  assumes "sort es = sort es'"
  shows "Route ev es ob = Route ev es' ob"
proof -
  have "set es = set es'" "es = [] \<longleftrightarrow> es' = []" using assms by (metis set_sort, metis sort_key_simps(1) set_empty set_sort)
  then show ?thesis using assms by (simp add: Route_def Let_def)
qed

section \<open>Writing entities\<close>

definition entity_write :: "accept_ctx \<Rightarrow> cstate \<Rightarrow> entity_row" where
  "entity_write x st = \<lparr>er_revision = cd_revision (ax_plan x), er_state = st, er_updated_at = timestamp (ax_now x)\<rparr>"

text \<open>\<open>d\<close> is the database \<open>base\<close> with the states \<open>ps\<close> written over it.\<close>

definition overlaid :: "accept_ctx \<Rightarrow> (string \<Rightarrow> cstate option) \<Rightarrow> db \<Rightarrow> db \<Rightarrow> bool" where
  "overlaid x ps base d \<longleftrightarrow>
     base = with_entities (db_entities base) (db_pins base) d \<and>
     tbl_ok (db_entities base) \<and> tbl_ok (db_pins base) \<and> tbl_ok (db_entities d) \<and> tbl_ok (db_pins d) \<and>
     map_of (db_revisions base) (ax_id x, cd_revision (ax_plan x)) \<noteq> None \<and>
     (\<forall>w k. map_of (db_entities d) (w, k) =
        (if w = ax_id x then (case ps k of Some st \<Rightarrow> Some (entity_write x st) | None \<Rightarrow> map_of (db_entities base) (w, k))
         else map_of (db_entities base) (w, k))) \<and>
     (\<forall>w k p. map_of (db_pins d) ((w, k), p) =
        (if w = ax_id x then (case ps k of Some st \<Rightarrow> if p \<in> set (entityReferences st) then Some () else None
                              | None \<Rightarrow> map_of (db_pins base) ((w, k), p))
         else map_of (db_pins base) ((w, k), p)))"

lemma overlaid_Entity: "overlaid x ps base d \<Longrightarrow> Entity d (ax_id x) k = (case ps k of Some st \<Rightarrow> Some st | None \<Rightarrow> Entity base (ax_id x) k)"
  by (auto simp: overlaid_def Entity_def entity_write_def split: option.split)

lemma overlaid_refl:
  assumes "tbl_ok (db_entities d)" "tbl_ok (db_pins d)" "map_of (db_revisions d) (ax_id x, cd_revision (ax_plan x)) \<noteq> None"
  shows "overlaid x Map.empty d d"
  using assms by (simp add: overlaid_def)

lemma with_entities_eq: "base = with_entities E P d \<Longrightarrow> d = with_entities (db_entities d) (db_pins d) base"
  by simp

lemma overlaid_none: "overlaid x Map.empty base d \<Longrightarrow> d = base"
proof -
  assume a: "overlaid x Map.empty base d"
  have "db_entities d = db_entities base"
    using a by (intro tbl_canonical) (auto simp: overlaid_def fun_eq_iff)
  moreover have "db_pins d = db_pins base"
    using a by (intro tbl_canonical) (auto simp: overlaid_def fun_eq_iff)
  ultimately show ?thesis using a unfolding overlaid_def by (metis with_entities_simps(2))
qed

lemma saveEntityData_Inr:
  assumes "map_of (db_revisions d) (i, rv) \<noteq> None"
  shows "saveEntityData i k rv st now d = Inr (with_entities
     (tbl_put (i, k) \<lparr>er_revision = rv, er_state = st, er_updated_at = timestamp now\<rparr> (db_entities d))
     (syncEntityPins (i, k) st (db_pins d)) d)"
  using assms by (simp add: saveEntityData_def with_entities_def)

text \<open>A direct write adds to the overlay; a write to the base takes it out of the overlay.\<close>

lemma overlaid_write:
  assumes "overlaid x ps base d"
  obtains d' where "saveEntityData (ax_id x) k (cd_revision (ax_plan x)) st (ax_now x) d = Inr d'"
    "overlaid x (ps(k \<mapsto> st)) base d'"
proof -
  let ?E = "tbl_put (ax_id x, k) (entity_write x st) (db_entities d)" and ?P = "syncEntityPins (ax_id x, k) st (db_pins d)"
  have rev: "map_of (db_revisions d) (ax_id x, cd_revision (ax_plan x)) \<noteq> None"
    using assms unfolding overlaid_def by (metis with_entities_simps(5))
  have "base = with_entities (db_entities base) (db_pins base) (with_entities ?E ?P d)"
    using assms by (simp add: overlaid_def)
  moreover have "tbl_ok ?E" "map_of ?E = (map_of (db_entities d))((ax_id x, k) \<mapsto> entity_write x st)"
    using assms by (simp_all add: overlaid_def tbl.ok_put tbl.get_put)
  moreover have pins: "tbl_ok (db_pins d)" using assms by (simp add: overlaid_def)
  moreover have "tbl_ok ?P" using syncEntityPins_map_of [OF pins] by blast
  ultimately have "overlaid x (ps(k \<mapsto> st)) base (with_entities ?E ?P d)"
    using assms syncEntityPins_map_of [OF pins, of "(ax_id x, k)" st] by (auto simp: overlaid_def)
  then show thesis using that saveEntityData_Inr [OF rev, of k st "ax_now x"] by (simp add: entity_write_def)
qed


lemma overlaid_flush_one:
  assumes "overlaid x ps base d" "ps k = Some st"
  obtains base' where "saveEntityData (ax_id x) k (cd_revision (ax_plan x)) st (ax_now x) base = Inr base'"
    "overlaid x (ps(k := None)) base' d"
proof -
  let ?E = "tbl_put (ax_id x, k) (entity_write x st) (db_entities base)" and ?P = "syncEntityPins (ax_id x, k) st (db_pins base)"
  have rev: "map_of (db_revisions base) (ax_id x, cd_revision (ax_plan x)) \<noteq> None" using assms(1) by (simp add: overlaid_def)
  have b: "base = with_entities (db_entities base) (db_pins base) d" using assms(1) by (simp add: overlaid_def)
  have w: "with_entities ?E ?P base = with_entities ?E ?P d" by (subst b) simp
  have e: "tbl_ok ?E" "map_of ?E = (map_of (db_entities base))((ax_id x, k) \<mapsto> entity_write x st)"
    using assms(1) by (simp_all add: overlaid_def tbl.ok_put tbl.get_put)
  have pins: "tbl_ok (db_pins base)" using assms(1) by (simp add: overlaid_def)
  note p = syncEntityPins_map_of [OF pins, of "(ax_id x, k)" st]
  have "\<forall>w k'. map_of (db_entities d) (w, k') =
      (if w = ax_id x then (case (ps(k := None)) k' of Some st \<Rightarrow> Some (entity_write x st) | None \<Rightarrow> map_of ?E (w, k'))
       else map_of ?E (w, k'))"
    using assms unfolding overlaid_def e(2) by (simp split: option.split)
  moreover have "\<forall>w k' q. map_of (db_pins d) ((w, k'), q) =
      (if w = ax_id x then (case (ps(k := None)) k' of Some st \<Rightarrow> if q \<in> set (entityReferences st) then Some () else None
                            | None \<Rightarrow> map_of ?P ((w, k'), q))
       else map_of ?P ((w, k'), q))"
    using assms p unfolding overlaid_def by (simp split: option.split)
  ultimately have "overlaid x (ps(k := None)) (with_entities ?E ?P base) d"
    using assms(1) e(1) p [THEN conjunct1] rev w unfolding overlaid_def with_entities_simps by metis
  then show thesis using that saveEntityData_Inr [OF rev, of k st "ax_now x"] by (simp add: entity_write_def)
qed

lemma overlaid_save_all:
  assumes "overlaid x (map_of ps) base d" "distinct (map fst ps)"
  shows "save_all (ax_id x) (cd_revision (ax_plan x)) (ax_now x) ps base = Inr d"
  using assms
proof (induction ps arbitrary: base)
  case Nil
  then show ?case using overlaid_none [of x base d] by simp
next
  case (Cons p ps)
  obtain k st where p: "p = (k, st)" by fastforce
  have "map_of (p # ps) k = Some st" by (simp add: p)
  with Cons.prems(1) obtain base' where b: "saveEntityData (ax_id x) k (cd_revision (ax_plan x)) st (ax_now x) base = Inr base'"
    "overlaid x ((map_of (p # ps))(k := None)) base' d"
    by (rule overlaid_flush_one)
  moreover have "map_of ps k = None" using Cons.prems(2) by (simp add: p map_of_eq_None_iff)
  then have "(map_of (p # ps))(k := None) = map_of ps" by (auto simp: p fun_eq_iff)
  ultimately show ?case using Cons.IH Cons.prems(2) by (simp add: p)
qed

lemma overlaid_SaveEntities:
  assumes "overlaid x (map_of ps) base d" "alist_wf ps"
  shows "SaveEntities (ax_id x) (cd_revision (ax_plan x)) ps (ax_now x) base = Inr d"
proof -
  have d: "distinct (map fst ps)" using assms(2) by (simp add: alist_wf_def)
  then have "distinct (map fst (sort_key fst ps))" by (metis distinct_map distinct_sort set_sort)
  moreover have "map_of (sort_key fst ps) = map_of ps"
    using d calculation by (intro map_of_inject_set [THEN iffD2]) auto
  ultimately show ?thesis using overlaid_save_all [of x "sort_key fst ps" base d] assms(1) by (simp add: SaveEntities_def)
qed

section \<open>The cache refines direct access\<close>

definition known :: "string \<Rightarrow> entity_cache \<Rightarrow> bool" where
  "known k c \<longleftrightarrow> ec_all c \<or> k \<in> set (ec_known c)"

definition cache_rel :: "accept_ctx \<Rightarrow> db \<Rightarrow> db \<times> entity_cache \<Rightarrow> bool" where
  "cache_rel x d s = (case s of (base, c) \<Rightarrow>
     overlaid x (map_of (ec_pending c)) base d \<and> alist_wf (ec_pending c) \<and> alist_wf (ec_states c) \<and>
     (\<forall>k. map_of (ec_states c) k = (if known k c then Entity d (ax_id x) k else None)) \<and>
     (\<forall>k. map_of (ec_pending c) k \<noteq> None \<longrightarrow> known k c) \<and>
     (ec_all c \<longrightarrow> 0 \<le> ec_n c) \<and> (0 \<le> ec_n c \<longrightarrow> ec_n c = EntityCount d (ax_id x)) \<and>
     (ec_n c < 0 \<longrightarrow> (\<forall>k. map_of (ec_pending c) k \<noteq> None \<longrightarrow> Entity base (ax_id x) k \<noteq> None)))"

text \<open>A key whose state may be saved: its state is known, and a new one has been counted.\<close>

definition cache_ready :: "string \<Rightarrow> db \<times> entity_cache \<Rightarrow> bool" where
  "cache_ready k s = (case s of (base, c) \<Rightarrow> known k c \<and> (map_of (ec_states c) k \<noteq> None \<or> 0 \<le> ec_n c))"

lemma EntityCount_write:
  assumes "tbl_ok (db_entities d)" "tbl_ok (db_entities d')" "Entity d' i = (Entity d i)(k \<mapsto> st)"
  shows "EntityCount d' i = EntityCount d i + (if Entity d i k = None then 1 else 0)"
  using assms finite_Entity [of d i] by (auto simp: EntityCount_card card_insert_if domIff)

lemma EntityCount_delete:
  assumes "tbl_ok (db_entities d)" "tbl_ok (db_entities d')" "Entity d' i = (Entity d i)(k := None)"
  shows "EntityCount d' i = EntityCount d i - (if Entity d i k = None then 0 else 1)"
proof (cases "Entity d i k")
  case None
  then have "Entity d' i = Entity d i" using assms(3) by (simp add: fun_upd_idem)
  then show ?thesis using None assms(1,2) by (simp add: EntityCount_card)
next
  case (Some v)
  then have "k \<in> dom (Entity d i)" by auto
  then have "card (dom (Entity d i)) > 0" using finite_Entity [of d i] by (auto simp: card_gt_0_iff)
  then show ?thesis using Some assms finite_Entity [of d i] by (auto simp: EntityCount_card card_Diff_singleton \<open>k \<in> dom (Entity d i)\<close>)
qed


lemma overlaid_db:
  assumes "overlaid x ps base d" "entity_free f"
  shows "rel_result (\<lambda>d' base'. overlaid x ps base' d' \<and> db_entities d' = db_entities d \<and> db_entities base' = db_entities base)
    (f d) (f base)"
proof -
  let ?E = "db_entities base" and ?P = "db_pins base"
  have b: "base = with_entities ?E ?P d" using assms(1) by (simp add: overlaid_def)
  have fb: "f base = map_sum id (with_entities ?E ?P) (f d)" using assms(2) unfolding entity_free_def by (metis b)
  show ?thesis
  proof (cases "f d")
    case (Inl e)
    then show ?thesis by (simp add: fb)
  next
    case (Inr d')
    have "f d = map_sum id (with_entities (db_entities d) (db_pins d)) (f d)"
      using assms(2) unfolding entity_free_def by (metis with_entities_simps(2))
    then have d': "db_entities d' = db_entities d" "db_pins d' = db_pins d" using Inr by (metis map_sum.simps(2) sum.inject(2) with_entities_simps(3,4))+
    have "db_revisions d' = db_revisions base" using assms(2) Inr b unfolding entity_free_def by (metis with_entities_simps(5))
    then have "overlaid x ps (with_entities ?E ?P d') d'"
      using assms(1) unfolding overlaid_def with_entities_simps d' by simp
    then show ?thesis using Inr d' by (simp add: fb)
  qed
qed

lemma cache_rel_cong:
  assumes "cache_rel x d (base, c)" "overlaid x (map_of (ec_pending c)) base' d'" "db_entities d' = db_entities d"
    "db_entities base' = db_entities base"
  shows "cache_rel x d' (base', c)"
proof -
  have "Entity d' = Entity d" "EntityCount d' = EntityCount d" "Entity base' = Entity base"
    using assms(3,4) by (auto simp: Entity_def EntityCount_def fun_eq_iff)
  then show ?thesis using assms(1,2) by (simp add: cache_rel_def)
qed

lemma cache_rel_db:
  assumes "cache_rel x d s" "entity_free f"
  shows "rel_result (cache_rel x) (eo_db (direct_ops x) f d) (eo_db (cached_ops x) f s)"
proof -
  obtain base c where s: "s = (base, c)" by fastforce
  have "overlaid x (map_of (ec_pending c)) base d" using assms(1) by (simp add: cache_rel_def s)
  from overlaid_db [OF this assms(2)] show ?thesis
    using cache_rel_cong [OF assms(1) [unfolded s]]
    by (cases "f d"; cases "f base") (auto simp: direct_ops_def cached_ops_def s)
qed

lemma cache_rel_load:
  assumes "cache_rel x d s"
  shows "rel_prod (cache_rel x) (=) (eo_load (direct_ops x) k d) (eo_load (cached_ops x) k s)"
proof -
  obtain base c where s: "s = (base, c)" by fastforce
  have e: "Entity d (ax_id x) k = (case map_of (ec_pending c) k of Some st \<Rightarrow> Some st | None \<Rightarrow> Entity base (ax_id x) k)"
    using assms by (intro overlaid_Entity) (simp add: cache_rel_def s)
  show ?thesis
  proof (cases "known k c")
    case True
    then show ?thesis using assms by (auto simp: s direct_ops_def cached_ops_def cache_load_def Let_def known_def cache_rel_def)
  next
    case False
    then have "map_of (ec_pending c) k = None" using assms by (auto simp: cache_rel_def s)
    then have "Entity base (ax_id x) k = Entity d (ax_id x) k" using e by simp
    then show ?thesis using assms False
      by (auto simp: s direct_ops_def cached_ops_def cache_load_def Let_def known_def cache_rel_def alist_wf_put split: option.split)
  qed
qed

lemma cache_load_known: "known k (snd (fst (cache_load x k s)))"
  by (auto simp: cache_load_def Let_def known_def split: prod.split)

lemma cache_load_value: "snd (cache_load x k s) = map_of (ec_states (snd (fst (cache_load x k s)))) k"
  by (auto simp: cache_load_def Let_def split: prod.split)

lemma cache_rel_count:
  assumes "cache_rel x d s"
  shows "rel_prod (cache_rel x) (=) (eo_count (direct_ops x) d) (eo_count (cached_ops x) s)"
proof -
  obtain base c where s: "s = (base, c)" by fastforce
  have o: "overlaid x (map_of (ec_pending c)) base d" using assms by (simp add: cache_rel_def s)
  have "EntityCount base (ax_id x) = EntityCount d (ax_id x)" if "ec_n c < 0"
  proof -
    have "dom (Entity d (ax_id x)) = dom (Entity base (ax_id x))"
      using assms that overlaid_Entity [OF o] by (auto simp: cache_rel_def s dom_def split: option.splits)
    then show ?thesis using o by (simp add: EntityCount_card overlaid_def)
  qed
  then show ?thesis using assms
    by (auto simp: s direct_ops_def cached_ops_def cache_count_def Let_def cache_rel_def known_def EntityCount_length)
qed

lemma cache_rel_saved:
  assumes "cache_rel x d s" "cache_ready k s"
  shows "rel_result (cache_rel x) (eo_saved (direct_ops x) k st d) (eo_saved (cached_ops x) k st s)"
proof -
  obtain base c where s: "s = (base, c)" by fastforce
  have o: "overlaid x (map_of (ec_pending c)) base d" using assms(1) by (simp add: cache_rel_def s)
  obtain d' where d': "saveEntityData (ax_id x) k (cd_revision (ax_plan x)) st (ax_now x) d = Inr d'"
    "overlaid x ((map_of (ec_pending c))(k \<mapsto> st)) base d'"
    using o by (rule overlaid_write)
  have e: "Entity d' (ax_id x) = (Entity d (ax_id x))(k \<mapsto> st)"
    using overlaid_Entity [OF o] overlaid_Entity [OF d'(2)] by (auto simp: fun_eq_iff split: option.split)
  have n: "EntityCount d' (ax_id x) = EntityCount d (ax_id x) + (if Entity d (ax_id x) k = None then 1 else 0)"
    using o d'(2) by (intro EntityCount_write [OF _ _ e]) (auto simp: overlaid_def)
  have b: "Entity base (ax_id x) k \<noteq> None" if "ec_n c < 0"
    using assms that overlaid_Entity [OF o, of k] by (auto simp: cache_rel_def cache_ready_def s split: option.splits)
  have "cache_rel x d' (cache_saved k st s)"
    using assms d'(2) e n b
    by (auto simp: s cache_rel_def cache_saved_def cache_ready_def known_def alist_wf_put EntityCount_length split: if_splits)
  then show ?thesis by (simp add: direct_ops_def cached_ops_def d'(1))
qed


text \<open>Deleting an entity from both databases and from the overlay.\<close>

lemma DeleteEntity_with: "DeleteEntity i k d = with_entities (tbl_del (i, k) (db_entities d)) (filter (\<lambda>((j, _), _). j \<noteq> (i, k)) (db_pins d)) d"
  by (simp add: DeleteEntity_def with_entities_def)

lemma map_of_unpinned:
  "map_of (filter (\<lambda>((j, _), _). j \<noteq> key) pins) (j, p) = (if j = key then None else map_of pins (j, p))"
  by (induction pins) auto

lemma overlaid_delete:
  assumes "overlaid x ps base d"
  shows "overlaid x (ps(k := None)) (DeleteEntity (ax_id x) k base) (DeleteEntity (ax_id x) k d)"
proof -
  let ?del = "\<lambda>E. tbl_del (ax_id x, k) E" and ?pin = "filter (\<lambda>((j, _), _). j \<noteq> (ax_id x, k))"
  have b: "base = with_entities (db_entities base) (db_pins base) d" using assms by (simp add: overlaid_def)
  have "with_entities (?del (db_entities base)) (?pin (db_pins base)) base = with_entities (?del (db_entities base)) (?pin (db_pins base)) d"
    by (subst b) simp
  moreover have "db_revisions base = db_revisions d" by (subst b) simp
  ultimately show ?thesis
    using assms unfolding overlaid_def DeleteEntity_with with_entities_simps
    by (auto simp: tbl_del_map_of map_of_unpinned tbl_del_ok tbl_filter_ok split: option.split)
qed

lemma cache_rel_removed:
  assumes "cache_rel x d s" "cache_ready k s"
  shows "rel_result (\<lambda>d' s'. cache_rel x (eo_removed (direct_ops x) k d') (eo_removed (cached_ops x) k s'))
    (eo_db (direct_ops x) (\<lambda>d. Inr (DeleteEntity (ax_id x) k d)) d) (eo_db (cached_ops x) (\<lambda>d. Inr (DeleteEntity (ax_id x) k d)) s)"
proof -
  obtain base c where s: "s = (base, c)" by fastforce
  let ?d = "DeleteEntity (ax_id x) k d" and ?b = "DeleteEntity (ax_id x) k base"
  have o: "overlaid x (map_of (ec_pending c)) base d" using assms(1) by (simp add: cache_rel_def s)
  note o' = overlaid_delete [OF o, of k]
  have e: "Entity (DeleteEntity (ax_id x) k t) (ax_id x) = (Entity t (ax_id x))(k := None)" for t
    by (auto simp: fun_eq_iff Entity_def DeleteEntity_def tbl_del_map_of)
  have n: "EntityCount ?d (ax_id x) = EntityCount d (ax_id x) - (if Entity d (ax_id x) k = None then 0 else 1)"
    using o o' by (intro EntityCount_delete [OF _ _ e]) (auto simp: overlaid_def)
  have "alist_wf (alist_del k m)" if "alist_wf m" for m :: "(string \<times> cstate) list"
    using that by (simp add: alist_del_def alist_wf_filter)
  then have "cache_rel x ?d (cache_removed k (?b, c))"
    using assms o' e n
    by (auto simp: s cache_rel_def cache_removed_def cache_ready_def known_def EntityCount_length split: if_splits)
  then show ?thesis by (simp add: direct_ops_def cached_ops_def s)
qed

lemma cache_rel_flush:
  assumes "cache_rel x d s"
  obtains c' where "cache_flush x s = Inr (d, c')" "cache_rel x d (d, c')" "ec_pending c' = []"
    "ec_all c' = ec_all (snd s)"
proof -
  obtain base c where s: "s = (base, c)" by fastforce
  have o: "overlaid x (map_of (ec_pending c)) base d" and wf: "alist_wf (ec_pending c)" using assms by (simp_all add: cache_rel_def s)
  have ok: "overlaid x (map_of []) d d"
  proof -
    have "map_of (db_revisions d) (ax_id x, cd_revision (ax_plan x)) \<noteq> None"
      using o unfolding overlaid_def by (metis with_entities_simps(5))
    then show ?thesis using overlaid_refl [of d x] o by (simp add: overlaid_def)
  qed
  show thesis
  proof (cases "ec_pending c = []")
    case True
    then have "base = d" using overlaid_none [of x base d] o by simp
    then show thesis using that [of c] assms True by (simp add: cache_flush_def s)
  next
    case False
    then have "cache_flush x s = Inr (d, c\<lparr>ec_pending := []\<rparr>)" using overlaid_SaveEntities [OF o wf] by (simp add: cache_flush_def s)
    moreover have "cache_rel x d (d, c\<lparr>ec_pending := []\<rparr>)"
      using assms ok by (auto simp: cache_rel_def s known_def alist_wf_def)
    ultimately show thesis using that by (simp add: s)
  qed
qed

lemma cache_rel_all:
  assumes "cache_rel x d s"
  obtains s' where "cache_all x s = Inr s'" "cache_rel x d s'" "ec_all (snd s')"
proof (cases "ec_all (snd s)")
  case True
  then show thesis using that [of s] assms by (simp add: cache_all_def)
next
  case False
  obtain c where c: "cache_flush x s = Inr (d, c)" "cache_rel x d (d, c)" "ec_pending c = []" using assms by (rule cache_rel_flush)
  have ok: "tbl_ok (db_entities d)" using c(2) by (simp add: cache_rel_def overlaid_def)
  let ?c = "c\<lparr>ec_states := Entities d (ax_id x), ec_all := True, ec_n := int (length (Entities d (ax_id x)))\<rparr>"
  have "cache_rel x d (d, ?c)"
    using c(2,3) Entities_wf [OF ok] by (auto simp: cache_rel_def known_def map_of_Entities EntityCount_length)
  then show thesis using that [of "(d, ?c)"] c(1) False by (simp add: cache_all_def Let_def)
qed

lemma all_keys:
  assumes "cache_rel x d s" "ec_all (snd s)"
  shows "sort (map fst (ec_states (snd s))) = sort (map fst (Entities d (ax_id x)))"
proof (rule sort_same_keys)
  show "alist_wf (Entities d (ax_id x))" using assms(1) by (intro Entities_wf) (auto simp: cache_rel_def overlaid_def split: prod.splits)
  show "alist_wf (ec_states (snd s))" "map_of (ec_states (snd s)) = map_of (Entities d (ax_id x))"
    using assms by (auto simp: cache_rel_def known_def map_of_Entities fun_eq_iff split: prod.splits)
qed

lemma cache_rel_route:
  assumes "cache_rel x d s"
  shows "rel_result (rel_prod (cache_rel x) (=)) (eo_route (direct_ops x) ob d) (eo_route (cached_ops x) ob s)"
proof -
  have goal: "rel_result (rel_prod (cache_rel x) (=)) (eo_route (direct_ops x) ob d)
      (bindE (Route (ax_evaluator x) es ob) (\<lambda>(keys, clear). Inr (s1, keys, clear)))"
    if "cache_rel x d s1" "sort es = sort (existing_keys x ob d)" for es s1
    using that(1) Route_sorted [OF that(2)]
    by (cases "Route (ax_evaluator x) (existing_keys x ob d) ob") (auto simp: direct_ops_def split: prod.split)
  consider "o_health ob = ''ok''" | "o_health ob \<noteq> ''ok''" "o_health ob \<noteq> ''timer'' \<or> o_entity ob = ''''"
    | "o_health ob \<noteq> ''ok''" "o_health ob = ''timer''" "o_entity ob \<noteq> ''''" by blast
  then show ?thesis
  proof cases
    case 1
    obtain s1 st where l: "cache_load x SourceEntity s = (s1, st)" by fastforce
    have "cache_rel x d s1" "st = Entity d (ax_id x) SourceEntity"
      using cache_rel_load [OF assms, of SourceEntity] l by (auto simp: direct_ops_def cached_ops_def)
    then show ?thesis using goal [of s1 "if st = None then [] else [SourceEntity]"] 1 l
      by (simp add: cached_ops_def cache_route_def existing_keys_def)
  next
    case 2
    obtain s1 where "cache_all x s = Inr s1" "cache_rel x d s1" "ec_all (snd s1)" using assms by (rule cache_rel_all)
    then show ?thesis using goal [of s1 "map fst (ec_states (snd s1))"] all_keys [of x d s1] 2
      by (simp add: cached_ops_def cache_route_def existing_keys_def)
  next
    case 3
    then show ?thesis using goal [of s "[]"] assms by (simp add: cached_ops_def cache_route_def existing_keys_def)
  qed
qed

interpretation cached: entity_access "direct_ops x" "cached_ops x" x "cache_rel x" cache_ready for x
proof unfold_locales
  show "cache_rel x a c \<Longrightarrow> eo_load (cached_ops x) k c = (c', Some st) \<Longrightarrow> cache_ready k c'" for a c k c' st
    using cache_load_known [of k x c] cache_load_value [of x k c]
    by (auto simp: cached_ops_def cache_ready_def split: prod.splits dest: sym)
  show "cache_rel x a c \<Longrightarrow> eo_load (cached_ops x) k c = (c', None) \<Longrightarrow> cache_ready k (fst (eo_count (cached_ops x) c'))" for a c k c'
    using cache_load_known [of k x c]
    by (auto simp: cached_ops_def cache_ready_def cache_count_def Let_def known_def EntityCount_def split: prod.splits)
  show "cache_ready k c \<Longrightarrow> eo_db (cached_ops x) f c = Inr c' \<Longrightarrow> cache_ready k c'" for k c f c'
    by (auto simp: cached_ops_def cache_ready_def split: prod.splits)
qed (fact cache_rel_route cache_rel_load cache_rel_count cache_rel_db cache_rel_saved cache_rel_removed
    SaveTimer_free append_all_free appendEvaluated_free)+


section \<open>The cache is transparent\<close>

lemma new_cache_rel:
  assumes "tbl_ok (db_entities d)" "tbl_ok (db_pins d)" "map_of (db_revisions d) (ax_id x, cd_revision (ax_plan x)) \<noteq> None"
  shows "cache_rel x d (d, newAcceptanceEntities)"
  using overlaid_refl [of d x] assms by (simp add: cache_rel_def newAcceptanceEntities_def known_def alist_wf_def)

lemma preload_rel:
  assumes "cache_rel x d (d, newAcceptanceEntities)" "cache_preload x obs (d, newAcceptanceEntities) = Inr s"
  shows "cache_rel x d s"
proof (cases "length obs < 2")
  case True
  then show ?thesis using assms by (simp add: cache_preload_def)
next
  case False
  then obtain w where "wanted_keys (ax_evaluator x) obs = Inr w"
    "s = (d, newAcceptanceEntities\<lparr>ec_states := EntitySubset d (ax_id x) w, ec_known := w\<rparr>)"
    using assms(2) by (auto simp: cache_preload_def)
  moreover have ok: "tbl_ok (db_entities d)" using assms(1) by (simp add: cache_rel_def overlaid_def)
  moreover have "alist_wf (EntitySubset d (ax_id x) w)"
    using Entities_wf [OF ok] by (auto simp: EntitySubset_def case_prod_beta')
  ultimately show ?thesis using assms(1)
    by (auto simp: cache_rel_def newAcceptanceEntities_def known_def map_of_EntitySubset)
qed

lemma Route_ok_existing:
  "o_health ob = ''ok'' \<Longrightarrow> Route ev es ob = Inr r \<Longrightarrow> \<exists>r'. Route ev [] ob = Inr r'"
  by (auto simp: Route_def Let_def split: if_splits)

lemma direct_routes:
  "accept_observations (direct_ops x) x obs d = Inr d' \<Longrightarrow> \<exists>w. wanted_keys (ax_evaluator x) obs = Inr w"
proof (induction obs arbitrary: d)
  case (Cons ob obs)
  then obtain d1 where d1: "accept_observation (direct_ops x) x ob d = Inr d1" "accept_observations (direct_ops x) x obs d1 = Inr d'"
    by auto
  then obtain w where w: "wanted_keys (ax_evaluator x) obs = Inr w" using Cons.IH by blast
  have "\<exists>r. Route (ax_evaluator x) (existing_keys x ob d) ob = Inr r"
    using d1(1) by (auto simp: accept_observation_def direct_ops_def)
  then have "o_health ob = ''ok'' \<Longrightarrow> \<exists>r. Route (ax_evaluator x) [] ob = Inr r" using Route_ok_existing by blast
  then show ?case using w by auto
qed simp

lemma cache_transparent:
  assumes "tbl_ok (db_entities d)" "tbl_ok (db_pins d)" "map_of (db_revisions d) (ax_id x, cd_revision (ax_plan x)) \<noteq> None"
  shows "accept_cached x obs d = Inr d' \<longleftrightarrow> accept_direct x obs d = Inr d'"
proof (cases "cache_preload x obs (d, newAcceptanceEntities)")
  case (Inl e)
  then have "\<nexists>w. wanted_keys (ax_evaluator x) obs = Inr w" by (auto simp: cache_preload_def split: if_splits)
  then have "accept_direct x obs d \<noteq> Inr d'" using direct_routes [of x obs d d'] by (auto simp: accept_direct_def)
  then show ?thesis using Inl by (simp add: accept_cached_def)
next
  case (Inr s)
  have "cache_rel x d s" using preload_rel [OF new_cache_rel [OF assms] Inr] .
  from cached.accept_observations_rel [OF this, of obs]
  have r: "rel_result (cache_rel x) (accept_direct x obs d) (accept_observations (cached_ops x) x obs s)" by (simp add: accept_direct_def)
  show ?thesis
  proof (cases "accept_observations (cached_ops x) x obs s")
    case (Inl e)
    then show ?thesis using r Inr by (cases "accept_direct x obs d") (simp_all add: accept_cached_def)
  next
    case (Inr s1)
    then obtain d1 where d1: "accept_direct x obs d = Inr d1" "cache_rel x d1 s1" using r by (auto simp: rel_result_Inr)
    obtain c' where "cache_flush x s1 = Inr (d1, c')" using d1(2) by (rule cache_rel_flush)
    then show ?thesis using d1(1) Inr \<open>cache_preload x obs (d, newAcceptanceEntities) = Inr s\<close> by (simp add: accept_cached_def)
  qed
qed

text \<open>C38: the entity cache of an acceptance is transparent. A batch is accepted through the cache if and
  only if it is accepted with every entity read from and written to the database at once, and then the
  two leave the same database: the same entity states and pins, events, checkpoints, timers and
  deliveries.\<close>

theorem entity_cache_transparent:
  assumes "tbl_ok (db_entities d)" "tbl_ok (db_pins d)" "map_of (db_revisions d) (ax_id x, cd_revision (ax_plan x)) \<noteq> None"
  shows "accept_cached x obs d = Inr d' \<longleftrightarrow> accept_direct x obs d = Inr d'"
  using assms by (rule cache_transparent)

definition ex_stored :: "db \<times> observation list" where
  "ex_stored =
     (let obs = ba_observations ex_batch in
      case AppendObservations ''api-health'' ''r1'' 1 obs ex_db of
        Inr (d, ss) \<Rightarrow> (d, map2 (\<lambda>ob s. ob\<lparr>o_sequence := s\<rparr>) obs ss)
      | Inl _ \<Rightarrow> (ex_db, []))"

theorem entity_cache_transparent_witness:
  "\<exists>d'. accept_cached ex_ctx (snd ex_stored) (fst ex_stored) = Inr d' \<and> accept_direct ex_ctx (snd ex_stored) (fst ex_stored) = Inr d' \<and>
     length (db_entities d') = 2 \<and> length (db_events d') = 1 \<and> Pending d' = 1"
proof -
  have "tbl_ok (db_entities (fst ex_stored)) \<and> tbl_ok (db_pins (fst ex_stored)) \<and>
      map_of (db_revisions (fst ex_stored)) (ax_id ex_ctx, cd_revision (ax_plan ex_ctx)) \<noteq> None"
    by code_simp
  then have iff: "accept_cached ex_ctx (snd ex_stored) (fst ex_stored) = Inr d' \<longleftrightarrow>
      accept_direct ex_ctx (snd ex_stored) (fst ex_stored) = Inr d'" for d'
    by (intro entity_cache_transparent) auto
  have "case accept_direct ex_ctx (snd ex_stored) (fst ex_stored) of Inl _ \<Rightarrow> False
      | Inr d' \<Rightarrow> length (db_entities d') = 2 \<and> length (db_events d') = 1 \<and> Pending d' = 1"
    by code_simp
  then show ?thesis by (auto simp: iff split: sum.splits)
qed

end
