(* ===== verification/Acceptance_Laws.thy ===== *)
theory Acceptance_Laws
  imports Acceptance_Cache
begin

text \<open>
  What an acceptance keeps. A locale collects what the loop over the observations does to the
  database; each of its interpretations is one invariant: the parts of the database the loop leaves
  alone, the limit on pending deliveries, and the integrity of the store.
\<close>

lemma bindE_InrE:
  assumes "bindE r f = Inr b"
  obtains a where "r = Inr a" "f a = Inr b"
  using assms by (cases r) auto

lemma bindE_pairE:
  assumes "bindE r (\<lambda>(a, u). F a u) = Inr b"
  obtains a u where "r = Inr (a, u)" "F a u = Inr b"
  using assms by (cases r) auto

section \<open>Invariants of the loop\<close>

locale acceptance_invariant =
  fixes I :: "db \<Rightarrow> bool" and x :: accept_ctx
  assumes timer: "I d \<Longrightarrow> SaveTimer v tm d = Inr d' \<Longrightarrow> I d'"
    and entity: "I d \<Longrightarrow> saveEntityData (ax_id x) k (cd_revision (ax_plan x)) st (ax_now x) d = Inr d' \<Longrightarrow> I d'"
    and delete: "I d \<Longrightarrow> I (DeleteEntity (ax_id x) k d)"
    and event: "I d \<Longrightarrow> AppendEvent ev d = Inr (d', n) \<Longrightarrow> I d'"
    and enqueue: "I d \<Longrightarrow> Pending d < rl_max_pending (av_limits (ax_env x)) \<Longrightarrow> db_enqueue e i dest rv pl na cr d = Inr (d', n) \<Longrightarrow> I d'"
    and replay: "I d \<Longrightarrow> SaveReplay e c d = Inr d' \<Longrightarrow> I d'"
begin

lemma enqueue_targets: "I d \<Longrightarrow> enqueue_targets (ax_env x) i e now tgs d = Inr d' \<Longrightarrow> I d'"
proof (induction tgs arbitrary: d)
  case (Cons tg tgs)
  show ?case
  proof (cases "e_type e \<in> set (t_events tg)")
    case True
    with Cons.prems(2) obtain dest :: compiled_destination and pl d1 n where "Pending d < rl_max_pending (av_limits (ax_env x))"
      "db_enqueue (e_id e) i (t_ref tg) (cds_revision dest) pl now now d = Inr (d1, n)"
      "enqueue_targets (ax_env x) i e now tgs d1 = Inr d'"
      by (auto simp: not_le split: if_splits)
    then show ?thesis using Cons.IH enqueue [OF Cons.prems(1)] by blast
  next
    case False
    then show ?thesis using Cons by simp
  qed
qed simp

lemma evaluated: "I d \<Longrightarrow> appendEvaluated (ax_env x) r e now c d = Inr d' \<Longrightarrow> I d'"
  by (auto simp: appendEvaluated_def appendEvent_def) (metis event enqueue_targets replay)

lemma append: "I d \<Longrightarrow> append_all (ax_env x) r es now c d = Inr d' \<Longrightarrow> I d'"
  by (induction es arbitrary: d) (auto intro: evaluated)

lemma saves: "I d \<Longrightarrow> save_all (ax_id x) (cd_revision (ax_plan x)) (ax_now x) ps d = Inr d' \<Longrightarrow> I d'"
proof (induction ps arbitrary: d)
  case (Cons p ps)
  then show ?case by (cases p) (auto intro: entity)
qed simp

lemma flush: "I (fst s) \<Longrightarrow> cache_flush x s = Inr s' \<Longrightarrow> I (fst s')"
  by (auto simp: cache_flush_def SaveEntities_def split: prod.splits if_splits intro: saves)

lemma route: "I (fst s) \<Longrightarrow> cache_route x ob s = Inr (s', r) \<Longrightarrow> I (fst s')"
proof -
  assume a: "I (fst s)" "cache_route x ob s = Inr (s', r)"
  have "fst (fst (cache_load x k s)) = fst s" for k by (auto simp: cache_load_def Let_def split: prod.split)
  then have "I (fst s1)" if "cache_load x k s = (s1, st)" for k s1 st using a(1) that by (metis fst_conv)
  moreover have "I (fst s1)" if "cache_all x s = Inr s1" for s1
    using a(1) that flush by (fastforce simp: cache_all_def Let_def split: if_splits)
  ultimately show ?thesis using a by (auto simp: cache_route_def split: if_splits prod.splits)
qed

lemma entity_loaded: "entity_state (cached_ops x) x k s = Inr (s', st) \<Longrightarrow> fst s' = fst s"
  by (auto simp: entity_state_def cached_ops_def cache_load_def cache_count_def Let_def split: option.splits if_splits prod.splits)

lemma one_entity: "I (fst s) \<Longrightarrow> accept_entity (cached_ops x) x ob k s = Inr s' \<Longrightarrow> I (fst s')"
proof -
  assume a: "I (fst s)" "accept_entity (cached_ops x) x ob k s = Inr s'"
  then obtain s1 st and res :: transition and s2 s3 where s: "entity_state (cached_ops x) x k s = Inr (s1, st)"
    "(if c_missing_for (s_condition (ax_spec x)) \<noteq> '''' \<and> (o_health ob = ''ok'' \<or> o_health ob = ''unchanged'')
      then eo_db (cached_ops x) (SaveTimer (av_json_valid (ax_env x)) (missing_timer x k (tr_state res))) s1 else Inr s1) = Inr s2"
    "eo_saved (cached_ops x) k (tr_state res) s2 = Inr s3"
    "eo_db (cached_ops x) (append_all (ax_env x) (ax_current x) (tr_events res) (ax_now x)
       \<lparr>cp_prior = st, cp_input = ob, cp_source_recovered = False\<rparr>) s3 = Inr s'"
    unfolding accept_entity_def by (elim bindE_pairE bindE_InrE) blast
  have "I (fst s1)" using a(1) entity_loaded [OF s(1)] by simp
  then have "I (fst s2)" using s(2) by (auto simp: cached_ops_def split: if_splits prod.splits intro: timer)
  moreover have "fst s3 = fst s2" using s(3) by (auto simp: cached_ops_def cache_saved_def split: prod.splits)
  ultimately have "I (fst s3)" by simp
  then show ?thesis using s(4) by (auto simp: cached_ops_def split: prod.splits intro: append)
qed

lemma entities: "I (fst s) \<Longrightarrow> accept_keys (cached_ops x) x ob ks s = Inr s' \<Longrightarrow> I (fst s')"
  by (induction ks arbitrary: s) (auto intro: one_entity)

lemma source_cleared: "I (fst s) \<Longrightarrow> clear_source (cached_ops x) x ob s = Inr s' \<Longrightarrow> I (fst s')"
proof -
  assume a: "I (fst s)" "clear_source (cached_ops x) x ob s = Inr s'"
  obtain base c st where l: "cache_load x SourceEntity s = ((base, c), st)" by (metis prod.collapse)
  have "base = fst s" using l by (auto simp: cache_load_def Let_def split: prod.splits)
  then have "I (DeleteEntity (ax_id x) SourceEntity base)" using a(1) delete by simp
  then show ?thesis using a(2) l
    by (auto simp: clear_source_def cached_ops_def cache_removed_def Let_def split: option.splits if_splits intro: evaluated)
qed

lemma observations: "I (fst s) \<Longrightarrow> accept_observations (cached_ops x) x obs s = Inr s' \<Longrightarrow> I (fst s')"
proof (induction obs arbitrary: s)
  case (Cons ob obs)
  then obtain s1 keys clear s2 s3 where "cache_route x ob s = Inr (s1, keys, clear)"
    "(if clear then clear_source (cached_ops x) x ob s1 else Inr s1) = Inr s2" "accept_keys (cached_ops x) x ob keys s2 = Inr s3"
    "accept_observations (cached_ops x) x obs s3 = Inr s'"
    unfolding accept_observations.simps accept_observation_def
    by (elim bindE_pairE bindE_InrE) (auto simp: cached_ops_def elim!: bindE_InrE)
  then show ?case using Cons.IH Cons.prems(1) route source_cleared entities by (metis sum.inject(2))
qed simp

theorem accepted: "I d \<Longrightarrow> accept_cached x obs d = Inr d' \<Longrightarrow> I d'"
proof -
  assume a: "I d" "accept_cached x obs d = Inr d'"
  then obtain s s1 s2 where s: "cache_preload x obs (d, newAcceptanceEntities) = Inr s"
    "accept_observations (cached_ops x) x obs s = Inr s1" "cache_flush x s1 = Inr s2" "d' = fst s2"
    by (auto simp: accept_cached_def)
  have "fst s = d" using s(1) by (auto simp: cache_preload_def split: if_splits)
  then show ?thesis using s a(1) observations flush by metis
qed

end

section \<open>What the loop leaves alone\<close>

definition loop_frame :: "db \<Rightarrow> (string \<times> watch_row) list \<times> ((string \<times> string) \<times> revision_row) list \<times>
    ((string \<times> int \<times> string) \<times> receipt_row) list \<times> push_tables \<times> (int \<times> observation_row) list \<times> int" where
  "loop_frame d = (db_watches d, db_revisions d, db_receipts d, db_push d, db_observations d, db_observation_sequence d)"

lemma add_evidence_frame:
  "add_evidence e ss d = Inr d' \<Longrightarrow> d' = d\<lparr>db_evidence := db_evidence d @ map (Pair e) ss\<rparr> \<and>
     distinct ss \<and> (\<forall>s \<in> set ss. (e, s) \<notin> set (db_evidence d) \<and> map_of (db_observations d) s \<noteq> None)"
proof (induction ss arbitrary: d)
  case (Cons s ss)
  then have "add_evidence e ss (d\<lparr>db_evidence := db_evidence d @ [(e, s)]\<rparr>) = Inr d'" "(e, s) \<notin> set (db_evidence d)"
    "map_of (db_observations d) s \<noteq> None"
    by (auto split: if_splits)
  with Cons.IH [OF this(1)] show ?case by auto
qed simp

abbreviation event_ids :: "db \<Rightarrow> string list" where
  "event_ids d \<equiv> map (\<lambda>p. e_id (snd p)) (db_events d)"

lemma event_stored: "list_ex (\<lambda>(_, q). e_id q = e) es \<longleftrightarrow> e \<in> set (map (\<lambda>p. e_id (snd p)) es)"
  by (induction es) auto

lemma AppendEvent_elim:
  assumes "AppendEvent e d = Inr (d', n)"
  obtains "n = db_event_sequence d + 1" "e_id e \<notin> set (event_ids d)"
    "map_of (db_revisions d) (e_watch_id e, e_revision e) \<noteq> None" "distinct (e_evidence e)"
    "\<forall>s \<in> set (e_evidence e). (e_id e, s) \<notin> set (db_evidence d) \<and> map_of (db_observations d) s \<noteq> None"
    "d' = d\<lparr>db_events := db_events d @ [(n, e)], db_event_sequence := n, db_evidence := db_evidence d @ map (Pair (e_id e)) (e_evidence e)\<rparr>"
proof -
  let ?d = "d\<lparr>db_events := db_events d @ [(db_event_sequence d + 1, e)], db_event_sequence := db_event_sequence d + 1\<rparr>"
  have a: "add_evidence (e_id e) (e_evidence e) ?d = Inr d'" and n: "n = db_event_sequence d + 1"
    and i: "e_id e \<notin> set (event_ids d)" and rv: "map_of (db_revisions d) (e_watch_id e, e_revision e) \<noteq> None"
    using assms unfolding AppendEvent_def Let_def event_stored by (auto simp del: set_map split: if_splits)
  note f = add_evidence_frame [OF a]
  show thesis
  proof (rule that [OF n i rv])
    show "d' = d\<lparr>db_events := db_events d @ [(n, e)], db_event_sequence := n, db_evidence := db_evidence d @ map (Pair (e_id e)) (e_evidence e)\<rparr>"
      using conjunct1 [OF f] unfolding n by simp
  qed (use conjunct2 [OF f] in simp_all)
qed

lemma db_enqueue_elim:
  assumes "db_enqueue e i dest rv pl na cr d = Inr (d', n)"
  obtains ot where "Enqueue e i dest rv pl na cr (db_outbox d) = Inr (ot, n)" "d' = d\<lparr>db_outbox := ot\<rparr>"
    "e \<in> set (event_ids d)"
  using assms unfolding db_enqueue_def event_stored by (auto simp del: set_map split: if_splits)

lemma SaveTimer_elim:
  assumes "SaveTimer v tm d = Inr d'"
  obtains row where "d' = d\<lparr>db_timers := tbl_put (tm_watch_id tm, tm_entity tm, tm_kind tm) row (db_timers d)\<rparr>"
    "map_of (db_watches d) (tm_watch_id tm) \<noteq> None"
  using assms by (auto simp: SaveTimer_def split: if_splits)

lemma SaveReplay_elim:
  assumes "SaveReplay e c d = Inr d'"
  obtains "d' = d\<lparr>db_replays := db_replays d @ [(e, c)]\<rparr>" "map_of (db_replays d) e = None" "e \<in> set (event_ids d)"
  using assms unfolding SaveReplay_def event_stored by (auto simp del: set_map split: if_splits)

lemma saveEntityData_elim:
  assumes "saveEntityData i k rv st now d = Inr d'"
  obtains "map_of (db_revisions d) (i, rv) \<noteq> None"
    "d' = d\<lparr>db_entities := tbl_put (i, k) \<lparr>er_revision = rv, er_state = st, er_updated_at = timestamp now\<rparr> (db_entities d),
      db_pins := syncEntityPins (i, k) st (db_pins d)\<rparr>"
  using assms by (auto simp: saveEntityData_def split: if_splits)

interpretation frame: acceptance_invariant "\<lambda>d. loop_frame d = loop_frame d0" x for d0 x
  by unfold_locales
    (auto simp: loop_frame_def DeleteEntity_def elim!: AppendEvent_elim db_enqueue_elim SaveTimer_elim SaveReplay_elim saveEntityData_elim)

section \<open>Pending deliveries\<close>

lemma Pending_enqueue: "db_enqueue e i dest rv pl na cr d = Inr (d', n) \<Longrightarrow> Pending d' = Pending d + 1"
proof -
  have "ot_rows (stream_enter k t) = ot_rows t" for k t by (simp add: stream_enter_def)
  then show "db_enqueue e i dest rv pl na cr d = Inr (d', n) \<Longrightarrow> ?thesis"
    by (auto simp: Pending_def Enqueue_def Let_def live_def elim!: db_enqueue_elim split: if_splits)
qed

interpretation pending: acceptance_invariant "\<lambda>d. Pending d \<le> rl_max_pending (av_limits (ax_env x))" x for x
proof unfold_locales
  fix d e i dest rv pl na cr d' n
  assume "Pending d < rl_max_pending (av_limits (ax_env x))" "db_enqueue e i dest rv pl na cr d = Inr (d', n)"
  then show "Pending d' \<le> rl_max_pending (av_limits (ax_env x))" using Pending_enqueue by force
qed (auto simp: Pending_def DeleteEntity_def elim!: AppendEvent_elim SaveTimer_elim SaveReplay_elim saveEntityData_elim)


section \<open>Integrity of the store\<close>

text \<open>Rows are in key order, sequences grow, the references of the schema hold, and the pins of an
  entity are exactly what its state refers to.\<close>

definition keys_ok :: "db \<Rightarrow> bool" where
  "keys_ok d \<longleftrightarrow> tbl_ok (db_watches d) \<and> tbl_ok (db_revisions d) \<and> tbl_ok (db_entities d) \<and> tbl_ok (db_pins d) \<and>
     tbl_ok (db_timers d) \<and> tbl_ok (db_receipts d)"

definition sequences_ok :: "db \<Rightarrow> bool" where
  "sequences_ok d \<longleftrightarrow> sorted_wrt (<) (map fst (db_observations d)) \<and> (\<forall>s \<in> fst ` set (db_observations d). s \<le> db_observation_sequence d) \<and>
     sorted_wrt (<) (map fst (db_events d)) \<and> (\<forall>s \<in> fst ` set (db_events d). s \<le> db_event_sequence d) \<and> distinct (event_ids d)"

definition revision_known :: "db \<Rightarrow> string \<Rightarrow> string \<Rightarrow> bool" where
  "revision_known d i rv \<longleftrightarrow> (i, rv) \<in> fst ` set (db_revisions d)"

definition rows_refer :: "db \<Rightarrow> bool" where
  "rows_refer d \<longleftrightarrow>
     (\<forall>r \<in> set (db_watches d). revision_known d (fst r) (wt_revision (snd r))) \<and>
     (\<forall>r \<in> set (db_revisions d). md_id (d_metadata (rr_definition (snd r))) = fst (fst r)) \<and>
     (\<forall>r \<in> set (db_entities d). revision_known d (fst (fst r)) (er_revision (snd r))) \<and>
     (\<forall>r \<in> set (db_observations d). revision_known d (oo_watch_id (snd r)) (oo_revision (snd r))) \<and>
     (\<forall>r \<in> set (db_events d). revision_known d (e_watch_id (snd r)) (e_revision (snd r))) \<and>
     (\<forall>r \<in> set (db_timers d). fst (fst r) \<in> fst ` set (db_watches d)) \<and>
     (\<forall>r \<in> set (db_receipts d). fst (fst r) \<in> fst ` set (db_watches d))"

definition events_refer :: "db \<Rightarrow> bool" where
  "events_refer d \<longleftrightarrow>
     (\<forall>p \<in> set (db_evidence d). fst p \<in> set (event_ids d) \<and> snd p \<in> fst ` set (db_observations d)) \<and>
     (\<forall>p \<in> set (db_replays d). fst p \<in> set (event_ids d)) \<and>
     (\<forall>r \<in> set (ot_rows (db_outbox d)). ob_event_id r \<in> set (event_ids d))"

definition pins_ok :: "db \<Rightarrow> bool" where
  "pins_ok d \<longleftrightarrow> (\<forall>k p. map_of (db_pins d) (k, p) =
     (case map_of (db_entities d) k of
        Some r \<Rightarrow> if p \<in> set (entityReferences (er_state r)) then Some () else None
      | None \<Rightarrow> None))"

definition store_ok :: "db \<Rightarrow> bool" where
  "store_ok d \<longleftrightarrow> keys_ok d \<and> sequences_ok d \<and> rows_refer d \<and> events_refer d \<and> pins_ok d"

lemmas store_parts = keys_ok_def sequences_ok_def rows_refer_def events_refer_def pins_ok_def revision_known_def

lemma in_tbl_put: "r \<in> set (tbl_put k v t) \<Longrightarrow> r = (k, v) \<or> r \<in> set t"
  by (induction k v t rule: tbl_put.induct) (auto split: if_splits)

lemma known_key: "map_of t k \<noteq> None \<longleftrightarrow> k \<in> fst ` set t"
  by (simp add: map_of_eq_None_iff)

lemma all_tbl_put: "\<forall>r \<in> set t. P r \<Longrightarrow> P (k, v) \<Longrightarrow> \<forall>r \<in> set (tbl_put k v t). P r"
  using in_tbl_put by metis

lemma store_ok_timer: "store_ok d \<Longrightarrow> SaveTimer v tm d = Inr d' \<Longrightarrow> store_ok d'"
proof -
  assume ok: "store_ok d" and "SaveTimer v tm d = Inr d'"
  from this(2) obtain row where d': "d' = d\<lparr>db_timers := tbl_put (tm_watch_id tm, tm_entity tm, tm_kind tm) row (db_timers d)\<rparr>"
    "map_of (db_watches d) (tm_watch_id tm) \<noteq> None" by (rule SaveTimer_elim)
  have "rows_refer d'"
    using ok d' all_tbl_put [of "db_timers d" "\<lambda>r. fst (fst r) \<in> fst ` set (db_watches d)" "(tm_watch_id tm, tm_entity tm, tm_kind tm)" row]
    unfolding store_ok_def rows_refer_def known_key by (simp add: revision_known_def)
  then show ?thesis using ok d'(1) by (simp add: store_ok_def keys_ok_def sequences_ok_def events_refer_def pins_ok_def tbl.ok_put)
qed

lemma store_ok_entity: "store_ok d \<Longrightarrow> saveEntityData i k rv st now d = Inr d' \<Longrightarrow> store_ok d'"
proof -
  assume ok: "store_ok d" and "saveEntityData i k rv st now d = Inr d'"
  let ?row = "\<lparr>er_revision = rv, er_state = st, er_updated_at = timestamp now\<rparr>"
  from \<open>saveEntityData i k rv st now d = Inr d'\<close> have d': "map_of (db_revisions d) (i, rv) \<noteq> None"
    "d' = d\<lparr>db_entities := tbl_put (i, k) ?row (db_entities d), db_pins := syncEntityPins (i, k) st (db_pins d)\<rparr>"
    by (auto elim: saveEntityData_elim)
  have t: "tbl_ok (db_entities d)" "tbl_ok (db_pins d)" using ok by (auto simp: store_ok_def keys_ok_def)
  have "rows_refer d'"
    using ok d' all_tbl_put [of "db_entities d" "\<lambda>r. revision_known d (fst (fst r)) (er_revision (snd r))" "(i, k)" ?row]
    unfolding store_ok_def rows_refer_def known_key by (simp add: revision_known_def)
  moreover have "pins_ok d'"
    using ok syncEntityPins_map_of [OF t(2), of "(i, k)" st] t(1) unfolding store_ok_def pins_ok_def d'(2)
    by (simp add: tbl.get_put)
  moreover have "keys_ok d'" using ok syncEntityPins_map_of [OF t(2), of "(i, k)" st] by (simp add: store_ok_def keys_ok_def d'(2) tbl.ok_put)
  ultimately show ?thesis using ok d'(2) by (simp add: store_ok_def sequences_ok_def events_refer_def)
qed

lemma store_ok_delete: "store_ok d \<Longrightarrow> store_ok (DeleteEntity i k d)"
proof -
  assume ok: "store_ok d"
  have "set (tbl_del (i, k) (db_entities d)) \<subseteq> set (db_entities d)" by (auto simp: tbl_del_def)
  then have "rows_refer (DeleteEntity i k d)"
    using ok unfolding store_ok_def rows_refer_def by (auto simp: DeleteEntity_def revision_known_def)
  moreover have "pins_ok (DeleteEntity i k d)"
    using ok unfolding store_ok_def pins_ok_def by (auto simp: DeleteEntity_def tbl_del_map_of map_of_unpinned)
  moreover have "keys_ok (DeleteEntity i k d)"
    using ok by (simp add: store_ok_def keys_ok_def DeleteEntity_def tbl_del_ok tbl_filter_ok)
  ultimately show ?thesis using ok by (simp add: store_ok_def sequences_ok_def events_refer_def DeleteEntity_def)
qed

lemma store_ok_event: "store_ok d \<Longrightarrow> AppendEvent e d = Inr (d', n) \<Longrightarrow> store_ok d'"
proof -
  assume ok: "store_ok d" and a: "AppendEvent e d = Inr (d', n)"
  from a have f: "n = db_event_sequence d + 1" "e_id e \<notin> set (event_ids d)" "map_of (db_revisions d) (e_watch_id e, e_revision e) \<noteq> None"
    "\<forall>s \<in> set (e_evidence e). map_of (db_observations d) s \<noteq> None"
    "d' = d\<lparr>db_events := db_events d @ [(n, e)], db_event_sequence := n, db_evidence := db_evidence d @ map (Pair (e_id e)) (e_evidence e)\<rparr>"
    by (rule AppendEvent_elim, simp)+
  have "sequences_ok d'" using ok f(1,2) unfolding f(5) store_ok_def sequences_ok_def by (auto simp: sorted_wrt_append)
  moreover have "rows_refer d'" using ok f(3) unfolding f(5) store_ok_def rows_refer_def known_key by (simp add: revision_known_def)
  moreover have "events_refer d'" using ok f(4) unfolding f(5) store_ok_def events_refer_def known_key by auto
  ultimately show ?thesis using ok unfolding f(5) store_ok_def by (simp add: keys_ok_def pins_ok_def)
qed

lemma store_ok_enqueue: "store_ok d \<Longrightarrow> db_enqueue e i dest rv pl na cr d = Inr (d', n) \<Longrightarrow> store_ok d'"
proof -
  assume ok: "store_ok d" and "db_enqueue e i dest rv pl na cr d = Inr (d', n)"
  from this(2) obtain ot where o: "Enqueue e i dest rv pl na cr (db_outbox d) = Inr (ot, n)" "d' = d\<lparr>db_outbox := ot\<rparr>" "e \<in> set (event_ids d)"
    by (rule db_enqueue_elim)
  have "ot_rows (stream_enter k t) = ot_rows t" for k t by (simp add: stream_enter_def)
  then have "\<forall>r \<in> set (ot_rows ot). ob_event_id r = e \<or> r \<in> set (ot_rows (db_outbox d))"
    using o(1) by (auto simp: Enqueue_def Let_def split: if_splits)
  then have "\<forall>r \<in> set (ot_rows ot). ob_event_id r \<in> set (event_ids d)"
    using ok o(3) unfolding store_ok_def events_refer_def by metis
  then have "events_refer d'" using ok unfolding o(2) store_ok_def events_refer_def by simp
  then show ?thesis using ok unfolding o(2) store_ok_def by (simp add: keys_ok_def sequences_ok_def rows_refer_def revision_known_def pins_ok_def)
qed

lemma store_ok_replay: "store_ok d \<Longrightarrow> SaveReplay e c d = Inr d' \<Longrightarrow> store_ok d'"
proof -
  assume ok: "store_ok d" and "SaveReplay e c d = Inr d'"
  from this(2) have f: "d' = d\<lparr>db_replays := db_replays d @ [(e, c)]\<rparr>" "e \<in> set (event_ids d)" by (auto elim: SaveReplay_elim)
  have "events_refer d'" using ok f(2) unfolding f(1) store_ok_def events_refer_def by auto
  then show ?thesis using ok unfolding f(1) store_ok_def by (simp add: keys_ok_def sequences_ok_def rows_refer_def revision_known_def pins_ok_def)
qed

interpretation integrity: acceptance_invariant store_ok x for x
  by unfold_locales (erule (1) store_ok_timer, erule (1) store_ok_entity, erule store_ok_delete, erule (1) store_ok_event,
      erule (1) store_ok_enqueue, erule (1) store_ok_replay)


section \<open>The rest of the transaction\<close>

lemma Checkpoint_elim:
  assumes "Checkpoint i g na la cu d = Inr d'"
  obtains w where "map_of (db_watches d) i = Some w" "wt_generation w = g" "wt_status w = ''running''"
    "d' = d\<lparr>db_watches := tbl_put i (w\<lparr>wt_next_at := timestamp na, wt_last_input_at := timestamp la, wt_cursor := cu, wt_last_error := ''''\<rparr>) (db_watches d)\<rparr>"
  using assms by (auto simp: Checkpoint_def split: option.splits if_splits)

lemma tbl_put_keys_known: "k \<in> fst ` set t \<Longrightarrow> fst ` set (tbl_put k v t) = fst ` set t"
  by (simp add: tbl_put_keys insert_absorb)

lemma store_ok_watch_row:
  assumes "store_ok d" "map_of (db_watches d) i = Some w" "wt_revision v = wt_revision w"
  shows "store_ok (d\<lparr>db_watches := tbl_put i v (db_watches d)\<rparr>)"
proof -
  have m: "(i, w) \<in> set (db_watches d)" using assms(2) by (rule map_of_SomeD)
  then have k: "fst ` set (tbl_put i v (db_watches d)) = fst ` set (db_watches d)" by (intro tbl_put_keys_known) force
  have "revision_known d i (wt_revision v)" using assms(1,3) m unfolding store_ok_def rows_refer_def by fastforce
  then have "rows_refer (d\<lparr>db_watches := tbl_put i v (db_watches d)\<rparr>)"
    using assms(1) all_tbl_put [of "db_watches d" "\<lambda>r. revision_known d (fst r) (wt_revision (snd r))" i v]
    unfolding store_ok_def rows_refer_def by (simp add: revision_known_def k)
  then show ?thesis using assms(1) unfolding store_ok_def by (simp add: keys_ok_def sequences_ok_def events_refer_def pins_ok_def tbl.ok_put)
qed

lemma store_ok_Checkpoint: "store_ok d \<Longrightarrow> Checkpoint i g na la cu d = Inr d' \<Longrightarrow> store_ok d'"
  by (erule Checkpoint_elim) (simp add: store_ok_watch_row)

lemma store_ok_LastError: "store_ok d \<Longrightarrow> store_ok (LastError i g detail nx d)"
  by (auto simp: LastError_def store_ok_watch_row split: option.split)

lemma AppendObservation_elim:
  assumes "AppendObservation i rv g ob d = Inr (d', s)"
  obtains "s = db_observation_sequence d + 1" "map_of (db_revisions d) (i, rv) \<noteq> None"
    "d' = d\<lparr>db_observations := db_observations d @ [(s, \<lparr>oo_watch_id = i, oo_revision = rv, oo_generation = g,
       oo_input_id = o_input_id ob, oo_accepted_at = timestamp (o_accepted_at ob), oo_body = ob\<rparr>)], db_observation_sequence := s\<rparr>"
  using assms by (auto simp: AppendObservation_def Let_def split: if_splits)

lemma store_ok_observation: "store_ok d \<Longrightarrow> AppendObservation i rv g ob d = Inr (d', s) \<Longrightarrow> store_ok d'"
proof (erule AppendObservation_elim)
  assume ok: "store_ok d" and s: "s = db_observation_sequence d + 1" and rv: "map_of (db_revisions d) (i, rv) \<noteq> None"
    and d': "d' = d\<lparr>db_observations := db_observations d @ [(s, \<lparr>oo_watch_id = i, oo_revision = rv, oo_generation = g,
       oo_input_id = o_input_id ob, oo_accepted_at = timestamp (o_accepted_at ob), oo_body = ob\<rparr>)], db_observation_sequence := s\<rparr>"
  have "sequences_ok d'" using ok s unfolding d' store_ok_def sequences_ok_def by (auto simp: sorted_wrt_append)
  moreover have "rows_refer d'" using ok rv unfolding d' store_ok_def rows_refer_def known_key by (simp add: revision_known_def)
  moreover have "events_refer d'" using ok unfolding d' store_ok_def events_refer_def by auto
  ultimately show ?thesis using ok unfolding d' store_ok_def by (simp add: keys_ok_def pins_ok_def)
qed

text \<open>A batch takes the next sequences, one per observation.\<close>

definition batch_rows :: "string \<Rightarrow> string \<Rightarrow> int \<Rightarrow> int \<Rightarrow> observation list \<Rightarrow> (int \<times> observation_row) list" where
  "batch_rows i rv g s obs = map2 (\<lambda>n ob. (s + 1 + int n, \<lparr>oo_watch_id = i, oo_revision = rv, oo_generation = g,
     oo_input_id = o_input_id ob, oo_accepted_at = timestamp (o_accepted_at ob), oo_body = ob\<rparr>)) [0..<length obs] obs"

lemma batch_rows_Cons:
  "batch_rows i rv g s (ob # obs) = (s + 1, \<lparr>oo_watch_id = i, oo_revision = rv, oo_generation = g,
     oo_input_id = o_input_id ob, oo_accepted_at = timestamp (o_accepted_at ob), oo_body = ob\<rparr>) # batch_rows i rv g (s + 1) obs"
  unfolding batch_rows_def
  by (simp add: upt_conv_Cons map_Suc_upt [symmetric] zip_map1 case_prod_beta del: upt_Suc)

lemma AppendObservations_rows:
  assumes "AppendObservations i rv g obs d = Inr (d', ss)"
  shows "ss = map (\<lambda>n. db_observation_sequence d + 1 + int n) [0..<length obs] \<and>
    d' = d\<lparr>db_observations := db_observations d @ batch_rows i rv g (db_observation_sequence d) obs,
      db_observation_sequence := db_observation_sequence d + int (length obs)\<rparr>"
  using assms
proof (induction obs arbitrary: d ss)
  case (Cons ob obs)
  then obtain d1 s ss' where s: "AppendObservation i rv g ob d = Inr (d1, s)" "AppendObservations i rv g obs d1 = Inr (d', ss')"
    "ss = s # ss'" by auto
  from s(1) have d1: "s = db_observation_sequence d + 1" "db_observation_sequence d1 = s"
    "d1 = d\<lparr>db_observations := db_observations d @ batch_rows i rv g (db_observation_sequence d) [ob], db_observation_sequence := s\<rparr>"
    by (auto elim!: AppendObservation_elim simp: batch_rows_def)
  show ?case using Cons.IH [OF s(2)] unfolding d1(2) s(3)
    by (simp add: d1(1,3) batch_rows_Cons batch_rows_def [of _ _ _ _ "[]"] upt_conv_Cons map_Suc_upt [symmetric] add.assoc comp_def del: upt_Suc)
qed (simp add: batch_rows_def)

lemma store_ok_observations: "store_ok d \<Longrightarrow> AppendObservations i rv g obs d = Inr (d', ss) \<Longrightarrow> store_ok d'"
proof (induction obs arbitrary: d ss)
  case (Cons ob obs)
  then show ?case using store_ok_observation by (fastforce elim!: bindE_pairE)
qed simp

lemma store_ok_push: "store_ok d \<Longrightarrow> store_ok (d\<lparr>db_push := t\<rparr>)"
  unfolding store_ok_def by (simp add: keys_ok_def sequences_ok_def rows_refer_def events_refer_def revision_known_def pins_ok_def)

lemma store_ok_take_timer:
  assumes "store_ok d" "take_timer i cur b now d = Inr d'"
  shows "store_ok d'"
proof -
  have "store_ok (d\<lparr>db_timers := tbl_del k (db_timers d)\<rparr>)" for k
  proof -
    have "rows_refer (d\<lparr>db_timers := tbl_del k (db_timers d)\<rparr>)"
      using assms(1) unfolding store_ok_def rows_refer_def by (auto simp: revision_known_def tbl_del_def)
    then show ?thesis using assms(1) unfolding store_ok_def by (simp add: keys_ok_def sequences_ok_def events_refer_def pins_ok_def tbl.ok_del)
  qed
  then have "store_ok (DeleteTimer tm d)" for tm using assms(1) by (auto simp: DeleteTimer_def Let_def split: option.split)
  then show ?thesis using assms by (auto simp: take_timer_def split: if_splits sum.splits)
qed

lemma SaveReceipt_elim:
  assumes "SaveReceipt i g input f l ex d = Inr d'"
  obtains "map_of (db_watches d) i \<noteq> None"
    "d' = d\<lparr>db_receipts := tbl_put (i, g, input) \<lparr>rc_first = f, rc_last = l, rc_expires_at = timestamp ex\<rparr> (db_receipts d)\<rparr>"
  using assms by (auto simp: SaveReceipt_def split: if_splits)

lemma store_ok_receipt: "store_ok d \<Longrightarrow> SaveReceipt i g input f l ex d = Inr d' \<Longrightarrow> store_ok d'"
proof (erule SaveReceipt_elim)
  let ?row = "\<lparr>rc_first = f, rc_last = l, rc_expires_at = timestamp ex\<rparr>"
  assume ok: "store_ok d" and w: "map_of (db_watches d) i \<noteq> None" and d': "d' = d\<lparr>db_receipts := tbl_put (i, g, input) ?row (db_receipts d)\<rparr>"
  have "rows_refer d'"
    using ok w all_tbl_put [of "db_receipts d" "\<lambda>r. fst (fst r) \<in> fst ` set (db_watches d)" "(i, g, input)" ?row]
    unfolding d' store_ok_def rows_refer_def known_key by (simp add: revision_known_def)
  then show ?thesis using ok unfolding d' store_ok_def by (simp add: keys_ok_def sequences_ok_def events_refer_def pins_ok_def tbl.ok_put)
qed

end
