(* ===== verification/Acceptance_Results.thy ===== *)
theory Acceptance_Results
  imports Acceptance_Laws Outbox_Laws
begin

text \<open>
  The contract of \<open>App.acceptPush\<close>: it keeps the integrity of the whole database, answers a
  repeated submission with the first receipt and without any change, and stays within its limits.
\<close>

lemma guardE:
  assumes "(if c then Inl e else r) = Inr b"
  obtains "\<not> c" "r = Inr b"
  using assms by (cases c) auto

section \<open>Cases of the transaction\<close>

abbreviation watch_id_of :: "watch_record \<Rightarrow> string" where
  "watch_id_of r \<equiv> md_id (d_metadata (cd_definition (wr_plan r)))"

abbreviation given_observations :: "watch_record \<Rightarrow> batch \<Rightarrow> observation list" where
  "given_observations current b \<equiv> (if wr_last_error current \<noteq> '''' \<and> is_zero (ba_deadline b) then gap_observation # ba_observations b
     else ba_observations b)"

abbreviation context_of :: "accept_env \<Rightarrow> watch_record \<Rightarrow> evaluator \<Rightarrow> time \<Rightarrow> accept_ctx" where
  "context_of env current ev now \<equiv> \<lparr>ax_env = env, ax_current = current, ax_evaluator = ev, ax_now = now\<rparr>"

lemma accept_new_elim:
  assumes "accept_new env current ev b input push now later' d = Inr (d', r, sv)"
  obtains d1 obs d2 ss d3 where
    "(if \<not> is_zero (ba_deadline b) then Inr d
      else Checkpoint (watch_id_of current) (wr_generation current) (next_at_of env current (watch_id_of current) b now) now (ba_cursor b) d) = Inr d1"
    "av_bytes env d1 < rl_max_bytes (av_limits env)" "Pending d1 < rl_max_pending (av_limits env)"
    "stamp_all env (l_max_bytes (s_limits (d_spec (cd_definition (wr_plan current))))) b input now 0 (given_observations current b) = Inr obs"
    "AppendObservations (watch_id_of current) (cd_revision (wr_plan current)) (wr_generation current) obs d1 = Inr (d2, ss)"
    "accept_cached (context_of env current ev now) (map2 (\<lambda>ob s. ob\<lparr>o_sequence := s\<rparr>) obs ss) d2 = Inr d3"
    "seal env current (watch_id_of current) input push (int (length (given_observations current b))) now later' (hd ss) (last ss) d3 = Inr (d', sv)"
    "r = \<lparr>re_first = hd ss, re_last = last ss, re_duplicate = False\<rparr>"
proof -
  show thesis
    using assms unfolding accept_new_def Let_def not_not
    by (elim bindE_pairE bindE_InrE guardE) (rule that, assumption, simp, simp, assumption, assumption, assumption, simp, simp)
qed

text \<open>A transaction that succeeds was answered by a push receipt, by a receipt, or was new.\<close>

inductive accept_case :: "accept_env \<Rightarrow> watch_record \<Rightarrow> evaluator \<Rightarrow> batch \<Rightarrow> string \<Rightarrow> push_input option \<Rightarrow> time \<Rightarrow> time \<Rightarrow>
    db \<Rightarrow> watch_record \<Rightarrow> db \<Rightarrow> receipt \<Rightarrow> push_receipt option \<Rightarrow> bool"
  for env :: accept_env and rd :: watch_record and ev :: evaluator and b :: batch and input :: string and push :: "push_input option"
    and now :: time and later' :: time and d :: db and current :: watch_record where
  pushed: "push = Some p \<Longrightarrow> push_admission p rd current now d = Inr (d1, Some saved) \<Longrightarrow>
    accept_case env rd ev b input push now later' d current d1
      \<lparr>re_first = pr_first saved, re_last = pr_last saved, re_duplicate = True\<rparr> (Some saved)"
| received: "(case push of None \<Rightarrow> Inr (d, None) | Some p \<Rightarrow> push_admission p rd current now d) = Inr (d1, None) \<Longrightarrow>
    same_watch rd current \<Longrightarrow> take_timer (watch_id_of current) current b now d1 = Inr d2 \<Longrightarrow>
    Receipt d2 (watch_id_of current) (wr_generation current) input now = Inr (first, last') \<Longrightarrow>
    accept_case env rd ev b input push now later' d current d2 \<lparr>re_first = first, re_last = last', re_duplicate = True\<rparr> None"
| new: "(case push of None \<Rightarrow> Inr (d, None) | Some p \<Rightarrow> push_admission p rd current now d) = Inr (d1, None) \<Longrightarrow>
    same_watch rd current \<Longrightarrow> take_timer (watch_id_of current) current b now d1 = Inr d2 \<Longrightarrow>
    \<not> stale_batch b current now \<Longrightarrow> accept_new env current ev b input push now later' d2 = Inr (d3, r, sv) \<Longrightarrow>
    accept_case env rd ev b input push now later' d current d3 r sv"

lemma accept_tx_case:
  assumes "accept_tx env record ev b input push now later' d = Inr (d', r, sv)"
  obtains current where "Watch d (watch_id_of record) = Inr current" "accept_case env record ev b input push now later' d current d' r sv"
proof -
  from assms obtain current d1 saved where w: "Watch d (watch_id_of record) = Inr current"
    and a: "(case push of None \<Rightarrow> Inr (d, None) | Some p \<Rightarrow> push_admission p record current now d) = Inr (d1, saved)"
    and rest: "(case saved of
        Some r \<Rightarrow> Inr (d1, \<lparr>re_first = pr_first r, re_last = pr_last r, re_duplicate = True\<rparr>, Some r)
      | None \<Rightarrow>
          if \<not> same_watch record current then Inl ErrStale
          else bindE (take_timer (watch_id_of current) current b now d1) (\<lambda>d2.
            case Receipt d2 (watch_id_of current) (wr_generation current) input now of
              Inr (first, last') \<Rightarrow> Inr (d2, \<lparr>re_first = first, re_last = last', re_duplicate = True\<rparr>, None)
            | Inl e \<Rightarrow>
                if e \<noteq> ErrNotFound then Inl e
                else if stale_batch b current now then Inl ErrStale
                else accept_new env current ev b input push now later' d2)) = Inr (d', r, sv)"
    unfolding accept_tx_def Let_def by (elim bindE_pairE bindE_InrE guardE)
  have "accept_case env record ev b input push now later' d current d' r sv"
  proof (cases saved)
    case (Some s)
    then show ?thesis using a rest by (cases push) (auto intro: pushed)
  next
    case None
    then obtain d2 where t: "same_watch record current" "take_timer (watch_id_of current) current b now d1 = Inr d2"
      and n: "(case Receipt d2 (watch_id_of current) (wr_generation current) input now of
              Inr (first, last') \<Rightarrow> Inr (d2, \<lparr>re_first = first, re_last = last', re_duplicate = True\<rparr>, None)
            | Inl e \<Rightarrow>
                if e \<noteq> ErrNotFound then Inl e
                else if stale_batch b current now then Inl ErrStale
                else accept_new env current ev b input push now later' d2) = Inr (d', r, sv)"
      using rest by (auto elim!: bindE_InrE split: if_splits)
    show ?thesis
    proof (cases "Receipt d2 (watch_id_of current) (wr_generation current) input now")
      case (Inr fl)
      then show ?thesis using received [OF a [unfolded None] t] n by (auto split: prod.splits)
    next
      case (Inl e)
      then show ?thesis using new [OF a [unfolded None] t] n by (auto split: if_splits)
    qed
  qed
  with w show thesis by (rule that)
qed

section \<open>Integrity\<close>

text \<open>The whole database: the store, the delivery queue and the push receipts.\<close>

definition database_ok :: "db \<Rightarrow> bool" where
  "database_ok d \<longleftrightarrow> store_ok d \<and> tables_ok (db_outbox d) \<and> push_ok (db_push d)"

interpretation queue: acceptance_invariant "\<lambda>d. tables_ok (db_outbox d)" x for x
  by unfold_locales
    (auto simp: DeleteEntity_def elim!: AppendEvent_elim db_enqueue_elim SaveTimer_elim SaveReplay_elim saveEntityData_elim dest: Enqueue_ok(1))

lemma loop_push: "accept_cached x obs d = Inr d' \<Longrightarrow> db_push d' = db_push d"
  using frame.accepted [of d d] by (auto simp: loop_frame_def)

lemma accepted_ok: "database_ok d \<Longrightarrow> accept_cached x obs d = Inr d' \<Longrightarrow> database_ok d'"
  unfolding database_ok_def using integrity.accepted queue.accepted loop_push by metis

lemma database_ok_push: "database_ok d \<Longrightarrow> push_ok t \<Longrightarrow> database_ok (d\<lparr>db_push := t\<rparr>)"
  by (simp add: database_ok_def store_ok_push)

lemma database_ok_seal:
  assumes "database_ok d" "seal env current i input push n now later' f l d = Inr (d', sv)"
  shows "database_ok d'"
proof (cases push)
  case None
  with assms(2) obtain e where "SaveReceipt i (wr_generation current) input f l e d = Inr d'" by (auto simp: seal_def split: if_splits)
  then show ?thesis using assms(1) store_ok_receipt by (auto simp: database_ok_def elim: SaveReceipt_elim)
next
  case (Some p)
  then show ?thesis using assms by (auto simp: seal_def Let_def database_ok_push database_ok_def save_ok store_ok_push split: if_splits)
qed

lemma database_ok_new:
  assumes "database_ok d" "accept_new env current ev b input push now later' d = Inr (d', r, sv)"
  shows "database_ok d'"
  using assms(2)
proof (rule accept_new_elim)
  fix d1 obs d2 ss d3
  assume 1: "(if \<not> is_zero (ba_deadline b) then Inr d
      else Checkpoint (watch_id_of current) (wr_generation current) (next_at_of env current (watch_id_of current) b now) now (ba_cursor b) d) = Inr d1"
    and 2: "AppendObservations (watch_id_of current) (cd_revision (wr_plan current)) (wr_generation current) obs d1 = Inr (d2, ss)"
    and 3: "accept_cached (context_of env current ev now) (map2 (\<lambda>ob s. ob\<lparr>o_sequence := s\<rparr>) obs ss) d2 = Inr d3"
    and 4: "seal env current (watch_id_of current) input push (int (length (given_observations current b))) now later' (hd ss) (last ss) d3 = Inr (d', sv)"
  have "database_ok d1" using 1 assms(1) store_ok_Checkpoint by (auto simp: database_ok_def split: if_splits elim: Checkpoint_elim)
  then have "database_ok d2" using 2 store_ok_observations AppendObservations_rows [OF 2] by (auto simp: database_ok_def)
  then show ?thesis using database_ok_seal [OF accepted_ok [OF _ 3] 4] by simp
qed

lemma push_admission_ok: "database_ok d \<Longrightarrow> push_admission p record current now d = Inr (d', sv) \<Longrightarrow> database_ok d'"
  using count_ok [of "db_push d" True now]
  by (auto simp: push_admission_def database_ok_push database_ok_def store_ok_push split: if_splits sum.splits prod.splits)

lemma take_timer_elim:
  assumes "take_timer i current b now d = Inr d'"
  obtains ts where "d' = d\<lparr>db_timers := ts\<rparr>" "is_zero (ba_deadline b) \<Longrightarrow> d' = d"
proof -
  consider "is_zero (ba_deadline b)" "d' = d" | tm where "\<not> is_zero (ba_deadline b)" "d' = DeleteTimer tm d"
    using assms by (auto simp: take_timer_def split: if_splits sum.splits)
  then show thesis
  proof cases
    case 1
    then show thesis using that [of "db_timers d"] by simp
  next
    case 2
    have "\<exists>ts. d' = d\<lparr>db_timers := ts\<rparr>" unfolding 2(2) DeleteTimer_def Let_def by (rule exI, rule refl)
    then obtain ts where ts: "d' = d\<lparr>db_timers := ts\<rparr>" ..
    show thesis by (rule that [OF ts]) (use 2(1) in simp)
  qed
qed

lemma take_timer_ok: "database_ok d \<Longrightarrow> take_timer i current b now d = Inr d' \<Longrightarrow> database_ok d'"
  using store_ok_take_timer [of d i current b now d'] by (auto simp: database_ok_def elim!: take_timer_elim)

lemma accept_case_ok:
  assumes "accept_case env record ev b input push now later' d current d' r sv" "database_ok d"
  shows "database_ok d'"
proof -
  have adm: "database_ok d1" if "(case push of None \<Rightarrow> Inr (d, None) | Some p \<Rightarrow> push_admission p record current now d) = Inr (d1, sv')" for d1 sv'
    using that assms(2) push_admission_ok by (auto split: option.splits)
  from assms(1) show ?thesis
  proof cases
    case (pushed p saved)
    then show ?thesis using assms(2) push_admission_ok by blast
  next
    case (received d1 first last')
    then show ?thesis using adm take_timer_ok by blast
  next
    case (new d1 d2)
    then show ?thesis using adm take_timer_ok database_ok_new by blast
  qed
qed

lemma database_ok_LastError: "database_ok d \<Longrightarrow> database_ok (LastError i g detail nx d)"
  using store_ok_LastError [of d i g detail nx] by (auto simp: database_ok_def LastError_def split: option.split)

lemma acceptance_ok:
  assumes "database_ok d"
  shows "database_ok (fst (acceptPush env record b input push now later' d))"
proof -
  have "database_ok d'" if "accept_tx env record ev b input push now later' d = Inr (d', r)" for ev d' r
    using that assms by (cases r) (auto elim!: accept_tx_case dest: accept_case_ok)
  then show ?thesis using assms database_ok_LastError
    by (auto simp: acceptPush_def split: sum.split)
qed

text \<open>An acceptance keeps the integrity of the database, whether it succeeds, is a duplicate, or
  fails: rows stay in key order and sequences grow, every reference of the schema holds, the pins of
  every entity are exactly what its state refers to, the streams of the delivery queue are active
  exactly when they have work, and the cached receipt statistics match the receipts.\<close>

theorem acceptance_preserves_database:
  assumes "database_ok d"
  shows "database_ok (fst (acceptPush env record b input push now later' d))"
  using assms by (rule acceptance_ok)

section \<open>Repeated submissions\<close>

lemma Watch_elim:
  assumes "Watch d i = Inr current" "store_ok d"
  obtains w rr where "map_of (db_watches d) i = Some w" "map_of (db_revisions d) (i, wt_revision w) = Some rr"
    "current = scanWatch w rr" "watch_id_of current = i"
proof -
  from assms(1) obtain w rr where f: "map_of (db_watches d) i = Some w" "map_of (db_revisions d) (i, wt_revision w) = Some rr"
    "current = scanWatch w rr" by (auto simp: Watch_def split: option.splits)
  have "\<forall>r \<in> set (db_revisions d). md_id (d_metadata (rr_definition (snd r))) = fst (fst r)"
    using assms(2) by (simp add: store_ok_def rows_refer_def)
  with map_of_SomeD [OF f(2)] have "watch_id_of current = i" by (auto simp: f(3) scanWatch_def)
  with f show thesis by (rule that)
qed

text \<open>What the rest of the transaction does to the watch and to the receipts.\<close>

definition same_identity :: "watch_record \<Rightarrow> watch_record \<Rightarrow> bool" where
  "same_identity a c \<longleftrightarrow> wr_plan a = wr_plan c \<and> wr_generation a = wr_generation c \<and> wr_status a = wr_status c \<and>
     wr_lifetime a = wr_lifetime c"

lemma seal_frame:
  assumes "seal env current i input push n now later' f l d = Inr (d', sv)"
  shows "db_watches d' = db_watches d \<and> db_revisions d' = db_revisions d"
  using assms by (cases push) (auto simp: seal_def Let_def split: if_splits elim!: SaveReceipt_elim)

lemma new_keeps_watch:
  assumes "database_ok d" "Watch d (watch_id_of current) = Inr current" "is_zero (ba_deadline b)"
    and "accept_new env current ev b input push now later' d = Inr (d', r, sv)"
  obtains current' where "Watch d' (watch_id_of current) = Inr current'" "same_identity current' current"
  using assms(4)
proof (rule accept_new_elim)
  let ?i = "watch_id_of current"
  fix d1 obs d2 ss d3
  assume 1: "(if \<not> is_zero (ba_deadline b) then Inr d
      else Checkpoint ?i (wr_generation current) (next_at_of env current ?i b now) now (ba_cursor b) d) = Inr d1"
    and 2: "AppendObservations ?i (cd_revision (wr_plan current)) (wr_generation current) obs d1 = Inr (d2, ss)"
    and 3: "accept_cached (context_of env current ev now) (map2 (\<lambda>ob s. ob\<lparr>o_sequence := s\<rparr>) obs ss) d2 = Inr d3"
    and 4: "seal env current ?i input push (int (length (given_observations current b))) now later' (hd ss) (last ss) d3 = Inr (d', sv)"
  have ok: "store_ok d" "tbl_ok (db_watches d)" using assms(1) by (auto simp: database_ok_def store_ok_def keys_ok_def)
  obtain w rr where w: "map_of (db_watches d) ?i = Some w" "map_of (db_revisions d) (?i, wt_revision w) = Some rr" "current = scanWatch w rr"
    using assms(2) ok(1) by (rule Watch_elim)
  let ?w = "w\<lparr>wt_next_at := timestamp (next_at_of env current ?i b now), wt_last_input_at := timestamp now, wt_cursor := ba_cursor b, wt_last_error := ''''\<rparr>"
  have "db_watches d1 = tbl_put ?i ?w (db_watches d)" "db_revisions d1 = db_revisions d"
    using 1 assms(3) w(1) by (auto elim: Checkpoint_elim)
  moreover have "db_watches d2 = db_watches d1" "db_revisions d2 = db_revisions d1" using AppendObservations_rows [OF 2] by simp_all
  moreover have "db_watches d3 = db_watches d2" "db_revisions d3 = db_revisions d2" using frame.accepted [OF refl 3] by (simp_all add: loop_frame_def)
  ultimately have "map_of (db_watches d') ?i = Some ?w" "db_revisions d' = db_revisions d"
    using seal_frame [OF 4] ok(2) by (simp_all add: tbl.get_put)
  then have "Watch d' ?i = Inr (scanWatch ?w rr)" using w(2) by (simp add: Watch_def)
  moreover have "same_identity (scanWatch ?w rr) current" unfolding w(3) by (simp add: same_identity_def scanWatch_def)
  ultimately show thesis by (rule that)
qed

lemma new_saves_receipt:
  assumes "database_ok d" "accept_new env current ev b input push now later' d = Inr (d', r, sv)"
  shows "case push of
      None \<Rightarrow> sv = None \<and> (\<forall>t. timestamp t < timestamp (now + receipt_ttl current) \<longrightarrow>
        Receipt d' (watch_id_of current) (wr_generation current) input t = Inr (re_first r, re_last r))
    | Some p \<Rightarrow> \<exists>s. sv = Some s \<and> pr_first s = re_first r \<and> pr_last s = re_last r \<and>
        (\<forall>t. timestamp t < timestamp (now + pi_horizon p) \<longrightarrow>
          PushReceipt (wr_lifetime current, pi_producer p, pi_key p) (pi_digest p) t (db_push d') = Inr (s\<lparr>pr_duplicate := True\<rparr>))"
  using assms(2)
proof (rule accept_new_elim)
  fix d1 obs d2 ss d3
  assume 1: "(if \<not> is_zero (ba_deadline b) then Inr d
      else Checkpoint (watch_id_of current) (wr_generation current) (next_at_of env current (watch_id_of current) b now) now (ba_cursor b) d) = Inr d1"
    and 2: "AppendObservations (watch_id_of current) (cd_revision (wr_plan current)) (wr_generation current) obs d1 = Inr (d2, ss)"
    and 3: "accept_cached (context_of env current ev now) (map2 (\<lambda>ob s. ob\<lparr>o_sequence := s\<rparr>) obs ss) d2 = Inr d3"
    and 4: "seal env current (watch_id_of current) input push (int (length (given_observations current b))) now later' (hd ss) (last ss) d3 = Inr (d', sv)"
    and r: "r = \<lparr>re_first = hd ss, re_last = last ss, re_duplicate = False\<rparr>"
  have "db_receipts d3 = db_receipts d"
    using 1 AppendObservations_rows [OF 2] frame.accepted [OF refl 3] by (auto simp: loop_frame_def split: if_splits elim: Checkpoint_elim)
  then have "tbl_ok (db_receipts d3)" using assms(1) by (simp add: database_ok_def store_ok_def keys_ok_def)
  then show ?thesis using 4 unfolding r
    by (cases push) (auto simp: seal_def Let_def Receipt_def tbl.get_put PushReceipt_saved elim!: SaveReceipt_elim split: if_splits)
qed

lemma duplicate_answered:
  assumes "Watch d (watch_id_of rd) = Inr current'" "same_watch rd current'" "is_zero (ba_deadline b)"
    and "push = None \<Longrightarrow> Receipt d (watch_id_of current') (wr_generation current') input now = Inr (first, last')"
    and "\<And>p. push = Some p \<Longrightarrow> (is_zero (pi_valid_until p) \<or> now < pi_valid_until p) \<and> wr_lifetime current' = wr_lifetime rd \<and>
       PushReceipt (wr_lifetime rd, pi_producer p, pi_key p) (pi_digest p) now (db_push d) = Inr s"
    and "\<not> av_closing_inside env"
  shows "accept_tx env rd ev b input push now later' d = (case push of
      None \<Rightarrow> Inr (d, \<lparr>re_first = first, re_last = last', re_duplicate = True\<rparr>, None)
    | Some _ \<Rightarrow> Inr (d, \<lparr>re_first = pr_first s, re_last = pr_last s, re_duplicate = True\<rparr>, Some s))"
proof (cases push)
  case None
  then show ?thesis using assms by (simp add: accept_tx_def take_timer_def Let_def)
next
  case (Some p)
  then show ?thesis using assms(1,2,6) assms(5) [OF Some]
    by (auto simp: accept_tx_def push_admission_def same_watch_def)
qed

lemma resubmitted:
  assumes "Watch d1 (watch_id_of rd) = Inr current'" "same_identity current' current" "same_watch rd current" "is_zero (ba_deadline b2)"
    and "\<not> av_closing_inside env" "push \<noteq> None \<Longrightarrow> wr_lifetime current = wr_lifetime rd"
    and "case push of
      None \<Rightarrow> sv = None \<and> (\<forall>t. timestamp t < timestamp (now + receipt_ttl current) \<longrightarrow>
        Receipt d1 (watch_id_of current) (wr_generation current) input t = Inr (re_first r, re_last r))
    | Some p \<Rightarrow> \<exists>s. sv = Some s \<and> pr_first s = re_first r \<and> pr_last s = re_last r \<and>
        (\<forall>t. timestamp t < timestamp (now + pi_horizon p) \<longrightarrow>
          PushReceipt (wr_lifetime current, pi_producer p, pi_key p) (pi_digest p) t (db_push d1) = Inr (s\<lparr>pr_duplicate := True\<rparr>))"
    and "case push of None \<Rightarrow> input2 = input \<and> timestamp now2 < timestamp (now + receipt_ttl current)
      | Some p \<Rightarrow> (is_zero (pi_valid_until p) \<or> now2 < pi_valid_until p) \<and> timestamp now2 < timestamp (now + pi_horizon p)"
  shows "accept_tx env rd ev b2 input2 push now2 later2 d1 =
    Inr (d1, r\<lparr>re_duplicate := True\<rparr>, map_option (\<lambda>s. s\<lparr>pr_duplicate := True\<rparr>) sv)"
proof -
  have w: "same_watch rd current'" using assms(2,3) by (simp add: same_watch_def same_identity_def)
  note ans = duplicate_answered [OF assms(1) w assms(4) _ _ assms(5)]
  show ?thesis
  proof (cases push)
    case None
    then show ?thesis using ans [of push input2 now2 "re_first r" "re_last r"] assms(2,7,8) by (simp add: same_identity_def)
  next
    case (Some p)
    then obtain s where "sv = Some s" "pr_first s = re_first r" "pr_last s = re_last r"
      "PushReceipt (wr_lifetime current, pi_producer p, pi_key p) (pi_digest p) now2 (db_push d1) = Inr (s\<lparr>pr_duplicate := True\<rparr>)"
      using assms(7,8) by auto
    then show ?thesis using ans [of push input2 now2 0 0 "s\<lparr>pr_duplicate := True\<rparr>"] Some assms(2,6,8) by (simp add: same_identity_def)
  qed
qed

lemma acceptPush_tx:
  assumes "acceptPush env rd b input push now later' d = (d', Inr (r, sv))"
  obtains ev where "New (av_runtime env) (cd_definition (wr_plan rd)) (cd_revision (wr_plan rd)) = Inr ev"
    "accept_tx env rd ev b input push now later' d = Inr (d', r, sv)" "\<not> av_closing env" "\<not> av_closing_inside env"
proof -
  have "\<not> av_closing_inside env" if "accept_tx env rd ev b input push now later' d = Inr q" for ev q
    using that by (simp add: accept_tx_def split: if_splits)
  then show thesis using assms that by (auto simp: acceptPush_def split: if_splits sum.splits)
qed

text \<open>C39: acceptance is idempotent. Once a batch has been accepted, submitting it again while its receipt is
  in force changes nothing in the database and returns the same sequences, marked as a duplicate:
  for a polled input the receipt is found by the input identity, whatever the second batch holds;
  for a pushed one by producer, key and digest, whatever the second acceptance is called.\<close>

theorem acceptance_idempotent:
  assumes "database_ok d" "Watch d (watch_id_of rd) = Inr current"
    and "acceptPush env rd b input push now later' d = (d1, Inr (r, sv))" "\<not> re_duplicate r"
    and "is_zero (ba_deadline b)" "is_zero (ba_deadline b2)" "ba_observations b2 \<noteq> []"
      "int (length (ba_observations b2)) \<le> l_max_outputs (s_limits (d_spec (cd_definition (wr_plan rd))))"
    and "input2 \<noteq> ''''" "length input2 \<le> 256"
    and "case push of None \<Rightarrow> input2 = input \<and> timestamp now2 < timestamp (now + receipt_ttl current)
      | Some p \<Rightarrow> (is_zero (pi_valid_until p) \<or> now2 < pi_valid_until p) \<and> timestamp now2 < timestamp (now + pi_horizon p)"
  shows "acceptPush env rd b2 input2 push now2 later2 d1 =
    (d1, Inr (r\<lparr>re_duplicate := True\<rparr>, map_option (\<lambda>s. s\<lparr>pr_duplicate := True\<rparr>) sv))"
proof -
  obtain ev where ev: "New (av_runtime env) (cd_definition (wr_plan rd)) (cd_revision (wr_plan rd)) = Inr ev"
    "accept_tx env rd ev b input push now later' d = Inr (d1, r, sv)" "\<not> av_closing env" "\<not> av_closing_inside env"
    using assms(3) by (rule acceptPush_tx)
  have c: "accept_case env rd ev b input push now later' d current d1 r sv" using ev(2) assms(2) by (auto elim: accept_tx_case)
  have id: "watch_id_of current = watch_id_of rd" using Watch_elim [OF assms(2)] assms(1) unfolding database_ok_def by metis
  from c show ?thesis
  proof cases
    case (new e1 e2)
    have e2: "e2 = e1" using new(3) assms(5) by (auto elim: take_timer_elim)
    have "Watch e1 (watch_id_of current) = Watch d (watch_id_of current)" "database_ok e1"
      and life: "push \<noteq> None \<Longrightarrow> wr_lifetime current = wr_lifetime rd"
      using new(1) assms(1) push_admission_ok
      by (auto simp: push_admission_def Watch_def split: option.splits if_splits sum.splits prod.splits)
    then have e1: "Watch e1 (watch_id_of current) = Inr current" "database_ok e1" using assms(2) id by simp_all
    obtain current' where cur: "Watch d1 (watch_id_of current) = Inr current'" "same_identity current' current"
      using new_keeps_watch [OF e1(2,1) assms(5) new(5) [unfolded e2]] .
    note saved = new_saves_receipt [OF e1(2) new(5) [unfolded e2]]
    have "accept_tx env rd ev b2 input2 push now2 later2 d1 =
        Inr (d1, r\<lparr>re_duplicate := True\<rparr>, map_option (\<lambda>s. s\<lparr>pr_duplicate := True\<rparr>) sv)"
      by (rule resubmitted [OF cur(1) [unfolded id] cur(2) new(2) assms(6) ev(4) life _ assms(11)]) (use saved in simp_all)
    then show ?thesis using ev(1,3) assms(7-10) by (simp add: acceptPush_def)
  qed (use assms(4) in auto)
qed

section \<open>Limits\<close>

text \<open>Entities are only added while there is room.\<close>

definition entities_within :: "accept_ctx \<Rightarrow> int \<Rightarrow> db \<Rightarrow> bool" where
  "entities_within x M d \<longleftrightarrow> tbl_ok (db_entities d) \<and> EntityCount d (ax_id x) \<le> M"

lemma entity_free_keeps:
  assumes "entity_free f" "f d = Inr d'"
  shows "db_entities d' = db_entities d"
proof -
  have "f (with_entities (db_entities d) (db_pins d) d) = map_sum id (with_entities (db_entities d) (db_pins d)) (f d)"
    using assms(1) by (simp only: entity_free_def)
  then have "d' = with_entities (db_entities d) (db_pins d) d'" using assms(2) by simp
  then show ?thesis by (metis with_entities_simps(3))
qed

lemma free_within: "entities_within x M d \<Longrightarrow> entity_free f \<Longrightarrow> f d = Inr d' \<Longrightarrow> entities_within x M d'"
  by (simp add: entities_within_def EntityCount_def entity_free_keeps)

lemma delete_within: "entities_within x M d \<Longrightarrow> entities_within x M (DeleteEntity (ax_id x) k d)"
proof -
  assume a: "entities_within x M d"
  let ?d = "DeleteEntity (ax_id x) k d"
  have "tbl_ok (db_entities ?d)" using a by (simp add: entities_within_def DeleteEntity_def tbl_del_ok)
  moreover have "Entity ?d (ax_id x) = (Entity d (ax_id x))(k := None)"
    by (auto simp: Entity_def DeleteEntity_def tbl_del_map_of)
  ultimately show ?thesis using a EntityCount_delete [of d ?d "ax_id x" k] by (simp add: entities_within_def)
qed

lemma save_within:
  assumes "entities_within x M d" "saveEntityData (ax_id x) k rv st now d = Inr d'"
    "Entity d (ax_id x) k = None \<Longrightarrow> EntityCount d (ax_id x) < M"
  shows "entities_within x M d'"
proof -
  have ok: "tbl_ok (db_entities d)" using assms(1) by (simp add: entities_within_def)
  have "tbl_ok (db_entities d')" "Entity d' (ax_id x) = (Entity d (ax_id x))(k \<mapsto> st)"
    using assms(2) ok by (auto simp: Entity_def tbl.get_put tbl.ok_put elim!: saveEntityData_elim)
  with EntityCount_write [OF ok this] show ?thesis using assms(1,3) by (auto simp: entities_within_def)
qed

lemma entity_within:
  assumes "entities_within x M d" "l_max_entities (s_limits (ax_spec x)) \<le> M" "accept_entity (direct_ops x) x ob k d = Inr d'"
  shows "entities_within x M d'"
proof -
  from assms(3) obtain d1 st and res :: transition and d2 d3 where s: "entity_state (direct_ops x) x k d = Inr (d1, st)"
    "(if c_missing_for (s_condition (ax_spec x)) \<noteq> '''' \<and> (o_health ob = ''ok'' \<or> o_health ob = ''unchanged'')
      then eo_db (direct_ops x) (SaveTimer (av_json_valid (ax_env x)) (missing_timer x k (tr_state res))) d1 else Inr d1) = Inr d2"
    "eo_saved (direct_ops x) k (tr_state res) d2 = Inr d3"
    "eo_db (direct_ops x) (append_all (ax_env x) (ax_current x) (tr_events res) (ax_now x)
       \<lparr>cp_prior = st, cp_input = ob, cp_source_recovered = False\<rparr>) d3 = Inr d'"
    unfolding accept_entity_def by (elim bindE_pairE bindE_InrE) blast
  have 1: "d1 = d" "Entity d (ax_id x) k = None \<Longrightarrow> EntityCount d (ax_id x) < M"
    using s(1) assms(2) by (auto simp: entity_state_def direct_ops_def split: option.splits if_splits)
  have 2: "db_entities d2 = db_entities d"
    using s(2) entity_free_keeps [OF SaveTimer_free] by (auto simp: 1(1) direct_ops_def split: if_splits)
  have "entities_within x M d3"
  proof (rule save_within)
    show "entities_within x M d2" using assms(1) by (simp add: entities_within_def EntityCount_def 2)
    show "saveEntityData (ax_id x) k (cd_revision (ax_plan x)) (tr_state res) (ax_now x) d2 = Inr d3" using s(3) by (simp add: direct_ops_def)
    show "Entity d2 (ax_id x) k = None \<Longrightarrow> EntityCount d2 (ax_id x) < M" using 1(2) by (simp add: EntityCount_def Entity_def 2)
  qed
  then show ?thesis using s(4) free_within [OF _ append_all_free] by (auto simp: direct_ops_def)
qed

lemma source_within:
  assumes "entities_within x M d" "clear_source (direct_ops x) x ob d = Inr d'"
  shows "entities_within x M d'"
  using assms free_within [OF delete_within appendEvaluated_free] delete_within
  by (auto simp: clear_source_def direct_ops_def Let_def split: option.splits if_splits)

lemma observations_within:
  assumes "entities_within x M d" "l_max_entities (s_limits (ax_spec x)) \<le> M" "accept_observations (direct_ops x) x obs d = Inr d'"
  shows "entities_within x M d'"
  using assms(1,3)
proof (induction obs arbitrary: d)
  case (Cons ob obs)
  have keys: "entities_within x M e \<Longrightarrow> accept_keys (direct_ops x) x ob ks e = Inr e' \<Longrightarrow> entities_within x M e'" for ks e e'
    by (induction ks arbitrary: e) (auto intro: entity_within [OF _ assms(2)])
  from Cons.prems obtain keys clear d2 d3 where
    "(if clear then clear_source (direct_ops x) x ob d else Inr d) = Inr d2" "accept_keys (direct_ops x) x ob keys d2 = Inr d3"
    "accept_observations (direct_ops x) x obs d3 = Inr d'"
    unfolding accept_observations.simps accept_observation_def
    by (elim bindE_pairE bindE_InrE) (auto simp: direct_ops_def elim!: bindE_InrE)
  then show ?case using Cons keys source_within by (metis sum.inject(2))
qed simp

lemma cached_within:
  assumes "accept_cached x obs d = Inr d'" "tbl_ok (db_entities d)" "tbl_ok (db_pins d)"
    "map_of (db_revisions d) (ax_id x, cd_revision (ax_plan x)) \<noteq> None"
  shows "EntityCount d' (ax_id x) \<le> max (EntityCount d (ax_id x)) (l_max_entities (s_limits (ax_spec x)))"
proof -
  have "accept_observations (direct_ops x) x obs d = Inr d'"
    using cache_transparent [OF assms(2-4), of obs d'] assms(1) by (simp add: accept_direct_def)
  from observations_within [OF _ _ this, of "max (EntityCount d (ax_id x)) (l_max_entities (s_limits (ax_spec x)))"]
  show ?thesis using assms(2) by (simp add: entities_within_def)
qed

lemma stamp_all_length: "stamp_all env limit b input now i obs = Inr os \<Longrightarrow> length os = length obs"
  by (induction obs arbitrary: i os) (auto simp: Let_def split: option.splits if_splits)

lemma upto_offset: "map (\<lambda>n. s + 1 + int n) [0..<k] = [s + 1..s + int k]"
  by (induction k) (simp_all add: upto_rec2 add.commute)

lemma batch_rows_sequences: "map fst (batch_rows i rv g s obs) = [s + 1..s + int (length obs)]"
proof -
  have "map fst (batch_rows i rv g s obs) = map (\<lambda>n. s + 1 + int n) [0..<length obs]"
    unfolding batch_rows_def by (rule nth_equalityI) simp_all
  then show ?thesis by (simp add: upto_offset)
qed

lemma upto_ends: "a \<le> b \<Longrightarrow> hd [a..b] = a \<and> last [a..b] = b"
  by (metis last_snoc list.sel(1) upto_rec1 upto_rec2)

lemma new_within_limits:
  assumes "database_ok d" "Watch d (watch_id_of current) = Inr current" "ba_observations b \<noteq> []"
    and "accept_new env current ev b input push now later' d = Inr (d', r, sv)"
  shows "Pending d' \<le> rl_max_pending (av_limits env)" (is ?pending)
    and "EntityCount d' (watch_id_of current) \<le>
      max (EntityCount d (watch_id_of current)) (l_max_entities (s_limits (d_spec (cd_definition (wr_plan current)))))" (is ?entities)
    and "push \<noteq> None \<Longrightarrow> av_bytes env d' \<le> rl_max_bytes (av_limits env)" (is "_ \<Longrightarrow> ?bytes")
    and "\<exists>rows. db_observations d' = db_observations d @ rows \<and> map fst rows = [re_first r..re_last r] \<and>
      length rows = length (given_observations current b) \<and> re_first r = db_observation_sequence d + 1" (is ?range)
proof -
  let ?i = "watch_id_of current" and ?x = "context_of env current ev now"
  obtain d1 obs d2 ss d3 where
    1: "(if \<not> is_zero (ba_deadline b) then Inr d
      else Checkpoint ?i (wr_generation current) (next_at_of env current ?i b now) now (ba_cursor b) d) = Inr d1"
    and p: "Pending d1 < rl_max_pending (av_limits env)"
    and st: "stamp_all env (l_max_bytes (s_limits (d_spec (cd_definition (wr_plan current))))) b input now 0 (given_observations current b) = Inr obs"
    and 2: "AppendObservations ?i (cd_revision (wr_plan current)) (wr_generation current) obs d1 = Inr (d2, ss)"
    and 3: "accept_cached ?x (map2 (\<lambda>ob s. ob\<lparr>o_sequence := s\<rparr>) obs ss) d2 = Inr d3"
    and 4: "seal env current ?i input push (int (length (given_observations current b))) now later' (hd ss) (last ss) d3 = Inr (d', sv)"
    and r: "r = \<lparr>re_first = hd ss, re_last = last ss, re_duplicate = False\<rparr>"
    using assms(4) by (rule accept_new_elim)
  have d1: "db_entities d1 = db_entities d" "db_pins d1 = db_pins d" "db_revisions d1 = db_revisions d" "db_observations d1 = db_observations d"
    "db_observation_sequence d1 = db_observation_sequence d"
    using 1 by (auto split: if_splits elim: Checkpoint_elim)
  note d2 = AppendObservations_rows [OF 2]
  have d3: "db_observations d3 = db_observations d2" using frame.accepted [OF refl 3] by (simp add: loop_frame_def)
  have d': "db_outbox d' = db_outbox d3" "db_entities d' = db_entities d3" "db_observations d' = db_observations d3"
    using 4 by (cases push; auto simp: seal_def Let_def split: if_splits elim!: SaveReceipt_elim)+
  have "Pending d2 \<le> rl_max_pending (av_limits (ax_env ?x))" using p d2 by (simp add: Pending_def)
  from pending.accepted [OF this 3] show ?pending by (simp add: Pending_def d')
  obtain w rr where "map_of (db_revisions d) (?i, wt_revision w) = Some rr" "current = scanWatch w rr"
    using Watch_elim [OF assms(2)] assms(1) unfolding database_ok_def by metis
  then have "map_of (db_revisions d2) (ax_id ?x, cd_revision (ax_plan ?x)) \<noteq> None" using d1 d2 by (simp add: scanWatch_def)
  with cached_within [OF 3] show ?entities
    using assms(1) d1 d2 by (simp add: database_ok_def store_ok_def keys_ok_def EntityCount_def d')
  show "push \<noteq> None \<Longrightarrow> ?bytes" using 4 by (cases push) (auto simp: seal_def Let_def split: if_splits)
  have n: "length obs = length (given_observations current b)" using stamp_all_length [OF st] .
  then have "obs \<noteq> []" using assms(3) by (auto split: if_splits)
  then have "1 \<le> int (length obs)" by (simp add: Suc_le_eq)
  moreover have "ss = [db_observation_sequence d + 1..db_observation_sequence d + int (length obs)]" using d2 d1 by (simp add: upto_offset)
  ultimately have "hd ss = db_observation_sequence d + 1 \<and> last ss = db_observation_sequence d + int (length obs)"
    using upto_ends [of "db_observation_sequence d + 1" "db_observation_sequence d + int (length obs)"] by (metis add_left_mono)
  then show ?range using d2 d1 d3 d' n
    by (intro exI [of _ "batch_rows ?i (cd_revision (wr_plan current)) (wr_generation current) (db_observation_sequence d) obs"])
      (simp add: r batch_rows_sequences, simp add: batch_rows_def)
qed

text \<open>C40: a new batch is accepted within the limits. No more deliveries are pending than the runtime
  allows, the watch has at most \<open>maxEntities\<close> entities unless it had more before, a pushed
  batch leaves the database within its size, and the observations stored are one per input, plus
  one for a gap after an error, with exactly the consecutive sequences the receipt names.\<close>

theorem acceptance_within_limits:
  assumes "database_ok d" "Watch d (watch_id_of rd) = Inr current"
    and "acceptPush env rd b input push now later' d = (d', Inr (r, sv))" "\<not> re_duplicate r"
  shows "Pending d' \<le> rl_max_pending (av_limits env) \<and>
    EntityCount d' (watch_id_of rd) \<le>
      max (EntityCount d (watch_id_of rd)) (l_max_entities (s_limits (d_spec (cd_definition (wr_plan current))))) \<and>
    (push \<noteq> None \<longrightarrow> av_bytes env d' \<le> rl_max_bytes (av_limits env)) \<and>
    (\<exists>rows. db_observations d' = db_observations d @ rows \<and> map fst rows = [re_first r..re_last r] \<and>
      length rows = length (given_observations current b) \<and> re_first r = db_observation_sequence d + 1)"
proof -
  obtain ev where ev: "accept_tx env rd ev b input push now later' d = Inr (d', r, sv)" using assms(3) by (rule acceptPush_tx)
  have c: "accept_case env rd ev b input push now later' d current d' r sv" using ev assms(2) by (auto elim: accept_tx_case)
  have id: "watch_id_of current = watch_id_of rd" using Watch_elim [OF assms(2)] assms(1) unfolding database_ok_def by metis
  have b: "ba_observations b \<noteq> []" using assms(3) by (auto simp: acceptPush_def split: if_splits)
  from c show ?thesis
  proof cases
    case (new e1 e2)
    have e1: "database_ok e1" "db_observations e1 = db_observations d" "db_entities e1 = db_entities d" "db_watches e1 = db_watches d"
      "db_revisions e1 = db_revisions d" "db_observation_sequence e1 = db_observation_sequence d"
      using new(1) assms(1) push_admission_ok by (auto simp: push_admission_def split: option.splits if_splits sum.splits prod.splits)
    have e2: "database_ok e2" using e1(1) new(3) by (rule take_timer_ok)
    from new(3) have f: "db_observations e2 = db_observations d" "db_entities e2 = db_entities d" "db_watches e2 = db_watches d"
      "db_revisions e2 = db_revisions d" "db_observation_sequence e2 = db_observation_sequence d"
      using e1 by (auto elim!: take_timer_elim)
    have "Watch e2 (watch_id_of current) = Inr current" using assms(2) unfolding Watch_def f id .
    note limits = new_within_limits [OF e2 this b new(5)]
    show ?thesis using limits unfolding EntityCount_def f id by blast
  qed (use assms(4) in auto)
qed

section \<open>A concrete acceptance\<close>

definition ex_push_input :: push_input where
  "ex_push_input = \<lparr>pi_valid_until = zero_time, pi_producer = ''shop'', pi_key = ''order-1'', pi_digest = ''d'', pi_bytes = 10,
     pi_max_receipts = 5, pi_horizon = hour\<rparr>"

definition ex_submit :: "push_input option \<Rightarrow> time \<Rightarrow> db \<Rightarrow> db \<times> (receipt \<times> push_receipt option) result" where
  "ex_submit push now d = acceptPush ex_accept_env ex_record ex_batch ''in'' push now now d"

lemma ex_db_ok: "database_ok ex_db"
proof -
  have "keys_ok ex_db" "sequences_ok ex_db" "rows_refer ex_db" "events_refer ex_db" "tables_ok (db_outbox ex_db)" by code_simp+
  moreover have "pins_ok ex_db" by (simp add: pins_ok_def ex_db_def empty_db_def)
  ultimately show ?thesis by (simp add: database_ok_def store_ok_def empty_push_ok ex_db_def empty_db_def)
qed

lemma ex_db_watch: "Watch ex_db (watch_id_of ex_record) = Inr ex_record"
  by code_simp

lemma ex_submitted:
  "case ex_submit None (30 * second) ex_db of (d, Inr (r, None)) \<Rightarrow> r = \<lparr>re_first = 1, re_last = 2, re_duplicate = False\<rparr> \<and> Pending d = 1
     | _ \<Rightarrow> False"
  "case ex_submit (Some ex_push_input) (30 * second) ex_db of
     (d, Inr (r, Some s)) \<Rightarrow> r = \<lparr>re_first = 1, re_last = 2, re_duplicate = False\<rparr> \<and> pr_acceptance_id s = ''in'' | _ \<Rightarrow> False"
  by code_simp+

theorem acceptance_preserves_database_witness:
  "database_ok ex_db \<and> database_ok (fst (ex_submit None (30 * second) ex_db)) \<and> Pending (fst (ex_submit None (30 * second) ex_db)) = 1"
  using ex_db_ok acceptance_preserves_database [OF ex_db_ok] ex_submitted(1)
  by (auto simp: ex_submit_def split: prod.splits sum.splits option.splits)

theorem acceptance_idempotent_witness:
  "\<exists>d r s. ex_submit (Some ex_push_input) (30 * second) ex_db = (d, Inr (r, Some s)) \<and> \<not> re_duplicate r \<and>
     ex_submit (Some ex_push_input) (60 * second) d = (d, Inr (r\<lparr>re_duplicate := True\<rparr>, Some (s\<lparr>pr_duplicate := True\<rparr>)))"
proof -
  obtain d r s where f: "ex_submit (Some ex_push_input) (30 * second) ex_db = (d, Inr (r, Some s))" "\<not> re_duplicate r"
    using ex_submitted(2) by (cases "ex_submit (Some ex_push_input) (30 * second) ex_db")
      (fastforce split: prod.splits sum.splits option.splits)
  have c: "is_zero (ba_deadline ex_batch)" "ba_observations ex_batch \<noteq> []"
    "int (length (ba_observations ex_batch)) \<le> l_max_outputs (s_limits (d_spec (cd_definition (wr_plan ex_record))))"
    "''in'' \<noteq> ''''" "length ''in'' \<le> 256"
    "case Some ex_push_input of None \<Rightarrow> ''in'' = ''in'' \<and> timestamp (60 * second) < timestamp (30 * second + receipt_ttl ex_record)
      | Some p \<Rightarrow> (is_zero (pi_valid_until p) \<or> 60 * second < pi_valid_until p) \<and> timestamp (60 * second) < timestamp (30 * second + pi_horizon p)"
    by code_simp+
  show ?thesis
    using f acceptance_idempotent [OF ex_db_ok ex_db_watch f(1) [unfolded ex_submit_def] f(2) c(1,1,2,3,4,5,6)] by (simp add: ex_submit_def)
qed

theorem acceptance_within_limits_witness:
  "\<exists>d r. ex_submit None (30 * second) ex_db = (d, Inr (r, None)) \<and> Pending d \<le> 10000 \<and>
     map fst (db_observations d) = [1, 2] \<and> EntityCount d ''api-health'' \<le> 100"
proof -
  obtain d r where f: "ex_submit None (30 * second) ex_db = (d, Inr (r, None))" "r = \<lparr>re_first = 1, re_last = 2, re_duplicate = False\<rparr>"
    using ex_submitted(1) by (auto split: prod.splits sum.splits option.splits)
  have n: "watch_id_of ex_record = ''api-health'' \<and> rl_max_pending (av_limits ex_accept_env) = 10000 \<and> db_observations ex_db = [] \<and>
    EntityCount ex_db ''api-health'' = 0 \<and> l_max_entities (s_limits (d_spec (cd_definition (wr_plan ex_record)))) \<le> 100 \<and> [1..2::int] = [1, 2]"
    by code_simp
  have "\<not> re_duplicate r" using f(2) by simp
  from acceptance_within_limits [OF ex_db_ok ex_db_watch f(1) [unfolded ex_submit_def] this] show ?thesis
    using f n by auto
qed

end
