(* ===== verification/Replay_Evidence.thy ===== *)
theory Replay_Evidence
  imports Acceptance_Results Transition_Runs
begin

text \<open>
  Package \<open>replay\<close> (\<open>evidence.go\<close>, \<open>explanation.go\<close>) and the evidence of an event:
  \<open>Tx.Event\<close> and \<open>Tx.Definition\<close> of \<open>store/inspection.go\<close>, \<open>App.Evidence\<close> of
  \<open>watchrun/inspection.go\<close>. An event is verified by evaluating its stored checkpoint again.
  A parameter \<open>enc\<close> is \<open>json.Marshal\<close> of an event. The theorem shows that every event an
  acceptance stores is reproduced by its checkpoint, although the checkpoint of a new-event
  firing keeps only one of the remembered identifiers.
\<close>

section \<open>Documents\<close>

record window_summary =
  ws_function :: string
  ws_from_exclusive :: time
  ws_through_inclusive :: time
  ws_samples :: int
  ws_value :: "float64 option"
  ws_available :: bool

record evaluation =
  el_known :: bool
  el_matched :: bool
  el_reason :: string
  el_matches :: int
  el_recoveries :: int
  el_open :: bool
  el_source_unhealthy :: bool
  el_windows :: "window_summary list"

record evidence_doc =
  pf_evaluation :: "evaluation option"
  pf_definition :: definition_rec
  pf_event :: event
  pf_checkpoint :: "checkpoint option"
  pf_status :: string

section \<open>Verification\<close>

fun reproduces :: "(event \<Rightarrow> string option) \<Rightarrow> string \<Rightarrow> event list \<Rightarrow> unit result" where
  "reproduces enc expected [] = Inl (Err ''replay did not reproduce the recorded event'')"
| "reproduces enc expected (e # es) =
     (case enc (e\<lparr>e_sequence := 0\<rparr>) of
        None \<Rightarrow> Inl (Err ''json: unsupported value'')
      | Some got \<Rightarrow> if got = expected then Inr () else reproduces enc expected es)"

definition replayed_events :: "runtime_env \<Rightarrow> evaluator \<Rightarrow> checkpoint \<Rightarrow> event list result" where
  "replayed_events renv e c =
     (if cp_source_recovered c
      then
        if entity (cp_prior c) \<noteq> SourceEntity \<or> \<not> source_unhealthy (cp_prior c)
        then Inl (Err ''invalid source recovery checkpoint'')
        else case Route e [SourceEntity] (cp_input c) of
          Inl _ \<Rightarrow> Inl (Err ''invalid source recovery input'')
        | Inr (keys, clear) \<Rightarrow>
            if \<not> clear \<or> keys = [] then Inl (Err ''invalid source recovery input'')
            else Inr [SourceRecovered renv e (cp_input c)]
      else bindE (Evaluate renv e (cp_prior c) (cp_input c) (o_accepted_at (cp_input c))) (\<lambda>r. Inr (tr_events r)))"

definition Verify :: "compile_env \<Rightarrow> runtime_env \<Rightarrow> (event \<Rightarrow> string option) \<Rightarrow> evidence_doc \<Rightarrow> unit result" where
  "Verify cenv renv enc proof' =
     (case pf_checkpoint proof' of
        None \<Rightarrow> Inl (Err ''event has no replay checkpoint'')
      | Some c \<Rightarrow>
          bindE (Compile cenv (pf_definition proof')) (\<lambda>p.
          if cd_revision p \<noteq> e_revision (pf_event proof') \<or> md_id (d_metadata (cd_definition p)) \<noteq> e_watch_id (pf_event proof')
          then Inl (Err ''evidence definition mismatch'')
          else
            bindE (New renv (cd_definition p) (cd_revision p)) (\<lambda>e.
            bindE (replayed_events renv e c) (\<lambda>events.
            case enc ((pf_event proof')\<lparr>e_sequence := 0\<rparr>) of
              None \<Rightarrow> Inl (Err ''json: unsupported value'')
            | Some expected \<Rightarrow> reproduces enc expected events))))"

section \<open>Explanation\<close>

definition window_summary_of :: "transition \<Rightarrow> time \<Rightarrow> window_leaf \<Rightarrow> window_summary" where
  "window_summary_of r now leaf =
     (let values = window_values now (w_window leaf) (samples (tr_state r));
          v = Aggregate (w_func leaf) values;
          shown = tr_known r \<and> values \<noteq> [] \<and> is_finite v
      in \<lparr>ws_function = w_func leaf, ws_from_exclusive = now - w_window leaf, ws_through_inclusive = now,
          ws_samples = int (length values), ws_value = (if shown then Some v else None), ws_available = shown\<rparr>)"

definition Explain :: "compile_env \<Rightarrow> runtime_env \<Rightarrow> evidence_doc \<Rightarrow> evaluation option result" where
  "Explain cenv renv proof' =
     (case pf_checkpoint proof' of
        None \<Rightarrow> Inr None
      | Some c \<Rightarrow>
          if cp_source_recovered c
          then Inr (Some \<lparr>el_known = False, el_matched = False, el_reason = ''source_recovered'', el_matches = 0, el_recoveries = 0,
            el_open = False, el_source_unhealthy = False, el_windows = []\<rparr>)
          else
            bindE (Compile cenv (pf_definition proof')) (\<lambda>p.
            bindE (New renv (cd_definition p) (cd_revision p)) (\<lambda>e.
            bindE (Evaluate renv e (cp_prior c) (cp_input c) (o_accepted_at (cp_input c))) (\<lambda>r.
            let st = tr_state r; numeric = c_numeric (s_condition (d_spec (cd_definition p))) in
            bindE (if numeric = '''' then Inr []
                   else bindE (ParseExpression numeric) (\<lambda>x.
                     Inr (map (window_summary_of r (o_accepted_at (cp_input c))) (Windows x)))) (\<lambda>ws.
            Inr (Some \<lparr>el_known = tr_known r, el_matched = tr_matched r, el_reason = tr_reason r, el_matches = matches st,
              el_recoveries = recoveries st, el_open = is_open st, el_source_unhealthy = source_unhealthy st, el_windows = ws\<rparr>))))))"

section \<open>The evidence of an event\<close>

definition Event :: "db \<Rightarrow> string \<Rightarrow> event result" where
  "Event d ident =
     (case find (\<lambda>(_, e). e_id e = ident) (db_events d) of
        None \<Rightarrow> Inl ErrNotFound
      | Some (s, e) \<Rightarrow> Inr (e\<lparr>e_sequence := s\<rparr>))"

definition Definition :: "db \<Rightarrow> string \<Rightarrow> string \<Rightarrow> definition_rec result" where
  "Definition d ident revision =
     (case map_of (db_revisions d) (ident, revision) of None \<Rightarrow> Inl ErrNotFound | Some r \<Rightarrow> Inr (rr_definition r))"

text \<open>The stored checkpoint is a JSON document, so the fields of its input come back as JSON values.\<close>

definition decoded :: "checkpoint \<Rightarrow> checkpoint" where
  "decoded c =
     (case json_norm_fields (o_fields (cp_input c)) of
        Some fs \<Rightarrow> c\<lparr>cp_input := (cp_input c)\<lparr>o_fields := fs\<rparr>\<rparr>
      | None \<Rightarrow> c)"

definition Evidence :: "compile_env \<Rightarrow> runtime_env \<Rightarrow> (event \<Rightarrow> string option) \<Rightarrow> db \<Rightarrow> string \<Rightarrow> evidence_doc result" where
  "Evidence cenv renv enc d ident =
     bindE (Event d ident) (\<lambda>e.
     bindE (Definition d (e_watch_id e) (e_revision e)) (\<lambda>def.
     let proof' = \<lparr>pf_evaluation = None, pf_definition = def, pf_event = e, pf_checkpoint = None, pf_status = ''''\<rparr> in
     case Replay d ident of
       Inl err \<Rightarrow>
         if err = ErrNotFound then Inr (proof'\<lparr>pf_status := ''unavailable: lifecycle event or predates schema 2''\<rparr>) else Inl err
     | Inr c \<Rightarrow>
         let checked = proof'\<lparr>pf_checkpoint := Some (decoded c)\<rparr> in
         bindE (Verify cenv renv enc checked) (\<lambda>_.
         bindE (Explain cenv renv checked) (\<lambda>v.
         Inr (checked\<lparr>pf_status := ''verified'', pf_evaluation := v\<rparr>)))))"

section \<open>What an evaluation does not read\<close>

text \<open>The remembered identifiers do not influence what is emitted.\<close>

definition with_seen :: "(string \<times> time) list \<Rightarrow> cstate \<Rightarrow> cstate" where
  "with_seen S st = st\<lparr>seen := S\<rparr>"

definition keep_seen :: "(string \<times> time) list \<Rightarrow> transition \<Rightarrow> transition" where
  "keep_seen S t = t\<lparr>tr_state := with_seen S (tr_state t)\<rparr>"

lemma keep_seen_events [simp]: "tr_events (keep_seen S t) = tr_events t"
  by (simp add: keep_seen_def)

lemma with_seen_fields [simp]:
  "source_unhealthy (with_seen S st) = source_unhealthy st" "last_fired (with_seen S st) = last_fired st"
  "last_at (with_seen S st) = last_at st" "seen (with_seen S st) = S" "last_sequence (with_seen S st) = last_sequence st"
  "entity (with_seen S st) = entity st" "with_seen S (with_seen T st) = with_seen S st"
  "with_seen S (st\<lparr>seen := T\<rparr>) = with_seen S st" "(with_seen T st)\<lparr>seen := S\<rparr> = with_seen S st"
  by (simp_all add: with_seen_def)

lemma evidence_seen: "event_evidence ev ob (with_seen S st) kind = event_evidence ev ob st kind"
  by (simp add: event_evidence_def with_seen_def)

lemma emit_seen [simp]: "emit x (with_seen S st) kind reason = emit x st kind reason"
  unfolding emit_def evidence_seen ..

lemma evaluation_key_seen: "evaluation_key ev (with_seen S st) ob = evaluation_key ev st ob"
  unfolding evaluation_key_def with_seen_fields ..

lemma recover_source_seen:
  "recover_source x (with_seen S st) evs = map_sum id (\<lambda>(s, es). (with_seen S s, es)) (recover_source x st evs)"
  by (cases "emit x st ''source_recovered'' ''source_recovered''") (simp_all add: recover_source_def, simp add: with_seen_def)

lemma apply_signal_seen: "apply_signal x (with_seen S st) evs m = map_sum id (keep_seen S) (apply_signal x st evs m)"
proof -
  have "result_of (advance x ((with_seen S st)\<lparr>evidence := []\<rparr>)) es k m' r = keep_seen S (result_of (advance x (st\<lparr>evidence := []\<rparr>)) es k m' r)"
    for es k m' r st by (simp add: result_of_def advance_def keep_seen_def with_seen_def)
  moreover have "(with_seen S st)\<lparr>last_fired := l\<rparr> = with_seen S (st\<lparr>last_fired := l\<rparr>)" for l st by (simp add: with_seen_def)
  ultimately show ?thesis
    unfolding apply_signal_def Let_def emit_seen with_seen_fields
    by (cases "emit x st (c_operator (ev_condition (x_ev x))) (''condition_'' @ c_operator (ev_condition (x_ev x)))") auto
qed

section \<open>New-event firings\<close>

text \<open>Of the remembered identifiers a firing depends on its own alone.\<close>

definition own_seen :: "string \<Rightarrow> cstate \<Rightarrow> (string \<times> time) list" where
  "own_seen i st = (case map_of (seen st) i of Some e \<Rightarrow> [(i, e)] | None \<Rightarrow> [])"

lemma map_of_live: "map_of S i = Some e \<Longrightarrow> now < e \<Longrightarrow> map_of (live_ids now S) i = Some e"
  by (induction S) (auto simp: live_ids_def split: if_splits)

lemma signal_own_seen:
  assumes "signal_new_event ev st v now = (st1, True, True, reason)"
  shows "int (length (live_ids now (seen st))) < l_max_samples (ev_limits ev) \<and>
    (\<exists>i S. v = VStr i \<and> signal_new_event ev (with_seen (own_seen i st) st) v now = (with_seen S st1, True, True, reason))"
proof -
  obtain i where v: "v = VStr i" "event_identifier v = Some i"
    using assms by (cases v) (auto simp: signal_new_event_def split: if_splits)
  let ?live = "live_ids now (seen st)"
  have f: "\<not> (case map_of ?live i of Some expiry \<Rightarrow> now < expiry | None \<Rightarrow> False)" "int (length ?live) < l_max_samples (ev_limits ev)"
    "st1 = st\<lparr>seen := alist_put i (now + duration_or_zero (c_dedup_for (ev_condition ev))) ?live\<rparr>" "reason = ''''"
    using assms v(2) by (auto simp: signal_new_event_def Let_def split: if_splits)
  have "live_ids now (own_seen i st) = []"
    using f(1) map_of_live [of "seen st" i _ now] by (auto simp: own_seen_def live_ids_def split: option.splits)
  then have "signal_new_event ev (with_seen (own_seen i st) st) v now =
      (with_seen (alist_put i (now + duration_or_zero (c_dedup_for (ev_condition ev))) []) st1, True, True, reason)"
    using v(2) f(2-4) by (simp add: signal_new_event_def Let_def)
  then show ?thesis using v(1) f(2) by blast
qed

abbreviation new_event :: "event \<Rightarrow> bool" where
  "new_event e \<equiv> e_type e = ''new-event''"

definition watches_events :: "evaluator \<Rightarrow> bool" where
  "watches_events ev \<longleftrightarrow> c_operator (ev_condition ev) = ''new-event'' \<and> c_missing_for (ev_condition ev) = ''''"

lemma unknown_no_new: "unknown x st evs reason = Inr t \<Longrightarrow> list_all (\<lambda>e. \<not> new_event e) evs \<Longrightarrow> list_all (\<lambda>e. \<not> new_event e) (tr_events t)"
  by (auto simp: unknown_def Let_def dest: emit_fields(1) split: if_splits)

lemma known_own_seen:
  assumes "watches_events (x_ev x)" "evaluate_known x st evs = Inr t" "list_all (\<lambda>e. \<not> new_event e) evs"
    and "e \<in> set (tr_events t)" "new_event e"
  shows "int (length (live_ids (x_now x) (seen st))) < l_max_samples (ev_limits (x_ev x)) \<and>
    (\<exists>t'. evaluate_known x (with_seen (own_seen (field_string (o_fields (x_ob x)) (c_field (ev_condition (x_ev x)))) st) st) evs = Inr t' \<and>
      tr_events t' = tr_events t)"
proof -
  let ?f = "c_field (ev_condition (x_ev x))"
  obtain st1 known matched reason where p: "predicate (x_ev x) st (x_ob x) (x_now x) = (st1, known, matched, reason)" by (metis prod_cases4)
  have "\<not> (\<not> known)"
  proof
    assume "\<not> known"
    then have "unknown x st1 evs reason = Inr t" using assms(2) p by (simp add: evaluate_known_def)
    from unknown_no_new [OF this assms(3)] show False using assms(4,5) by (simp add: list_all_iff)
  qed
  then obtain st2 evs2 where r: "(if source_unhealthy st1 \<and> o_health (x_ob x) \<noteq> ''timer'' then recover_source x st1 evs else Inr (st1, evs)) = Inr (st2, evs2)"
    "apply_signal x st2 evs2 matched = Inr t"
    using assms(1,2) p by (auto simp: evaluate_known_def apply_policy_def watches_events_def)
  have "list_all (\<lambda>e. \<not> new_event e) evs2" using r(1) assms(3) by (auto simp: recover_source_def dest: emit_fields(1) split: if_splits)
  then have m: "matched"
    using r(2) assms(4,5) by (auto simp: apply_signal_def Let_def result_of_def list_all_iff split: if_splits)
  obtain v where v: "map_of (o_fields (x_ob x)) ?f = Some v" "signal_new_event (x_ev x) st v (x_now x) = (st1, True, True, reason)"
    using p m \<open>\<not> (\<not> known)\<close> assms(1) by (auto simp: predicate_def watches_events_def signal_def Let_def split: option.splits)
  obtain i S where s: "v = VStr i" "signal_new_event (x_ev x) (with_seen (own_seen i st) st) v (x_now x) = (with_seen S st1, True, True, reason)"
    "int (length (live_ids (x_now x) (seen st))) < l_max_samples (ev_limits (x_ev x))"
    using signal_own_seen [OF v(2)] by blast
  have i: "field_string (o_fields (x_ob x)) ?f = i" using v(1) s(1) by (simp add: field_string_def)
  have "predicate (x_ev x) (with_seen (own_seen i st) st) (x_ob x) (x_now x) = (with_seen S st1, True, True, reason)"
    using v(1) s(2) assms(1) by (simp add: predicate_def watches_events_def signal_def Let_def)
  then have "evaluate_known x (with_seen (own_seen i st) st) evs = map_sum id (keep_seen S) (Inr t)"
    using r m assms(1) by (auto simp: evaluate_known_def apply_policy_def watches_events_def recover_source_seen apply_signal_seen split: if_splits)
  then show ?thesis using s(3) i by simp
qed

lemma observed_own_seen:
  assumes "watches_events (x_ev x)" "evaluate_observed x st evs = Inr t" "list_all (\<lambda>e. \<not> new_event e) evs"
    and "e \<in> set (tr_events t)" "new_event e"
  shows "int (length (live_ids (x_now x) (seen st))) < l_max_samples (ev_limits (x_ev x)) \<and>
    (\<exists>t'. evaluate_observed x (with_seen (own_seen (field_string (o_fields (x_ob x)) (c_field (ev_condition (x_ev x)))) st) st) evs = Inr t' \<and>
      tr_events t' = tr_events t)"
proof -
  let ?missing = "c_missing_for (ev_condition (x_ev x)) \<noteq> ''''" and ?h = "o_health (x_ob x)"
  have "\<not> new_event e'" if "e' \<in> set (tr_events t)" "evaluate_waiting x st evs = Inr t" for e'
    using that assms(3) by (auto simp: evaluate_waiting_def recover_source_def result_of_def Let_def list_all_iff dest!: emit_fields(1) split: if_splits)
  moreover have "\<not> new_event e'" if "e' \<in> set (tr_events t)" "unknown x st evs r = Inr t" for e' r
    using unknown_no_new [OF that(2) assms(3)] that(1) by (simp add: list_all_iff)
  moreover have "\<not> new_event e'" if "e' \<in> set (tr_events t)" "t = result_of s evs k m r" for e' s k m r
    using that assms(3) by (auto simp: result_of_def list_all_iff)
  ultimately have c: "\<not> (?h = ''unchanged'' \<and> \<not> ?missing)" "\<not> (?h = ''waiting'' \<and> \<not> ?missing)"
    "\<not> (?h \<noteq> ''ok'' \<and> \<not> (?missing \<and> (?h = ''timer'' \<or> ?h = ''unchanged'')))" "\<not> filtered_out x" "evaluate_known x st evs = Inr t"
    using assms(2,4,5) unfolding evaluate_observed_def Let_def by (auto split: if_splits)
  from known_own_seen [OF assms(1) c(5) assms(3-5)] show ?thesis using c(1-4) by (auto simp: evaluate_observed_def Let_def)
qed

lemma keyed_own_seen:
  assumes "watches_events (x_ev x)" "evaluate_keyed x st = Inr t" "e \<in> set (tr_events t)" "new_event e"
  shows "int (length (live_ids (x_now x) (seen st))) < l_max_samples (ev_limits (x_ev x)) \<and>
    (\<exists>t'. evaluate_keyed x (with_seen (own_seen (field_string (o_fields (x_ob x)) (c_field (ev_condition (x_ev x)))) st) st) = Inr t' \<and>
      tr_events t' = tr_events t)"
proof -
  let ?S = "own_seen (field_string (o_fields (x_ob x)) (c_field (ev_condition (x_ev x)))) st" and ?h = "o_health (x_ob x)"
  let ?gap = "c_missing_for (ev_condition (x_ev x)) = '''' \<and> \<not> is_zero (last_at st) \<and> ev_max_gap (x_ev x) > 0 \<and>
    time_sub (x_now x) (last_at st) > ev_max_gap (x_ev x)"
  have u: "\<not> new_event e'" if "e' \<in> set (tr_events t)" "unknown x s [] r = Inr t" for e' r s
    using unknown_no_new [OF that(2)] that(1) by (simp add: list_all_iff)
  obtain st1 evs where o: "?h \<noteq> ''clock''" "\<not> (\<not> is_zero (last_at st) \<and> x_now x < last_at st)" "?h \<noteq> ''gap''"
    "(if ?gap then bindE (emit x (reset_counts st) ''gap'' ''sampling_gap'') (\<lambda>e. Inr (reset_counts st, [e])) else Inr (st, [])) = Inr (st1, evs)"
    "evaluate_observed x st1 evs = Inr t"
    using assms(2-4) u unfolding evaluate_keyed_def Let_def
    by (auto simp: result_of_def dest: emit_fields(1) split: if_splits)
  have r: "reset_counts (with_seen S st) = with_seen S (reset_counts st)" for S by (simp add: reset_counts_def with_seen_def)
  have st1: "seen st1 = seen st" "own_seen i st1 = own_seen i st" for i
    using o(4) by (auto simp: reset_counts_def own_seen_def split: if_splits)
  have "list_all (\<lambda>e. \<not> new_event e) evs" using o(4) by (auto dest: emit_fields(1) split: if_splits)
  from observed_own_seen [OF assms(1) o(5) this assms(3,4)]
  have "int (length (live_ids (x_now x) (seen st))) < l_max_samples (ev_limits (x_ev x))"
    "\<exists>t'. evaluate_observed x (with_seen ?S st1) evs = Inr t' \<and> tr_events t' = tr_events t" by (simp_all add: st1)
  moreover have "evaluate_keyed x (with_seen ?S st) = evaluate_observed x (with_seen ?S st1) evs"
    using o(1-4) by (auto simp: evaluate_keyed_def Let_def r split: if_splits)
  ultimately show ?thesis by simp
qed

lemma Evaluate_own_seen:
  assumes "watches_events ev" "Evaluate env ev st ob now = Inr t" "e \<in> set (tr_events t)" "new_event e"
  shows "int (length (live_ids now (seen st))) < l_max_samples (ev_limits ev) \<and>
    (\<exists>t'. Evaluate env ev (with_seen (own_seen (field_string (o_fields ob) (c_field (ev_condition ev))) st) st) ob now = Inr t' \<and>
      tr_events t' = tr_events t)"
proof -
  let ?S = "own_seen (field_string (o_fields ob) (c_field (ev_condition ev))) st"
  obtain key where k: "evaluation_key ev st ob = Inr key" "last_sequence st < o_sequence ob" "1 \<le> o_sequence ob" "now = o_accepted_at ob" "\<not> is_zero now"
    "evaluate_keyed \<lparr>x_env = env, x_ev = ev, x_ob = ob, x_key = key, x_now = now\<rparr> (st\<lparr>waiting_reason := '''', entity := key\<rparr>) = Inr t"
    using assms(2) by (auto elim!: Evaluate_elim)
  have s: "with_seen S (st\<lparr>waiting_reason := '''', entity := key\<rparr>) = (with_seen S st)\<lparr>waiting_reason := '''', entity := key\<rparr>" for S
    by (simp add: with_seen_def)
  have own: "own_seen i (st\<lparr>waiting_reason := '''', entity := key\<rparr>) = own_seen i st" for i by (simp add: own_seen_def)
  have e: "evaluation_key ev ((with_seen ?S st)\<lparr>waiting_reason := ''''\<rparr>) ob = Inr key" using k(1) by (simp add: evaluation_key_seen)
  show ?thesis
    using keyed_own_seen [OF _ k(6) assms(3,4)] assms(1) k(2-5) e by (simp add: own s Evaluate_def Let_def)
qed

section \<open>Checkpoints reproduce their events\<close>

lemma New_elim:
  assumes "New env def rv = Inr ev"
  obtains "ev_revision ev = rv" "d_metadata (ev_definition ev) = d_metadata def" "c_operator (ev_condition ev) = c_operator (s_condition (d_spec def))"
    "c_field (ev_condition ev) = c_field (s_condition (d_spec def))" "ev_limits ev = s_limits (d_spec def)"
    "c_operator (s_condition (d_spec def)) = ''new-event'' \<Longrightarrow> watches_events ev"
    "c_numeric (s_condition (d_spec def)) \<noteq> '''' \<Longrightarrow> \<exists>x. ParseExpression (c_numeric (s_condition (d_spec def))) = Inr x"
proof -
  from assms obtain copied x w where c: "copy_definition def = Some copied"
    "ev = \<lparr>ev_definition = copied, ev_revision = rv, ev_expression = x, ev_max_window = w, ev_interval = duration_or_zero (p_interval (s_policy (d_spec def))),
       ev_max_gap = duration_or_zero (p_max_gap (s_policy (d_spec def)))\<rparr>"
    "c_operator (s_condition (d_spec def)) = ''new-event'' \<Longrightarrow> c_missing_for (s_condition (d_spec def)) = ''''"
    "c_numeric (s_condition (d_spec def)) \<noteq> '''' \<Longrightarrow> \<exists>x. ParseExpression (c_numeric (s_condition (d_spec def))) = Inr x"
    by (auto simp: New_def Let_def split: option.splits if_splits)
  moreover have "d_metadata copied = d_metadata def" "c_operator (s_condition (d_spec copied)) = c_operator (s_condition (d_spec def))"
    "c_field (s_condition (d_spec copied)) = c_field (s_condition (d_spec def))" "s_limits (d_spec copied) = s_limits (d_spec def)"
    "c_missing_for (s_condition (d_spec copied)) = c_missing_for (s_condition (d_spec def))"
    using c(1) by (auto simp: copy_definition_def split: option.splits if_splits)
  ultimately show thesis using that by (simp add: watches_events_def)
qed

definition json_input :: "observation \<Rightarrow> bool" where
  "json_input ob \<longleftrightarrow> json_norm_fields (o_fields ob) = Some (o_fields ob)"

text \<open>The events of an evaluation are those of the watch, unnumbered, with JSON fields.\<close>

definition event_of :: "evaluator \<Rightarrow> event \<Rightarrow> bool" where
  "event_of ev e \<longleftrightarrow> e_watch_id e = md_id (d_metadata (ev_definition ev)) \<and> e_revision e = ev_revision ev \<and> e_sequence e = 0 \<and>
     json_norm_fields (e_fields e) \<noteq> None"

lemma evaluated_event_of:
  assumes "Evaluate env ev st ob now = Inr t" "json_input ob" "e \<in> set (tr_events t)"
  shows "event_of ev e"
proof -
  from assms(1) obtain key x s0 where e: "x = \<lparr>x_env = env, x_ev = ev, x_ob = ob, x_key = key, x_now = now\<rparr>" "evaluate_keyed x s0 = Inr t"
    by (rule Evaluate_elim)
  have x: "x_ev x = ev" "x_ob x = ob" "list_all (emitted x) (tr_events t)" using evaluate_keyed_emitted [OF e(2)] by (simp_all add: e(1))
  then obtain s kind reason where "emit x s kind reason = Inr e" using assms(3) by (auto simp: list_all_iff emitted_def)
  then show ?thesis using assms(2) x(1,2) by (auto simp: emit_def event_of_def json_input_def)
qed

lemma recovered_event_of: "event_of ev (SourceRecovered env ev ob)"
  by (simp add: event_of_def SourceRecovered_def)

text \<open>What a checkpoint promises about its event.\<close>

definition reproduced :: "runtime_env \<Rightarrow> evaluator \<Rightarrow> checkpoint \<Rightarrow> event \<Rightarrow> bool" where
  "reproduced env ev c e \<longleftrightarrow> (\<exists>es. replayed_events env ev c = Inr es \<and> e \<in> set es \<and> list_all (event_of ev) es)"

lemma decoded_json [simp]: "json_input (cp_input c) \<Longrightarrow> decoded c = c"
  by (simp add: decoded_def json_input_def)

lemma trim_input [simp]: "cp_input (trim_checkpoint r e now c) = cp_input c"
  by (simp add: trim_checkpoint_def Let_def)

lemma evaluated_reproduced:
  assumes "New env (cd_definition (wr_plan r)) rv = Inr ev" "Evaluate env ev st ob now = Inr t" "json_input ob" "e \<in> set (tr_events t)"
  shows "reproduced env ev (trim_checkpoint r e now \<lparr>cp_prior = st, cp_input = ob, cp_source_recovered = False\<rparr>) e"
proof -
  let ?c = "\<lparr>cp_prior = st, cp_input = ob, cp_source_recovered = False\<rparr>"
  let ?sp = "d_spec (cd_definition (wr_plan r))"
  have now: "now = o_accepted_at ob" using assms(2) by (auto elim: Evaluate_elim)
  have again: "reproduced env ev \<lparr>cp_prior = st', cp_input = ob, cp_source_recovered = False\<rparr> e"
    if "Evaluate env ev st' ob now = Inr t'" "tr_events t' = tr_events t" for st' t'
    using that assms(3,4) evaluated_event_of [OF that(1) assms(3)] now
    by (auto simp: reproduced_def replayed_events_def list_all_iff)
  show ?thesis
  proof (cases "c_operator (s_condition ?sp) = ''new-event'' \<and> new_event e \<and>
      int (length (filter (\<lambda>(_, expiry). now < expiry) (seen st))) < l_max_samples (s_limits ?sp)")
    case False
    then have "trim_checkpoint r e now ?c = ?c" by (auto simp: trim_checkpoint_def Let_def)
    then show ?thesis using again [OF assms(2)] by simp
  next
    case True
    note new = New_elim [OF assms(1)]
    have w: "watches_events ev" using True by (metis new)
    have f: "c_field (ev_condition ev) = c_field (s_condition ?sp)" by (metis new)
    from Evaluate_own_seen [OF w assms(2,4)] True obtain t' where
      "Evaluate env ev (with_seen (own_seen (field_string (o_fields ob) (c_field (s_condition ?sp))) st) st) ob now = Inr t'" "tr_events t' = tr_events t"
      unfolding f by blast
    moreover have "trim_checkpoint r e now ?c = \<lparr>cp_prior = with_seen (own_seen (field_string (o_fields ob) (c_field (s_condition ?sp))) st) st,
        cp_input = ob, cp_source_recovered = False\<rparr>"
      using True by (simp add: trim_checkpoint_def Let_def with_seen_def own_seen_def)
    ultimately show ?thesis using again by simp
  qed
qed

lemma recovered_reproduced:
  assumes "Route ev existing ob = Inr (keys, True)" "entity b = SourceEntity" "source_unhealthy b"
  shows "reproduced env ev (trim_checkpoint r (SourceRecovered env ev ob) now \<lparr>cp_prior = b, cp_input = ob, cp_source_recovered = True\<rparr>)
    (SourceRecovered env ev ob)"
proof -
  have "\<exists>k. Route ev [SourceEntity] ob = Inr ([k], True)" using assms(1) by (auto simp: Route_def Let_def split: if_splits)
  moreover have "trim_checkpoint r (SourceRecovered env ev ob) now c = c" for c by (simp add: trim_checkpoint_def SourceRecovered_def Let_def)
  ultimately show ?thesis using assms(2,3) recovered_event_of [of ev env ob] by (auto simp: reproduced_def replayed_events_def)
qed

section \<open>Evidence in the store\<close>

lemma enqueue_targets_frame: "enqueue_targets env i e now tgs d = Inr d' \<Longrightarrow> \<exists>ot. d' = d\<lparr>db_outbox := ot\<rparr>"
proof (induction tgs arbitrary: d)
  case Nil
  then show ?case by (intro exI [of _ "db_outbox d"]) simp
next
  case (Cons tg tgs)
  show ?case
  proof (cases "e_type e \<in> set (t_events tg)")
    case True
    with Cons.prems obtain dest :: compiled_destination and pl d1 n where
      "db_enqueue (e_id e) i (t_ref tg) (cds_revision dest) pl now now d = Inr (d1, n)" "enqueue_targets env i e now tgs d1 = Inr d'"
      by (auto simp: not_le split: if_splits)
    then show ?thesis using Cons.IH [of d1] by (auto elim!: db_enqueue_elim)
  qed (use Cons in simp)
qed

lemma appendEvaluated_elim:
  assumes "appendEvaluated env r e now c d = Inr d'"
  obtains n where "db_events d' = db_events d @ [(n, e)]" "db_replays d' = db_replays d @ [(e_id e, trim_checkpoint r e now c)]"
    "map_of (db_replays d) (e_id e) = None" "db_revisions d' = db_revisions d" "db_entities d' = db_entities d"
    "map_of (db_revisions d) (e_watch_id e, e_revision e) \<noteq> None"
proof -
  from assms obtain d1 n d2 where a: "AppendEvent e d = Inr (d1, n)"
    "enqueue_targets env (watch_id_of r) (e\<lparr>e_sequence := n\<rparr>) now (s_destinations (d_spec (cd_definition (wr_plan r)))) d1 = Inr d2"
    "SaveReplay (e_id e) (trim_checkpoint r e now c) d2 = Inr d'"
    by (auto simp: appendEvaluated_def appendEvent_def)
  from enqueue_targets_frame [OF a(2)] obtain ot where "d2 = d1\<lparr>db_outbox := ot\<rparr>" ..
  with a(1,3) show thesis by (intro that [of n]) (auto elim!: AppendEvent_elim SaveReplay_elim)
qed

text \<open>Every stored revision compiles to itself.\<close>

definition revisions_compiled :: "compile_env \<Rightarrow> db \<Rightarrow> bool" where
  "revisions_compiled cenv d \<longleftrightarrow>
     (\<forall>((i, rv), r) \<in> set (db_revisions d). \<exists>p. Compile cenv (rr_definition r) = Inr p \<and> cd_definition p = rr_definition r \<and> cd_revision p = rv)"

text \<open>Entities are stored under the key their state names.\<close>

definition states_named :: "db \<Rightarrow> bool" where
  "states_named d \<longleftrightarrow> (\<forall>((i, k), r) \<in> set (db_entities d). k \<noteq> '''' \<and> entity (er_state r) = k)"

text \<open>A stored checkpoint reproduces a stored event under the definition it was made with.\<close>

definition checkpoint_ok :: "runtime_env \<Rightarrow> db \<Rightarrow> string \<Rightarrow> checkpoint \<Rightarrow> bool" where
  "checkpoint_ok renv d ident c \<longleftrightarrow> (\<exists>n e r ev. (n, e) \<in> set (db_events d) \<and> e_id e = ident \<and>
     map_of (db_revisions d) (e_watch_id e, e_revision e) = Some r \<and> New renv (rr_definition r) (e_revision e) = Inr ev \<and>
     e_watch_id e = md_id (d_metadata (rr_definition r)) \<and> event_of ev e \<and> reproduced renv ev (decoded c) e)"

definition proofs_ok :: "compile_env \<Rightarrow> runtime_env \<Rightarrow> db \<Rightarrow> bool" where
  "proofs_ok cenv renv d \<longleftrightarrow> revisions_compiled cenv d \<and> states_named d \<and>
     (\<forall>ident c. map_of (db_replays d) ident = Some c \<longrightarrow> checkpoint_ok renv d ident c)"

text \<open>What the loop of an acceptance keeps.\<close>

definition loop_ok :: "accept_ctx \<Rightarrow> revision_row \<Rightarrow> db \<Rightarrow> bool" where
  "loop_ok x rr d \<longleftrightarrow> proofs_ok (av_compile (ax_env x)) (av_runtime (ax_env x)) d \<and>
     map_of (db_revisions d) (ax_id x, cd_revision (ax_plan x)) = Some rr \<and> rr_definition rr = cd_definition (ax_plan x) \<and>
     New (av_runtime (ax_env x)) (cd_definition (ax_plan x)) (cd_revision (ax_plan x)) = Inr (ax_evaluator x)"

lemma evaluated_loop_ok:
  assumes "loop_ok x rr d" "appendEvaluated (ax_env x) (ax_current x) e (ax_now x) c d = Inr d'" "json_input (cp_input c)"
    and "event_of (ax_evaluator x) e" "reproduced (av_runtime (ax_env x)) (ax_evaluator x) (trim_checkpoint (ax_current x) e (ax_now x) c) e"
  shows "loop_ok x rr d'"
proof -
  let ?ev = "ax_evaluator x" and ?r = "av_runtime (ax_env x)"
  obtain n where n: "db_events d' = db_events d @ [(n, e)]" "db_replays d' = db_replays d @ [(e_id e, trim_checkpoint (ax_current x) e (ax_now x) c)]"
    "map_of (db_replays d) (e_id e) = None" "db_revisions d' = db_revisions d" "db_entities d' = db_entities d"
    using assms(2) by (rule appendEvaluated_elim)
  have ev: "New ?r (cd_definition (ax_plan x)) (cd_revision (ax_plan x)) = Inr ?ev" using assms(1) by (simp add: loop_ok_def)
  have w: "e_watch_id e = ax_id x" "e_revision e = cd_revision (ax_plan x)"
    using assms(4) New_elim [OF ev] unfolding event_of_def by metis+
  have "checkpoint_ok ?r d' (e_id e) (trim_checkpoint (ax_current x) e (ax_now x) c)"
    using assms(1,3-5) w unfolding checkpoint_ok_def loop_ok_def n(4)
    by (intro exI [of _ n] exI [of _ e] exI [of _ rr] exI [of _ ?ev]) (simp add: n(1))
  moreover have "checkpoint_ok ?r d' i q" if "checkpoint_ok ?r d i q" for i q
    using that unfolding checkpoint_ok_def n(1,4) by auto
  ultimately have "\<forall>i q. map_of (db_replays d') i = Some q \<longrightarrow> checkpoint_ok ?r d' i q"
    using assms(1) n(3) by (auto simp: n(2) loop_ok_def proofs_ok_def map_add_Some_iff split: if_splits)
  then show ?thesis using assms(1) n(4,5) by (simp add: loop_ok_def proofs_ok_def revisions_compiled_def states_named_def)
qed

lemma append_loop_ok:
  assumes "loop_ok x rr d" "append_all (ax_env x) (ax_current x) es (ax_now x) \<lparr>cp_prior = st, cp_input = ob, cp_source_recovered = False\<rparr> d = Inr d'"
    and "Evaluate (av_runtime (ax_env x)) (ax_evaluator x) st ob (ax_now x) = Inr t" "set es \<subseteq> set (tr_events t)" "json_input ob"
  shows "loop_ok x rr d'"
  using assms(1,2,4)
proof (induction es arbitrary: d)
  case (Cons e es)
  from Cons.prems(2) obtain d1 where d1: "appendEvaluated (ax_env x) (ax_current x) e (ax_now x) \<lparr>cp_prior = st, cp_input = ob, cp_source_recovered = False\<rparr> d = Inr d1"
    "append_all (ax_env x) (ax_current x) es (ax_now x) \<lparr>cp_prior = st, cp_input = ob, cp_source_recovered = False\<rparr> d1 = Inr d'" by auto
  have n: "New (av_runtime (ax_env x)) (cd_definition (wr_plan (ax_current x))) (cd_revision (ax_plan x)) = Inr (ax_evaluator x)"
    using Cons.prems(1) by (simp add: loop_ok_def)
  have e: "e \<in> set (tr_events t)" using Cons.prems(3) by simp
  have "loop_ok x rr d1"
    by (rule evaluated_loop_ok [OF Cons.prems(1) d1(1) _ evaluated_event_of [OF assms(3,5) e] evaluated_reproduced [OF n assms(3,5) e]])
      (use assms(5) in simp)
  then show ?case using Cons.IH d1(2) Cons.prems(3) by simp
qed simp

lemma direct_simps:
  "eo_db (direct_ops x) f d = f d" "eo_load (direct_ops x) k d = (d, Entity d (ax_id x) k)" "eo_removed (direct_ops x) k d = d"
  "eo_saved (direct_ops x) k st d = saveEntityData (ax_id x) k (cd_revision (ax_plan x)) st (ax_now x) d"
  "eo_count (direct_ops x) d = (d, EntityCount d (ax_id x))"
  by (simp_all add: direct_ops_def)

lemma frame_loop_ok:
  assumes "loop_ok x rr d" "db_events d' = db_events d" "db_replays d' = db_replays d" "db_revisions d' = db_revisions d" "states_named d'"
  shows "loop_ok x rr d'"
proof -
  have "checkpoint_ok renv d' i c = checkpoint_ok renv d i c" for renv i c unfolding checkpoint_ok_def assms(2,4) ..
  then show ?thesis using assms by (simp add: loop_ok_def proofs_ok_def revisions_compiled_def)
qed

lemma named_states: "loop_ok x rr d \<Longrightarrow> Entity d i k = Some st \<Longrightarrow> k \<noteq> '''' \<and> entity st = k"
  by (auto simp: loop_ok_def proofs_ok_def states_named_def Entity_def dest!: map_of_SomeD)

lemma saved_loop_ok:
  assumes "loop_ok x rr d" "saveEntityData i k rv st now d = Inr d'" "k \<noteq> ''''" "entity st = k"
  shows "loop_ok x rr d'"
proof (rule frame_loop_ok [OF assms(1)])
  let ?P = "\<lambda>((_, k), r). k \<noteq> '''' \<and> entity (er_state r) = k"
  have "\<forall>q \<in> set (db_entities d). ?P q" using assms(1) by (simp add: loop_ok_def proofs_ok_def states_named_def)
  from all_tbl_put [OF this, of "(i, k)" "\<lparr>er_revision = rv, er_state = st, er_updated_at = timestamp now\<rparr>"]
  show "states_named d'" using assms(2-4) by (auto simp: states_named_def elim!: saveEntityData_elim)
qed (use assms(2) in \<open>auto elim!: saveEntityData_elim\<close>)

lemma entity_loop_ok:
  assumes "loop_ok x rr d" "accept_entity (direct_ops x) x ob k d = Inr d'" "k \<noteq> ''''" "json_input ob"
  shows "loop_ok x rr d'"
proof -
  from assms(2) obtain d1 st and t :: transition and d2 d3 where s: "entity_state (direct_ops x) x k d = Inr (d1, st)"
    "Evaluate (av_runtime (ax_env x)) (ax_evaluator x) st ob (ax_now x) = Inr t"
    "(if c_missing_for (s_condition (ax_spec x)) \<noteq> '''' \<and> (o_health ob = ''ok'' \<or> o_health ob = ''unchanged'')
      then eo_db (direct_ops x) (SaveTimer (av_json_valid (ax_env x)) (missing_timer x k (tr_state t))) d1 else Inr d1) = Inr d2"
    "eo_saved (direct_ops x) k (tr_state t) d2 = Inr d3"
    "eo_db (direct_ops x) (append_all (ax_env x) (ax_current x) (tr_events t) (ax_now x)
       \<lparr>cp_prior = st, cp_input = ob, cp_source_recovered = False\<rparr>) d3 = Inr d'"
    unfolding accept_entity_def by (elim bindE_pairE bindE_InrE) blast
  have st: "d1 = d" "entity st = k"
    using s(1) named_states [OF assms(1)] by (auto simp: entity_state_def direct_ops_def split: option.splits if_splits)
  have t: "entity (tr_state t) = k" using Evaluate_entity [OF s(2)] evaluation_key_entity(2) st(2) assms(3) by metis
  have "loop_ok x rr d2"
  proof (rule frame_loop_ok [OF assms(1)])
    show "states_named d2" using assms(1) s(3) by (auto simp: st(1) direct_ops_def loop_ok_def proofs_ok_def states_named_def split: if_splits elim!: SaveTimer_elim)
  qed (use s(3) in \<open>auto simp: st(1) direct_ops_def split: if_splits elim!: SaveTimer_elim\<close>)
  then have "loop_ok x rr d3" using s(4) saved_loop_ok [OF _ _ assms(3) t] by (simp add: direct_ops_def)
  then show ?thesis using append_loop_ok [OF _ _ s(2) subset_refl assms(4)] s(5) by (simp add: direct_ops_def)
qed

lemma source_loop_ok:
  assumes "loop_ok x rr d" "clear_source (direct_ops x) x ob d = Inr d'" "json_input ob" "Route (ax_evaluator x) es ob = Inr (keys, True)"
  shows "loop_ok x rr d'"
proof -
  obtain b where b: "Entity d (ax_id x) SourceEntity = Some b"
    "(if source_unhealthy b
      then appendEvaluated (ax_env x) (ax_current x) (SourceRecovered (av_runtime (ax_env x)) (ax_evaluator x) ob) (ax_now x)
        \<lparr>cp_prior = b, cp_input = ob, cp_source_recovered = True\<rparr> (DeleteEntity (ax_id x) SourceEntity d)
      else Inr (DeleteEntity (ax_id x) SourceEntity d)) = Inr d'"
    using assms(2) unfolding clear_source_def direct_simps Let_def by (cases "Entity d (ax_id x) SourceEntity") simp_all
  have "loop_ok x rr (DeleteEntity (ax_id x) SourceEntity d)"
  proof (rule frame_loop_ok [OF assms(1)])
    have "set (tbl_del (ax_id x, SourceEntity) (db_entities d)) \<subseteq> set (db_entities d)" by (auto simp: tbl_del_def)
    then show "states_named (DeleteEntity (ax_id x) SourceEntity d)"
      using assms(1) by (fastforce simp: loop_ok_def proofs_ok_def states_named_def DeleteEntity_def)
  qed (simp_all add: DeleteEntity_def)
  then show ?thesis
    using b(2) evaluated_loop_ok [OF _ _ _ recovered_event_of recovered_reproduced [OF assms(4)]] named_states [OF assms(1) b(1)] assms(3)
    by (auto split: if_splits)
qed

lemma Route_keys: "Route ev es ob = Inr (keys, clear) \<Longrightarrow> \<forall>k \<in> set es. k \<noteq> '''' \<Longrightarrow> \<forall>k \<in> set keys. k \<noteq> ''''"
proof -
  assume a: "Route ev es ob = Inr (keys, clear)" "\<forall>k \<in> set es. k \<noteq> ''''"
  from a(1) have "(keys = [o_entity ob] \<and> o_entity ob \<noteq> '''') \<or> keys = sort es \<or> keys = [SourceEntity] \<or> keys = [] \<or>
      (\<exists>k. EntityKey (s_group_by (d_spec (ev_definition ev))) (o_fields ob) = Inr k \<and> keys = [k])"
    unfolding Route_def Let_def by (auto split: if_splits)
  moreover have "SourceEntity \<noteq> ''''" by (simp add: SourceEntity_def)
  ultimately show ?thesis using a(2) EntityKey_nonempty by (metis empty_iff empty_set list.set_intros(1) set_ConsD set_sort)
qed

lemma observations_loop_ok:
  assumes "loop_ok x rr d" "accept_observations (direct_ops x) x obs d = Inr d'" "list_all json_input obs"
  shows "loop_ok x rr d'"
  using assms
proof (induction obs arbitrary: d)
  case (Cons ob obs)
  have keys: "loop_ok x rr e \<Longrightarrow> accept_keys (direct_ops x) x ob ks e = Inr e' \<Longrightarrow> \<forall>k \<in> set ks. k \<noteq> '''' \<Longrightarrow> loop_ok x rr e'" for ks e e'
    using Cons.prems(3) by (induction ks arbitrary: e) (auto intro: entity_loop_ok)
  from Cons.prems(2) obtain keys clear d2 d3 where s: "Route (ax_evaluator x) (existing_keys x ob d) ob = Inr (keys, clear)"
    "(if clear then clear_source (direct_ops x) x ob d else Inr d) = Inr d2" "accept_keys (direct_ops x) x ob keys d2 = Inr d3"
    "accept_observations (direct_ops x) x obs d3 = Inr d'"
    unfolding accept_observations.simps accept_observation_def
    by (elim bindE_pairE bindE_InrE) (auto simp: direct_ops_def elim!: bindE_InrE)
  have "\<forall>k \<in> set (existing_keys x ob d). k \<noteq> ''''"
    using Cons.prems(1) by (auto simp: existing_keys_def SourceEntity_def Entities_def loop_ok_def proofs_ok_def states_named_def split: if_splits)
  with Route_keys [OF s(1)] have k: "\<forall>k \<in> set keys. k \<noteq> ''''" by blast
  have "loop_ok x rr d2" using s(1,2) Cons.prems source_loop_ok [OF Cons.prems(1)] by (cases clear) auto
  from keys [OF this s(3) k] Cons.IH s(4) Cons.prems(3) show ?case by simp
qed simp

section \<open>Every stored checkpoint verifies\<close>

lemma reproduces_member:
  assumes "e \<in> set es" "enc (e\<lparr>e_sequence := 0\<rparr>) = Some expected" "\<And>f. f \<in> set es \<Longrightarrow> enc (f\<lparr>e_sequence := 0\<rparr>) \<noteq> None"
  shows "reproduces enc expected es = Inr ()"
  using assms(1,3)
proof (induction es)
  case (Cons f es)
  then obtain g where "enc (f\<lparr>e_sequence := 0\<rparr>) = Some g" by fastforce
  then show ?case using Cons assms(2) by auto
qed simp

lemma Verify_reproduced:
  assumes "Compile cenv (pf_definition p) = Inr c" "cd_revision c = e_revision (pf_event p)" "md_id (d_metadata (cd_definition c)) = e_watch_id (pf_event p)"
    and "New renv (cd_definition c) (cd_revision c) = Inr ev" "pf_checkpoint p = Some q" "reproduced renv ev q e" "pf_event p = e\<lparr>e_sequence := n\<rparr>"
    and enc: "\<And>f. json_norm_fields (e_fields f) \<noteq> None \<Longrightarrow> enc f \<noteq> None"
  shows "Verify cenv renv enc p = Inr ()" "\<exists>v. Explain cenv renv p = Inr v"
proof -
  obtain es where es: "replayed_events renv ev q = Inr es" "e \<in> set es" "list_all (event_of ev) es" using assms(6) by (auto simp: reproduced_def)
  have all: "enc (f\<lparr>e_sequence := 0\<rparr>) \<noteq> None" if "f \<in> set es" for f
    using es(3) that enc [of "f\<lparr>e_sequence := 0\<rparr>"] by (simp add: list_all_iff event_of_def)
  then obtain w where w: "enc (e\<lparr>e_sequence := 0\<rparr>) = Some w" using es(2) by fast
  have "reproduces enc w es = Inr ()" by (rule reproduces_member [where e = e and enc = enc]) (fact es(2) w all)+
  then show "Verify cenv renv enc p = Inr ()" using assms(1-5,7) es(1) w by (simp add: Verify_def)
  have x: "c_numeric (s_condition (d_spec (cd_definition c))) \<noteq> '''' \<Longrightarrow> \<exists>x. ParseExpression (c_numeric (s_condition (d_spec (cd_definition c)))) = Inr x"
    using New_elim [OF assms(4)] by metis
  show "\<exists>v. Explain cenv renv p = Inr v"
  proof (cases "cp_source_recovered q")
    case False
    then obtain t where "Evaluate renv ev (cp_prior q) (cp_input q) (o_accepted_at (cp_input q)) = Inr t"
      using es(1) by (auto simp: replayed_events_def)
    then show ?thesis using assms(1,4,5) False x
      by (cases "c_numeric (s_condition (d_spec (cd_definition c))) = ''''") (auto simp: Explain_def Let_def)
  qed (simp add: Explain_def assms(5))
qed

lemma find_event:
  assumes "distinct (event_ids d)" "(n, e) \<in> set (db_events d)"
  shows "Event d (e_id e) = Inr (e\<lparr>e_sequence := n\<rparr>)"
proof -
  have "find (\<lambda>(_, f). e_id f = e_id e) es = Some (n, e)" if "distinct (map (\<lambda>p. e_id (snd p)) es)" "(n, e) \<in> set es" for es
    using that by (induction es) (auto simp: image_iff)
  then show ?thesis using assms by (simp add: Event_def)
qed

lemma Evidence_verified:
  assumes "proofs_ok cenv renv d" "distinct (event_ids d)" "map_of (db_replays d) ident = Some c"
    and "\<And>f. json_norm_fields (e_fields f) \<noteq> None \<Longrightarrow> enc f \<noteq> None"
  shows "\<exists>p. Evidence cenv renv enc d ident = Inr p \<and> pf_status p = ''verified''"
proof -
  obtain n e r ev where k: "(n, e) \<in> set (db_events d)" "e_id e = ident" "map_of (db_revisions d) (e_watch_id e, e_revision e) = Some r"
    "New renv (rr_definition r) (e_revision e) = Inr ev" "e_watch_id e = md_id (d_metadata (rr_definition r))" "reproduced renv ev (decoded c) e"
  proof -
    have "checkpoint_ok renv d ident c" using assms(1,3) by (simp add: proofs_ok_def)
    then show thesis using that unfolding checkpoint_ok_def by blast
  qed
  obtain p where p: "Compile cenv (rr_definition r) = Inr p" "cd_definition p = rr_definition r" "cd_revision p = e_revision e"
    using assms(1) map_of_SomeD [OF k(3)] by (fastforce simp: proofs_ok_def revisions_compiled_def)
  let ?q = "\<lparr>pf_evaluation = None, pf_definition = rr_definition r, pf_event = e\<lparr>e_sequence := n\<rparr>, pf_checkpoint = Some (decoded c), pf_status = ''''\<rparr>"
  have v: "Verify cenv renv enc ?q = Inr ()" "\<exists>v. Explain cenv renv ?q = Inr v"
    by (rule Verify_reproduced [where c = p and ev = ev and e = e and n = n and q = "decoded c"]; use p k(4-6) assms(4) in simp)+
  from v(2) obtain v where "Explain cenv renv ?q = Inr v" ..
  then show ?thesis using v(1) find_event [OF assms(2) k(1)] k(2,3) assms(3)
    by (simp add: Evidence_def Definition_def Replay_def Let_def)
qed

section \<open>Acceptance\<close>

lemma evidence_frame:
  assumes "proofs_ok cenv renv d" "db_events d' = db_events d" "db_replays d' = db_replays d" "db_revisions d' = db_revisions d" "db_entities d' = db_entities d"
  shows "proofs_ok cenv renv d'"
proof -
  have "checkpoint_ok renv d' i c = checkpoint_ok renv d i c" for renv i c unfolding checkpoint_ok_def assms(2,4) ..
  then show ?thesis using assms by (simp add: proofs_ok_def revisions_compiled_def states_named_def)
qed

lemma stamped_json: "stamp_all env limit b input now i obs = Inr os \<Longrightarrow> list_all json_input obs \<Longrightarrow> list_all json_input os"
  by (induction obs arbitrary: i os) (auto simp: Let_def stamp_observation_def json_input_def split: option.splits if_splits)

lemma sequenced_json: "list_all json_input obs \<Longrightarrow> list_all json_input (map2 (\<lambda>ob s. ob\<lparr>o_sequence := s\<rparr>) obs ss)"
  by (auto simp: list_all_iff json_input_def dest!: set_zip_leftD)

lemma evidence_new:
  assumes "database_ok d" "proofs_ok (av_compile env) (av_runtime env) d" "Watch d (watch_id_of current) = Inr current"
    and "New (av_runtime env) (cd_definition (wr_plan current)) (cd_revision (wr_plan current)) = Inr ev"
    and "list_all json_input (ba_observations b)" "accept_new env current ev b input push now later' d = Inr (d', r, sv)"
  shows "proofs_ok (av_compile env) (av_runtime env) d'"
proof -
  let ?i = "watch_id_of current" and ?x = "context_of env current ev now"
  obtain d1 obs d2 ss d3 where
    1: "(if \<not> is_zero (ba_deadline b) then Inr d
      else Checkpoint ?i (wr_generation current) (next_at_of env current ?i b now) now (ba_cursor b) d) = Inr d1"
    and st: "stamp_all env (l_max_bytes (s_limits (d_spec (cd_definition (wr_plan current))))) b input now 0 (given_observations current b) = Inr obs"
    and 2: "AppendObservations ?i (cd_revision (wr_plan current)) (wr_generation current) obs d1 = Inr (d2, ss)"
    and 3: "accept_cached ?x (map2 (\<lambda>ob s. ob\<lparr>o_sequence := s\<rparr>) obs ss) d2 = Inr d3"
    and 4: "seal env current ?i input push (int (length (given_observations current b))) now later' (hd ss) (last ss) d3 = Inr (d', sv)"
    using assms(6) by (rule accept_new_elim)
  have d1: "db_entities d1 = db_entities d" "db_pins d1 = db_pins d" "db_revisions d1 = db_revisions d" "db_events d1 = db_events d" "db_replays d1 = db_replays d"
    using 1 by (auto split: if_splits elim: Checkpoint_elim)
  note d2 = AppendObservations_rows [OF 2]
  obtain w rr where rr: "map_of (db_revisions d) (?i, wt_revision w) = Some rr" "current = scanWatch w rr"
    using Watch_elim [OF assms(3)] assms(1) unfolding database_ok_def by metis
  have "proofs_ok (av_compile env) (av_runtime env) d2" by (rule evidence_frame [OF assms(2)]) (use d1 d2 in simp_all)
  moreover have rv: "map_of (db_revisions d2) (ax_id ?x, cd_revision (ax_plan ?x)) = Some rr" "rr_definition rr = cd_definition (ax_plan ?x)"
    using rr(1) d1(3) d2 by (simp_all add: rr(2) scanWatch_def)
  ultimately have l: "loop_ok ?x rr d2" using assms(4) by (simp add: loop_ok_def)
  have "tbl_ok (db_entities d2)" "tbl_ok (db_pins d2)" using assms(1) d1 d2 by (simp_all add: database_ok_def store_ok_def keys_ok_def)
  then have direct: "accept_observations (direct_ops ?x) ?x (map2 (\<lambda>ob s. ob\<lparr>o_sequence := s\<rparr>) obs ss) d2 = Inr d3"
    using cache_transparent [of d2 ?x _ d3] rv(1) 3 by (simp add: accept_direct_def)
  have "list_all json_input (given_observations current b)" using assms(5) by (simp add: json_input_def gap_observation_def)
  from observations_loop_ok [OF l direct sequenced_json [OF stamped_json [OF st this]]]
  have "proofs_ok (av_compile env) (av_runtime env) d3" by (simp add: loop_ok_def)
  then show ?thesis by (rule evidence_frame) (use 4 in \<open>cases push; auto simp: seal_def Let_def split: if_splits elim!: SaveReceipt_elim\<close>)+
qed

lemma admission_frame:
  assumes "(case push of None \<Rightarrow> Inr (d, None) | Some p \<Rightarrow> push_admission p rd current now d) = Inr (d1, sv)"
  shows "\<exists>t. d1 = d\<lparr>db_push := t\<rparr>"
  using assms unfolding push_admission_def
  by (cases push) (auto split: if_splits sum.splits prod.splits intro: exI [of _ "db_push d1"])

lemma evidence_push: "proofs_ok cenv renv d \<Longrightarrow> proofs_ok cenv renv (d\<lparr>db_push := t\<rparr>)"
  by (rule evidence_frame) simp_all

lemma evidence_timers: "proofs_ok cenv renv d \<Longrightarrow> proofs_ok cenv renv (d\<lparr>db_timers := t\<rparr>)"
  by (rule evidence_frame) simp_all

lemma evidence_watches: "proofs_ok cenv renv d \<Longrightarrow> proofs_ok cenv renv (d\<lparr>db_watches := t\<rparr>)"
  by (rule evidence_frame) simp_all

lemma evidence_LastError: "proofs_ok cenv renv d \<Longrightarrow> proofs_ok cenv renv (LastError i g detail nx d)"
  by (simp add: LastError_def evidence_watches split: option.split)

lemma Watch_frame: "db_watches e = db_watches d \<Longrightarrow> db_revisions e = db_revisions d \<Longrightarrow> Watch e = Watch d"
  by (rule ext) (simp only: Watch_def)

lemma evidence_case:
  assumes "database_ok d" "proofs_ok (av_compile env) (av_runtime env) d" "Watch d (watch_id_of rd) = Inr current" "wr_plan current = wr_plan rd"
    and "list_all json_input (ba_observations b)" "New (av_runtime env) (cd_definition (wr_plan rd)) (cd_revision (wr_plan rd)) = Inr ev"
    and "accept_case env rd ev b input push now later' d current d' r sv"
  shows "proofs_ok (av_compile env) (av_runtime env) d'"
  using assms(7)
proof cases
  case (pushed p saved)
  then have "\<exists>t. d' = d\<lparr>db_push := t\<rparr>" by (intro admission_frame [where push = push]) simp
  then show ?thesis using evidence_push [OF assms(2)] by auto
next
  case (received d1 first last')
  then show ?thesis using admission_frame [OF received(3)] evidence_timers [OF evidence_push [OF assms(2)]] by (auto elim!: take_timer_elim)
next
  case (new e1 e2)
  from admission_frame [OF new(1)] obtain t where e1: "e1 = d\<lparr>db_push := t\<rparr>" ..
  from new(3) obtain ts where e2: "e2 = e1\<lparr>db_timers := ts\<rparr>" by (rule take_timer_elim)
  have "database_ok e1" using new(1) assms(1) push_admission_ok by (cases push) auto
  then have ok: "database_ok e2" using new(3) by (rule take_timer_ok)
  have "Watch e2 = Watch d" by (rule Watch_frame) (simp_all add: e1 e2)
  then have "Watch e2 (watch_id_of current) = Inr current" using assms(3,4) by simp
  from evidence_new [OF ok _ this assms(6) [folded assms(4)] assms(5) new(5)] show ?thesis
    using evidence_timers [OF evidence_push [OF assms(2)]] by (simp add: e1 e2)
qed

text \<open>C4: events are reproducible. If every checkpoint in the store reproduces its event, then after any
  acceptance every checkpoint does: asking for the evidence of any event that has one replays it
  from the stored definition, state and input, finds the very same event, and reports it as verified.
  This includes new-event firings, whose checkpoints forget all other identifiers. The fields of the
  inputs are JSON values, as a projection makes them, and an event with such fields can be encoded.\<close>

theorem accepted_events_verify:
  assumes "database_ok d" "proofs_ok (av_compile env) (av_runtime env) d" "Watch d (watch_id_of rd) = Inr current" "wr_plan current = wr_plan rd"
    and "list_all json_input (ba_observations b)" "acceptPush env rd b input push now later' d = (d', res)"
    and "\<And>f. json_norm_fields (e_fields f) \<noteq> None \<Longrightarrow> enc f \<noteq> None"
  shows "proofs_ok (av_compile env) (av_runtime env) d' \<and>
    (\<forall>ident \<in> fst ` set (db_replays d'). \<exists>p. Evidence (av_compile env) (av_runtime env) enc d' ident = Inr p \<and> pf_status p = ''verified'')"
proof -
  have tx: "proofs_ok (av_compile env) (av_runtime env) e"
    if "New (av_runtime env) (cd_definition (wr_plan rd)) (cd_revision (wr_plan rd)) = Inr ev" "accept_tx env rd ev b input push now later' d = Inr (e, r, sv)" for ev e r sv
  proof -
    have "accept_case env rd ev b input push now later' d current e r sv" using that(2) assms(3) by (auto elim: accept_tx_case)
    then show ?thesis by (rule evidence_case [OF assms(1-5) that(1)])
  qed
  have ok: "proofs_ok (av_compile env) (av_runtime env) d'"
    using assms(2,6) tx evidence_LastError [OF assms(2)] by (auto simp: acceptPush_def split: if_splits sum.splits)
  have "database_ok d'" using acceptance_ok [OF assms(1)] assms(6) by (metis fst_conv)
  then have "distinct (event_ids d')" by (simp add: database_ok_def store_ok_def sequences_ok_def)
  note verified = Evidence_verified [where enc = enc, OF ok this]
  have "\<exists>p. Evidence (av_compile env) (av_runtime env) enc d' ident = Inr p \<and> pf_status p = ''verified''"
    if k: "ident \<in> fst ` set (db_replays d')" for ident
  proof -
    obtain c where "map_of (db_replays d') ident = Some c" using k known_key [of "db_replays d'" ident] by blast
    then show ?thesis using verified assms(7) by blast
  qed
  with ok show ?thesis by blast
qed

section \<open>A concrete watch for new events\<close>

definition ex_proof_env :: accept_env where
  "ex_proof_env = ex_accept_env\<lparr>av_compile := (av_compile ex_accept_env)\<lparr>
     ce_url_parse := (\<lambda>_. Some \<lparr>u_scheme = ''https'', u_host = ''example.com'', u_hostname = ''example.com'', u_has_user = False, u_fragment = ''''\<rparr>)\<rparr>\<rparr>"

definition ex_orders :: compiled where
  "ex_orders = \<lparr>cd_definition = ex_hosts_definition\<lparr>d_spec := (d_spec ex_hosts_definition)\<lparr>s_group_by := [],
     s_condition := \<lparr>c_field = ''order'', c_operator = ''new-event'', c_value = VNil, c_numeric = '''', c_missing_for = '''', c_dedup_for = ''1h0m0s''\<rparr>,
     s_policy := \<lparr>p_trigger = ''level'', p_consecutive = 1, p_recover_after = 1, p_on_unknown = ''hold-incident'', p_interval = ''1s'', p_max_gap = ''1m0s''\<rparr>,
     s_destinations := [\<lparr>t_ref = ''console'', t_events = [''new-event'']\<rparr>],
     s_limits := (s_limits (d_spec ex_hosts_definition))\<lparr>l_idle_ttl := ''24h0m0s''\<rparr>\<rparr>\<rparr>,
     cd_revision = ''r1'', cd_fingerprint = ''f1'', cd_permissions = [''http-read'']\<rparr>"

definition ex_orders_db :: db where
  "ex_orders_db = ex_db\<lparr>db_revisions := [((''api-health'', ''r1''), \<lparr>rr_fingerprint = cd_fingerprint ex_orders, rr_definition = cd_definition ex_orders,
     rr_created_at = 1\<rparr>)]\<rparr>"

definition ex_orders_record :: watch_record where
  "ex_orders_record = ex_record\<lparr>wr_plan := ex_orders\<rparr>"

definition ex_order :: "string \<Rightarrow> observation" where
  "ex_order n = (ex_host n 0)\<lparr>o_fields := [(''order'', VStr n)]\<rparr>"

definition ex_orders_batch :: batch where
  "ex_orders_batch = ex_batch\<lparr>ba_observations := [ex_order ''o1'', ex_order ''o2'', ex_order ''o1'']\<rparr>"

definition ex_orders_accepted :: "db \<times> (receipt \<times> push_receipt option) result" where
  "ex_orders_accepted = acceptPush ex_proof_env ex_orders_record ex_orders_batch ''in'' None (30 * second) (30 * second) ex_orders_db"

lemma ex_orders_compiled: "Compile (av_compile ex_proof_env) (cd_definition ex_orders) = Inr ex_orders"
  by code_simp

lemma ex_orders_revision: "cd_revision ex_orders = ''r1''" "md_id (d_metadata (cd_definition ex_orders)) = ''api-health''"
  by code_simp+

lemma ex_orders_ok:
  "database_ok ex_orders_db" "proofs_ok (av_compile ex_proof_env) (av_runtime ex_proof_env) ex_orders_db"
  "Watch ex_orders_db (watch_id_of ex_orders_record) = Inr ex_orders_record"
proof -
  have "rows_refer ex_orders_db" by (simp add: rows_refer_def revision_known_def ex_orders_db_def ex_db_def empty_db_def ex_orders_revision)
  then show "database_ok ex_orders_db" using ex_db_ok
    by (simp add: database_ok_def store_ok_def keys_ok_def sequences_ok_def events_refer_def pins_ok_def ex_orders_db_def)
  show "proofs_ok (av_compile ex_proof_env) (av_runtime ex_proof_env) ex_orders_db"
    by (simp add: proofs_ok_def revisions_compiled_def states_named_def ex_orders_db_def ex_db_def empty_db_def
        ex_orders_compiled ex_orders_revision)
  have "ExecutionPermissions (src_type (s_source (d_spec (cd_definition ex_orders)))) = cd_permissions ex_orders" by code_simp
  then show "Watch ex_orders_db (watch_id_of ex_orders_record) = Inr ex_orders_record"
    by (simp add: Watch_def scanWatch_def ex_orders_db_def ex_orders_record_def ex_db_def empty_db_def ex_record_def ex_orders_revision instant_def second_def zero_time_def)
qed

theorem accepted_events_verify_witness:
  "map (\<lambda>(_, e). e_type e) (db_events (fst ex_orders_accepted)) = [''new-event''] \<and>
   (\<exists>ident p. map fst (db_replays (fst ex_orders_accepted)) = [ident] \<and>
     Evidence (av_compile ex_proof_env) (av_runtime ex_proof_env) (\<lambda>e. Some (e_id e)) (fst ex_orders_accepted) ident = Inr p \<and>
     pf_status p = ''verified'')"
proof -
  have "case ex_orders_accepted of (d, _) \<Rightarrow> map (\<lambda>(_, e). e_type e) (db_events d) = [''new-event''] \<and> length (db_replays d) = 1"
    by code_simp
  then have t: "map (\<lambda>(_, e). e_type e) (db_events (fst ex_orders_accepted)) = [''new-event'']" and "length (db_replays (fst ex_orders_accepted)) = 1"
    by (simp_all add: case_prod_beta)
  then obtain ident c where r: "db_replays (fst ex_orders_accepted) = [(ident, c)]" by (auto simp: length_Suc_conv)
  have j: "list_all json_input (ba_observations ex_orders_batch)" by code_simp
  have a: "acceptPush ex_proof_env ex_orders_record ex_orders_batch ''in'' None (30 * second) (30 * second) ex_orders_db =
    (fst ex_orders_accepted, snd ex_orders_accepted)" by (simp add: ex_orders_accepted_def)
  show ?thesis using accepted_events_verify [OF ex_orders_ok refl j a, of "\<lambda>e. Some (e_id e)"] t r by auto
qed

end
