(* ===== verification/Watch_Lifecycle.thy ===== *)
theory Watch_Lifecycle
  imports Acceptance
begin

text \<open>
  What changes a watch: \<open>App.apply\<close> (\<open>watchrun/app.go\<close>), \<open>App.lifecycle\<close> and
  \<open>RunTimers\<close> (\<open>lifecycle.go\<close>), \<open>clockShift\<close> (\<open>clock.go\<close>), the
  preconditions of a review (\<open>review.go\<close>), who may do it (package \<open>access\<close> and
  \<open>watchrun/access.go\<close>) and \<open>Tx.PurgeWatch\<close> (\<open>store/purge.go\<close>). The operations are
  those of a caller without an idempotency receipt of its own (\<open>noMutation\<close>). Parameters are the
  digests, the fresh lifetime of a new watch, the transfers that hold a watch, the order in which
  a map is traversed and the size check of a review.
\<close>

section \<open>Access\<close>

record principal =
  pp_user :: string
  pp_workspace :: string
  pp_role :: string
  pp_kind :: string
  pp_operator :: bool
  pp_scopes :: "string list"

definition access_actions :: "string list" where
  "access_actions = [''inspect'', ''preview'', ''manage'', ''retry'', ''destinations'', ''credentials'', ''members'', ''owners'', ''move'',
     ''delete_workspace'', ''host'', ''ingest'']"

definition Role_Valid :: "string \<Rightarrow> bool" where
  "Role_Valid r \<longleftrightarrow> r \<in> {''viewer'', ''editor'', ''administrator'', ''owner''}"

text \<open>Delegated credentials need the scope of the action, whatever their role allows.\<close>

definition delegated_scope :: "principal \<Rightarrow> string \<Rightarrow> string" where
  "delegated_scope p action =
     (if pp_kind p = ''integration'' \<and> action = ''destinations'' then ''manage''
      else if action = ''move'' \<and> pp_kind p \<noteq> ''integration'' \<and> ''owners'' \<in> set (pp_scopes p) then ''owners''
      else action)"

definition role_allows :: "principal \<Rightarrow> string \<Rightarrow> bool" where
  "role_allows p action =
     (if action = ''inspect'' then True
      else if action \<in> {''preview'', ''manage'', ''retry''} then pp_role p \<noteq> ''viewer''
      else if action \<in> {''destinations'', ''credentials'', ''members''} then pp_role p = ''administrator'' \<or> pp_role p = ''owner''
      else if action \<in> {''owners'', ''move'', ''delete_workspace''} then pp_role p = ''owner''
      else if action = ''ingest'' then pp_kind p = ''ingest'' \<or> pp_kind p = ''service''
      else False)"

definition Allows :: "principal \<Rightarrow> string \<Rightarrow> bool" where
  "Allows p action =
     (if pp_user p = '''' \<or> pp_workspace p = '''' \<or> action \<notin> set access_actions then False
      else if pp_operator p then True
      else if \<not> Role_Valid (pp_role p) \<or> action = ''host'' then False
      else if pp_kind p \<in> {''device'', ''integration'', ''service'', ''ingest''} \<and> delegated_scope p action \<notin> set (pp_scopes p) then False
      else role_allows p action)"

abbreviation ErrDenied :: err where "ErrDenied \<equiv> Err ''workspace permission denied''"

text \<open>Without a principal the caller is the local operator.\<close>

definition Require :: "principal option \<Rightarrow> string \<Rightarrow> unit result" where
  "Require p action = (case p of Some q \<Rightarrow> if Allows q action then Inr () else Inl ErrDenied | None \<Rightarrow> Inr ())"

section \<open>Environment\<close>

record life_env =
  le_accept :: accept_env
  le_principal :: "principal option"
  le_approved :: "string list"                                      \<comment> \<open>revisions of approved commands\<close>
  le_held :: "string \<Rightarrow> string"                                     \<comment> \<open>transfer that holds a watch\<close>
  le_event_id :: "string \<Rightarrow> string \<Rightarrow> string \<Rightarrow> int \<Rightarrow> time \<Rightarrow> string"   \<comment> \<open>digest of a lifecycle event\<close>
  le_lifetime :: "string \<Rightarrow> string"                                 \<comment> \<open>fresh lifetime for a watch\<close>
  le_order :: "(string \<times> cstate) list \<Rightarrow> (string \<times> cstate) list"    \<comment> \<open>traversal of a map\<close>
  le_instance :: string
  le_manifest_hash :: "string \<Rightarrow> string"
  le_closing :: bool

abbreviation le_compile :: "life_env \<Rightarrow> compile_env" where "le_compile env \<equiv> av_compile (le_accept env)"
abbreviation le_runtime :: "life_env \<Rightarrow> runtime_env" where "le_runtime env \<equiv> av_runtime (le_accept env)"
abbreviation le_limits :: "life_env \<Rightarrow> run_limits" where "le_limits env \<equiv> av_limits (le_accept env)"

definition checkHandoffHold :: "life_env \<Rightarrow> string \<Rightarrow> unit result" where
  "checkHandoffHold env ident =
     (if le_held env ident = '''' then Inr ()
      else Inl (Err (''watch is held by transfer '' @ le_held env ident @ ''; reconcile the transfer before editing or resuming'')))"

section \<open>Authorization of a bundle\<close>

definition endpoint_of :: "source \<Rightarrow> source" where
  "endpoint_of s = s\<lparr>src_every := '''', src_timeout := '''', src_fields := [], src_observed_at_field := ''''\<rparr>"

definition destination_allowed :: "compile_env \<Rightarrow> principal \<Rightarrow> db \<Rightarrow> compiled_destination \<Rightarrow> bool" where
  "destination_allowed cenv p d c \<longleftrightarrow>
     (case find_destination cenv (db_outbox d) (md_id (dest_metadata (cds_definition c))) '''' of
        Inr old \<Rightarrow> cds_revision old = cds_revision c | Inl _ \<Rightarrow> False) \<or> Allows p ''destinations''"

definition watch_allowed :: "life_env \<Rightarrow> principal \<Rightarrow> db \<Rightarrow> compiled \<Rightarrow> bool" where
  "watch_allowed env p d w \<longleftrightarrow>
     (let s = s_source (d_spec (cd_definition w)) in
      (src_type s = ''command'' \<longrightarrow> cd_revision w \<in> set (le_approved env)) \<and>
      src_type s \<in> {''command'', ''http'', ''push''} \<and>
      (\<not> (Allows p ''credentials'' \<or> (pp_kind p = ''integration'' \<and> (pp_role p = ''administrator'' \<or> pp_role p = ''owner''))) \<and>
       (src_url_ref s \<noteq> None \<or> src_headers s \<noteq> [] \<or> src_env s \<noteq> []) \<longrightarrow>
       (case Watch d (md_id (d_metadata (cd_definition w))) of
          Inl _ \<Rightarrow> False
        | Inr old \<Rightarrow> endpoint_of s = endpoint_of (s_source (d_spec (cd_definition (wr_plan old)))))))"

definition authorizeBundle :: "life_env \<Rightarrow> plan_bundle \<Rightarrow> db \<Rightarrow> unit result" where
  "authorizeBundle env b d =
     (case le_principal env of
        None \<Rightarrow> Inr ()
      | Some p \<Rightarrow>
          if pp_operator p then Inr ()
          else if list_all (destination_allowed (le_compile env) p d) (b_destinations b) \<and> list_all (watch_allowed env p d) (b_watches b)
          then Inr () else Inl ErrDenied)"

section \<open>Lifecycle events and the first timer\<close>

definition lifecycleEvent :: "life_env \<Rightarrow> watch_record \<Rightarrow> string \<Rightarrow> string \<Rightarrow> time \<Rightarrow> db \<Rightarrow> db result" where
  "lifecycleEvent env r kind reason now d =
     (let ident = md_id (d_metadata (cd_definition (wr_plan r))); rv = cd_revision (wr_plan r) in
      bindE (AppendEvent \<lparr>e_id = le_event_id env ident rv kind (wr_generation r) now, e_sequence = 0, e_watch_id = ident, e_revision = rv,
        e_entity = '''', e_type = kind, e_at = now, e_message = reason, e_fields = [], e_evidence = []\<rparr> d) (\<lambda>(d1, _). Inr d1))"

text \<open>A watch for missing data that is not grouped waits from the start.\<close>

definition armInitial :: "life_env \<Rightarrow> watch_record \<Rightarrow> time \<Rightarrow> db \<Rightarrow> db result" where
  "armInitial env r now d =
     (let sp = d_spec (cd_definition (wr_plan r)); ident = md_id (d_metadata (cd_definition (wr_plan r))) in
      if wr_status r \<noteq> ''running'' \<or> c_missing_for (s_condition sp) = '''' \<or> s_group_by sp \<noteq> [] then Inr d
      else
        let key = (case EntityKey [] [] of Inr k \<Rightarrow> k | Inl _ \<Rightarrow> '''');
            due = now + duration_or_zero (c_missing_for (s_condition sp));
            st = zero_state\<lparr>entity := key, last_at := now, missing_at := due\<rparr>
        in bindE (saveEntityData ident key (cd_revision (wr_plan r)) st now d) (
           SaveTimer (av_json_valid (le_accept env)) \<lparr>tm_watch_id = ident, tm_entity = key, tm_kind = ''missing'',
             tm_generation = wr_generation r, tm_due = due, tm_body = ''''\<rparr>))"

section \<open>Rearming entities\<close>

text \<open>A resumed watch and a clock that jumped feed every entity one observation of their own.\<close>

definition lifecycle_observation :: "string \<Rightarrow> string \<Rightarrow> string \<Rightarrow> time \<Rightarrow> observation" where
  "lifecycle_observation input health detail now =
     \<lparr>o_entity = '''', o_deadline = None, o_sequence = 0, o_input_id = input, o_accepted_at = now, o_observed_at = None,
      o_fields = [], o_health = health, o_detail = detail\<rparr>"

definition rearm_timer :: "string \<Rightarrow> watch_record \<Rightarrow> string \<Rightarrow> time \<Rightarrow> timer" where
  "rearm_timer ident r key deadline = \<lparr>tm_watch_id = ident, tm_entity = key, tm_kind = ''missing'', tm_generation = wr_generation r,
     tm_due = deadline, tm_body = ''''\<rparr>"

text \<open>On resume the deadline starts anew and its timer is saved before the state.\<close>

definition resume_entity :: "life_env \<Rightarrow> watch_record \<Rightarrow> evaluator \<Rightarrow> time \<Rightarrow> string \<times> cstate \<Rightarrow> db \<Rightarrow> db result" where
  "resume_entity env r ev now ks d =
     (case ks of (key, old) \<Rightarrow>
        let ident = md_id (d_metadata (cd_definition (wr_plan r))); rv = cd_revision (wr_plan r);
            missing = c_missing_for (s_condition (d_spec (cd_definition (wr_plan r))));
            ob = lifecycle_observation (''resume:'' @ show_int (wr_generation r) @ '':'' @ key) ''gap'' ''resumed'' now
        in bindE (AppendObservation ident rv (wr_generation r) ob d) (\<lambda>(d1, s).
           let o1 = ob\<lparr>o_sequence := s\<rparr> in
           bindE (Evaluate (le_runtime env) ev old o1 now) (\<lambda>res.
           let st = (if missing \<noteq> '''' then (tr_state res)\<lparr>missing_at := now + duration_or_zero missing\<rparr> else tr_state res) in
           bindE (if missing \<noteq> '''' then SaveTimer (av_json_valid (le_accept env)) (rearm_timer ident r key (missing_at st)) d1 else Inr d1) (\<lambda>d2.
           bindE (saveEntityData ident key rv st now d2)
             (append_all (le_accept env) r (tr_events res) now \<lparr>cp_prior = old, cp_input = o1, cp_source_recovered = False\<rparr>)))))"

text \<open>After a clock jump the evaluator sets the deadline itself and the state is saved first.\<close>

definition shift_entity :: "life_env \<Rightarrow> watch_record \<Rightarrow> evaluator \<Rightarrow> time \<Rightarrow> string \<times> cstate \<Rightarrow> db \<Rightarrow> db result" where
  "shift_entity env r ev now ks d =
     (case ks of (key, prior) \<Rightarrow>
        let ident = md_id (d_metadata (cd_definition (wr_plan r))); rv = cd_revision (wr_plan r);
            missing = c_missing_for (s_condition (d_spec (cd_definition (wr_plan r))));
            ob = lifecycle_observation (''clock:'' @ show_int (wr_generation r) @ '':'' @ key) ''clock'' ''clock_discontinuity'' now
        in bindE (AppendObservation ident rv (wr_generation r) ob d) (\<lambda>(d1, s).
           let o1 = ob\<lparr>o_sequence := s\<rparr> in
           bindE (Evaluate (le_runtime env) ev prior o1 now) (\<lambda>res.
           bindE (saveEntityData ident key rv (tr_state res) now d1) (\<lambda>d2.
           bindE (if missing \<noteq> '''' then SaveTimer (av_json_valid (le_accept env)) (rearm_timer ident r key (missing_at (tr_state res))) d2 else Inr d2)
             (append_all (le_accept env) r (tr_events res) now \<lparr>cp_prior = prior, cp_input = o1, cp_source_recovered = False\<rparr>)))))"

fun each_entity :: "(string \<times> cstate \<Rightarrow> db \<Rightarrow> db result) \<Rightarrow> (string \<times> cstate) list \<Rightarrow> db \<Rightarrow> db result" where
  "each_entity f [] d = Inr d"
| "each_entity f (ks # rest) d = bindE (f ks d) (each_entity f rest)"

section \<open>Pause, resume, delete and purge\<close>

text \<open>A purge removes everything of a deleted watch; its identifier is never used again. Evidence,
  checkpoints, pins and the last push go with the rows they refer to.\<close>

definition purged_outbox :: "string \<Rightarrow> outbox_tables \<Rightarrow> outbox_tables" where
  "purged_outbox ident t =
     t\<lparr>ot_attempts := filter (\<lambda>a. \<not> list_ex (\<lambda>r. ob_id r = at_outbox_id a \<and> ob_watch_id r = ident) (ot_rows t)) (ot_attempts t),
       ot_rows := filter (\<lambda>r. ob_watch_id r \<noteq> ident) (ot_rows t), ot_streams := filter (\<lambda>s. fst (row_key s) \<noteq> ident) (ot_streams t)\<rparr>"

definition purged_rows :: "string \<Rightarrow> db \<Rightarrow> db" where
  "purged_rows ident d =
     (let gone = (\<lambda>e. list_ex (\<lambda>(_, x). e_id x = e \<and> e_watch_id x = ident) (db_events d)) in
      d\<lparr>db_purged := ident # db_purged d,
        db_outbox := purged_outbox ident (db_outbox d),
        db_events := filter (\<lambda>(_, x). e_watch_id x \<noteq> ident) (db_events d),
        db_evidence := filter (\<lambda>(e, _). \<not> gone e) (db_evidence d),
        db_replays := filter (\<lambda>(e, _). \<not> gone e) (db_replays d),
        db_observations := filter (\<lambda>(_, r). oo_watch_id r \<noteq> ident) (db_observations d),
        db_entities := filter (\<lambda>((w, _), _). w \<noteq> ident) (db_entities d),
        db_pins := filter (\<lambda>(((w, _), _), _). w \<noteq> ident) (db_pins d),
        db_timers := filter (\<lambda>((w, _), _). w \<noteq> ident) (db_timers d),
        db_receipts := filter (\<lambda>((w, _), _). w \<noteq> ident) (db_receipts d),
        db_push := (db_push d)\<lparr>pt_last := filter (\<lambda>(w, _, _). w \<noteq> ident) (pt_last (db_push d))\<rparr>,
        db_watches := tbl_del ident (db_watches d),
        db_revisions := filter (\<lambda>((w, _), _). w \<noteq> ident) (db_revisions d)\<rparr>)"

text \<open>The order of the deletes makes a reference fail only if a delivery or the evidence of another watch
  points at a row that is going.\<close>

definition purge_allowed :: "string \<Rightarrow> db \<Rightarrow> bool" where
  "purge_allowed ident d \<longleftrightarrow>
     ident \<notin> set (db_purged d) \<and>
     list_all (\<lambda>r. ob_watch_id r = ident \<or> \<not> list_ex (\<lambda>(_, x). e_id x = ob_event_id r \<and> e_watch_id x = ident) (db_events d)) (ot_rows (db_outbox d)) \<and>
     list_all (\<lambda>(e, s). list_ex (\<lambda>(_, x). e_id x = e \<and> e_watch_id x = ident) (db_events d) \<or>
       \<not> list_ex (\<lambda>(n, r). n = s \<and> oo_watch_id r = ident) (db_observations d)) (db_evidence d)"

definition PurgeWatch :: "life_env \<Rightarrow> string \<Rightarrow> db \<Rightarrow> db result" where
  "PurgeWatch env ident d =
     bindE (Watch d ident) (\<lambda>r.
     if wr_status r \<noteq> ''deleted'' then Inl (Err ''only deleted watches can be permanently deleted'')
     else if le_held env ident \<noteq> '''' then Inl (Err ''watch has an active transfer'')
     else if \<not> purge_allowed ident d then Inl (Err ''constraint failed'')
     else Inr (purged_rows ident d))"

record lifecycle_request =
  lq_expected_generation :: "int option"
  lq_action :: string
  lq_expected :: string
  lq_cancel_pending :: bool

definition lifecycle_status :: "string \<Rightarrow> string result" where
  "lifecycle_status action =
     (if action = ''pause'' then Inr ''paused'' else if action = ''resume'' then Inr ''running''
      else if action = ''delete'' then Inr ''deleted'' else Inl (Err ''unknown lifecycle action''))"

text \<open>What resuming does to the entities.\<close>

definition rearm :: "life_env \<Rightarrow> watch_record \<Rightarrow> (evaluator \<Rightarrow> string \<times> cstate \<Rightarrow> db \<Rightarrow> db result) \<Rightarrow> time \<Rightarrow> db \<Rightarrow> db result" where
  "rearm env r f now d =
     (let ident = md_id (d_metadata (cd_definition (wr_plan r))); states = Entities d ident in
      bindE (New (le_runtime env) (cd_definition (wr_plan r)) (cd_revision (wr_plan r))) (\<lambda>ev.
      bindE (each_entity (f ev) (le_order env states) d) (\<lambda>d1.
      if states = [] then armInitial env r now d1 else Inr d1)))"

text \<open>The whole operation. Acquisitions of older generations are cancelled in memory afterwards.\<close>

definition lifecycle_change :: "life_env \<Rightarrow> string \<Rightarrow> lifecycle_request \<Rightarrow> time \<Rightarrow> watch_record \<Rightarrow> string \<Rightarrow> db \<Rightarrow> (db \<times> watch_record) result" where
  "lifecycle_change env ident q now old status d =
     (let r = old\<lparr>wr_status := status, wr_generation := wr_generation old + 1, wr_next_at := now, wr_last_error := ''''\<rparr> in
      bindE (SaveWatch (le_compile env) r (le_lifetime env ident) now d) (\<lambda>d1.
      bindE (if status = ''running'' then rearm env r (\<lambda>ev. resume_entity env r ev now) now (DeleteTimers ident d1) else Inr (DeleteTimers ident d1)) (\<lambda>d2.
      bindE (lifecycleEvent env r (lq_action q) (lq_action q) now d2) (\<lambda>d3. Inr (d3, r)))))"

definition lifecycle :: "life_env \<Rightarrow> string \<Rightarrow> lifecycle_request \<Rightarrow> time \<Rightarrow> db \<Rightarrow> (db \<times> watch_record) result" where
  "lifecycle env ident q now d =
     bindE (Require (le_principal env) ''manage'') (\<lambda>_.
     if le_closing env then Inl ErrClosing
     else
       bindE (checkHandoffHold env ident) (\<lambda>_.
       bindE (Watch d ident) (\<lambda>r.
       bindE (authorizeBundle env \<lparr>b_watches = [wr_plan r], b_destinations = []\<rparr> d) (\<lambda>_.
       if lq_expected q \<noteq> '''' \<and> lq_expected q \<noteq> cd_revision (wr_plan r) then Inl ErrConflict
       else if (case lq_expected_generation q of Some g \<Rightarrow> g \<noteq> wr_generation r | None \<Rightarrow> False) then Inl ErrConflict
       else if lq_cancel_pending q \<and> lq_action q \<noteq> ''delete'' then Inl (Err ''cancelPending requires delete'')
       else if lq_action q = ''purge'' then bindE (PurgeWatch env ident d) (\<lambda>d1. Inr (d1, r))
       else
         bindE (lifecycle_status (lq_action q)) (\<lambda>status.
         if wr_status r = ''deleted'' \<and> status \<noteq> ''deleted'' then Inl (Err ''deleted watches cannot resume; use a new watch ID'')
         else
           let d1 = (if lq_cancel_pending q then d\<lparr>db_outbox := CancelDeliveries ident now (db_outbox d)\<rparr> else d) in
           if wr_status r = status then Inr (d1, r)
           else lifecycle_change env ident q now r status d1)))))"

section \<open>Timers and the clock\<close>

text \<open>Every timer that is due becomes a batch of its own; a stale one is skipped.\<close>

definition timer_batch :: "timer \<Rightarrow> batch" where
  "timer_batch tm = \<lparr>ba_expected_cursor = None, ba_fresh_until = zero_time, ba_entity = tm_entity tm, ba_deadline = tm_due tm,
     ba_observations = [lifecycle_observation '''' ''timer'' '''' zero_time], ba_cursor = '''', ba_retry_at = zero_time\<rparr>"

definition timer_input :: "runtime_env \<Rightarrow> timer \<Rightarrow> string" where
  "timer_input renv tm = ''timer:'' @ show_int (tm_generation tm) @ '':'' @ Revision renv (json_string (tm_entity tm)) @ '':'' @ show_int (tm_due tm)"

fun run_each_timer :: "life_env \<Rightarrow> time \<Rightarrow> timer list \<Rightarrow> db \<Rightarrow> db \<times> unit result" where
  "run_each_timer env now [] d = (d, Inr ())"
| "run_each_timer env now (tm # tms) d =
     (case Watch d (tm_watch_id tm) of
        Inl e \<Rightarrow> (d, Inl e)
      | Inr r \<Rightarrow>
          (case acceptPush (le_accept env) r (timer_batch tm) (timer_input (le_runtime env) tm) None now now d of
             (d1, Inl e) \<Rightarrow> if e = ErrStale then run_each_timer env now tms d1 else (d1, Inl e)
           | (d1, Inr _) \<Rightarrow> run_each_timer env now tms d1))"

definition RunTimers :: "life_env \<Rightarrow> time \<Rightarrow> db \<Rightarrow> db \<times> unit result" where
  "RunTimers env now d = (case DueTimers d now 100 of Inl e \<Rightarrow> (d, Inl e) | Inr tms \<Rightarrow> run_each_timer env now tms d)"

definition clockDiscontinuity :: "time \<Rightarrow> time \<Rightarrow> duration \<Rightarrow> bool" where
  "clockDiscontinuity previous current elapsed =
     (let difference = time_sub current previous - elapsed in difference > 2 * second \<or> difference < -2 * second)"

fun shift_watches :: "life_env \<Rightarrow> time \<Rightarrow> watch_record list \<Rightarrow> db \<Rightarrow> db result" where
  "shift_watches env now [] d = Inr d"
| "shift_watches env now (r # rs) d =
     (if wr_status r \<noteq> ''running'' then shift_watches env now rs d
      else
        let ident = md_id (d_metadata (cd_definition (wr_plan r)));
            r1 = r\<lparr>wr_generation := wr_generation r + 1, wr_next_at := now\<rparr> in
        bindE (SaveWatch (le_compile env) r1 (le_lifetime env ident) now d) (\<lambda>d1.
        bindE (rearm env r1 (\<lambda>ev. shift_entity env r1 ev now) now (DeleteTimers ident d1)) (\<lambda>d2.
        bindE (lifecycleEvent env r1 ''clock_discontinuity'' ''wall clock diverged from monotonic time; temporal evidence rearmed'' now d2)
          (shift_watches env now rs))))"

definition clockShift :: "life_env \<Rightarrow> time \<Rightarrow> db \<Rightarrow> db result" where
  "clockShift env now d = shift_watches env now (Watches d) d"

section \<open>Review of an apply\<close>

record watch_precondition =
  wp_revision :: string
  wp_generation :: int
  wp_status :: string

text \<open>Maps are kept in key order, so that equality of lists is equality of maps.\<close>

record apply_preconditions =
  pc_instance :: string
  pc_manifest_hash :: string
  pc_watches :: "(string \<times> watch_precondition) list"
  pc_destinations :: "(string \<times> string) list"

definition precondition_of :: "db \<Rightarrow> string \<Rightarrow> watch_precondition" where
  "precondition_of d ident =
     (case Watch d ident of
        Inr old \<Rightarrow> \<lparr>wp_revision = cd_revision (wr_plan old), wp_generation = wr_generation old, wp_status = wr_status old\<rparr>
      | Inl _ \<Rightarrow> \<lparr>wp_revision = '''', wp_generation = 0, wp_status = ''''\<rparr>)"

definition destination_revision_of :: "compile_env \<Rightarrow> db \<Rightarrow> string \<Rightarrow> string" where
  "destination_revision_of cenv d ident =
     (case find_destination cenv (db_outbox d) ident '''' of Inr old \<Rightarrow> cds_revision old | Inl _ \<Rightarrow> '''')"

definition captureReview :: "life_env \<Rightarrow> plan_bundle \<Rightarrow> string \<Rightarrow> db \<Rightarrow> apply_preconditions" where
  "captureReview env b manifest d =
     \<lparr>pc_instance = le_instance env, pc_manifest_hash = le_manifest_hash env manifest,
      pc_watches = fold (\<lambda>w. let ident = md_id (d_metadata (cd_definition w)) in tbl_put ident (precondition_of d ident)) (b_watches b) [],
      pc_destinations = fold (\<lambda>ident. tbl_put ident (destination_revision_of (le_compile env) d ident))
        (concat (map (\<lambda>w. map t_ref (s_destinations (d_spec (cd_definition w)))) (b_watches b)) @
         map (\<lambda>c. md_id (dest_metadata (cds_definition c))) (b_destinations b)) []\<rparr>"

section \<open>Apply\<close>

text \<open>A change as it is reported, without the YAML texts of the definition before and after.\<close>

record change =
  ch_kind :: string
  ch_id :: string
  ch_revision :: string
  ch_previous :: string
  ch_state :: string
  ch_permissions :: "string list"

record apply_request =
  ar_start_paused :: bool
  ar_reset_paused :: bool
  ar_review :: "apply_preconditions option"
  ar_manifest :: string
  ar_dry_run :: bool
  ar_expected :: "(string \<times> string) list"

definition live_watches :: "db \<Rightarrow> int" where
  "live_watches d = int (length (filter (\<lambda>(_, w). wt_status w \<noteq> ''deleted'') (db_watches d)))"

definition destinations_within :: "life_env \<Rightarrow> plan_bundle \<Rightarrow> db \<Rightarrow> bool" where
  "destinations_within env b d \<longleftrightarrow>
     rl_max_destinations (le_limits env) > 0 \<longrightarrow>
     int (length (remdups (map fst (ot_destinations (db_outbox d)) @ map (\<lambda>c. md_id (dest_metadata (cds_definition c))) (b_destinations b))))
       \<le> rl_max_destinations (le_limits env)"

definition destination_change :: "life_env \<Rightarrow> db \<Rightarrow> compiled_destination \<Rightarrow> change" where
  "destination_change env d c =
     (let ident = md_id (dest_metadata (cds_definition c)); old = destination_revision_of (le_compile env) d ident in
      \<lparr>ch_kind = ''Destination'', ch_id = ident, ch_revision = cds_revision c, ch_previous = old,
       ch_state = (if old = '''' then ''created'' else if old = cds_revision c then ''preserved'' else ''updated''), ch_permissions = []\<rparr>)"

fun apply_destinations :: "life_env \<Rightarrow> bool \<Rightarrow> compiled_destination list \<Rightarrow> db \<Rightarrow> (db \<times> change list) result" where
  "apply_destinations env dry [] d = Inr (d, [])"
| "apply_destinations env dry (c # cs) d =
     bindE (if dry then Inr d else bindE (SaveDestination (le_compile env) c (db_outbox d)) (\<lambda>ot. Inr (d\<lparr>db_outbox := ot\<rparr>))) (\<lambda>d1.
     bindE (apply_destinations env dry cs d1) (\<lambda>(d2, chs). Inr (d2, destination_change env d c # chs)))"

text \<open>The record to store, what the change is called and whether the state is reset; and how many
  watches there are then.\<close>

definition reset_record :: "watch_record \<Rightarrow> time \<Rightarrow> watch_record" where
  "reset_record r now = r\<lparr>wr_cursor := '''', wr_last_input_at := zero_time, wr_last_error := '''', wr_next_at := now\<rparr>"

definition plan_change :: "life_env \<Rightarrow> apply_request \<Rightarrow> compiled \<Rightarrow> time \<Rightarrow> int \<Rightarrow> watch_record option \<Rightarrow>
    (watch_record \<times> string \<times> bool \<times> int) result" where
  "plan_change env q p now count old =
     (let fresh = \<lparr>wr_lifetime = '''', wr_plan = p, wr_generation = 1, wr_status = (if ar_start_paused q then ''paused'' else ''running''),
        wr_next_at = now, wr_cursor = '''', wr_last_input_at = zero_time, wr_last_error = ''''\<rparr> in
      if ar_start_paused q \<and> old \<noteq> None \<and> \<not> ar_reset_paused q then Inl ErrConflict
      else bindE (case old of
           None \<Rightarrow> if count + 1 > rl_max_watches (le_limits env) then Inl ErrQuota else Inr (fresh, ''created'', False, count + 1)
         | Some o' \<Rightarrow>
             let r = o'\<lparr>wr_plan := p\<rparr> in
             if wr_status o' = ''deleted''
             then Inl (Err (''watch '' @ md_id (d_metadata (cd_definition p)) @ '' is deleted; use a new watch ID''))
             else if cd_revision (wr_plan o') = cd_revision p then Inr (r, ''preserved'', False, count)
             else
               let r1 = r\<lparr>wr_generation := wr_generation o' + 1\<rparr> in
               if cd_fingerprint (wr_plan o') \<noteq> cd_fingerprint p then Inr (reset_record r1 now, ''reset'', True, count)
               else Inr (r1, ''preserved'', False, count))
         (\<lambda>(r, state, reset, n).
            if ar_reset_paused q
            then Inr ((reset_record r now)\<lparr>wr_generation := wr_generation r + 1, wr_status := ''paused''\<rparr>, ''reset'', True, n)
            else Inr (r, state, reset, n)))"

text \<open>A watch whose definition changed keeps its entities when it is compatible, and starts over otherwise.\<close>

definition store_change :: "life_env \<Rightarrow> watch_record \<Rightarrow> string \<Rightarrow> bool \<Rightarrow> bool \<Rightarrow> time \<Rightarrow> db \<Rightarrow> db result" where
  "store_change env r state reset existed now d =
     (let ident = md_id (d_metadata (cd_definition (wr_plan r))) in
      bindE (SaveWatch (le_compile env) r (le_lifetime env ident) now d) (\<lambda>d1.
      bindE (if reset
             then lifecycleEvent env r ''state_reset'' ''source, condition, grouping, policy, or limits changed'' now (ResetState ident d1)
             else Inr d1) (\<lambda>d2.
      bindE (if existed \<and> \<not> reset then Inr (RevisionState ident (cd_revision (wr_plan r)) (wr_generation r) d2) else armInitial env r now d2)
        (lifecycleEvent env r ''applied'' state now))))"

definition apply_watch :: "life_env \<Rightarrow> apply_request \<Rightarrow> plan_bundle \<Rightarrow> time \<Rightarrow> compiled \<Rightarrow> int \<Rightarrow> db \<Rightarrow> (db \<times> change \<times> int) result" where
  "apply_watch env q b now p count d =
     (let ident = md_id (d_metadata (cd_definition p)) in
      case find (\<lambda>t. t_ref t \<notin> set (map (\<lambda>c. md_id (dest_metadata (cds_definition c))) (b_destinations b)) \<and>
          (case find_destination (le_compile env) (db_outbox d) (t_ref t) '''' of Inl _ \<Rightarrow> True | Inr _ \<Rightarrow> False))
        (s_destinations (d_spec (cd_definition p))) of
        Some t \<Rightarrow> Inl (Err (''destination '' @ t_ref t @ '' does not exist''))
      | None \<Rightarrow>
          bindE (if ar_dry_run q then Inr () else checkHandoffHold env ident) (\<lambda>_.
          let old = (case Watch d ident of Inr r \<Rightarrow> Some r | Inl _ \<Rightarrow> None);
              previous = (case old of Some r \<Rightarrow> cd_revision (wr_plan r) | None \<Rightarrow> '''') in
          if (case map_of (ar_expected q) ident of Some e \<Rightarrow> e \<noteq> previous | None \<Rightarrow> False) then Inl ErrConflict
          else bindE (plan_change env q p now count old) (\<lambda>(r, state, reset, n).
            let ch = \<lparr>ch_kind = ''Watch'', ch_id = ident, ch_revision = cd_revision p, ch_previous = previous, ch_state = state,
                  ch_permissions = cd_permissions p\<rparr> in
            if ar_dry_run q \<or> (previous = cd_revision p \<and> \<not> ar_reset_paused q) then Inr (d, ch, n)
            else bindE (store_change env r state reset (old \<noteq> None) now d) (\<lambda>d1. Inr (d1, ch, n)))))"

fun apply_watches :: "life_env \<Rightarrow> apply_request \<Rightarrow> plan_bundle \<Rightarrow> time \<Rightarrow> compiled list \<Rightarrow> int \<Rightarrow> db \<Rightarrow> (db \<times> change list) result" where
  "apply_watches env q b now [] count d = Inr (d, [])"
| "apply_watches env q b now (p # ps) count d =
     bindE (apply_watch env q b now p count d) (\<lambda>(d1, ch, n).
     bindE (apply_watches env q b now ps n d1) (\<lambda>(d2, chs). Inr (d2, ch # chs)))"

text \<open>\<open>review_fits\<close> is the size check of the result document.\<close>

definition apply_tx :: "life_env \<Rightarrow> (change list \<Rightarrow> change list \<Rightarrow> bool) \<Rightarrow> apply_request \<Rightarrow> plan_bundle \<Rightarrow> time \<Rightarrow> db \<Rightarrow>
    (db \<times> change list \<times> change list) result" where
  "apply_tx env review_fits q b now d =
     bindE (authorizeBundle env b d) (\<lambda>_.
     if le_closing env then Inl ErrClosing
     else if (case ar_review q of Some r \<Rightarrow> r \<noteq> captureReview env b (ar_manifest q) d | None \<Rightarrow> False) then Inl ErrConflict
     else if \<not> destinations_within env b d then Inl ErrQuota
     else
       bindE (apply_destinations env (ar_dry_run q) (b_destinations b) d) (\<lambda>(d1, dchs).
       bindE (apply_watches env q b now (b_watches b) (live_watches d) d1) (\<lambda>(d2, chs).
       if \<not> ar_dry_run q \<and> av_bytes (le_accept env) d2 > rl_max_bytes (le_limits env) then Inl ErrQuota
       else if \<not> review_fits dchs chs then Inl (Err ''review exceeds 8 MiB; apply a smaller bundle'')
       else Inr (d2, dchs, chs))))"

fun all_evaluable :: "runtime_env \<Rightarrow> compiled list \<Rightarrow> unit result" where
  "all_evaluable renv [] = Inr ()"
| "all_evaluable renv (p # ps) = bindE (New renv (cd_definition p) (cd_revision p)) (\<lambda>_. all_evaluable renv ps)"

definition apply_manifest :: "life_env \<Rightarrow> yaml_env \<Rightarrow> int \<Rightarrow> (plan_bundle \<Rightarrow> unit result) \<Rightarrow> (change list \<Rightarrow> change list \<Rightarrow> bool) \<Rightarrow>
    apply_request \<Rightarrow> time \<Rightarrow> db \<Rightarrow> (db \<times> change list \<times> change list) result" where
  "apply_manifest env y max_manifest validate review_fits q now d =
     (if int (length (ar_manifest q)) > max_manifest then Inl (Err (''manifest exceeds '' @ show_int max_manifest @ '' bytes''))
      else
        bindE (Require (le_principal env) (if ar_dry_run q then ''preview'' else ''manage'')) (\<lambda>_.
        bindE (Parse (le_compile env) y (ar_manifest q)) (\<lambda>b.
        bindE (validate b) (\<lambda>_.
        bindE (all_evaluable (le_runtime env) (b_watches b)) (\<lambda>_.
        apply_tx env review_fits q b now d)))))"

end
