(* ===== verification/Retention.thy ===== *)
theory Retention
  imports Watch_Lifecycle
begin

text \<open>
  Maintenance: \<open>store/retention_batch.go\<close>, \<open>retention_sweep.go\<close> with its statements,
  \<open>maintenance_page.go\<close>, and \<open>App.Maintain\<close> (\<open>watchrun/maintenance.go\<close>). Every batch is a transaction
  over the database and the metadata of the sweep. Cursors hold typed keys instead of their JSON
  texts. Rows whose order a query leaves open are taken in table order.
\<close>

section \<open>State\<close>

record 'k retention_cursor =
  cu_pass :: string
  cu_at :: int
  cu_key :: 'k
  cu_done :: bool

text \<open>Beside the database: the transfers of watches (identifier and watch), when a destination
  revision was created, the sequence below which event cursors are expired, and the durable cursors.\<close>

record ret_state =
  rs_db :: db
  rs_handoffs :: "(string \<times> string) list"
  rs_created :: "string \<times> string \<Rightarrow> int"
  rs_floor :: "string \<Rightarrow> int"
  rs_events :: "int retention_cursor option"
  rs_observations :: "int retention_cursor option"
  rs_watches :: "string retention_cursor option"
  rs_revisions :: "(string \<times> string) retention_cursor option"
  rs_destinations :: "(string \<times> string) retention_cursor option"
  rs_logs :: "string \<Rightarrow> int retention_cursor option"
  rs_entity :: "string \<times> string"

abbreviation min_int64 :: int where "min_int64 \<equiv> - (2 ^ 63)"

definition fresh_cursor :: "'k \<Rightarrow> 'k retention_cursor" where
  "fresh_cursor z = \<lparr>cu_pass = '''', cu_at = min_int64, cu_key = z, cu_done = False\<rparr>"

section \<open>A page of one family\<close>

text \<open>Where a pass continues: at the saved key, or at the start when the last pass was completed.\<close>

definition resumed_cursor :: "'k \<Rightarrow> string \<Rightarrow> 'k retention_cursor option \<Rightarrow> 'k retention_cursor" where
  "resumed_cursor z pass saved =
     (let c = (case saved of None \<Rightarrow> fresh_cursor z | Some c \<Rightarrow> c) in
      (if cu_pass c \<noteq> pass \<and> cu_done c then fresh_cursor z else c)\<lparr>cu_pass := pass\<rparr>)"

definition beyond :: "('k :: linorder) retention_cursor \<Rightarrow> int \<Rightarrow> int \<times> 'k \<Rightarrow> bool" where
  "beyond c cutoff p \<longleftrightarrow> fst p < cutoff \<and> (cu_at c < fst p \<or> cu_at c = fst p \<and> cu_key c < snd p)"

text \<open>\<open>rows\<close> are the times and keys of the family and \<open>delete\<close> removes those of a page that nothing
  refers to. Pinned rows advance the cursor too.\<close>

definition scanRetentionFamily :: "('k :: linorder) \<Rightarrow> (int \<times> 'k) list \<Rightarrow> ('k list \<Rightarrow> 's \<Rightarrow> 's result) \<Rightarrow> string \<Rightarrow> int \<Rightarrow> nat \<Rightarrow>
    'k retention_cursor option \<Rightarrow> 's \<Rightarrow> ('s \<times> 'k retention_cursor option \<times> int) result" where
  "scanRetentionFamily z rows delete pass cutoff limit saved s =
     (if (case saved of None \<Rightarrow> False | Some c \<Rightarrow> cu_pass c = pass \<and> cu_done c) then Inr (s, saved, 0)
      else
        let c = resumed_cursor z pass saved;
            candidates = take limit (sort_key (\<lambda>p. p) (filter (beyond c cutoff) rows)) in
        if candidates = [] then Inr (s, Some (c\<lparr>cu_done := True\<rparr>), 0)
        else bindE (delete (map snd candidates) s) (\<lambda>s1.
          Inr (s1, Some \<lparr>cu_pass = pass, cu_at = fst (last candidates), cu_key = snd (last candidates), cu_done = False\<rparr>,
            int (length candidates))))"

section \<open>What may be deleted\<close>

text \<open>A deleted event raises the floors of its watch and of the whole feed.\<close>

abbreviation raise_floor :: "int \<times> event \<Rightarrow> (string \<Rightarrow> int) \<Rightarrow> string \<Rightarrow> int" where
  "raise_floor \<equiv> \<lambda>q f. f('''' := max (f '''') (fst q), e_watch_id (snd q) := max (f (e_watch_id (snd q))) (fst q))"

definition delete_events :: "(int \<times> event \<Rightarrow> bool) \<Rightarrow> ret_state \<Rightarrow> ret_state" where
  "delete_events gone s =
     (let d = rs_db s; ids = map (\<lambda>q. e_id (snd q)) (filter gone (db_events d)) in
      s\<lparr>rs_db := d\<lparr>db_events := filter (\<lambda>q. \<not> gone q) (db_events d),
          db_evidence := filter (\<lambda>(e, _). e \<notin> set ids) (db_evidence d), db_replays := filter (\<lambda>(e, _). e \<notin> set ids) (db_replays d)\<rparr>,
        rs_floor := fold raise_floor (filter gone (db_events d)) (rs_floor s)\<rparr>)"

definition event_free :: "db \<Rightarrow> event \<Rightarrow> bool" where
  "event_free d e \<longleftrightarrow> \<not> list_ex (\<lambda>r. ob_event_id r = e_id e) (ot_rows (db_outbox d)) \<and>
     \<not> list_ex (\<lambda>((_, p), _). p = (''event'', e_id e)) (db_pins d)"

definition sweep_events :: "int list \<Rightarrow> ret_state \<Rightarrow> ret_state result" where
  "sweep_events ks s = Inr (delete_events (\<lambda>(n, e). event_free (rs_db s) e \<and> n \<in> set ks) s)"

definition observation_free :: "db \<Rightarrow> int \<Rightarrow> bool" where
  "observation_free d n \<longleftrightarrow> \<not> list_ex (\<lambda>(_, m). m = n) (db_evidence d) \<and>
     \<not> list_ex (\<lambda>((_, p), _). p = (''input'', show_int n)) (db_pins d)"

definition sweep_observations :: "int list \<Rightarrow> ret_state \<Rightarrow> ret_state result" where
  "sweep_observations ks s =
     (let d = rs_db s in Inr (s\<lparr>rs_db := d\<lparr>db_observations := filter (\<lambda>(n, _). \<not> (observation_free d n \<and> n \<in> set ks)) (db_observations d)\<rparr>\<rparr>))"

text \<open>A deleted watch goes when nothing of it is left. Transfers are not among the rows that are
  looked at, but they refer to the watch.\<close>

definition watch_free :: "db \<Rightarrow> string \<Rightarrow> bool" where
  "watch_free d i \<longleftrightarrow> \<not> list_ex (\<lambda>((w, _), _). w = i) (db_entities d) \<and> \<not> list_ex (\<lambda>(_, r). oo_watch_id r = i) (db_observations d) \<and>
     \<not> list_ex (\<lambda>(_, e). e_watch_id e = i) (db_events d) \<and> \<not> list_ex (\<lambda>r. ob_watch_id r = i) (ot_rows (db_outbox d)) \<and>
     \<not> list_ex (\<lambda>((w, _), _). w = i) (db_timers d) \<and> \<not> list_ex (\<lambda>((w, _), _). w = i) (db_receipts d)"

definition removable_watch :: "db \<Rightarrow> string list \<Rightarrow> string \<times> watch_row \<Rightarrow> bool" where
  "removable_watch d ks q \<longleftrightarrow> wt_status (snd q) = ''deleted'' \<and> watch_free d (fst q) \<and> fst q \<in> set ks"

definition sweep_watches :: "string list \<Rightarrow> ret_state \<Rightarrow> ret_state result" where
  "sweep_watches ks s =
     (let d = rs_db s; gone = map fst (filter (removable_watch d ks) (db_watches d)) in
      if list_ex (\<lambda>(_, w). w \<in> set gone) (rs_handoffs s) then Inl foreign_key_error
      else Inr (s\<lparr>rs_db := d\<lparr>db_watches := filter (\<lambda>q. \<not> removable_watch d ks q) (db_watches d),
        db_push := (db_push d)\<lparr>pt_last := filter (\<lambda>(w, _, _). w \<notin> set gone) (pt_last (db_push d))\<rparr>\<rparr>\<rparr>))"

definition revision_free :: "db \<Rightarrow> string \<times> string \<Rightarrow> bool" where
  "revision_free d k \<longleftrightarrow> \<not> list_ex (\<lambda>(i, w). (i, wt_revision w) = k) (db_watches d) \<and>
     \<not> list_ex (\<lambda>((i, _), r). (i, er_revision r) = k) (db_entities d) \<and>
     \<not> list_ex (\<lambda>(_, r). (oo_watch_id r, oo_revision r) = k) (db_observations d) \<and>
     \<not> list_ex (\<lambda>(_, e). (e_watch_id e, e_revision e) = k) (db_events d)"

definition sweep_revisions :: "(string \<times> string) list \<Rightarrow> ret_state \<Rightarrow> ret_state result" where
  "sweep_revisions ks s =
     (let d = rs_db s in Inr (s\<lparr>rs_db := d\<lparr>db_revisions := filter (\<lambda>q. \<not> (revision_free d (fst q) \<and> fst q \<in> set ks)) (db_revisions d)\<rparr>\<rparr>))"

definition destination_free :: "outbox_tables \<Rightarrow> string \<times> string \<Rightarrow> bool" where
  "destination_free t k \<longleftrightarrow> \<not> list_ex (\<lambda>q. q = k) (ot_destinations t) \<and>
     \<not> list_ex (\<lambda>r. (ob_destination_id r, ob_destination_revision r) = k) (ot_rows t)"

definition sweep_destinations :: "(string \<times> string) list \<Rightarrow> ret_state \<Rightarrow> ret_state result" where
  "sweep_destinations ks s =
     (let d = rs_db s; t = db_outbox d in
      Inr (s\<lparr>rs_db := d\<lparr>db_outbox := t\<lparr>ot_destination_revisions :=
        filter (\<lambda>q. \<not> (destination_free t (fst q) \<and> fst q \<in> set ks)) (ot_destination_revisions t)\<rparr>\<rparr>\<rparr>))"

section \<open>A batch\<close>

definition batch_input_receipts :: "int \<Rightarrow> nat \<Rightarrow> db \<Rightarrow> db \<times> int" where
  "batch_input_receipts now limit d =
     (let ks = map fst (take limit (sort_key (\<lambda>q. rc_expires_at (snd q)) (filter (\<lambda>q. rc_expires_at (snd q) \<le> now) (db_receipts d)))) in
      (d\<lparr>db_receipts := filter (\<lambda>q. fst q \<notin> set ks) (db_receipts d)\<rparr>, int (length ks)))"

definition batch_push_receipts :: "int \<Rightarrow> nat \<Rightarrow> db \<Rightarrow> db \<times> int" where
  "batch_push_receipts now limit d =
     (let ks = map pw_key (take limit (sort_key pw_expires_at (filter (\<lambda>r. pw_expires_at r \<le> now) (pt_receipts (db_push d))))) in
      (d\<lparr>db_push := delete_receipts (\<lambda>r. pw_key r \<in> set ks) (db_push d)\<rparr>, int (length ks)))"

definition batch_backoff :: "int \<Rightarrow> nat \<Rightarrow> db \<Rightarrow> db \<times> int" where
  "batch_backoff now limit d =
     (let t = db_outbox d; ks = take limit (sort (map fst (filter (\<lambda>q. snd q \<le> now) (ot_backoff t)))) in
      (d\<lparr>db_outbox := t\<lparr>ot_backoff := filter (\<lambda>q. fst q \<notin> set ks) (ot_backoff t)\<rparr>\<rparr>, int (length ks)))"

definition batch_outbox :: "int \<Rightarrow> nat \<Rightarrow> db \<Rightarrow> db \<times> int" where
  "batch_outbox cutoff limit d =
     (let t = db_outbox d;
          ks = map ob_id (take limit (sort_key (\<lambda>r. (ob_created_at r, ob_id r)) (filter (\<lambda>r. ob_created_at r < cutoff \<and> \<not> live r) (ot_rows t)))) in
      (d\<lparr>db_outbox := t\<lparr>ot_rows := filter (\<lambda>r. ob_id r \<notin> set ks) (ot_rows t),
         ot_attempts := filter (\<lambda>a. at_outbox_id a \<notin> set ks) (ot_attempts t)\<rparr>\<rparr>, int (length ks)))"

definition batch_streams :: "nat \<Rightarrow> db \<Rightarrow> db \<times> int" where
  "batch_streams limit d =
     (let t = db_outbox d;
          ks = take limit (map row_key (filter (\<lambda>s. \<not> list_ex (\<lambda>r. stream_key r = row_key s) (ot_rows t)) (ot_streams t))) in
      (d\<lparr>db_outbox := t\<lparr>ot_streams := filter (\<lambda>s. row_key s \<notin> set ks) (ot_streams t)\<rparr>\<rparr>, int (length ks)))"

definition direct :: "(db \<Rightarrow> db \<times> int) \<Rightarrow> ret_state \<Rightarrow> ret_state \<times> int" where
  "direct f s = (case f (rs_db s) of (d, n) \<Rightarrow> (s\<lparr>rs_db := d\<rparr>, n))"

text \<open>The families in their order.\<close>

definition family_events :: "string \<Rightarrow> int \<Rightarrow> nat \<Rightarrow> ret_state \<Rightarrow> (ret_state \<times> int) result" where
  "family_events pass cutoff limit s =
     bindE (scanRetentionFamily 0 (map (\<lambda>(n, e). (timestamp (e_at e), n)) (db_events (rs_db s))) sweep_events pass cutoff limit (rs_events s) s)
       (\<lambda>(s1, c, n). Inr (s1\<lparr>rs_events := c\<rparr>, n))"

definition family_observations :: "string \<Rightarrow> int \<Rightarrow> nat \<Rightarrow> ret_state \<Rightarrow> (ret_state \<times> int) result" where
  "family_observations pass cutoff limit s =
     bindE (scanRetentionFamily 0 (map (\<lambda>(n, r). (oo_accepted_at r, n)) (db_observations (rs_db s))) sweep_observations pass cutoff limit
       (rs_observations s) s) (\<lambda>(s1, c, n). Inr (s1\<lparr>rs_observations := c\<rparr>, n))"

definition family_watches :: "string \<Rightarrow> int \<Rightarrow> nat \<Rightarrow> ret_state \<Rightarrow> (ret_state \<times> int) result" where
  "family_watches pass cutoff limit s =
     bindE (scanRetentionFamily '''' (map (\<lambda>(i, w). (wt_next_at w, i)) (filter (\<lambda>(_, w). wt_status w = ''deleted'') (db_watches (rs_db s))))
       sweep_watches pass cutoff limit (rs_watches s) s) (\<lambda>(s1, c, n). Inr (s1\<lparr>rs_watches := c\<rparr>, n))"

definition family_revisions :: "string \<Rightarrow> int \<Rightarrow> nat \<Rightarrow> ret_state \<Rightarrow> (ret_state \<times> int) result" where
  "family_revisions pass cutoff limit s =
     bindE (scanRetentionFamily ('''', '''') (map (\<lambda>(k, r). (rr_created_at r, k)) (db_revisions (rs_db s))) sweep_revisions pass cutoff limit
       (rs_revisions s) s) (\<lambda>(s1, c, n). Inr (s1\<lparr>rs_revisions := c\<rparr>, n))"

definition family_destinations :: "string \<Rightarrow> int \<Rightarrow> nat \<Rightarrow> ret_state \<Rightarrow> (ret_state \<times> int) result" where
  "family_destinations pass cutoff limit s =
     bindE (scanRetentionFamily ('''', '''') (map (\<lambda>(k, _). (rs_created s k, k)) (ot_destination_revisions (db_outbox (rs_db s))))
       sweep_destinations pass cutoff limit (rs_destinations s) s) (\<lambda>(s1, c, n). Inr (s1\<lparr>rs_destinations := c\<rparr>, n))"

definition families :: "string \<Rightarrow> int \<Rightarrow> nat \<Rightarrow> ret_state \<Rightarrow> (ret_state \<times> int) result" where
  "families pass cutoff limit s =
     bindE (family_events pass cutoff limit s) (\<lambda>(s1, n1).
     bindE (family_observations pass cutoff limit s1) (\<lambda>(s2, n2).
     bindE (family_watches pass cutoff limit s2) (\<lambda>(s3, n3).
     bindE (family_revisions pass cutoff limit s3) (\<lambda>(s4, n4).
     bindE (family_destinations pass cutoff limit s4) (\<lambda>(s5, n5).
     Inr (s5, n1 + n2 + n3 + n4 + n5))))))"

definition RetainBatch :: "time \<Rightarrow> time \<Rightarrow> int \<Rightarrow> string \<Rightarrow> ret_state \<Rightarrow> (ret_state \<times> int) result" where
  "RetainBatch cutoff now limit pass s =
     (if limit < 1 \<or> limit > 256 \<or> pass = '''' \<or> length pass > 128 then Inl (Err ''invalid retention batch limit'')
      else
        let l = nat limit;
            (s1, n1) = direct (batch_input_receipts (timestamp now) l) s;
            (s2, n2) = direct (batch_push_receipts (timestamp now) l) s1;
            (s3, n3) = direct (batch_backoff (timestamp now) l) s2;
            (s4, n4) = direct (batch_outbox (timestamp cutoff) l) s3
        in bindE (families pass (timestamp cutoff) l s4) (\<lambda>(s5, n5).
           let (s6, n6) = direct (batch_streams l) s5 in Inr (s6, n1 + n2 + n3 + n4 + n5 + n6)))"

text \<open>Log summaries have a retention of their own.\<close>

definition sweep_logs :: "int list \<Rightarrow> ret_state \<Rightarrow> ret_state result" where
  "sweep_logs ks s =
     (let d = rs_db s;
          logs = (\<lambda>r. list_ex (\<lambda>((i, rv), q). i = oo_watch_id r \<and> rv = oo_revision r \<and> src_type (s_source (d_spec (rr_definition q))) = ''logs'') (db_revisions d))
      in Inr (s\<lparr>rs_db := d\<lparr>db_observations := filter (\<lambda>(n, r). \<not> (logs r \<and> observation_free d n \<and> n \<in> set ks)) (db_observations d)\<rparr>\<rparr>))"

definition family_logs :: "string \<Rightarrow> string \<Rightarrow> int \<Rightarrow> nat \<Rightarrow> ret_state \<Rightarrow> (ret_state \<times> int) result" where
  "family_logs ident pass cutoff limit s =
     bindE (scanRetentionFamily 0 (map (\<lambda>(n, r). (oo_accepted_at r, n)) (filter (\<lambda>(_, r). oo_watch_id r = ident) (db_observations (rs_db s))))
       sweep_logs pass cutoff limit (rs_logs s ident) s) (\<lambda>(s1, c, n). Inr (s1\<lparr>rs_logs := (rs_logs s1)(ident := c)\<rparr>, n))"

definition RetainLogSummariesBatch :: "string \<Rightarrow> time \<Rightarrow> int \<Rightarrow> string \<Rightarrow> ret_state \<Rightarrow> (ret_state \<times> int) result" where
  "RetainLogSummariesBatch ident cutoff limit pass s =
     (if ident = '''' \<or> limit < 1 \<or> limit > 256 \<or> pass = '''' \<or> length pass > 128 then Inl (Err ''invalid log retention batch'')
      else family_logs ident pass (timestamp cutoff) (nat limit) s)"

section \<open>Entities\<close>

record maintenance_policy =
  mp_record :: watch_record
  mp_idle :: duration
  mp_interval :: duration
  mp_window :: duration

definition newMaintenancePolicy :: "watch_record \<Rightarrow> maintenance_policy result" where
  "newMaintenancePolicy r =
     (let sp = d_spec (cd_definition (wr_plan r));
          p = \<lparr>mp_record = r, mp_idle = duration_or_zero (l_idle_ttl (s_limits sp)), mp_interval = duration_or_zero (p_interval (s_policy sp)), mp_window = 0\<rparr> in
      if c_numeric (s_condition sp) = '''' then Inr p
      else bindE (ParseExpression (c_numeric (s_condition sp))) (\<lambda>e. Inr (p\<lparr>mp_window := foldl (\<lambda>m leaf. max m (w_window leaf)) 0 (Windows e)\<rparr>)))"

definition live_seen :: "time \<Rightarrow> cstate \<Rightarrow> cstate" where
  "live_seen now st = st\<lparr>seen := filter (\<lambda>(_, expiry). now < expiry) (seen st)\<rparr>"

text \<open>State expires with its watch, or when it holds nothing and is idle.\<close>

definition expires :: "maintenance_policy \<Rightarrow> bool \<Rightarrow> cstate \<Rightarrow> time \<Rightarrow> bool" where
  "expires p timer_kept st now \<longleftrightarrow>
     wr_status (mp_record p) = ''deleted'' \<or>
     baseline st = '''' \<and> seen st = [] \<and> \<not> is_open st \<and> \<not> source_unhealthy st \<and> \<not> timer_kept \<and> \<not> is_zero (last_at st) \<and>
     \<not> now < last_at st + mp_idle p \<and> \<not> now < last_fired st + mp_interval p \<and> \<not> now < last_at st + mp_window p"

definition trimmed :: "maintenance_policy \<Rightarrow> cstate \<Rightarrow> time \<Rightarrow> cstate" where
  "trimmed p st now =
     (let st1 = st\<lparr>samples := filter (\<lambda>s. sm_at s > now - mp_window p) (samples st)\<rparr> in
      if \<not> is_zero (overflow_until st1) \<and> \<not> now < overflow_until st1 then st1\<lparr>overflow_until := zero_time\<rparr> else st1)"

definition maintainEntity :: "(string \<Rightarrow> string \<Rightarrow> int \<Rightarrow> int \<Rightarrow> string) \<Rightarrow> maintenance_policy \<Rightarrow> string \<Rightarrow> cstate \<Rightarrow> time \<Rightarrow> db \<Rightarrow> db result" where
  "maintainEntity expired_id p key stored now d =
     (let r = mp_record p; ident = md_id (d_metadata (cd_definition (wr_plan r))); st = live_seen now stored;
          timer_kept = (case Timer d ident key ''missing'' of Inr _ \<Rightarrow> True | Inl _ \<Rightarrow> False) in
      if expires p timer_kept st now
      then bindE (AppendEvent \<lparr>e_id = expired_id ident key (last_sequence st) (wr_generation r), e_sequence = 0, e_watch_id = ident,
          e_revision = cd_revision (wr_plan r), e_entity = key, e_type = ''entity_expired'', e_at = now, e_message = ''idle state expired'',
          e_fields = [], e_evidence = []\<rparr> (DeleteEntity ident key d)) (\<lambda>(d1, _). Inr d1)
      else saveEntityData ident key (cd_revision (wr_plan r)) (trimmed p st now) (last_at st) d)"

definition NextMaintenanceEntities :: "int \<Rightarrow> ret_state \<Rightarrow> (ret_state \<times> (entity_key \<times> cstate) list \<times> bool) result" where
  "NextMaintenanceEntities limit s =
     (if limit < 1 \<or> limit > 256 then Inl (Err ''invalid entity maintenance page limit'')
      else
        let page = take (nat limit) (map (\<lambda>(k, r). (k, er_state r)) (filter (\<lambda>(k, _). rs_entity s < k) (db_entities (rs_db s)))) in
        Inr (s\<lparr>rs_entity := (if page = [] then ('''', '''') else fst (last page))\<rparr>, page, page = []))"

fun maintain_page :: "(string \<Rightarrow> string \<Rightarrow> int \<Rightarrow> int \<Rightarrow> string) \<Rightarrow> time \<Rightarrow> (entity_key \<times> cstate) list \<Rightarrow> db \<Rightarrow> db result" where
  "maintain_page expired_id now [] d = Inr d"
| "maintain_page expired_id now (((i, key), st) # page) d =
     bindE (Watch d i) (\<lambda>r.
     bindE (newMaintenancePolicy r) (\<lambda>p.
     bindE (maintainEntity expired_id p key st now d) (maintain_page expired_id now page)))"

definition maintain_batch :: "(string \<Rightarrow> string \<Rightarrow> int \<Rightarrow> int \<Rightarrow> string) \<Rightarrow> time \<Rightarrow> int \<Rightarrow> ret_state \<Rightarrow> (ret_state \<times> bool) result" where
  "maintain_batch expired_id now limit s =
     bindE (NextMaintenanceEntities limit s) (\<lambda>(s1, page, fin).
     bindE (maintain_page expired_id now page (rs_db s1)) (\<lambda>d. Inr (s1\<lparr>rs_db := d\<rparr>, fin)))"

section \<open>The loops of maintenance\<close>

text \<open>Each loop repeats its transaction until it reports the end; a failed transaction leaves the state
  of the one before. The result is the state together with the outcome.\<close>

partial_function (option) maintain_entities :: "(string \<Rightarrow> string \<Rightarrow> int \<Rightarrow> int \<Rightarrow> string) \<Rightarrow> time \<Rightarrow> int \<Rightarrow> ret_state \<Rightarrow>
    (ret_state \<times> unit result) option" where
  "maintain_entities expired_id now limit s =
     (case maintain_batch expired_id now limit s of
        Inl e \<Rightarrow> Some (s, Inl e)
      | Inr (s1, fin) \<Rightarrow> if fin then Some (s1, Inr ()) else maintain_entities expired_id now limit s1)"

partial_function (option) retain_loop :: "(ret_state \<Rightarrow> (ret_state \<times> int) result) \<Rightarrow> ret_state \<Rightarrow> (ret_state \<times> unit result) option" where
  "retain_loop batch s =
     (case batch s of
        Inl e \<Rightarrow> Some (s, Inl e)
      | Inr (s1, n) \<Rightarrow> if n = 0 then Some (s1, Inr ()) else retain_loop batch s1)"

fun retain_logs :: "string \<Rightarrow> time \<Rightarrow> int \<Rightarrow> watch_record list \<Rightarrow> ret_state \<Rightarrow> (ret_state \<times> unit result) option" where
  "retain_logs pass now limit [] s = Some (s, Inr ())"
| "retain_logs pass now limit (r # rs) s =
     (let sp = d_spec (cd_definition (wr_plan r)) in
      case src_logs (s_source sp) of
        None \<Rightarrow> retain_logs pass now limit rs s
      | Some l \<Rightarrow>
          let keep = duration_or_zero (ls_retention l);
              keep' = (if keep = 0 then hour else keep) in
          case retain_loop (RetainLogSummariesBatch (md_id (d_metadata (cd_definition (wr_plan r)))) (now - keep') limit pass) s of
            None \<Rightarrow> None
          | Some (s1, Inl e) \<Rightarrow> Some (s1, Inl e)
          | Some (s1, Inr _) \<Rightarrow> retain_logs pass now limit rs s1)"

definition Maintain :: "(string \<Rightarrow> string \<Rightarrow> int \<Rightarrow> int \<Rightarrow> string) \<Rightarrow> string \<Rightarrow> duration \<Rightarrow> time \<Rightarrow> ret_state \<Rightarrow> (ret_state \<times> unit result) option" where
  "Maintain expired_id pass retention now s =
     (case maintain_entities expired_id now 64 s of
        None \<Rightarrow> None
      | Some (s1, Inl e) \<Rightarrow> Some (s1, Inl e)
      | Some (s1, Inr _) \<Rightarrow>
          (case retain_loop (RetainBatch (now - retention) now 64 pass) s1 of
             None \<Rightarrow> None
           | Some (s2, Inl e) \<Rightarrow> Some (s2, Inl e)
           | Some (s2, Inr _) \<Rightarrow> retain_logs pass now 64 (Watches (rs_db s2)) s2))"

end
