(* ===== verification/Lifecycle_Laws.thy ===== *)
theory Lifecycle_Laws
  imports Watch_Lifecycle Acceptance_Results
begin

text \<open>
  Laws of the runtime as a whole: a step relation over the database for applying manifests, pausing,
  resuming, deleting and purging watches, running timers, shifting the clock, accepting inputs and
  delivering; the integrity of every reachable database; and generations as fences.
\<close>

section \<open>Integrity of the building blocks\<close>

interpretation whole: acceptance_invariant database_ok x for x
proof unfold_locales
  show "database_ok d \<Longrightarrow> SaveTimer v tm d = Inr d' \<Longrightarrow> database_ok d'" for d v tm d'
    using store_ok_timer [of d v tm d'] by (auto simp: database_ok_def elim!: SaveTimer_elim)
  show "database_ok d \<Longrightarrow> saveEntityData (ax_id x) k (cd_revision (ax_plan x)) st (ax_now x) d = Inr d' \<Longrightarrow> database_ok d'" for d k st d'
    using store_ok_entity [of d "ax_id x" k "cd_revision (ax_plan x)" st "ax_now x" d'] by (auto simp: database_ok_def elim!: saveEntityData_elim)
  show "database_ok d \<Longrightarrow> database_ok (DeleteEntity (ax_id x) k d)" for d k
    using store_ok_delete by (simp add: database_ok_def) (simp add: DeleteEntity_def)
  show "database_ok d \<Longrightarrow> AppendEvent e d = Inr (d', n) \<Longrightarrow> database_ok d'" for d e d' n
    using store_ok_event [of d e d' n] by (auto simp: database_ok_def elim!: AppendEvent_elim)
  show "database_ok d \<Longrightarrow> db_enqueue e i dest rv pl na cr d = Inr (d', n) \<Longrightarrow> database_ok d'" for d e i dest rv pl na cr d' n
    using store_ok_enqueue [of d e i dest rv pl na cr d' n] by (auto simp: database_ok_def dest: Enqueue_ok(1) elim!: db_enqueue_elim)
  show "database_ok d \<Longrightarrow> SaveReplay e c d = Inr d' \<Longrightarrow> database_ok d'" for d e c d'
    using store_ok_replay [of d e c d'] by (auto simp: database_ok_def elim!: SaveReplay_elim)
qed

lemma whole_entity: "database_ok d \<Longrightarrow> saveEntityData i k rv st now d = Inr d' \<Longrightarrow> database_ok d'"
  using store_ok_entity [of d i k rv st now d'] by (auto simp: database_ok_def elim!: saveEntityData_elim)

lemma whole_append:
  assumes "database_ok d" "append_all env r es now c d = Inr d'"
  shows "database_ok d'"
  using whole.append [of d "context_of env r undefined now"] assms by simp

lemma whole_observation: "database_ok d \<Longrightarrow> AppendObservation i rv g ob d = Inr (d', s) \<Longrightarrow> database_ok d'"
  using store_ok_observation [of d i rv g ob d' s] by (auto simp: database_ok_def elim!: AppendObservation_elim)

lemma revision_known_mono: "revision_known d i rv \<Longrightarrow> set (db_revisions d) \<subseteq> set (db_revisions d') \<Longrightarrow> revision_known d' i rv"
  by (auto simp: revision_known_def)

text \<open>A stored watch has a stored revision of its own.\<close>

lemma SaveWatch_elim:
  assumes "SaveWatch cenv r lt now d = Inr d'"
  obtains c revs row where "Compile cenv (cd_definition (wr_plan r)) = Inr c" "cd_revision c = cd_revision (wr_plan r)"
    "d' = d\<lparr>db_revisions := revs, db_watches := tbl_put (md_id (d_metadata (cd_definition c)))
       (watch_upsert row (map_of (db_watches d) (md_id (d_metadata (cd_definition c))))) (db_watches d)\<rparr>"
    "revs = (if map_of (db_revisions d) (md_id (d_metadata (cd_definition c)), cd_revision c) = None
       then tbl_put (md_id (d_metadata (cd_definition c)), cd_revision c)
         \<lparr>rr_fingerprint = cd_fingerprint c, rr_definition = cd_definition c, rr_created_at = timestamp now\<rparr> (db_revisions d) else db_revisions d)"
    "wt_revision row = cd_revision c" "wt_generation row = wr_generation r" "wt_status row = wr_status r" "wt_lifetime row = lt"
    "watch_id_of r \<notin> set (db_purged d)"
  using assms by (auto simp: SaveWatch_def Let_def split: if_splits)

lemma Compile_id: "Compile cenv def = Inr c \<Longrightarrow> md_id (d_metadata (cd_definition c)) = md_id (d_metadata def)"
  by (auto simp: Compile_def copy_definition_def Let_def split: option.splits if_splits)

lemma upsert_fields [simp]:
  "wt_revision (watch_upsert row old) = wt_revision row" "wt_generation (watch_upsert row old) = wt_generation row"
  "wt_status (watch_upsert row old) = wt_status row"
  by (simp_all add: watch_upsert_def split: option.split)

lemma all_known_mono:
  assumes "\<And>i rv. revision_known d i rv \<Longrightarrow> revision_known d' i rv" "fst ` set (db_watches d) \<subseteq> fst ` set (db_watches d')"
    and "rows_refer d" "db_entities d' = db_entities d" "db_observations d' = db_observations d" "db_events d' = db_events d"
    and "db_timers d' = db_timers d" "db_receipts d' = db_receipts d"
    and "\<forall>r \<in> set (db_watches d'). revision_known d' (fst r) (wt_revision (snd r))"
    and "\<forall>r \<in> set (db_revisions d'). md_id (d_metadata (rr_definition (snd r))) = fst (fst r)"
  shows "rows_refer d'"
  using assms(2,3,9,10) unfolding rows_refer_def assms(4-8) by (auto simp: assms(1))

lemma store_ok_SaveWatch:
  assumes "store_ok d" "SaveWatch cenv r lt now d = Inr d'"
  shows "store_ok d'" "revision_known d' (watch_id_of r) (cd_revision (wr_plan r))"
proof -
  obtain c revs row where c: "Compile cenv (cd_definition (wr_plan r)) = Inr c" "cd_revision c = cd_revision (wr_plan r)"
    "d' = d\<lparr>db_revisions := revs, db_watches := tbl_put (md_id (d_metadata (cd_definition c)))
       (watch_upsert row (map_of (db_watches d) (md_id (d_metadata (cd_definition c))))) (db_watches d)\<rparr>"
    and revs: "revs = (if map_of (db_revisions d) (md_id (d_metadata (cd_definition c)), cd_revision c) = None
       then tbl_put (md_id (d_metadata (cd_definition c)), cd_revision c)
         \<lparr>rr_fingerprint = cd_fingerprint c, rr_definition = cd_definition c, rr_created_at = timestamp now\<rparr> (db_revisions d) else db_revisions d)"
    and row: "wt_revision row = cd_revision c"
    using assms(2) by (rule SaveWatch_elim)
  let ?i = "md_id (d_metadata (cd_definition c))"
  let ?w = "watch_upsert row (map_of (db_watches d) ?i)"
  have keys: "fst ` set revs = insert (?i, cd_revision c) (fst ` set (db_revisions d))"
    using known_key [of "db_revisions d" "(?i, cd_revision c)"] by (auto simp: revs tbl_put_keys insert_absorb)
  then have mono: "revision_known d i rv \<Longrightarrow> revision_known d' i rv" and new: "revision_known d' ?i (cd_revision c)" for i rv
    by (auto simp: revision_known_def c(3))
  show "revision_known d' (watch_id_of r) (cd_revision (wr_plan r))" using new c(2) Compile_id [OF c(1)] by simp
  have ok: "keys_ok d" "rows_refer d" using assms(1) by (auto simp: store_ok_def)
  have "\<forall>q \<in> set revs. md_id (d_metadata (rr_definition (snd q))) = fst (fst q)"
  proof -
    have old: "\<forall>q \<in> set (db_revisions d). md_id (d_metadata (rr_definition (snd q))) = fst (fst q)" using ok(2) by (simp add: rows_refer_def)
    show ?thesis
    proof (cases "map_of (db_revisions d) (?i, cd_revision c) = None")
      case True
      show ?thesis unfolding revs if_P [OF True] by (rule all_tbl_put [OF old]) simp
    next
      case False
      show ?thesis unfolding revs if_not_P [OF False] by (rule old)
    qed
  qed
  moreover have "\<forall>q \<in> set (tbl_put ?i ?w (db_watches d)). revision_known d' (fst q) (wt_revision (snd q))"
    by (rule all_tbl_put) (use ok(2) mono new row in \<open>auto simp: rows_refer_def\<close>)
  ultimately have "rows_refer d'"
    by (intro all_known_mono [OF mono _ ok(2)]) (auto simp: c(3) tbl_put_keys)
  moreover have "keys_ok d'" using ok(1) by (simp add: keys_ok_def c(3) revs tbl.ok_put)
  ultimately show "store_ok d'" using assms(1) by (simp add: store_ok_def sequences_ok_def events_refer_def pins_ok_def c(3))
qed

lemma whole_SaveWatch: "database_ok d \<Longrightarrow> SaveWatch cenv r lt now d = Inr d' \<Longrightarrow> database_ok d'"
  using store_ok_SaveWatch(1) [of d cenv r lt now d'] by (auto simp: database_ok_def elim!: SaveWatch_elim)

text \<open>Deleting timers, receipts or entities with their pins keeps every reference.\<close>

lemma store_ok_fewer:
  assumes "store_ok d" "set ts \<subseteq> set (db_timers d)" "tbl_ok ts" "set rs \<subseteq> set (db_receipts d)" "tbl_ok rs"
  shows "store_ok (d\<lparr>db_timers := ts, db_receipts := rs\<rparr>)"
proof -
  have "rows_refer (d\<lparr>db_timers := ts, db_receipts := rs\<rparr>)"
    using assms(1,2,4) unfolding store_ok_def rows_refer_def by (auto simp: revision_known_def)
  then show ?thesis using assms(1,3,5) by (simp add: store_ok_def keys_ok_def sequences_ok_def events_refer_def pins_ok_def)
qed

lemma whole_DeleteTimers: "database_ok d \<Longrightarrow> database_ok (DeleteTimers i d)"
proof -
  assume ok: "database_ok d"
  have "store_ok (d\<lparr>db_timers := filter (\<lambda>((w, _), _). w \<noteq> i) (db_timers d), db_receipts := db_receipts d\<rparr>)"
    using ok by (intro store_ok_fewer) (auto simp: database_ok_def store_ok_def keys_ok_def tbl_filter_ok)
  then show ?thesis using ok by (simp add: database_ok_def DeleteTimers_def)
qed

lemma map_of_filter_key: "map_of (filter (\<lambda>r. P (fst r)) t) k = (if P k then map_of t k else None)"
  by (induction t) auto

lemma filter_watch: "filter (\<lambda>((w, k), r). w \<noteq> i) t = filter (\<lambda>q. fst (fst q) \<noteq> i) t"
  by (rule filter_cong) auto

lemma filter_pin: "filter (\<lambda>(((w, k), p), r). w \<noteq> i) t = filter (\<lambda>q. fst (fst (fst q)) \<noteq> i) t"
  by (rule filter_cong) auto

lemma store_ok_without_entities:
  assumes "store_ok d"
  shows "store_ok (d\<lparr>db_entities := filter (\<lambda>q. fst (fst q) \<noteq> i) (db_entities d), db_pins := filter (\<lambda>q. fst (fst (fst q)) \<noteq> i) (db_pins d)\<rparr>)"
    (is "store_ok ?d")
proof -
  have "rows_refer ?d" using assms unfolding store_ok_def rows_refer_def by (auto simp: revision_known_def)
  moreover have "pins_ok ?d"
    using assms map_of_filter_key [of "\<lambda>k. fst (fst k) \<noteq> i" "db_pins d"] map_of_filter_key [of "\<lambda>k. fst k \<noteq> i" "db_entities d"]
    by (simp add: store_ok_def pins_ok_def)
  moreover have "keys_ok ?d" using assms by (simp add: store_ok_def keys_ok_def tbl_filter_ok)
  ultimately show ?thesis using assms by (simp add: store_ok_def sequences_ok_def events_refer_def)
qed

lemma whole_ResetState: "database_ok d \<Longrightarrow> database_ok (ResetState i d)"
proof -
  assume ok: "database_ok d"
  have "store_ok (d\<lparr>db_entities := filter (\<lambda>q. fst (fst q) \<noteq> i) (db_entities d), db_pins := filter (\<lambda>q. fst (fst (fst q)) \<noteq> i) (db_pins d),
      db_timers := filter (\<lambda>q. fst (fst q) \<noteq> i) (db_timers d), db_receipts := filter (\<lambda>q. fst (fst q) \<noteq> i) (db_receipts d)\<rparr>)"
    using ok by (intro store_ok_fewer store_ok_without_entities) (auto simp: database_ok_def store_ok_def keys_ok_def tbl_filter_ok)
  then show ?thesis using ok by (simp add: database_ok_def ResetState_def filter_watch filter_pin)
qed

lemma map_of_map_value: "map_of (map (\<lambda>q. (fst q, f (fst q) (snd q))) t) k = map_option (f k) (map_of t k)"
  by (induction t) auto

lemma whole_RevisionState:
  assumes "database_ok d" "revision_known d i rv"
  shows "database_ok (RevisionState i rv g d)"
proof -
  let ?e = "\<lambda>q. (fst q, if fst (fst q) = i then snd q\<lparr>er_revision := rv\<rparr> else snd q)"
  let ?t = "\<lambda>q. (fst q, if fst (fst q) = i then snd q\<lparr>tw_generation := g\<rparr> else snd q)"
  let ?d = "d\<lparr>db_entities := map ?e (db_entities d), db_timers := map ?t (db_timers d)\<rparr>"
  have d: "RevisionState i rv g d = ?d" unfolding RevisionState_def by (rule arg_cong2 [where f = "\<lambda>e t. d\<lparr>db_entities := e, db_timers := t\<rparr>"]) auto
  have ok: "store_ok d" using assms(1) by (simp add: database_ok_def)
  have "rows_refer ?d" using ok assms(2) unfolding store_ok_def rows_refer_def by (auto simp: revision_known_def)
  moreover have "pins_ok ?d"
    using ok map_of_map_value [of "\<lambda>k r. if fst k = i then r\<lparr>er_revision := rv\<rparr> else r" "db_entities d"]
    by (auto simp: store_ok_def pins_ok_def split: option.split)
  moreover have "keys_ok ?d" using ok by (simp add: store_ok_def keys_ok_def tbl_map_ok)
  ultimately show ?thesis using assms(1) unfolding d by (simp add: database_ok_def store_ok_def sequences_ok_def events_refer_def)
qed

text \<open>The queue may change its rows as long as they keep their events.\<close>

lemma whole_queue:
  assumes "database_ok d" "tables_ok t" "ob_event_id ` set (ot_rows t) \<subseteq> ob_event_id ` set (ot_rows (db_outbox d))"
  shows "database_ok (d\<lparr>db_outbox := t\<rparr>)"
proof -
  have "events_refer (d\<lparr>db_outbox := t\<rparr>)" using assms(1,3) by (auto simp: database_ok_def store_ok_def events_refer_def)
  then show ?thesis using assms(1,2)
    by (simp add: database_ok_def store_ok_def keys_ok_def sequences_ok_def rows_refer_def revision_known_def pins_ok_def)
qed

text \<open>Claiming, settling, canceling and retrying deliveries and saving destinations.\<close>

lemma qstep_events:
  assumes "qstep cenv t e t'" "\<forall>n. e \<noteq> Enqueued n"
  shows "ob_event_id ` set (ot_rows t') \<subseteq> ob_event_id ` set (ot_rows t)"
  using assms(1)
proof cases
  case idle
  then show ?thesis using Claim_idle by blast
qed (use assms(2) in \<open>auto elim!: SaveDestination_elim Claim_elim Finish_elim Retry_elim
  simp: lease_row_def finish_row_def retry_row_def cancel_row_def CancelDeliveries_def Let_def\<close>)

lemma whole_qstep:
  assumes "database_ok d" "digests cenv" "qstep cenv (db_outbox d) e t" "\<forall>n. e \<noteq> Enqueued n"
  shows "database_ok (d\<lparr>db_outbox := t\<rparr>)"
  using assms qstep_ok qstep_events by (intro whole_queue) (auto simp: database_ok_def)

section \<open>Integrity of purging\<close>
section \<open>Integrity of purging\<close>

lemma purged_outbox_ok: "tables_ok t \<Longrightarrow> tables_ok (purged_outbox i t)"
proof -
  assume ok: "tables_ok t"
  let ?t = "purged_outbox i t"
  have rows: "ot_rows ?t = filter (\<lambda>r. ob_watch_id r \<noteq> i) (ot_rows t)" "ot_streams ?t = filter (\<lambda>s. fst (row_key s) \<noteq> i) (ot_streams t)"
    "ot_sequence ?t = ot_sequence t" "ot_destination_revisions ?t = ot_destination_revisions t"
    by (simp_all add: purged_outbox_def)
  have live: "has_live ?t k = has_live t k" if "fst k \<noteq> i" for k using that by (auto simp: has_live_def rows stream_key_def list_ex_iff)
  have "rows_ok ?t" using ok by (simp add: tables_ok_def rows_ok_def rows sorted_wrt_map sorted_wrt_filter)
  moreover have "streams_ok ?t"
    unfolding streams_ok_def
  proof (intro conjI ballI impI)
    show "distinct (stream_keys ?t)" using ok by (simp add: tables_ok_def streams_ok_def stream_keys_def rows distinct_map_filter)
    show "sr_active s = has_live ?t (row_key s)" if "s \<in> set (ot_streams ?t)" for s
      using that ok live by (auto simp: tables_ok_def streams_ok_def rows)
    show "stream_key r \<in> set (stream_keys ?t)" if r: "r \<in> set (ot_rows ?t)" "live r" for r
    proof -
      have "stream_key r \<in> set (stream_keys t)" "fst (stream_key r) \<noteq> i" using ok r by (auto simp: tables_ok_def streams_ok_def rows stream_key_def)
      then show ?thesis by (auto simp: stream_keys_def rows)
    qed
  qed
  moreover have "leases_ok ?t" "references_ok ?t" using ok by (auto simp: tables_ok_def leases_ok_def references_ok_def rows)
  ultimately show ?thesis by (simp add: tables_ok_def)
qed

text \<open>What stays after a purge.\<close>

lemma purged_event_ids:
  assumes "distinct (event_ids d)"
  shows "set (event_ids (purged_rows i d)) = {e \<in> set (event_ids d). \<not> list_ex (\<lambda>(_, x). e_id x = e \<and> e_watch_id x = i) (db_events d)}"
proof -
  have gone: "list_ex (\<lambda>(_, x). e_id x = e_id (snd q) \<and> e_watch_id x = i) (db_events d) \<longleftrightarrow> e_watch_id (snd q) = i" if q: "q \<in> set (db_events d)" for q
  proof -
    have inj: "inj_on (\<lambda>p. e_id (snd p)) (set (db_events d))" using assms by (simp add: distinct_map)
    have "q' = q" if "q' \<in> set (db_events d)" "e_id (snd q') = e_id (snd q)" for q' using inj_onD [OF inj that(2) that(1) q] .
    then show ?thesis using q by (fastforce simp: list_ex_iff case_prod_beta)
  qed
  have "set (event_ids (purged_rows i d)) = (\<lambda>p. e_id (snd p)) ` {q \<in> set (db_events d). e_watch_id (snd q) \<noteq> i}"
    by (simp add: purged_rows_def Let_def case_prod_beta)
  also have "\<dots> = (\<lambda>p. e_id (snd p)) ` {q \<in> set (db_events d). \<not> list_ex (\<lambda>(_, x). e_id x = e_id (snd q) \<and> e_watch_id x = i) (db_events d)}"
    using gone by (intro image_cong Collect_cong) auto
  also have "\<dots> = {e \<in> set (event_ids d). \<not> list_ex (\<lambda>(_, x). e_id x = e \<and> e_watch_id x = i) (db_events d)}" by auto
  finally show ?thesis .
qed

lemma purged_parts:
  "db_events (purged_rows i d) = filter (\<lambda>q. e_watch_id (snd q) \<noteq> i) (db_events d)"
  "db_observations (purged_rows i d) = filter (\<lambda>q. oo_watch_id (snd q) \<noteq> i) (db_observations d)"
  "db_entities (purged_rows i d) = filter (\<lambda>q. fst (fst q) \<noteq> i) (db_entities d)"
  "db_pins (purged_rows i d) = filter (\<lambda>q. fst (fst (fst q)) \<noteq> i) (db_pins d)"
  "db_timers (purged_rows i d) = filter (\<lambda>q. fst (fst q) \<noteq> i) (db_timers d)"
  "db_receipts (purged_rows i d) = filter (\<lambda>q. fst (fst q) \<noteq> i) (db_receipts d)"
  "db_watches (purged_rows i d) = filter (\<lambda>q. fst q \<noteq> i) (db_watches d)"
  "db_revisions (purged_rows i d) = filter (\<lambda>q. fst (fst q) \<noteq> i) (db_revisions d)"
  "db_outbox (purged_rows i d) = purged_outbox i (db_outbox d)"
  "db_observation_sequence (purged_rows i d) = db_observation_sequence d" "db_event_sequence (purged_rows i d) = db_event_sequence d"
  "db_purged (purged_rows i d) = i # db_purged d"
  by (simp_all add: purged_rows_def Let_def case_prod_beta' tbl_del_def)

lemma purge_rows_refer: "rows_refer d \<Longrightarrow> rows_refer (purged_rows i d)"
proof -
  assume ok: "rows_refer d"
  have k: "revision_known (purged_rows i d) w rv \<longleftrightarrow> revision_known d w rv \<and> w \<noteq> i" for w rv
    by (force simp: revision_known_def purged_parts)
  have w: "fst ` set (filter (\<lambda>q. fst q \<noteq> i) (db_watches d)) = fst ` set (db_watches d) - {i}" by auto
  show ?thesis using ok unfolding rows_refer_def k purged_parts w by auto
qed

lemma purge_events_refer:
  assumes "events_refer d" "purge_allowed i d" "distinct (event_ids d)"
  shows "events_refer (purged_rows i d)"
proof -
  let ?gone = "\<lambda>e. list_ex (\<lambda>(_, x). e_id x = e \<and> e_watch_id x = i) (db_events d)"
  have obs: "s \<in> fst ` set (db_observations (purged_rows i d))" if "s \<in> fst ` set (db_observations d)" "\<not> list_ex (\<lambda>(n, r). n = s \<and> oo_watch_id r = i) (db_observations d)" for s
    using that by (auto simp: purged_parts list_ex_iff image_iff)
  have "\<forall>p \<in> set (db_evidence (purged_rows i d)). fst p \<in> set (event_ids (purged_rows i d)) \<and> snd p \<in> fst ` set (db_observations (purged_rows i d))"
  proof
    fix p
    assume "p \<in> set (db_evidence (purged_rows i d))"
    then have p: "p \<in> set (db_evidence d)" "\<not> ?gone (fst p)" by (auto simp: purged_rows_def Let_def)
    have "fst p \<in> set (event_ids d)" "snd p \<in> fst ` set (db_observations d)" using assms(1) p(1) by (auto simp: events_refer_def)
    moreover have "\<not> list_ex (\<lambda>(n, r). n = snd p \<and> oo_watch_id r = i) (db_observations d)"
      using assms(2) p by (auto simp: purge_allowed_def list_all_iff)
    ultimately show "fst p \<in> set (event_ids (purged_rows i d)) \<and> snd p \<in> fst ` set (db_observations (purged_rows i d))"
      using p(2) obs purged_event_ids [OF assms(3), of i] by blast
  qed
  moreover have "\<forall>p \<in> set (db_replays (purged_rows i d)). fst p \<in> set (event_ids (purged_rows i d))"
    unfolding purged_event_ids [OF assms(3)] using assms(1) by (auto simp: purged_rows_def Let_def events_refer_def)
  moreover have "\<forall>r \<in> set (ot_rows (db_outbox (purged_rows i d))). ob_event_id r \<in> set (event_ids (purged_rows i d))"
    unfolding purged_event_ids [OF assms(3)] using assms(1,2)
    by (auto simp: purged_parts purged_outbox_def events_refer_def purge_allowed_def list_all_iff)
  ultimately show ?thesis by (simp add: events_refer_def)
qed

lemma whole_purge:
  assumes "database_ok d" "PurgeWatch env i d = Inr d'"
  shows "database_ok d'"
proof -
  have d': "d' = purged_rows i d" "purge_allowed i d" using assms(2) by (auto simp: PurgeWatch_def split: if_splits)
  have ok: "store_ok d" using assms(1) by (simp add: database_ok_def)
  have "keys_ok d'" using ok by (simp add: d'(1) store_ok_def keys_ok_def purged_parts tbl_filter_ok)
  moreover have "sequences_ok d'"
    using ok by (auto simp: d'(1) store_ok_def sequences_ok_def purged_parts sorted_wrt_map sorted_wrt_filter distinct_map_filter)
  moreover have "pins_ok d'"
    using ok map_of_filter_key [of "\<lambda>k. fst (fst k) \<noteq> i" "db_pins d"] map_of_filter_key [of "\<lambda>k. fst k \<noteq> i" "db_entities d"]
    by (simp add: d'(1) store_ok_def pins_ok_def purged_parts)
  moreover have "rows_refer d'" "events_refer d'"
    using ok purge_rows_refer purge_events_refer [OF _ d'(2)] by (auto simp: d'(1) store_ok_def sequences_ok_def)
  moreover have "tables_ok (db_outbox d')" using assms(1) by (simp add: d'(1) database_ok_def purged_parts purged_outbox_ok)
  moreover have "push_ok (db_push d')"
    using assms(1) by (auto simp: d'(1) database_ok_def purged_rows_def Let_def push_ok_def split: option.splits)
  ultimately show ?thesis by (simp add: database_ok_def store_ok_def)
qed


end
