(* ===== verification/Retention_Laws.thy ===== *)
theory Retention_Laws
  imports Retention Lifecycle_Laws "HOL-Library.Multiset" "HOL-Library.Sublist"
begin

text \<open>
  Laws of maintenance: its loops end, what is still needed stays, and the database keeps its
  integrity.
\<close>

section \<open>Pages make progress\<close>

lemma filtered_less:
  assumes "mset cs \<subseteq># mset xs" "\<forall>c \<in> set cs. P c"
  shows "length (filter (\<lambda>x. \<not> P x) xs) + length cs \<le> length xs"
proof -
  have "filter P cs = cs" using assms(2) by (simp add: filter_id_conv)
  then have "mset cs = filter_mset P (mset cs)" by (metis mset_filter)
  then have "mset cs \<subseteq># filter_mset P (mset xs)" using multiset_filter_mono [OF assms(1), of P] by simp
  then have "mset cs \<subseteq># mset (filter P xs)" by simp
  then have "length cs \<le> length (filter P xs)" by (metis size_mset size_mset_mono)
  then show ?thesis using sum_length_filter_compl [of P xs] by simp
qed

lemma mset_take: "mset (take n xs) \<subseteq># mset xs"
  using mset_subset_eq_add_left [of "mset (take n xs)" "mset (drop n xs)"] by (simp only: mset_append [symmetric] append_take_drop_id)

lemma mset_page: "mset (take n (sort_key f (filter Q xs))) \<subseteq># mset xs"
  by (rule subset_mset.order_trans [OF mset_take]) (simp add: multiset_filter_subset)

lemma page_subset: "set (take n (sort_key f (filter Q xs))) \<subseteq> {x \<in> set xs. Q x}"
  using set_take_subset by fastforce

text \<open>What a family has left in a pass.\<close>

definition pass_done :: "string \<Rightarrow> 'k retention_cursor option \<Rightarrow> bool" where
  "pass_done pass saved \<longleftrightarrow> (case saved of None \<Rightarrow> False | Some c \<Rightarrow> cu_pass c = pass \<and> cu_done c)"

definition remaining :: "('k :: linorder) \<Rightarrow> string \<Rightarrow> int \<Rightarrow> 'k retention_cursor option \<Rightarrow> (int \<times> 'k) list \<Rightarrow> nat" where
  "remaining z pass cutoff saved rows =
     (if pass_done pass saved then 0 else length (filter (beyond (resumed_cursor z pass saved) cutoff) rows))"

lemma remaining_mono: "subseq rows' rows \<Longrightarrow> remaining z pass cutoff saved rows' \<le> remaining z pass cutoff saved rows"
  unfolding remaining_def by (auto intro: list_emb_length subseq_filter)

lemma resumed_same: "cu_pass c = pass \<Longrightarrow> resumed_cursor z pass (Some c) = c"
  by (simp add: resumed_cursor_def Let_def)

lemma sorted_after_page:
  fixes xs :: "('a :: linorder) list"
  assumes "sorted xs" "take n xs \<noteq> []"
  shows "length (filter (\<lambda>x. last (take n xs) < x) xs) + length (take n xs) \<le> length xs"
proof -
  have "x \<le> last (take n xs)" if "x \<in> set (take n xs)" for x
  proof -
    have "sorted (take n xs)" using assms(1) by (rule sorted_wrt_take)
    then have "sorted (butlast (take n xs) @ [last (take n xs)])" using assms(2) by simp
    moreover have "x \<in> set (butlast (take n xs)) \<or> x = last (take n xs)"
      using that assms(2) by (metis append_butlast_last_id in_set_conv_decomp_last rotate1.simps(2) set_ConsD set_rotate1)
    ultimately show ?thesis by (auto simp: sorted_append)
  qed
  then have "filter (\<lambda>x. last (take n xs) < x) (take n xs) = []" by (auto simp: filter_empty_conv leD)
  then have "filter (\<lambda>x. last (take n xs) < x) xs = filter (\<lambda>x. last (take n xs) < x) (drop n xs)"
    by (metis append_Nil append_take_drop_id filter_append)
  moreover have "length (filter (\<lambda>x. last (take n xs) < x) (drop n xs)) \<le> length (drop n xs)" by (rule length_filter_le)
  ultimately show ?thesis by simp
qed

lemma scan_elim:
  assumes "scanRetentionFamily z rows delete pass cutoff limit saved s = Inr (s', saved', n)"
  obtains (complete) "s' = s" "saved' = saved" "n = 0" "pass_done pass saved"
  | (empty) "s' = s" "n = 0" "pass_done pass saved'" "\<not> pass_done pass saved"
      "take limit (sort_key (\<lambda>p. p) (filter (beyond (resumed_cursor z pass saved) cutoff) rows)) = []"
  | (page) cs where "cs = take limit (sort_key (\<lambda>p. p) (filter (beyond (resumed_cursor z pass saved) cutoff) rows))" "cs \<noteq> []"
      "\<not> pass_done pass saved" "delete (map snd cs) s = Inr s'" "n = int (length cs)"
      "saved' = Some \<lparr>cu_pass = pass, cu_at = fst (last cs), cu_key = snd (last cs), cu_done = False\<rparr>"
  using assms unfolding scanRetentionFamily_def Let_def pass_done_def [symmetric]
  by (auto simp: pass_done_def resumed_cursor_def Let_def split: if_splits elim!: bindE_InrE)

lemma scan_progress:
  assumes "scanRetentionFamily z rows delete pass cutoff limit saved s = Inr (s', saved', n)"
  shows "int (remaining z pass cutoff saved' rows) + n \<le> int (remaining z pass cutoff saved rows)" "0 \<le> n"
proof -
  have "int (remaining z pass cutoff saved' rows) + n \<le> int (remaining z pass cutoff saved rows) \<and> 0 \<le> n"
    using assms
  proof (cases rule: scan_elim)
    case (page cs)
    let ?c = "resumed_cursor z pass saved"
    let ?xs = "sort_key (\<lambda>p. p) (filter (beyond ?c cutoff) rows)"
    have b: "beyond \<lparr>cu_pass = pass, cu_at = fst l, cu_key = snd l, cu_done = False\<rparr> cutoff p \<longleftrightarrow> beyond ?c cutoff p \<and> l < p"
      if "beyond ?c cutoff l" for l p
      using that by (auto simp: beyond_def less_prod_def)
    have "last cs \<in> set cs" using page(2) by (rule last_in_set)
    then have "last cs \<in> set ?xs" unfolding page(1) by (rule in_set_takeD)
    then have "beyond ?c cutoff (last cs)" by simp
    then have b: "beyond \<lparr>cu_pass = pass, cu_at = fst (last cs), cu_key = snd (last cs), cu_done = False\<rparr> cutoff = (\<lambda>p. beyond ?c cutoff p \<and> last cs < p)"
      using b by blast
    have "remaining z pass cutoff saved' rows = length (filter (\<lambda>p. beyond ?c cutoff p \<and> last cs < p) rows)"
      by (simp add: remaining_def page(6) pass_done_def resumed_same b)
    also have "\<dots> = length (filter (\<lambda>p. last cs < p) (filter (beyond ?c cutoff) rows))" by (simp add: conj_commute)
    also have "\<dots> = length (filter (\<lambda>p. last cs < p) ?xs)" by (metis mset_filter mset_sort size_mset)
    finally have r: "remaining z pass cutoff saved' rows = length (filter (\<lambda>p. last cs < p) ?xs)" .
    have "sorted ?xs" by (metis sorted_sort_key list.map_ident)
    then have "length (filter (\<lambda>p. last cs < p) ?xs) + length cs \<le> length ?xs" using sorted_after_page [of ?xs limit] page(1,2) by simp
    moreover have "length ?xs = remaining z pass cutoff saved rows" using page(3) by (simp add: remaining_def)
    ultimately show ?thesis using r page(5) by simp
  qed (simp_all add: remaining_def)
  then show "int (remaining z pass cutoff saved' rows) + n \<le> int (remaining z pass cutoff saved rows)" "0 \<le> n" by auto
qed

section \<open>A batch only deletes\<close>

definition shrinks :: "ret_state \<Rightarrow> ret_state \<Rightarrow> bool" where
  "shrinks s s' \<longleftrightarrow> rs_created s' = rs_created s \<and> rs_handoffs s' = rs_handoffs s \<and> db_purged (rs_db s') = db_purged (rs_db s) \<and>
     subseq (db_events (rs_db s')) (db_events (rs_db s)) \<and> subseq (db_observations (rs_db s')) (db_observations (rs_db s)) \<and>
     subseq (db_watches (rs_db s')) (db_watches (rs_db s)) \<and> subseq (db_revisions (rs_db s')) (db_revisions (rs_db s)) \<and>
     subseq (db_receipts (rs_db s')) (db_receipts (rs_db s)) \<and> subseq (pt_receipts (db_push (rs_db s'))) (pt_receipts (db_push (rs_db s))) \<and>
     subseq (ot_backoff (db_outbox (rs_db s'))) (ot_backoff (db_outbox (rs_db s))) \<and>
     subseq (ot_rows (db_outbox (rs_db s'))) (ot_rows (db_outbox (rs_db s))) \<and>
     subseq (ot_streams (db_outbox (rs_db s'))) (ot_streams (db_outbox (rs_db s))) \<and>
     subseq (ot_destination_revisions (db_outbox (rs_db s'))) (ot_destination_revisions (db_outbox (rs_db s))) \<and>
     db_entities (rs_db s') = db_entities (rs_db s) \<and> db_timers (rs_db s') = db_timers (rs_db s) \<and> db_pins (rs_db s') = db_pins (rs_db s)"

lemma shrinks_refl [simp]: "shrinks s s"
  by (simp add: shrinks_def)

lemma shrinks_trans: "shrinks s t \<Longrightarrow> shrinks t u \<Longrightarrow> shrinks s u"
  unfolding shrinks_def by (intro conjI; elim conjE; (erule (1) subseq_order.order_trans | simp))

lemma shrinks_cursors [simp]:
  "shrinks s (t\<lparr>rs_events := a\<rparr>) = shrinks s t" "shrinks s (t\<lparr>rs_observations := a\<rparr>) = shrinks s t" "shrinks s (t\<lparr>rs_watches := b\<rparr>) = shrinks s t"
  "shrinks s (t\<lparr>rs_revisions := c\<rparr>) = shrinks s t" "shrinks s (t\<lparr>rs_destinations := c\<rparr>) = shrinks s t" "shrinks s (t\<lparr>rs_logs := l\<rparr>) = shrinks s t"
  by (simp_all add: shrinks_def)

lemma delete_receipts_rows: "pt_receipts (delete_receipts P t) = filter (\<lambda>r. \<not> P r) (pt_receipts t)"
  unfolding delete_receipts_def using delete_rows_keys [of P "[]" "pt_receipts t" "pt_stats t"] by (auto simp: Let_def split: prod.split)

lemma subseq_filtered [simp]: "subseq (filter P xs) xs"
  by (rule subseq_filter_left)

lemma shrinks_direct:
  "shrinks s (fst (direct (batch_input_receipts now l) s))" "shrinks s (fst (direct (batch_push_receipts now l) s))"
  "shrinks s (fst (direct (batch_backoff now l) s))" "shrinks s (fst (direct (batch_outbox now l) s))" "shrinks s (fst (direct (batch_streams l) s))"
  by (simp_all add: direct_def shrinks_def batch_input_receipts_def batch_push_receipts_def batch_backoff_def batch_outbox_def batch_streams_def
      Let_def delete_receipts_rows)

lemma shrinks_sweep:
  "sweep_events ks s = Inr s' \<Longrightarrow> shrinks s s'" "sweep_observations is s = Inr s' \<Longrightarrow> shrinks s s'" "sweep_watches ws s = Inr s' \<Longrightarrow> shrinks s s'"
  "sweep_revisions rs s = Inr s' \<Longrightarrow> shrinks s s'" "sweep_destinations rs s = Inr s' \<Longrightarrow> shrinks s s'" "sweep_logs ks s = Inr s' \<Longrightarrow> shrinks s s'"
  by (auto simp: shrinks_def sweep_events_def delete_events_def sweep_observations_def sweep_watches_def sweep_revisions_def sweep_destinations_def
      sweep_logs_def Let_def split: if_splits)

section \<open>Families\<close>

text \<open>The keys a family looks at.\<close>

definition event_rows :: "ret_state \<Rightarrow> (int \<times> int) list" where
  "event_rows s = map (\<lambda>(n, e). (timestamp (e_at e), n)) (db_events (rs_db s))"

definition observation_rows :: "ret_state \<Rightarrow> (int \<times> int) list" where
  "observation_rows s = map (\<lambda>(n, r). (oo_accepted_at r, n)) (db_observations (rs_db s))"

definition watch_rows :: "ret_state \<Rightarrow> (int \<times> string) list" where
  "watch_rows s = map (\<lambda>(i, w). (wt_next_at w, i)) (filter (\<lambda>(_, w). wt_status w = ''deleted'') (db_watches (rs_db s)))"

definition revision_rows :: "ret_state \<Rightarrow> (int \<times> string \<times> string) list" where
  "revision_rows s = map (\<lambda>(k, r). (rr_created_at r, k)) (db_revisions (rs_db s))"

definition destination_rows :: "ret_state \<Rightarrow> (int \<times> string \<times> string) list" where
  "destination_rows s = map (\<lambda>(k, _). (rs_created s k, k)) (ot_destination_revisions (db_outbox (rs_db s)))"

definition log_rows :: "string \<Rightarrow> ret_state \<Rightarrow> (int \<times> int) list" where
  "log_rows i s = map (\<lambda>(n, r). (oo_accepted_at r, n)) (filter (\<lambda>(_, r). oo_watch_id r = i) (db_observations (rs_db s)))"

locale retention_family =
  fixes z :: "'k :: linorder" and rows :: "ret_state \<Rightarrow> (int \<times> 'k) list" and sweep :: "'k list \<Rightarrow> ret_state \<Rightarrow> ret_state result"
    and get :: "ret_state \<Rightarrow> 'k retention_cursor option" and put :: "'k retention_cursor option \<Rightarrow> ret_state \<Rightarrow> ret_state"
    and step :: "string \<Rightarrow> int \<Rightarrow> nat \<Rightarrow> ret_state \<Rightarrow> (ret_state \<times> int) result"
  assumes step: "step pass cutoff limit s =
      bindE (scanRetentionFamily z (rows s) sweep pass cutoff limit (get s) s) (\<lambda>(s1, c, n). Inr (put c s1, n))"
    and sweep_shrinks: "sweep ks s = Inr s' \<Longrightarrow> shrinks s s'"
    and rows_shrink: "shrinks s s' \<Longrightarrow> subseq (rows s') (rows s)"
    and put_rows: "rows (put c s) = rows s"
    and put_get: "get (put c s) = c"
    and put_shrinks: "shrinks s (put c t) = shrinks s t"
begin

lemma step_elim:
  assumes "step pass cutoff limit s = Inr (s', n)"
  obtains s1 c where "scanRetentionFamily z (rows s) sweep pass cutoff limit (get s) s = Inr (s1, c, n)" "s' = put c s1"
  using assms unfolding step by (cases "scanRetentionFamily z (rows s) sweep pass cutoff limit (get s) s") auto

lemma scan_shrinks: "scanRetentionFamily z (rows s) sweep pass cutoff limit c s = Inr (s1, c', n) \<Longrightarrow> shrinks s s1"
  by (erule scan_elim) (auto dest: sweep_shrinks)

lemma progress:
  assumes "step pass cutoff limit s = Inr (s', n)"
  shows "shrinks s s'" "0 \<le> n" "int (remaining z pass cutoff (get s') (rows s')) + n \<le> int (remaining z pass cutoff (get s) (rows s))"
proof -
  obtain s1 c where s: "scanRetentionFamily z (rows s) sweep pass cutoff limit (get s) s = Inr (s1, c, n)" "s' = put c s1"
    using assms by (rule step_elim)
  show sh: "shrinks s s'" using scan_shrinks [OF s(1)] by (simp add: s(2) put_shrinks)
  show "0 \<le> n" by (rule scan_progress(2) [OF s(1)])
  have "remaining z pass cutoff c (rows s') \<le> remaining z pass cutoff c (rows s)" by (rule remaining_mono [OF rows_shrink [OF sh]])
  then show "int (remaining z pass cutoff (get s') (rows s')) + n \<le> int (remaining z pass cutoff (get s) (rows s))"
    using scan_progress(1) [OF s(1)] by (simp add: s(2) put_get)
qed

lemma untouched: "shrinks s s' \<Longrightarrow> get s' = get s \<Longrightarrow> remaining z pass cutoff (get s') (rows s') \<le> remaining z pass cutoff (get s) (rows s)"
  by (simp add: remaining_mono rows_shrink)

text \<open>A page holds only rows that are older than the cutoff.\<close>

lemma step_invariant:
  assumes "step pass cutoff limit s = Inr (s', n)" "I s"
    and sweep: "\<And>ks s'. \<forall>k \<in> set ks. \<exists>t. (t, k) \<in> set (rows s) \<and> t < cutoff \<Longrightarrow> sweep ks s = Inr s' \<Longrightarrow> I s'"
    and put: "\<And>c s. I (put c s) = I s"
  shows "I s'"
proof -
  obtain s1 c where s: "scanRetentionFamily z (rows s) sweep pass cutoff limit (get s) s = Inr (s1, c, n)" "s' = put c s1"
    using assms(1) by (rule step_elim)
  from s(1) have "I s1"
  proof (cases rule: scan_elim)
    case (page cs)
    have "\<forall>p \<in> set cs. p \<in> set (rows s) \<and> fst p < cutoff"
      using page_subset [of limit "\<lambda>p. p" "beyond (resumed_cursor z pass (get s)) cutoff" "rows s"] unfolding page(1) beyond_def by blast
    then have "\<forall>k \<in> set (map snd cs). \<exists>t. (t, k) \<in> set (rows s) \<and> t < cutoff" by force
    then show ?thesis using page(4) by (rule sweep)
  qed (use assms(2) in simp_all)
  then show ?thesis by (simp add: s(2) put)
qed

end

lemma rows_shrink:
  assumes "shrinks s s'"
  shows "subseq (event_rows s') (event_rows s)" "subseq (observation_rows s') (observation_rows s)" "subseq (watch_rows s') (watch_rows s)"
    "subseq (revision_rows s') (revision_rows s)" "subseq (destination_rows s') (destination_rows s)" "subseq (log_rows i s') (log_rows i s)"
  using assms unfolding shrinks_def event_rows_def observation_rows_def watch_rows_def revision_rows_def destination_rows_def log_rows_def
  by (auto intro: subseq_map subseq_filter)

interpretation fam_events: retention_family 0 event_rows sweep_events rs_events "\<lambda>c s. s\<lparr>rs_events := c\<rparr>" family_events
  by unfold_locales (auto simp: family_events_def event_rows_def intro: rows_shrink [unfolded event_rows_def] shrinks_sweep)

interpretation fam_observations: retention_family 0 observation_rows sweep_observations rs_observations "\<lambda>c s. s\<lparr>rs_observations := c\<rparr>" family_observations
  by unfold_locales (auto simp: family_observations_def observation_rows_def intro: rows_shrink [unfolded observation_rows_def] shrinks_sweep)

interpretation fam_watches: retention_family "''''" watch_rows sweep_watches rs_watches "\<lambda>c s. s\<lparr>rs_watches := c\<rparr>" family_watches
  by unfold_locales (auto simp: family_watches_def watch_rows_def intro: rows_shrink [unfolded watch_rows_def] shrinks_sweep)

interpretation fam_revisions: retention_family "('''', '''')" revision_rows sweep_revisions rs_revisions "\<lambda>c s. s\<lparr>rs_revisions := c\<rparr>" family_revisions
  by unfold_locales (auto simp: family_revisions_def revision_rows_def intro: rows_shrink [unfolded revision_rows_def] shrinks_sweep)

interpretation fam_destinations: retention_family "('''', '''')" destination_rows sweep_destinations rs_destinations "\<lambda>c s. s\<lparr>rs_destinations := c\<rparr>" family_destinations
  by unfold_locales (auto simp: family_destinations_def destination_rows_def intro: rows_shrink [unfolded destination_rows_def] shrinks_sweep)

interpretation fam_logs: retention_family 0 "log_rows i" sweep_logs "\<lambda>s. rs_logs s i" "\<lambda>c s. s\<lparr>rs_logs := (rs_logs s)(i := c)\<rparr>" "family_logs i" for i
  by unfold_locales (auto simp: family_logs_def log_rows_def intro: rows_shrink [unfolded log_rows_def] shrinks_sweep)

section \<open>The loop ends\<close>

definition work :: "string \<Rightarrow> int \<Rightarrow> ret_state \<Rightarrow> nat" where
  "work pass cutoff s =
     length (db_receipts (rs_db s)) + length (pt_receipts (db_push (rs_db s))) + length (ot_backoff (db_outbox (rs_db s))) +
     length (ot_rows (db_outbox (rs_db s))) + length (ot_streams (db_outbox (rs_db s))) +
     remaining 0 pass cutoff (rs_events s) (event_rows s) + remaining 0 pass cutoff (rs_observations s) (observation_rows s) +
     remaining '''' pass cutoff (rs_watches s) (watch_rows s) + remaining ('''', '''') pass cutoff (rs_revisions s) (revision_rows s) +
     remaining ('''', '''') pass cutoff (rs_destinations s) (destination_rows s)"

lemma shrinks_lengths:
  assumes "shrinks s s'"
  shows "length (db_receipts (rs_db s')) \<le> length (db_receipts (rs_db s))" "length (pt_receipts (db_push (rs_db s'))) \<le> length (pt_receipts (db_push (rs_db s)))"
    "length (ot_backoff (db_outbox (rs_db s'))) \<le> length (ot_backoff (db_outbox (rs_db s)))"
    "length (ot_rows (db_outbox (rs_db s'))) \<le> length (ot_rows (db_outbox (rs_db s)))"
    "length (ot_streams (db_outbox (rs_db s'))) \<le> length (ot_streams (db_outbox (rs_db s)))"
  using assms by (auto simp: shrinks_def intro: list_emb_length)

text \<open>What does not move cursors cannot add work.\<close>

definition cursors :: "ret_state \<Rightarrow> int retention_cursor option \<times> int retention_cursor option \<times> string retention_cursor option \<times>
    (string \<times> string) retention_cursor option \<times> (string \<times> string) retention_cursor option" where
  "cursors s = (rs_events s, rs_observations s, rs_watches s, rs_revisions s, rs_destinations s)"

lemmas untouched = fam_events.untouched fam_observations.untouched fam_watches.untouched fam_revisions.untouched fam_destinations.untouched

lemma direct_cursors [simp]: "cursors (fst (direct f s)) = cursors s" "rs_handoffs (fst (direct f s)) = rs_handoffs s"
  by (simp_all add: direct_def cursors_def split: prod.split)

lemma work_direct:
  "int (work pass cutoff (fst (direct (batch_input_receipts now l) s))) + snd (direct (batch_input_receipts now l) s) \<le> int (work pass cutoff s)"
  "int (work pass cutoff (fst (direct (batch_push_receipts now l) s))) + snd (direct (batch_push_receipts now l) s) \<le> int (work pass cutoff s)"
  "int (work pass cutoff (fst (direct (batch_backoff now l) s))) + snd (direct (batch_backoff now l) s) \<le> int (work pass cutoff s)"
  "int (work pass cutoff (fst (direct (batch_outbox now l) s))) + snd (direct (batch_outbox now l) s) \<le> int (work pass cutoff s)"
  "int (work pass cutoff (fst (direct (batch_streams l) s))) + snd (direct (batch_streams l) s) \<le> int (work pass cutoff s)"
proof -
  have other: "int (work pass cutoff s') + n \<le> int (work pass cutoff s)"
    if "shrinks s s'" "cursors s' = cursors s"
      "int (length (db_receipts (rs_db s')) + length (pt_receipts (db_push (rs_db s'))) + length (ot_backoff (db_outbox (rs_db s'))) +
        length (ot_rows (db_outbox (rs_db s'))) + length (ot_streams (db_outbox (rs_db s')))) + n \<le>
       int (length (db_receipts (rs_db s)) + length (pt_receipts (db_push (rs_db s))) + length (ot_backoff (db_outbox (rs_db s))) +
        length (ot_rows (db_outbox (rs_db s))) + length (ot_streams (db_outbox (rs_db s))))" for s' n
    using that(2,3) untouched [OF that(1), of pass cutoff] by (simp add: work_def cursors_def)
  have receipts: "length (filter (\<lambda>q. fst q \<notin> fst ` set cs) rs) + length cs \<le> length rs" if "mset cs \<subseteq># mset rs" for cs rs :: "('a \<times> 'b) list"
    using filtered_less [OF that, of "\<lambda>q. fst q \<in> fst ` set cs"] by simp
  show "int (work pass cutoff (fst (direct (batch_input_receipts now l) s))) + snd (direct (batch_input_receipts now l) s) \<le> int (work pass cutoff s)"
    using receipts [OF mset_page, of l "\<lambda>q. rc_expires_at (snd q)" "\<lambda>q. rc_expires_at (snd q) \<le> now" "db_receipts (rs_db s)"]
    by (intro other shrinks_direct direct_cursors) (auto simp: direct_def batch_input_receipts_def Let_def)
  show "int (work pass cutoff (fst (direct (batch_push_receipts now l) s))) + snd (direct (batch_push_receipts now l) s) \<le> int (work pass cutoff s)"
    using filtered_less [OF mset_page, of l pw_expires_at "\<lambda>r. pw_expires_at r \<le> now" "pt_receipts (db_push (rs_db s))"
      "\<lambda>r. pw_key r \<in> pw_key ` set (take l (sort_key pw_expires_at (filter (\<lambda>r. pw_expires_at r \<le> now) (pt_receipts (db_push (rs_db s))))))"]
    by (intro other shrinks_direct direct_cursors) (auto simp: direct_def batch_push_receipts_def Let_def delete_receipts_rows)
  show "int (work pass cutoff (fst (direct (batch_outbox now l) s))) + snd (direct (batch_outbox now l) s) \<le> int (work pass cutoff s)"
    using filtered_less [OF mset_page, of l "\<lambda>r. (ob_created_at r, ob_id r)" "\<lambda>r. ob_created_at r < now \<and> \<not> live r" "ot_rows (db_outbox (rs_db s))"
      "\<lambda>r. ob_id r \<in> ob_id ` set (take l (sort_key (\<lambda>r. (ob_created_at r, ob_id r)) (filter (\<lambda>r. ob_created_at r < now \<and> \<not> live r) (ot_rows (db_outbox (rs_db s))))))"]
    by (intro other shrinks_direct direct_cursors) (auto simp: direct_def batch_outbox_def Let_def)
  show "int (work pass cutoff (fst (direct (batch_backoff now l) s))) + snd (direct (batch_backoff now l) s) \<le> int (work pass cutoff s)"
  proof -
    let ?ks = "take l (sort (map fst (filter (\<lambda>q. snd q \<le> now) (ot_backoff (db_outbox (rs_db s))))))"
    let ?b = "ot_backoff (db_outbox (rs_db s))"
    have "mset ?ks \<subseteq># mset (map fst ?b)"
    proof -
      have "mset ?ks \<subseteq># mset (sort (map fst (filter (\<lambda>q. snd q \<le> now) ?b)))" by (rule mset_take)
      also have "\<dots> \<subseteq># mset (map fst ?b)" by (simp add: image_mset_subseteq_mono multiset_filter_subset)
      finally show ?thesis .
    qed
    from filtered_less [OF this, of "\<lambda>k. k \<in> set ?ks"] have "length (filter (\<lambda>q. fst q \<notin> set ?ks) ?b) + length ?ks \<le> length ?b"
      by (simp add: filter_map comp_def)
    then show ?thesis by (intro other shrinks_direct direct_cursors) (auto simp: direct_def batch_backoff_def Let_def)
  qed
  show "int (work pass cutoff (fst (direct (batch_streams l) s))) + snd (direct (batch_streams l) s) \<le> int (work pass cutoff s)"
  proof -
    let ?t = "db_outbox (rs_db s)"
    let ?xs = "filter (\<lambda>x. \<not> list_ex (\<lambda>r. stream_key r = row_key x) (ot_rows ?t)) (ot_streams ?t)"
    have "mset (take l ?xs) \<subseteq># mset (ot_streams ?t)"
      by (rule subset_mset.order_trans [OF mset_take]) (simp add: multiset_filter_subset)
    from filtered_less [OF this, of "\<lambda>x. row_key x \<in> row_key ` set (take l ?xs)"]
    have "length (filter (\<lambda>x. row_key x \<notin> set (take l (map row_key ?xs))) (ot_streams ?t)) + length (take l (map row_key ?xs)) \<le> length (ot_streams ?t)"
      by (simp add: take_map)
    then show ?thesis by (intro other shrinks_direct direct_cursors) (auto simp: direct_def batch_streams_def Let_def)
  qed
qed

lemma sweep_cursors:
  "sweep_events ks s = Inr s' \<Longrightarrow> cursors s' = cursors s" "sweep_observations is s = Inr s' \<Longrightarrow> cursors s' = cursors s"
  "sweep_watches ws s = Inr s' \<Longrightarrow> cursors s' = cursors s" "sweep_revisions rs s = Inr s' \<Longrightarrow> cursors s' = cursors s"
  "sweep_destinations rs s = Inr s' \<Longrightarrow> cursors s' = cursors s"
  by (auto simp: cursors_def sweep_events_def delete_events_def sweep_observations_def sweep_watches_def sweep_revisions_def sweep_destinations_def
      Let_def split: if_splits)

lemma scan_cursors:
  assumes "scanRetentionFamily z rows sweep pass cutoff limit saved s = Inr (s', c, n)" "\<And>ks s'. sweep ks s = Inr s' \<Longrightarrow> cursors s' = cursors s"
  shows "cursors s' = cursors s"
  using assms(1) by (cases rule: scan_elim) (auto dest: assms(2))

text \<open>Each family moves its own cursor only.\<close>

lemma family_cursors:
  "family_events pass cutoff limit s = Inr (s', n) \<Longrightarrow>
    rs_observations s' = rs_observations s \<and> rs_watches s' = rs_watches s \<and> rs_revisions s' = rs_revisions s \<and> rs_destinations s' = rs_destinations s"
  "family_observations pass cutoff limit s = Inr (s', n) \<Longrightarrow>
    rs_events s' = rs_events s \<and> rs_watches s' = rs_watches s \<and> rs_revisions s' = rs_revisions s \<and> rs_destinations s' = rs_destinations s"
  "family_watches pass cutoff limit s = Inr (s', n) \<Longrightarrow>
    rs_events s' = rs_events s \<and> rs_observations s' = rs_observations s \<and> rs_revisions s' = rs_revisions s \<and> rs_destinations s' = rs_destinations s"
  "family_revisions pass cutoff limit s = Inr (s', n) \<Longrightarrow>
    rs_events s' = rs_events s \<and> rs_observations s' = rs_observations s \<and> rs_watches s' = rs_watches s \<and> rs_destinations s' = rs_destinations s"
  "family_destinations pass cutoff limit s = Inr (s', n) \<Longrightarrow>
    rs_events s' = rs_events s \<and> rs_observations s' = rs_observations s \<and> rs_watches s' = rs_watches s \<and> rs_revisions s' = rs_revisions s"
  by (erule fam_events.step_elim fam_observations.step_elim fam_watches.step_elim fam_revisions.step_elim fam_destinations.step_elim,
      drule scan_cursors, erule sweep_cursors, simp add: cursors_def)+

lemma work_family:
  "family_events pass cutoff limit s = Inr (s', n) \<Longrightarrow> shrinks s s' \<and> 0 \<le> n \<and> int (work pass cutoff s') + n \<le> int (work pass cutoff s)"
  "family_observations pass cutoff limit s = Inr (s', n) \<Longrightarrow> shrinks s s' \<and> 0 \<le> n \<and> int (work pass cutoff s') + n \<le> int (work pass cutoff s)"
  "family_watches pass cutoff limit s = Inr (s', n) \<Longrightarrow> shrinks s s' \<and> 0 \<le> n \<and> int (work pass cutoff s') + n \<le> int (work pass cutoff s)"
  "family_revisions pass cutoff limit s = Inr (s', n) \<Longrightarrow> shrinks s s' \<and> 0 \<le> n \<and> int (work pass cutoff s') + n \<le> int (work pass cutoff s)"
  "family_destinations pass cutoff limit s = Inr (s', n) \<Longrightarrow> shrinks s s' \<and> 0 \<le> n \<and> int (work pass cutoff s') + n \<le> int (work pass cutoff s)"
proof -
  show "family_events pass cutoff limit s = Inr (s', n) \<Longrightarrow> shrinks s s' \<and> 0 \<le> n \<and> int (work pass cutoff s') + n \<le> int (work pass cutoff s)"
    using fam_events.progress [of pass cutoff limit s s' n] shrinks_lengths [of s s'] untouched [of s s' pass cutoff] family_cursors(1) [of pass cutoff limit s s' n]
    by (simp add: work_def)
  show "family_observations pass cutoff limit s = Inr (s', n) \<Longrightarrow> shrinks s s' \<and> 0 \<le> n \<and> int (work pass cutoff s') + n \<le> int (work pass cutoff s)"
    using fam_observations.progress [of pass cutoff limit s s' n] shrinks_lengths [of s s'] untouched [of s s' pass cutoff] family_cursors(2) [of pass cutoff limit s s' n]
    by (simp add: work_def)
  show "family_watches pass cutoff limit s = Inr (s', n) \<Longrightarrow> shrinks s s' \<and> 0 \<le> n \<and> int (work pass cutoff s') + n \<le> int (work pass cutoff s)"
    using fam_watches.progress [of pass cutoff limit s s' n] shrinks_lengths [of s s'] untouched [of s s' pass cutoff] family_cursors(3) [of pass cutoff limit s s' n]
    by (simp add: work_def)
  show "family_revisions pass cutoff limit s = Inr (s', n) \<Longrightarrow> shrinks s s' \<and> 0 \<le> n \<and> int (work pass cutoff s') + n \<le> int (work pass cutoff s)"
    using fam_revisions.progress [of pass cutoff limit s s' n] shrinks_lengths [of s s'] untouched [of s s' pass cutoff] family_cursors(4) [of pass cutoff limit s s' n]
    by (simp add: work_def)
  show "family_destinations pass cutoff limit s = Inr (s', n) \<Longrightarrow> shrinks s s' \<and> 0 \<le> n \<and> int (work pass cutoff s') + n \<le> int (work pass cutoff s)"
    using fam_destinations.progress [of pass cutoff limit s s' n] shrinks_lengths [of s s'] untouched [of s s' pass cutoff] family_cursors(5) [of pass cutoff limit s s' n]
    by (simp add: work_def)
qed

text \<open>A relation that every part of a batch has, the batch has.\<close>

lemma families_elim:
  assumes "families pass cutoff limit s = Inr (s', n)"
  obtains s1 n1 s2 n2 s3 n3 s4 n4 n5 where "family_events pass cutoff limit s = Inr (s1, n1)" "family_observations pass cutoff limit s1 = Inr (s2, n2)"
    "family_watches pass cutoff limit s2 = Inr (s3, n3)" "family_revisions pass cutoff limit s3 = Inr (s4, n4)"
    "family_destinations pass cutoff limit s4 = Inr (s', n5)" "n = n1 + n2 + n3 + n4 + n5"
  using assms unfolding families_def by (elim bindE_pairE) auto

lemma RetainBatch_elim:
  assumes "RetainBatch cutoff now limit pass s = Inr (s', n)"
  obtains s1 n1 s2 n2 s3 n3 s4 n4 s5 n5 n6 where "1 \<le> limit" "limit \<le> 256" "pass \<noteq> ''''" "length pass \<le> 128"
    "direct (batch_input_receipts (timestamp now) (nat limit)) s = (s1, n1)" "direct (batch_push_receipts (timestamp now) (nat limit)) s1 = (s2, n2)"
    "direct (batch_backoff (timestamp now) (nat limit)) s2 = (s3, n3)" "direct (batch_outbox (timestamp cutoff) (nat limit)) s3 = (s4, n4)"
    "families pass (timestamp cutoff) (nat limit) s4 = Inr (s5, n5)" "direct (batch_streams (nat limit)) s5 = (s', n6)"
    "n = n1 + n2 + n3 + n4 + n5 + n6"
proof -
  let ?l = "nat limit"
  obtain s1 n1 where 1: "direct (batch_input_receipts (timestamp now) ?l) s = (s1, n1)" by fastforce
  obtain s2 n2 where 2: "direct (batch_push_receipts (timestamp now) ?l) s1 = (s2, n2)" by fastforce
  obtain s3 n3 where 3: "direct (batch_backoff (timestamp now) ?l) s2 = (s3, n3)" by fastforce
  obtain s4 n4 where 4: "direct (batch_outbox (timestamp cutoff) ?l) s3 = (s4, n4)" by fastforce
  have g: "\<not> (limit < 1 \<or> limit > 256 \<or> pass = '''' \<or> length pass > 128)"
    and b: "bindE (families pass (timestamp cutoff) ?l s4) (\<lambda>(s5, n5). case direct (batch_streams ?l) s5 of (s6, n6) \<Rightarrow> Inr (s6, n1 + n2 + n3 + n4 + n5 + n6)) = Inr (s', n)"
    using assms unfolding RetainBatch_def Let_def 1 2 3 4 prod.case by (auto elim!: guardE)
  from b obtain s5 n5 where 5: "families pass (timestamp cutoff) ?l s4 = Inr (s5, n5)"
    "(case direct (batch_streams ?l) s5 of (s6, n6) \<Rightarrow> Inr (s6, n1 + n2 + n3 + n4 + n5 + n6)) = (Inr (s', n) :: (ret_state \<times> int) result)"
    by (rule bindE_pairE)
  obtain s6 n6 where 6: "direct (batch_streams ?l) s5 = (s6, n6)" by fastforce
  show thesis using that [OF _ _ _ _ 1 2 3 4 5(1)] 5(2) 6 g by simp
qed

lemma direct_counts:
  "0 \<le> snd (direct (batch_input_receipts now l) s)" "0 \<le> snd (direct (batch_push_receipts now l) s)" "0 \<le> snd (direct (batch_backoff now l) s)"
  "0 \<le> snd (direct (batch_outbox now l) s)" "0 \<le> snd (direct (batch_streams l) s)"
  by (simp_all add: direct_def batch_input_receipts_def batch_push_receipts_def batch_backoff_def batch_outbox_def batch_streams_def Let_def)

lemma families_progress:
  assumes "families pass cutoff limit s = Inr (s', n)"
  shows "shrinks s s'" "0 \<le> n" "int (work pass cutoff s') + n \<le> int (work pass cutoff s)"
proof -
  obtain s1 n1 s2 n2 s3 n3 s4 n4 n5 where f: "family_events pass cutoff limit s = Inr (s1, n1)" "family_observations pass cutoff limit s1 = Inr (s2, n2)"
    "family_watches pass cutoff limit s2 = Inr (s3, n3)" "family_revisions pass cutoff limit s3 = Inr (s4, n4)"
    "family_destinations pass cutoff limit s4 = Inr (s', n5)" "n = n1 + n2 + n3 + n4 + n5"
    using assms by (rule families_elim)
  note w = work_family(1) [OF f(1)] work_family(2) [OF f(2)] work_family(3) [OF f(3)] work_family(4) [OF f(4)] work_family(5) [OF f(5)]
  show "shrinks s s'" using w shrinks_trans by blast
  show "0 \<le> n" "int (work pass cutoff s') + n \<le> int (work pass cutoff s)" using w f(6) by linarith+
qed

lemma batch_progress:
  assumes "RetainBatch cutoff now limit pass s = Inr (s', n)"
  shows "shrinks s s'" "0 \<le> n" "int (work pass (timestamp cutoff) s') + n \<le> int (work pass (timestamp cutoff) s)"
proof -
  let ?l = "nat limit"
  obtain s1 n1 s2 n2 s3 n3 s4 n4 s5 n5 n6 where s: "direct (batch_input_receipts (timestamp now) ?l) s = (s1, n1)"
    "direct (batch_push_receipts (timestamp now) ?l) s1 = (s2, n2)" "direct (batch_backoff (timestamp now) ?l) s2 = (s3, n3)"
    "direct (batch_outbox (timestamp cutoff) ?l) s3 = (s4, n4)" "families pass (timestamp cutoff) ?l s4 = Inr (s5, n5)"
    "direct (batch_streams ?l) s5 = (s', n6)" and n: "n = n1 + n2 + n3 + n4 + n5 + n6"
    using assms by (rule RetainBatch_elim)
  note f = families_progress [OF s(5)]
  have "shrinks s s1" "shrinks s1 s2" "shrinks s2 s3" "shrinks s3 s4" "shrinks s5 s'"
    using shrinks_direct(1) [of s "timestamp now" ?l] shrinks_direct(2) [of s1 "timestamp now" ?l] shrinks_direct(3) [of s2 "timestamp now" ?l]
      shrinks_direct(4) [of s3 "timestamp cutoff" ?l] shrinks_direct(5) [of s5 ?l] by (simp_all add: s)
  then show "shrinks s s'" using f(1) shrinks_trans by blast
  have "0 \<le> n1" "0 \<le> n2" "0 \<le> n3" "0 \<le> n4" "0 \<le> n6"
    using direct_counts(1) [of "timestamp now" ?l s] direct_counts(2) [of "timestamp now" ?l s1] direct_counts(3) [of "timestamp now" ?l s2]
      direct_counts(4) [of "timestamp cutoff" ?l s3] direct_counts(5) [of ?l s5] by (simp_all add: s)
  then show "0 \<le> n" using f(2) by (simp add: n)
  show "int (work pass (timestamp cutoff) s') + n \<le> int (work pass (timestamp cutoff) s)"
    using work_direct(1) [of pass "timestamp cutoff" "timestamp now" ?l s] work_direct(2) [of pass "timestamp cutoff" "timestamp now" ?l s1]
      work_direct(3) [of pass "timestamp cutoff" "timestamp now" ?l s2] work_direct(4) [of pass "timestamp cutoff" "timestamp cutoff" ?l s3]
      work_direct(5) [of pass "timestamp cutoff" ?l s5] f(3) by (simp add: s n)
qed

text \<open>A loop over batches that do work ends.\<close>

lemma retain_loop_ends:
  assumes "\<And>s s' n. I s \<Longrightarrow> batch s = Inr (s', n) \<Longrightarrow> I s' \<and> 0 \<le> n \<and> int (m s') + n \<le> int (m s)"
  shows "I s \<Longrightarrow> \<exists>s' r. retain_loop batch s = Some (s', r) \<and> I s'"
proof (induction "m s" arbitrary: s rule: less_induct)
  case less
  show ?case
  proof (cases "batch s")
    case (Inl e)
    then show ?thesis using less.prems by (simp add: retain_loop.simps)
  next
    case (Inr p)
    obtain s1 n where p: "p = (s1, n)" by (cases p)
    note b = assms [OF less.prems Inr [unfolded p]]
    show ?thesis
    proof (cases "n = 0")
      case True
      then show ?thesis using b Inr p by (simp add: retain_loop.simps)
    next
      case False
      then have "m s1 < m s" using b by linarith
      then obtain s' r where "retain_loop batch s1 = Some (s', r)" "I s'" using less.hyps b by blast
      then show ?thesis using Inr p False by (subst retain_loop.simps) simp
    qed
  qed
qed

end
