(* ===== verification/Retention_Safety.thy ===== *)
theory Retention_Safety
  imports Retention_Laws
begin

text \<open>
  Maintenance removes only what nothing needs and keeps the integrity of the database, so that it
  may run between any steps of the runtime; and a transfer that is left behind stops it.
\<close>

section \<open>What is needed\<close>

definition pinned :: "db \<Rightarrow> pin \<Rightarrow> bool" where
  "pinned d p \<longleftrightarrow> (\<exists>q \<in> set (db_pins d). snd (fst q) = p)"

text \<open>State, timers and pins stay. So do unfinished or recent deliveries, recent events and the events of
  such a delivery or of an entity, the evidence of every event that stays, recent observations and those
  an entity refers to, watches that are not deleted, and receipts that have not expired.\<close>

definition keeps :: "int \<Rightarrow> int \<Rightarrow> db \<Rightarrow> db \<Rightarrow> bool" where
  "keeps cutoff now d d' \<longleftrightarrow>
     db_entities d' = db_entities d \<and> db_pins d' = db_pins d \<and> db_timers d' = db_timers d \<and>
     (\<forall>r \<in> set (ot_rows (db_outbox d)). live r \<or> cutoff \<le> ob_created_at r \<longrightarrow> r \<in> set (ot_rows (db_outbox d'))) \<and>
     (\<forall>q \<in> set (db_events d). cutoff \<le> timestamp (e_at (snd q)) \<or> pinned d (''event'', e_id (snd q)) \<or>
        (\<exists>r \<in> set (ot_rows (db_outbox d)). live r \<and> ob_event_id r = e_id (snd q)) \<longrightarrow> q \<in> set (db_events d')) \<and>
     (\<forall>p \<in> set (db_evidence d). fst p \<in> set (event_ids d') \<longrightarrow> p \<in> set (db_evidence d')) \<and>
     (\<forall>q \<in> set (db_observations d). cutoff \<le> oo_accepted_at (snd q) \<or> pinned d (''input'', show_int (fst q)) \<longrightarrow> q \<in> set (db_observations d')) \<and>
     (\<forall>q \<in> set (db_watches d). wt_status (snd q) \<noteq> ''deleted'' \<longrightarrow> q \<in> set (db_watches d')) \<and>
     (\<forall>q \<in> set (db_receipts d). now < rc_expires_at (snd q) \<longrightarrow> q \<in> set (db_receipts d')) \<and>
     (\<forall>r \<in> set (pt_receipts (db_push d)). now < pw_expires_at r \<longrightarrow> r \<in> set (pt_receipts (db_push d'))) \<and>
     set (event_ids d') \<subseteq> set (event_ids d)"

lemma keeps_refl [simp]: "keeps cutoff now d d"
  by (simp add: keeps_def)

lemma keepsD:
  assumes "keeps cutoff now d d'"
  shows "db_entities d' = db_entities d" "db_pins d' = db_pins d" "db_timers d' = db_timers d"
    "r \<in> set (ot_rows (db_outbox d)) \<Longrightarrow> live r \<or> cutoff \<le> ob_created_at r \<Longrightarrow> r \<in> set (ot_rows (db_outbox d'))"
    "q \<in> set (db_events d) \<Longrightarrow> cutoff \<le> timestamp (e_at (snd q)) \<or> pinned d (''event'', e_id (snd q)) \<or>
        (\<exists>r \<in> set (ot_rows (db_outbox d)). live r \<and> ob_event_id r = e_id (snd q)) \<Longrightarrow> q \<in> set (db_events d')"
    "p \<in> set (db_evidence d) \<Longrightarrow> fst p \<in> set (event_ids d') \<Longrightarrow> p \<in> set (db_evidence d')"
    "x \<in> set (db_observations d) \<Longrightarrow> cutoff \<le> oo_accepted_at (snd x) \<or> pinned d (''input'', show_int (fst x)) \<Longrightarrow> x \<in> set (db_observations d')"
    "w \<in> set (db_watches d) \<Longrightarrow> wt_status (snd w) \<noteq> ''deleted'' \<Longrightarrow> w \<in> set (db_watches d')"
    "y \<in> set (db_receipts d) \<Longrightarrow> now < rc_expires_at (snd y) \<Longrightarrow> y \<in> set (db_receipts d')"
    "u \<in> set (pt_receipts (db_push d)) \<Longrightarrow> now < pw_expires_at u \<Longrightarrow> u \<in> set (pt_receipts (db_push d'))"
    "set (event_ids d') \<subseteq> set (event_ids d)"
  using assms unfolding keeps_def by blast+

lemma pinned_same: "db_pins d' = db_pins d \<Longrightarrow> pinned d' p = pinned d p"
  by (simp add: pinned_def)

lemma keeps_trans:
  assumes "keeps cutoff now a b" "keeps cutoff now b c"
  shows "keeps cutoff now a c"
  unfolding keeps_def
proof (intro conjI ballI impI)
  note k = keepsD [OF assms(1)] and l = keepsD [OF assms(2)]
  show "db_entities c = db_entities a" "db_pins c = db_pins a" "db_timers c = db_timers a"
    using k(1-3) l(1-3) by simp_all
  show "set (event_ids c) \<subseteq> set (event_ids a)" using k(11) l(11) by (rule subset_trans [rotated])
  show "r \<in> set (ot_rows (db_outbox c))" if "r \<in> set (ot_rows (db_outbox a))" "live r \<or> cutoff \<le> ob_created_at r" for r
    using l(4) [OF k(4) [OF that] that(2)] .
  show "q \<in> set (db_events c)" if q: "q \<in> set (db_events a)" "cutoff \<le> timestamp (e_at (snd q)) \<or> pinned a (''event'', e_id (snd q)) \<or>
      (\<exists>r \<in> set (ot_rows (db_outbox a)). live r \<and> ob_event_id r = e_id (snd q))" for q
  proof (rule l(5) [OF k(5) [OF q]])
    show "cutoff \<le> timestamp (e_at (snd q)) \<or> pinned b (''event'', e_id (snd q)) \<or>
      (\<exists>r \<in> set (ot_rows (db_outbox b)). live r \<and> ob_event_id r = e_id (snd q))"
      using q(2) k(4) unfolding pinned_same [OF k(2)] by blast
  qed
  show "p \<in> set (db_evidence c)" if p: "p \<in> set (db_evidence a)" "fst p \<in> set (event_ids c)" for p
    using l(6) [OF k(6) [OF p(1) subsetD [OF l(11) p(2)]] p(2)] .
  show "q \<in> set (db_observations c)" if "q \<in> set (db_observations a)" "cutoff \<le> oo_accepted_at (snd q) \<or> pinned a (''input'', show_int (fst q))" for q
    using l(7) [OF k(7) [OF that]] that(2) unfolding pinned_same [OF k(2)] by blast
  show "q \<in> set (db_watches c)" if "q \<in> set (db_watches a)" "wt_status (snd q) \<noteq> ''deleted''" for q using l(8) [OF k(8) [OF that] that(2)] .
  show "q \<in> set (db_receipts c)" if "q \<in> set (db_receipts a)" "now < rc_expires_at (snd q)" for q using l(9) [OF k(9) [OF that] that(2)] .
  show "r \<in> set (pt_receipts (db_push c))" if "r \<in> set (pt_receipts (db_push a))" "now < pw_expires_at r" for r using l(10) [OF k(10) [OF that] that(2)] .
qed

definition safe :: "int \<Rightarrow> int \<Rightarrow> ret_state \<Rightarrow> ret_state \<Rightarrow> bool" where
  "safe cutoff now s s' \<longleftrightarrow> database_ok (rs_db s') \<and> keeps cutoff now (rs_db s) (rs_db s')"

lemma safe_trans: "safe cutoff now a b \<Longrightarrow> safe cutoff now b c \<Longrightarrow> safe cutoff now a c"
  unfolding safe_def using keeps_trans by blast

section \<open>Direct deletions\<close>

lemma page_keys:
  assumes "k \<in> f ` set (take n (sort_key g (filter Q xs)))"
  obtains x where "x \<in> set xs" "Q x" "f x = k"
  using assms page_subset [of n g Q xs] by blast

lemma safe_input_receipts:
  assumes "database_ok (rs_db s)"
  shows "safe cutoff now s (fst (direct (batch_input_receipts now l) s))"
proof -
  let ?d = "rs_db s"
  let ?P = "\<lambda>q. fst q \<notin> fst ` set (take l (sort_key (\<lambda>q. rc_expires_at (snd q)) (filter (\<lambda>q. rc_expires_at (snd q) \<le> now) (db_receipts ?d))))"
  have d': "rs_db (fst (direct (batch_input_receipts now l) s)) = ?d\<lparr>db_receipts := filter ?P (db_receipts ?d)\<rparr>"
    by (simp add: direct_def batch_input_receipts_def Let_def)
  have ok: "store_ok ?d" "tbl_ok (db_receipts ?d)" using assms by (auto simp: database_ok_def store_ok_def keys_ok_def)
  have "store_ok (?d\<lparr>db_timers := db_timers ?d, db_receipts := filter ?P (db_receipts ?d)\<rparr>)"
    using ok by (intro store_ok_fewer) (auto simp: store_ok_def keys_ok_def tbl_filter_ok)
  then have "database_ok (?d\<lparr>db_receipts := filter ?P (db_receipts ?d)\<rparr>)" using assms by (simp add: database_ok_def)
  moreover have "?P q" if q: "q \<in> set (db_receipts ?d)" "now < rc_expires_at (snd q)" for q
  proof
    assume "fst q \<in> fst ` set (take l (sort_key (\<lambda>q. rc_expires_at (snd q)) (filter (\<lambda>q. rc_expires_at (snd q) \<le> now) (db_receipts ?d))))"
    then obtain x where x: "x \<in> set (db_receipts ?d)" "rc_expires_at (snd x) \<le> now" "fst x = fst q" by (rule page_keys)
    have "snd x = snd q" using x(1,3) q(1) tbl_get_iff [OF ok(2)] by (metis option.inject prod.collapse)
    then show False using x(2) q(2) by simp
  qed
  ultimately show ?thesis unfolding safe_def d' keeps_def by (simp add: pinned_def)
qed

lemma safe_push_receipts:
  assumes "database_ok (rs_db s)"
  shows "safe cutoff now s (fst (direct (batch_push_receipts now l) s))"
proof -
  let ?d = "rs_db s"
  let ?P = "\<lambda>r. pw_key r \<in> pw_key ` set (take l (sort_key pw_expires_at (filter (\<lambda>r. pw_expires_at r \<le> now) (pt_receipts (db_push ?d)))))"
  have d': "rs_db (fst (direct (batch_push_receipts now l) s)) = ?d\<lparr>db_push := delete_receipts ?P (db_push ?d)\<rparr>"
    by (simp add: direct_def batch_push_receipts_def Let_def)
  have p: "push_ok (db_push ?d)" using assms by (simp add: database_ok_def)
  have "database_ok (?d\<lparr>db_push := delete_receipts ?P (db_push ?d)\<rparr>)" using assms database_ok_push delete_receipts_ok [OF p] by blast
  moreover have "\<not> ?P r" if r: "r \<in> set (pt_receipts (db_push ?d))" "now < pw_expires_at r" for r
  proof
    assume "?P r"
    then obtain x where x: "x \<in> set (pt_receipts (db_push ?d))" "pw_expires_at x \<le> now" "pw_key x = pw_key r" by (rule page_keys)
    have "inj_on pw_key (set (pt_receipts (db_push ?d)))" using p by (simp add: push_ok_def distinct_map)
    then have "x = r" using x(1,3) r(1) by (simp add: inj_on_def)
    then show False using x(2) r(2) by simp
  qed
  ultimately show ?thesis unfolding safe_def d' keeps_def by (simp add: pinned_def delete_receipts_rows)
qed

lemma whole_outbox:
  assumes "database_ok d" "tables_ok t" "set (ot_rows t) \<subseteq> set (ot_rows (db_outbox d))"
  shows "database_ok (d\<lparr>db_outbox := t\<rparr>)"
  using assms by (intro whole_queue) auto

lemma safe_backoff:
  assumes "database_ok (rs_db s)"
  shows "safe cutoff now s (fst (direct (batch_backoff now' l) s))"
proof -
  have "database_ok ((rs_db s)\<lparr>db_outbox := (db_outbox (rs_db s))\<lparr>ot_backoff := b\<rparr>\<rparr>)" for b
    using assms by (intro whole_outbox)
      (auto simp: database_ok_def tables_ok_def rows_ok_def streams_ok_def stream_keys_def leases_ok_def references_ok_def has_live_def)
  then show ?thesis unfolding safe_def keeps_def by (simp add: direct_def batch_backoff_def Let_def pinned_def)
qed

lemma tables_ok_rows:
  assumes "tables_ok t" "\<forall>r \<in> set (ot_rows t). live r \<longrightarrow> P r"
  shows "tables_ok (t\<lparr>ot_rows := filter P (ot_rows t), ot_attempts := as\<rparr>)" (is "tables_ok ?t")
proof -
  have live: "has_live ?t k = has_live t k" for k using assms(2) by (auto simp: has_live_def list_ex_iff)
  have "rows_ok ?t" using assms(1) by (simp add: tables_ok_def rows_ok_def sorted_wrt_map sorted_wrt_filter)
  moreover have "streams_ok ?t" using assms(1) by (auto simp: tables_ok_def streams_ok_def live stream_keys_def)
  moreover have "leases_ok ?t" "references_ok ?t" using assms(1) by (auto simp: tables_ok_def leases_ok_def references_ok_def)
  ultimately show ?thesis by (simp add: tables_ok_def)
qed

lemma safe_outbox:
  assumes "database_ok (rs_db s)"
  shows "safe cutoff now s (fst (direct (batch_outbox cutoff l) s))"
proof -
  let ?d = "rs_db s"
  let ?t = "db_outbox ?d"
  let ?ks = "ob_id ` set (take l (sort_key (\<lambda>r. (ob_created_at r, ob_id r)) (filter (\<lambda>r. ob_created_at r < cutoff \<and> \<not> live r) (ot_rows ?t))))"
  let ?t' = "?t\<lparr>ot_rows := filter (\<lambda>r. ob_id r \<notin> ?ks) (ot_rows ?t), ot_attempts := filter (\<lambda>a. at_outbox_id a \<notin> ?ks) (ot_attempts ?t)\<rparr>"
  have d': "rs_db (fst (direct (batch_outbox cutoff l) s)) = ?d\<lparr>db_outbox := ?t'\<rparr>"
    by (simp add: direct_def batch_outbox_def Let_def)
  have ok: "tables_ok ?t" using assms by (simp add: database_ok_def)
  have "sorted_wrt (<) (map ob_id (ot_rows ?t))" using ok by (simp add: tables_ok_def rows_ok_def)
  then have inj: "inj_on ob_id (set (ot_rows ?t))" by (metis distinct_map strict_sorted_iff)
  have keep: "ob_id r \<notin> ?ks" if r: "r \<in> set (ot_rows ?t)" "live r \<or> cutoff \<le> ob_created_at r" for r
  proof
    assume "ob_id r \<in> ?ks"
    then obtain x where x: "x \<in> set (ot_rows ?t)" "ob_created_at x < cutoff \<and> \<not> live x" "ob_id x = ob_id r" by (rule page_keys)
    then show False using inj_onD [OF inj x(3) x(1) r(1)] r(2) by auto
  qed
  have "database_ok (?d\<lparr>db_outbox := ?t'\<rparr>)" by (rule whole_outbox [OF assms]) (use tables_ok_rows [OF ok] keep in auto)
  then show ?thesis unfolding safe_def d' keeps_def using keep by (simp add: pinned_def)
qed

lemma safe_streams:
  assumes "database_ok (rs_db s)"
  shows "safe cutoff now s (fst (direct (batch_streams l) s))"
proof -
  let ?t = "db_outbox (rs_db s)"
  let ?ks = "set (take l (map row_key (filter (\<lambda>x. \<not> list_ex (\<lambda>r. stream_key r = row_key x) (ot_rows ?t)) (ot_streams ?t))))"
  let ?t' = "?t\<lparr>ot_streams := filter (\<lambda>x. row_key x \<notin> ?ks) (ot_streams ?t)\<rparr>"
  have ks: "stream_key r \<noteq> k" if "k \<in> ?ks" "r \<in> set (ot_rows ?t)" for k r
  proof -
    have "k \<in> set (map row_key (filter (\<lambda>x. \<not> list_ex (\<lambda>r. stream_key r = row_key x) (ot_rows ?t)) (ot_streams ?t)))"
      using that(1) by (rule in_set_takeD)
    then show ?thesis using that(2) by (auto simp: list_ex_iff)
  qed
  have ok: "tables_ok ?t" using assms by (simp add: database_ok_def)
  have "streams_ok ?t'"
    unfolding streams_ok_def
  proof (intro conjI ballI impI)
    show "distinct (stream_keys ?t')" using ok by (simp add: tables_ok_def streams_ok_def stream_keys_def distinct_map_filter)
    show "sr_active x = has_live ?t' (row_key x)" if "x \<in> set (ot_streams ?t')" for x
      using that ok by (auto simp: tables_ok_def streams_ok_def has_live_def)
    show "stream_key r \<in> set (stream_keys ?t')" if r: "r \<in> set (ot_rows ?t')" "live r" for r
    proof -
      have "stream_key r \<in> set (stream_keys ?t)" using ok r by (auto simp: tables_ok_def streams_ok_def)
      moreover have "stream_key r \<notin> ?ks"
      proof
        assume k: "stream_key r \<in> ?ks"
        have "r \<in> set (ot_rows ?t)" using r(1) by simp
        from ks [OF k this] show False by simp
      qed
      ultimately show ?thesis by (auto simp: stream_keys_def)
    qed
  qed
  then have "tables_ok ?t'" using ok by (simp add: tables_ok_def rows_ok_def leases_ok_def references_ok_def)
  then have "database_ok ((rs_db s)\<lparr>db_outbox := ?t'\<rparr>)" using assms by (intro whole_outbox) auto
  then show ?thesis unfolding safe_def keeps_def by (simp add: direct_def batch_streams_def Let_def pinned_def)
qed

section \<open>Sweeps\<close>

text \<open>A page of a family names only rows older than the cutoff.\<close>

definition old_page :: "int \<Rightarrow> (int \<times> 'k) list \<Rightarrow> 'k list \<Rightarrow> bool" where
  "old_page cutoff rows ks \<longleftrightarrow> (\<forall>k \<in> set ks. \<exists>t. (t, k) \<in> set rows \<and> t < cutoff)"

lemma recent_row:
  fixes xs :: "(int \<times> 'a) list"
  assumes "old_page cutoff (map (\<lambda>(n, e). (f e, n)) (filter P xs)) ks" "sorted_wrt (<) (map fst xs)" "q \<in> set xs" "cutoff \<le> f (snd q)"
  shows "fst q \<notin> set ks"
proof
  assume "fst q \<in> set ks"
  then obtain x where x: "x \<in> set xs" "fst x = fst q" "f (snd x) < cutoff" using assms(1) by (fastforce simp: old_page_def)
  have "inj_on fst (set xs)" using assms(2) by (metis distinct_map strict_sorted_iff)
  then have "x = q" using x(1,2) assms(3) by (simp add: inj_on_def)
  then show False using x(3) assms(4) by simp
qed

lemma event_ids_filter:
  assumes "distinct (map (\<lambda>q. e_id (snd q)) xs)"
  shows "(\<lambda>q. e_id (snd q)) ` set (filter (\<lambda>q. \<not> P q) xs) = (\<lambda>q. e_id (snd q)) ` set xs - (\<lambda>q. e_id (snd q)) ` set (filter P xs)"
  using assms by (auto simp: distinct_map inj_on_def)

lemma safe_sweep_events:
  assumes ok: "database_ok (rs_db s)" and page: "old_page cutoff (event_rows s) ks" and s': "sweep_events ks s = Inr s'"
  shows "safe cutoff now s s'"
proof -
  let ?d = "rs_db s"
  let ?gone = "\<lambda>q :: int \<times> event. event_free ?d (snd q) \<and> fst q \<in> set ks"
  let ?ids = "(\<lambda>q. e_id (snd q)) ` set (filter ?gone (db_events ?d))"
  let ?d' = "?d\<lparr>db_events := filter (\<lambda>q. \<not> ?gone q) (db_events ?d), db_evidence := filter (\<lambda>p. fst p \<notin> ?ids) (db_evidence ?d),
    db_replays := filter (\<lambda>p. fst p \<notin> ?ids) (db_replays ?d)\<rparr>"
  have d': "rs_db s' = ?d'" using s' by (auto simp: sweep_events_def delete_events_def Let_def case_prod_beta')
  have st: "keys_ok ?d" "sequences_ok ?d" "rows_refer ?d" "events_refer ?d" "pins_ok ?d" using ok by (auto simp: database_ok_def store_ok_def)
  have ids: "set (event_ids ?d') = set (event_ids ?d) - ?ids"
    using event_ids_filter [of "db_events ?d" ?gone] st(2) by (simp add: sequences_ok_def)
  have used: "e \<notin> ?ids" if "\<exists>r \<in> set (ot_rows (db_outbox ?d)). ob_event_id r = e" for e
    using that by (auto simp: event_free_def list_ex_iff)
  have "events_refer ?d'"
    using st(4) used unfolding events_refer_def ids by auto
  moreover have "rows_refer ?d'" using st(3) by (simp add: rows_refer_def revision_known_def)
  moreover have "sequences_ok ?d'" using st(2) by (auto simp: sequences_ok_def sorted_wrt_map sorted_wrt_filter distinct_map_filter)
  moreover have "keys_ok ?d'" "pins_ok ?d'" using st(1,5) by (simp_all add: keys_ok_def pins_ok_def)
  ultimately have "database_ok ?d'" using ok by (simp add: database_ok_def store_ok_def)
  moreover have "\<not> ?gone q" if q: "q \<in> set (db_events ?d)" "cutoff \<le> timestamp (e_at (snd q)) \<or> pinned ?d (''event'', e_id (snd q)) \<or>
      (\<exists>r \<in> set (ot_rows (db_outbox ?d)). live r \<and> ob_event_id r = e_id (snd q))" for q
    using q(2)
  proof (elim disjE)
    assume "cutoff \<le> timestamp (e_at (snd q))"
    then have "fst q \<notin> set ks"
      using recent_row [of cutoff "\<lambda>e. timestamp (e_at e)" "\<lambda>_. True" "db_events ?d" ks q] page st(2) q(1) by (simp add: event_rows_def sequences_ok_def)
    then show ?thesis by simp
  next
    assume "pinned ?d (''event'', e_id (snd q))"
    then have "\<not> event_free ?d (snd q)" by (force simp: pinned_def event_free_def list_ex_iff)
    then show ?thesis by simp
  next
    assume "\<exists>r \<in> set (ot_rows (db_outbox ?d)). live r \<and> ob_event_id r = e_id (snd q)"
    then have "\<not> event_free ?d (snd q)" by (auto simp: event_free_def list_ex_iff)
    then show ?thesis by simp
  qed
  moreover have "fst p \<notin> ?ids" if "fst p \<in> set (event_ids ?d')" for p :: "string \<times> int" using that unfolding ids by simp
  moreover have "set (event_ids ?d') \<subseteq> set (event_ids ?d)" unfolding ids by blast
  ultimately show ?thesis unfolding safe_def d' keeps_def by simp
qed

text \<open>Deleting observations that neither an event nor an entity refers to.\<close>

lemma safe_fewer_observations:
  assumes ok: "database_ok d" and xs: "xs = filter (\<lambda>q. \<not> (observation_free d (fst q) \<and> P q)) (db_observations d)"
    and recent: "\<And>q. q \<in> set (db_observations d) \<Longrightarrow> cutoff \<le> oo_accepted_at (snd q) \<Longrightarrow> \<not> P q"
  shows "database_ok (d\<lparr>db_observations := xs\<rparr>) \<and> keeps cutoff now d (d\<lparr>db_observations := xs\<rparr>)"
proof
  let ?d' = "d\<lparr>db_observations := xs\<rparr>"
  have st: "keys_ok d" "sequences_ok d" "rows_refer d" "events_refer d" "pins_ok d" using ok by (auto simp: database_ok_def store_ok_def)
  have sub: "set xs \<subseteq> set (db_observations d)" by (simp add: xs)
  have "snd p \<in> fst ` set xs" if p: "p \<in> set (db_evidence d)" for p
  proof -
    obtain q where q: "q \<in> set (db_observations d)" "snd p = fst q" using st(4) p by (force simp: events_refer_def)
    moreover have "\<not> observation_free d (fst q)" using p q(2) by (force simp: observation_free_def list_ex_iff)
    ultimately show ?thesis by (auto simp: xs)
  qed
  then have "events_refer ?d'" using st(4) by (simp add: events_refer_def)
  moreover have "rows_refer ?d'" using st(3) sub by (auto simp: rows_refer_def revision_known_def)
  moreover have "sequences_ok ?d'" using st(2) by (auto simp: sequences_ok_def xs sorted_wrt_map sorted_wrt_filter)
  moreover have "keys_ok ?d'" "pins_ok ?d'" using st(1,5) by (simp_all add: keys_ok_def pins_ok_def)
  ultimately show "database_ok ?d'" using ok by (simp add: database_ok_def store_ok_def)
  have "q \<in> set xs" if q: "q \<in> set (db_observations d)" "cutoff \<le> oo_accepted_at (snd q) \<or> pinned d (''input'', show_int (fst q))" for q
  proof -
    have "\<not> P q \<or> \<not> observation_free d (fst q)"
      using q(2) recent [OF q(1)] by (force simp: pinned_def observation_free_def list_ex_iff)
    then show ?thesis using q(1) by (auto simp: xs)
  qed
  then show "keeps cutoff now d ?d'" by (simp add: keeps_def)
qed

lemma safe_sweep_observations:
  assumes ok: "database_ok (rs_db s)" and page: "old_page cutoff (observation_rows s) ks" and s': "sweep_observations ks s = Inr s'"
  shows "safe cutoff now s s'"
proof -
  have "rs_db s' = (rs_db s)\<lparr>db_observations := filter (\<lambda>q. \<not> (observation_free (rs_db s) (fst q) \<and> fst q \<in> set ks)) (db_observations (rs_db s))\<rparr>"
    using s' by (auto simp: sweep_observations_def Let_def case_prod_beta')
  moreover have "fst q \<notin> set ks" if "q \<in> set (db_observations (rs_db s))" "cutoff \<le> oo_accepted_at (snd q)" for q
    using recent_row [of cutoff oo_accepted_at "\<lambda>_. True" "db_observations (rs_db s)" ks q] page ok that
    by (simp add: observation_rows_def database_ok_def store_ok_def sequences_ok_def)
  ultimately show ?thesis unfolding safe_def using safe_fewer_observations [OF ok refl, of cutoff "\<lambda>q. fst q \<in> set ks" now] by simp
qed

lemma safe_sweep_logs:
  assumes ok: "database_ok (rs_db s)" and page: "old_page cutoff (log_rows i s) ks" and s': "sweep_logs ks s = Inr s'"
  shows "safe cutoff now s s'"
proof -
  obtain L where "rs_db s' = (rs_db s)\<lparr>db_observations := filter (\<lambda>q. \<not> (observation_free (rs_db s) (fst q) \<and> L (snd q) \<and> fst q \<in> set ks)) (db_observations (rs_db s))\<rparr>"
    using s' by (auto simp: sweep_logs_def Let_def case_prod_beta' conj_left_commute)
  moreover have "fst q \<notin> set ks" if "q \<in> set (db_observations (rs_db s))" "cutoff \<le> oo_accepted_at (snd q)" for q
    using recent_row [of cutoff oo_accepted_at "\<lambda>(_, r). oo_watch_id r = i" "db_observations (rs_db s)" ks q] page ok that
    by (simp add: log_rows_def database_ok_def store_ok_def sequences_ok_def)
  ultimately show ?thesis unfolding safe_def using safe_fewer_observations [OF ok refl, of cutoff "\<lambda>q. L (snd q) \<and> fst q \<in> set ks" now] by simp
qed

text \<open>Deleted watches of which nothing is left.\<close>

lemma safe_sweep_watches:
  assumes ok: "database_ok (rs_db s)" and s': "sweep_watches ks s = Inr s'"
  shows "safe cutoff now s s'"
proof -
  let ?d = "rs_db s"
  let ?gone = "removable_watch ?d ks"
  obtain ls where d': "rs_db s' = ?d\<lparr>db_watches := filter (\<lambda>q. \<not> ?gone q) (db_watches ?d), db_push := (db_push ?d)\<lparr>pt_last := ls\<rparr>\<rparr>" (is "_ = ?d'")
    using s' by (auto simp: sweep_watches_def Let_def split: if_splits)
  have st: "keys_ok ?d" "sequences_ok ?d" "rows_refer ?d" "events_refer ?d" "pins_ok ?d" using ok by (auto simp: database_ok_def store_ok_def)
  have stay: "i \<in> fst ` set (filter (\<lambda>q. \<not> ?gone q) (db_watches ?d))" if "i \<in> fst ` set (db_watches ?d)" "\<not> watch_free ?d i" for i
    using that by (auto simp: removable_watch_def image_iff)
  have t: "\<forall>r \<in> set (db_timers ?d). fst (fst r) \<in> fst ` set (filter (\<lambda>q. \<not> ?gone q) (db_watches ?d))"
  proof
    fix r assume r: "r \<in> set (db_timers ?d)"
    then have "\<not> watch_free ?d (fst (fst r))" by (force simp: watch_free_def list_ex_iff)
    then show "fst (fst r) \<in> fst ` set (filter (\<lambda>q. \<not> ?gone q) (db_watches ?d))" using stay st(3) r by (simp add: rows_refer_def)
  qed
  have c: "\<forall>r \<in> set (db_receipts ?d). fst (fst r) \<in> fst ` set (filter (\<lambda>q. \<not> ?gone q) (db_watches ?d))"
  proof
    fix r assume r: "r \<in> set (db_receipts ?d)"
    then have "\<not> watch_free ?d (fst (fst r))" by (force simp: watch_free_def list_ex_iff)
    then show "fst (fst r) \<in> fst ` set (filter (\<lambda>q. \<not> ?gone q) (db_watches ?d))" using stay st(3) r by (simp add: rows_refer_def)
  qed
  have "rows_refer ?d'" using st(3) t c unfolding rows_refer_def revision_known_def by simp
  moreover have "keys_ok ?d'" "sequences_ok ?d'" "events_refer ?d'" "pins_ok ?d'"
    using st by (simp_all add: keys_ok_def tbl_filter_ok sequences_ok_def events_refer_def pins_ok_def)
  moreover have "push_ok ((db_push ?d)\<lparr>pt_last := ls\<rparr>)" using ok by (auto simp: database_ok_def push_ok_def split: option.splits)
  ultimately have "database_ok ?d'" using ok by (simp add: database_ok_def store_ok_def)
  moreover have "\<not> ?gone q" if "wt_status (snd q) \<noteq> ''deleted''" for q using that by (simp add: removable_watch_def)
  ultimately show ?thesis unfolding safe_def d' keeps_def by simp
qed

lemma safe_sweep_revisions:
  assumes ok: "database_ok (rs_db s)" and s': "sweep_revisions ks s = Inr s'"
  shows "safe cutoff now s s'"
proof -
  let ?d = "rs_db s"
  let ?rs = "filter (\<lambda>q. \<not> (revision_free ?d (fst q) \<and> fst q \<in> set ks)) (db_revisions ?d)"
  let ?d' = "?d\<lparr>db_revisions := ?rs\<rparr>"
  have d': "rs_db s' = ?d'" using s' by (auto simp: sweep_revisions_def Let_def)
  have st: "keys_ok ?d" "sequences_ok ?d" "rows_refer ?d" "events_refer ?d" "pins_ok ?d" using ok by (auto simp: database_ok_def store_ok_def)
  have k: "revision_known ?d' i rv" if "revision_known ?d i rv" "\<not> revision_free ?d (i, rv)" for i rv
    using that by (auto simp: revision_known_def image_iff)
  have "rows_refer ?d'"
    unfolding rows_refer_def
  proof (intro conjI ballI)
    show "revision_known ?d' (fst r) (wt_revision (snd r))" if "r \<in> set (db_watches ?d')" for r
      by (rule k) (use that st(3) in \<open>auto simp: rows_refer_def revision_free_def list_ex_iff\<close>)
    show "revision_known ?d' (fst (fst r)) (er_revision (snd r))" if "r \<in> set (db_entities ?d')" for r
      by (rule k) (use that st(3) in \<open>force simp: rows_refer_def revision_free_def list_ex_iff\<close>)+
    show "revision_known ?d' (oo_watch_id (snd r)) (oo_revision (snd r))" if "r \<in> set (db_observations ?d')" for r
      by (rule k) (use that st(3) in \<open>force simp: rows_refer_def revision_free_def list_ex_iff\<close>)+
    show "revision_known ?d' (e_watch_id (snd r)) (e_revision (snd r))" if "r \<in> set (db_events ?d')" for r
      by (rule k) (use that st(3) in \<open>force simp: rows_refer_def revision_free_def list_ex_iff\<close>)+
  qed (use st(3) in \<open>simp_all add: rows_refer_def\<close>)
  moreover have "keys_ok ?d'" "sequences_ok ?d'" "events_refer ?d'" "pins_ok ?d'"
    using st by (simp_all add: keys_ok_def tbl_filter_ok sequences_ok_def events_refer_def pins_ok_def)
  ultimately have "database_ok ?d'" using ok by (simp add: database_ok_def store_ok_def)
  then show ?thesis unfolding safe_def d' keeps_def by simp
qed

lemma safe_sweep_destinations:
  assumes ok: "database_ok (rs_db s)" and s': "sweep_destinations ks s = Inr s'"
  shows "safe cutoff now s s'"
proof -
  let ?d = "rs_db s"
  let ?t = "db_outbox ?d"
  let ?P = "\<lambda>k. \<not> (destination_free ?t k \<and> k \<in> set ks)"
  let ?t' = "?t\<lparr>ot_destination_revisions := filter (\<lambda>q. ?P (fst q)) (ot_destination_revisions ?t)\<rparr>"
  have d': "rs_db s' = ?d\<lparr>db_outbox := ?t'\<rparr>" using s' by (auto simp: sweep_destinations_def Let_def)
  have t: "rows_ok ?t" "streams_ok ?t" "leases_ok ?t" "references_ok ?t" using ok by (auto simp: database_ok_def tables_ok_def)
  have "map_of (ot_destination_revisions ?t') (ob_destination_id r, ob_destination_revision r) \<noteq> None" if r: "r \<in> set (ot_rows ?t)" for r
  proof -
    have "\<not> destination_free ?t (ob_destination_id r, ob_destination_revision r)" using r by (auto simp: destination_free_def list_ex_iff)
    then show ?thesis using t(4) r map_of_filter_key [of ?P "ot_destination_revisions ?t"] by (simp add: references_ok_def)
  qed
  then have "references_ok ?t'" using t(4) by (auto simp: references_ok_def)
  moreover have "rows_ok ?t'" "streams_ok ?t'" "leases_ok ?t'"
    using t by (simp_all add: rows_ok_def streams_ok_def stream_keys_def has_live_def leases_ok_def)
  ultimately have "tables_ok ?t'" by (simp add: tables_ok_def)
  then have "database_ok (?d\<lparr>db_outbox := ?t'\<rparr>)" by (intro whole_outbox [OF ok]) simp_all
  then show ?thesis unfolding safe_def d' keeps_def by (simp add: pinned_def)
qed

section \<open>Batches\<close>

lemma safe_cursors [simp]:
  "safe c now s (t\<lparr>rs_events := a\<rparr>) = safe c now s t" "safe c now s (t\<lparr>rs_observations := a\<rparr>) = safe c now s t"
  "safe c now s (t\<lparr>rs_watches := b\<rparr>) = safe c now s t" "safe c now s (t\<lparr>rs_revisions := r\<rparr>) = safe c now s t"
  "safe c now s (t\<lparr>rs_destinations := r\<rparr>) = safe c now s t" "safe c now s (t\<lparr>rs_logs := l\<rparr>) = safe c now s t"
  by (simp_all add: safe_def)

lemma safe_refl: "database_ok (rs_db s) \<Longrightarrow> safe cutoff now s s"
  by (simp add: safe_def)

lemma safe_families:
  assumes "database_ok (rs_db s)"
  shows "family_events pass cutoff limit s = Inr (s', n) \<Longrightarrow> safe cutoff now s s'"
    "family_observations pass cutoff limit s = Inr (s', n) \<Longrightarrow> safe cutoff now s s'"
    "family_watches pass cutoff limit s = Inr (s', n) \<Longrightarrow> safe cutoff now s s'"
    "family_revisions pass cutoff limit s = Inr (s', n) \<Longrightarrow> safe cutoff now s s'"
    "family_destinations pass cutoff limit s = Inr (s', n) \<Longrightarrow> safe cutoff now s s'"
    "family_logs i pass cutoff limit s = Inr (s', n) \<Longrightarrow> safe cutoff now s s'"
proof -
  note r = safe_refl [OF assms, of cutoff now]
  show "safe cutoff now s s'" if "family_events pass cutoff limit s = Inr (s', n)"
    by (rule fam_events.step_invariant [OF that, of "safe cutoff now s"]) (simp_all add: r safe_sweep_events [OF assms] old_page_def)
  show "safe cutoff now s s'" if "family_observations pass cutoff limit s = Inr (s', n)"
    by (rule fam_observations.step_invariant [OF that, of "safe cutoff now s"]) (simp_all add: r safe_sweep_observations [OF assms] old_page_def)
  show "safe cutoff now s s'" if "family_watches pass cutoff limit s = Inr (s', n)"
    by (rule fam_watches.step_invariant [OF that, of "safe cutoff now s"]) (simp_all add: r safe_sweep_watches [OF assms])
  show "safe cutoff now s s'" if "family_revisions pass cutoff limit s = Inr (s', n)"
    by (rule fam_revisions.step_invariant [OF that, of "safe cutoff now s"]) (simp_all add: r safe_sweep_revisions [OF assms])
  show "safe cutoff now s s'" if "family_destinations pass cutoff limit s = Inr (s', n)"
    by (rule fam_destinations.step_invariant [OF that, of "safe cutoff now s"]) (simp_all add: r safe_sweep_destinations [OF assms])
  show "safe cutoff now s s'" if "family_logs i pass cutoff limit s = Inr (s', n)"
    by (rule fam_logs.step_invariant [OF that, of "safe cutoff now s"]) (simp_all add: r safe_sweep_logs [OF assms] old_page_def)
qed

lemma safe_ok: "safe cutoff now s s' \<Longrightarrow> database_ok (rs_db s')"
  by (simp add: safe_def)

lemma families_safe:
  assumes "database_ok (rs_db s)" "families pass cutoff limit s = Inr (s', n)"
  shows "safe cutoff now s s'"
  using assms(2)
proof (rule families_elim)
  fix s1 n1 s2 n2 s3 n3 s4 n4 n5
  assume f: "family_events pass cutoff limit s = Inr (s1, n1)" "family_observations pass cutoff limit s1 = Inr (s2, n2)"
    "family_watches pass cutoff limit s2 = Inr (s3, n3)" "family_revisions pass cutoff limit s3 = Inr (s4, n4)"
    "family_destinations pass cutoff limit s4 = Inr (s', n5)"
  have 1: "safe cutoff now s s1" by (rule safe_families(1) [OF assms(1) f(1)])
  have 2: "safe cutoff now s1 s2" by (rule safe_families(2) [OF safe_ok [OF 1] f(2)])
  have 3: "safe cutoff now s2 s3" by (rule safe_families(3) [OF safe_ok [OF 2] f(3)])
  have 4: "safe cutoff now s3 s4" by (rule safe_families(4) [OF safe_ok [OF 3] f(4)])
  have 5: "safe cutoff now s4 s'" by (rule safe_families(5) [OF safe_ok [OF 4] f(5)])
  show ?thesis by (rule safe_trans [OF safe_trans [OF safe_trans [OF safe_trans [OF 1 2] 3] 4] 5])
qed

lemma RetainBatch_safe:
  assumes ok: "database_ok (rs_db s)" and "RetainBatch cutoff now limit pass s = Inr (s', n)"
  shows "safe (timestamp cutoff) (timestamp now) s s'"
  using assms(2)
proof (rule RetainBatch_elim)
  fix s1 n1 s2 n2 s3 n3 s4 n4 s5 n5 n6
  let ?c = "timestamp cutoff" and ?n = "timestamp now" and ?l = "nat limit"
  assume s: "direct (batch_input_receipts ?n ?l) s = (s1, n1)" "direct (batch_push_receipts ?n ?l) s1 = (s2, n2)"
    "direct (batch_backoff ?n ?l) s2 = (s3, n3)" "direct (batch_outbox ?c ?l) s3 = (s4, n4)"
    "families pass ?c ?l s4 = Inr (s5, n5)" "direct (batch_streams ?l) s5 = (s', n6)"
  have 1: "safe ?c ?n s s1" using safe_input_receipts [OF ok, of ?c ?n ?l] by (simp add: s(1))
  have 2: "safe ?c ?n s1 s2" using safe_push_receipts [OF safe_ok [OF 1], of ?c ?n ?l] by (simp add: s(2))
  have 3: "safe ?c ?n s2 s3" using safe_backoff [OF safe_ok [OF 2], of ?c ?n ?n ?l] by (simp add: s(3))
  have 4: "safe ?c ?n s3 s4" using safe_outbox [OF safe_ok [OF 3], of ?c ?n ?l] by (simp add: s(4))
  have 5: "safe ?c ?n s4 s5" by (rule families_safe [OF safe_ok [OF 4] s(5)])
  have 6: "safe ?c ?n s5 s'" using safe_streams [OF safe_ok [OF 5], of ?c ?n ?l] by (simp add: s(6))
  show ?thesis by (rule safe_trans [OF safe_trans [OF safe_trans [OF safe_trans [OF safe_trans [OF 1 2] 3] 4] 5] 6])
qed

end
