(* ===== verification/Runtime_Laws.thy ===== *)
theory Runtime_Laws
  imports Lifecycle_Laws Plan_Manifest
begin

text \<open>
  Laws of the runtime as a whole. A locale collects what the operations on watches do to the database
  and lifts an invariant of the store to applying manifests, pausing, resuming, deleting and purging
  watches, running timers and shifting the clock. It is interpreted with the integrity of the
  database and with what may have happened to a watch since an earlier database. A step relation
  over the database then gives the integrity of every reachable database; that generations only grow and
  that a purged watch leaves nothing behind are kept by every step, for the laws of a service.
\<close>

section \<open>Invariants of the operations on watches\<close>

text \<open>A watch is saved under a generation that is newer than the stored one.\<close>

definition newer :: "db \<Rightarrow> watch_record \<Rightarrow> bool" where
  "newer d r \<longleftrightarrow> (case map_of (db_watches d) (watch_id_of r) of None \<Rightarrow> True | Some w \<Rightarrow> wt_generation w < wr_generation r)"

locale rearm_invariant =
  fixes I :: "db \<Rightarrow> bool"
  assumes timer: "I d \<Longrightarrow> SaveTimer v tm d = Inr d' \<Longrightarrow> I d'"
    and entity: "I d \<Longrightarrow> saveEntityData i k rv st now d = Inr d' \<Longrightarrow> I d'"
    and observation: "I d \<Longrightarrow> AppendObservation i rv g ob d = Inr (d', s) \<Longrightarrow> I d'"
    and event: "I d \<Longrightarrow> AppendEvent e d = Inr (d', n) \<Longrightarrow> I d'"
    and append: "I d \<Longrightarrow> append_all env r es now c d = Inr d' \<Longrightarrow> I d'"
begin

lemma lifecycle_event: "I d \<Longrightarrow> lifecycleEvent env r kind reason now d = Inr d' \<Longrightarrow> I d'"
  by (auto simp: lifecycleEvent_def Let_def elim!: bindE_pairE dest: event)

lemma initial: "I d \<Longrightarrow> armInitial env r now d = Inr d' \<Longrightarrow> I d'"
  by (auto simp: armInitial_def Let_def split: if_splits elim!: bindE_InrE dest: entity timer)

lemma timer_if: "I d \<Longrightarrow> (if c then SaveTimer v tm d else Inr d) = Inr d' \<Longrightarrow> I d'"
  by (cases c) (auto dest: timer)

lemma resumed:
  assumes "I d" "resume_entity env r ev now ks d = Inr d'"
  shows "I d'"
proof -
  obtain key old where ks: "ks = (key, old)" by (cases ks)
  show ?thesis using assms unfolding resume_entity_def ks prod.case Let_def
    by (elim bindE_pairE bindE_InrE) (drule (1) observation, drule (1) timer_if, drule (1) entity, erule (1) append)
qed

lemma shifted:
  assumes "I d" "shift_entity env r ev now ks d = Inr d'"
  shows "I d'"
proof -
  obtain key old where ks: "ks = (key, old)" by (cases ks)
  show ?thesis using assms unfolding shift_entity_def ks prod.case Let_def
    by (elim bindE_pairE bindE_InrE) (drule (1) observation, drule (1) entity, drule (1) timer_if, erule (1) append)
qed

lemma each:
  assumes "\<And>ks d d'. I d \<Longrightarrow> f ks d = Inr d' \<Longrightarrow> I d'"
  shows "I d \<Longrightarrow> each_entity f kss d = Inr d' \<Longrightarrow> I d'"
proof (induction kss arbitrary: d)
  case (Cons ks kss)
  from Cons.prems(2) obtain d1 where "f ks d = Inr d1" "each_entity f kss d1 = Inr d'" by (auto elim: bindE_InrE)
  then show ?case using Cons.IH assms [OF Cons.prems(1)] by blast
qed simp

lemma rearmed:
  assumes "\<And>ev ks d d'. I d \<Longrightarrow> f ev ks d = Inr d' \<Longrightarrow> I d'" "I d" "rearm env r f now d = Inr d'"
  shows "I d'"
  using assms(3) unfolding rearm_def Let_def
proof (elim bindE_InrE)
  fix ev d1
  assume e: "each_entity (f ev) (le_order env (Entities d (watch_id_of r))) d = Inr d1"
    and a: "(if Entities d (watch_id_of r) = [] then armInitial env r now d1 else Inr d1) = Inr d'"
  have "I d1" by (rule each [OF assms(1) assms(2) e])
  then show "I d'" using a initial by (auto split: if_splits)
qed

end

text \<open>Rearming a watch leaves every watch alone.\<close>

lemma append_watches: "append_all env r es now c d = Inr d' \<Longrightarrow> db_watches d' = db_watches d"
  using frame.append [of d d "context_of env r undefined now"] by (simp add: loop_frame_def)

interpretation rows: rearm_invariant "\<lambda>d. db_watches d = ws" for ws
  by unfold_locales (auto elim!: SaveTimer_elim saveEntityData_elim AppendObservation_elim AppendEvent_elim dest: append_watches)

locale runtime_invariant = rearm_invariant I for I :: "db \<Rightarrow> bool" +
  fixes cenv :: compile_env
  assumes sound: "I d \<Longrightarrow> database_ok d"
    and save: "I d \<Longrightarrow> newer d r \<Longrightarrow> SaveWatch cenv r lt now d = Inr d' \<Longrightarrow> I d'"
    and timers: "I d \<Longrightarrow> I (DeleteTimers i d)"
    and reset: "I d \<Longrightarrow> I (ResetState i d)"
    and revised: "I d \<Longrightarrow> revision_known d i rv \<Longrightarrow> I (RevisionState i rv g d)"
    and purge: "I d \<Longrightarrow> PurgeWatch env' i d = Inr d' \<Longrightarrow> I d'"
    and queue: "I d \<Longrightarrow> digests cenv \<Longrightarrow> qstep cenv (db_outbox d) e' t \<Longrightarrow> \<forall>n. e' \<noteq> Enqueued n \<Longrightarrow> I (d\<lparr>db_outbox := t\<rparr>)"
    and accept: "I d \<Longrightarrow> I (fst (acceptPush env r b input push now later' d))"
begin

text \<open>A record read from the database is newer once its generation is incremented.\<close>

lemma next_newer: "I d \<Longrightarrow> Watch d i = Inr old \<Longrightarrow> watch_id_of r = watch_id_of old \<Longrightarrow> wr_generation old < wr_generation r \<Longrightarrow> newer d r"
  using sound [of d] by (elim Watch_elim) (auto simp: database_ok_def newer_def scanWatch_def)

lemma change_kept:
  assumes "I d" "Watch d i = Inr old" "i = watch_id_of old" "lifecycle_change env i q now old status d0 = Inr (d', r)" "le_compile env = cenv"
    "I d0" "db_watches d0 = db_watches d" "db_revisions d0 = db_revisions d"
  shows "I d'"
proof -
  have w: "Watch d0 i = Inr old" using assms(2) unfolding Watch_def assms(7,8) .
  let ?r = "old\<lparr>wr_status := status, wr_generation := wr_generation old + 1, wr_next_at := now, wr_last_error := ''''\<rparr>"
  have n: "newer d0 ?r" by (rule next_newer [OF assms(6) w]) simp_all
  show ?thesis
    using assms(4) unfolding lifecycle_change_def Let_def
  proof (elim bindE_InrE)
    fix d1 d2 d3
    assume 1: "SaveWatch (le_compile env) ?r (le_lifetime env i) now d0 = Inr d1"
      and 2: "(if status = ''running'' then rearm env ?r (\<lambda>ev. resume_entity env ?r ev now) now (DeleteTimers i d1) else Inr (DeleteTimers i d1)) = Inr d2"
      and 3: "lifecycleEvent env ?r (lq_action q) (lq_action q) now d2 = Inr d3" "Inr (d3, ?r) = Inr (d', r)"
    have "I (DeleteTimers i d1)" using 1 n assms(5,6) save timers by blast
    then have "I d2"
    proof (cases "status = ''running''")
      case True
      show ?thesis by (rule rearmed [OF resumed \<open>I (DeleteTimers i d1)\<close> 2 [unfolded if_P [OF True]]])
    next
      case False
      then show ?thesis using 2 \<open>I (DeleteTimers i d1)\<close> by simp
    qed
    then show "I d'" using 3 lifecycle_event by auto
  qed
qed

lemma lifecycle_kept:
  assumes "I d" "lifecycle env i q now d = Inr (d', r)" "le_compile env = cenv" "digests cenv"
  shows "I d'"
  using assms(2) unfolding lifecycle_def
proof (elim guardE bindE_InrE)
  fix old
  let ?d = "if lq_cancel_pending q then d\<lparr>db_outbox := CancelDeliveries i now (db_outbox d)\<rparr> else d"
  assume w: "Watch d i = Inr old"
    and rest: "(if lq_action q = ''purge'' then bindE (PurgeWatch env i d) (\<lambda>d1. Inr (d1, old))
       else
         bindE (lifecycle_status (lq_action q)) (\<lambda>status.
         if wr_status old = ''deleted'' \<and> status \<noteq> ''deleted'' then Inl (Err ''deleted watches cannot resume; use a new watch ID'')
         else
           let d1 = ?d in
           if wr_status old = status then Inr (d1, old)
           else lifecycle_change env i q now old status d1)) = Inr (d', r)"
  have i: "i = watch_id_of old" using w sound [OF assms(1)] by (elim Watch_elim) (auto simp: database_ok_def)
  have c: "I ?d" using queue [OF assms(1,4) qstep.cancel] assms(1) by simp
  show "I d'"
  proof (cases "lq_action q = ''purge''")
    case True
    then show ?thesis using rest purge [OF assms(1)] by (auto elim!: bindE_InrE)
  next
    case False
    with rest have "bindE (lifecycle_status (lq_action q)) (\<lambda>status.
         if wr_status old = ''deleted'' \<and> status \<noteq> ''deleted'' then Inl (Err ''deleted watches cannot resume; use a new watch ID'')
         else if wr_status old = status then Inr (?d, old) else lifecycle_change env i q now old status ?d) = Inr (d', r)"
      unfolding Let_def by (simp only: if_False)
    then obtain status where "(if wr_status old = status then Inr (?d, old) else lifecycle_change env i q now old status ?d) = Inr (d', r)"
      by (elim bindE_InrE guardE)
    then show ?thesis using c change_kept [OF assms(1) w i _ assms(3) c] by (auto split: if_splits)
  qed
qed

lemma timers_kept: "I d \<Longrightarrow> I (fst (run_each_timer env now tms d))"
proof (induction tms arbitrary: d)
  case (Cons tm tms)
  then show ?case
    using accept [OF Cons.prems] by (auto split: sum.split prod.split) (metis fst_conv)+
qed simp

lemma RunTimers_kept: "I d \<Longrightarrow> I (fst (RunTimers env now d))"
  by (auto simp: RunTimers_def timers_kept split: sum.split)

text \<open>Each watch of the traversal is still as it was read when its turn comes.\<close>

lemma shift_one:
  assumes "I d" "newer d r1" "SaveWatch cenv r1 lt now d = Inr d1" "rearm env r1 (\<lambda>ev. shift_entity env r1 ev now) now (DeleteTimers i d1) = Inr d2"
    "lifecycleEvent env r1 kind reason now d2 = Inr d3"
  shows "I d3" "j \<noteq> watch_id_of r1 \<Longrightarrow> map_of (db_watches d3) j = map_of (db_watches d) j"
proof -
  have "I d1" using assms(1-3) save by blast
  have "I d2" by (rule rearmed [OF shifted timers [OF \<open>I d1\<close>] assms(4)])
  then show "I d3" using lifecycle_event assms(5) by blast
  have "db_watches d2 = db_watches d1"
    by (rule rows.rearmed [OF rows.shifted _ assms(4)]) (auto simp: DeleteTimers_def)
  then have "db_watches d3 = db_watches d1" using rows.lifecycle_event [OF _ assms(5)] by simp
  moreover have "tbl_ok (db_watches d)" using sound [OF assms(1)] by (simp add: database_ok_def store_ok_def keys_ok_def)
  ultimately show "map_of (db_watches d3) j = map_of (db_watches d) j" if "j \<noteq> watch_id_of r1"
    using assms(3) that by (elim SaveWatch_elim) (auto simp: tbl_put_map_of dest: Compile_id)
qed

lemma shift_kept:
  assumes "le_compile env = cenv"
  shows "\<lbrakk>I d; distinct (map watch_id_of rs); \<forall>r \<in> set rs. newer d (r\<lparr>wr_generation := wr_generation r + 1, wr_next_at := now\<rparr>);
      shift_watches env now rs d = Inr d'\<rbrakk> \<Longrightarrow> I d'"
proof (induction rs arbitrary: d)
  case (Cons r rs)
  let ?r = "r\<lparr>wr_generation := wr_generation r + 1, wr_next_at := now\<rparr>"
  show ?case
  proof (cases "wr_status r = ''running''")
    case True
    with Cons.prems(4) have "bindE (SaveWatch (le_compile env) ?r (le_lifetime env (watch_id_of r)) now d) (\<lambda>d1.
        bindE (rearm env ?r (\<lambda>ev. shift_entity env ?r ev now) now (DeleteTimers (watch_id_of r) d1)) (\<lambda>d2.
        bindE (lifecycleEvent env ?r ''clock_discontinuity'' ''wall clock diverged from monotonic time; temporal evidence rearmed'' now d2)
          (shift_watches env now rs))) = Inr d'"
      by (simp add: Let_def)
    then obtain d1 d2 d3 where 1: "SaveWatch cenv ?r (le_lifetime env (watch_id_of r)) now d = Inr d1"
      and 2: "rearm env ?r (\<lambda>ev. shift_entity env ?r ev now) now (DeleteTimers (watch_id_of r) d1) = Inr d2"
      and 3: "lifecycleEvent env ?r ''clock_discontinuity'' ''wall clock diverged from monotonic time; temporal evidence rearmed'' now d2 = Inr d3"
      and rest: "shift_watches env now rs d3 = Inr d'"
      unfolding assms by (elim bindE_InrE)
    have n: "newer d ?r" using Cons.prems(3) by simp
    note one = shift_one [OF Cons.prems(1) n 1 2 3]
    have "newer d3 (q\<lparr>wr_generation := wr_generation q + 1, wr_next_at := now\<rparr>)" if q: "q \<in> set rs" for q
    proof -
      have "watch_id_of q \<noteq> watch_id_of r" using Cons.prems(2) imageI [OF q, of watch_id_of] by auto
      then show ?thesis using Cons.prems(3) q one(2) [of "watch_id_of q"] by (simp add: newer_def)
    qed
    then show ?thesis by (intro Cons.IH [OF one(1) _ _ rest]) (use Cons.prems(2) in simp_all)
  next
    case False
    show ?thesis by (rule Cons.IH [OF Cons.prems(1)]) (use Cons.prems(2-4) False in simp_all)
  qed
qed simp

lemma Watches_read:
  assumes "I d"
  shows "distinct (map watch_id_of (Watches d))" "r \<in> set (Watches d) \<Longrightarrow> Watch d (watch_id_of r) = Inr r"
proof -
  have ok: "store_ok d" using sound [OF assms] by (simp add: database_ok_def)
  have id: "Watch d i = Inr r \<Longrightarrow> watch_id_of r = i" for i r using ok by (elim Watch_elim) auto
  show "r \<in> set (Watches d) \<Longrightarrow> Watch d (watch_id_of r) = Inr r" by (auto simp: Watches_def split: sum.splits) (metis id)
  have d: "distinct (map fst (db_watches d))" using ok by (simp add: store_ok_def keys_ok_def tbl_ok_def)
  have "map watch_id_of (concat (map (\<lambda>(i, _). case Watch d i of Inr r \<Rightarrow> [r] | Inl _ \<Rightarrow> []) ws)) = map fst (filter (\<lambda>w. Watch d (fst w) \<notin> range Inl) ws)"
    for ws :: "(string \<times> watch_row) list"
    using id by (induction ws) (auto split: sum.split)
  then have "map watch_id_of (Watches d) = map fst (filter (\<lambda>w. Watch d (fst w) \<notin> range Inl) (db_watches d))" by (simp add: Watches_def)
  then show "distinct (map watch_id_of (Watches d))" using d by (simp add: distinct_map_filter)
qed

lemma clock_kept: "I d \<Longrightarrow> le_compile env = cenv \<Longrightarrow> clockShift env now d = Inr d' \<Longrightarrow> I d'"
  unfolding clockShift_def
  by (rule shift_kept) (auto simp: Watches_read(1) intro: next_newer dest: Watches_read(2))

end

section \<open>Applying a manifest\<close>

text \<open>A change that is stored has a new generation.\<close>

lemma plan_change_generation:
  assumes "plan_change env q p now count old = Inr (r, state, reset, n)"
  shows "wr_plan r = p"
    "old = Some w \<Longrightarrow> \<not> (cd_revision (wr_plan w) = cd_revision p \<and> \<not> ar_reset_paused q) \<Longrightarrow> wr_generation w < wr_generation r"
proof -
  from assms obtain r0 st0 re0 n0 where 1: "(case old of
           None \<Rightarrow> if count + 1 > rl_max_watches (le_limits env) then Inl ErrQuota
             else Inr (\<lparr>wr_lifetime = '''', wr_plan = p, wr_generation = 1, wr_status = (if ar_start_paused q then ''paused'' else ''running''),
               wr_next_at = now, wr_cursor = '''', wr_last_input_at = zero_time, wr_last_error = ''''\<rparr>, ''created'', False, count + 1)
         | Some o' \<Rightarrow>
             if wr_status o' = ''deleted''
             then Inl (Err (''watch '' @ md_id (d_metadata (cd_definition p)) @ '' is deleted; use a new watch ID''))
             else if cd_revision (wr_plan o') = cd_revision p then Inr (o'\<lparr>wr_plan := p\<rparr>, ''preserved'', False, count)
             else
               if cd_fingerprint (wr_plan o') \<noteq> cd_fingerprint p
               then Inr (reset_record (o'\<lparr>wr_plan := p, wr_generation := wr_generation o' + 1\<rparr>) now, ''reset'', True, count)
               else Inr (o'\<lparr>wr_plan := p, wr_generation := wr_generation o' + 1\<rparr>, ''preserved'', False, count)) = Inr (r0, st0, re0, n0)"
    and 2: "(if ar_reset_paused q
            then Inr ((reset_record r0 now)\<lparr>wr_generation := wr_generation r0 + 1, wr_status := ''paused''\<rparr>, ''reset'', True, n0)
            else Inr (r0, st0, re0, n0)) = (Inr (r, state, reset, n) :: (watch_record \<times> string \<times> bool \<times> int) result)"
    unfolding plan_change_def Let_def by (elim guardE bindE_InrE) auto
  have 3: "wr_plan r = wr_plan r0" "wr_generation r = wr_generation r0 + (if ar_reset_paused q then 1 else 0)"
    using 2 by (auto simp: reset_record_def split: if_splits)
  have 4: "wr_plan r0 = p" using 1 by (auto simp: reset_record_def split: option.splits if_splits)
  have 5: "wr_generation r0 = wr_generation w + (if cd_revision (wr_plan w) = cd_revision p then 0 else 1)" if "old = Some w"
    using 1 that by (auto simp: reset_record_def split: if_splits)
  show "wr_plan r = p" using 3 4 by simp
  show "old = Some w \<Longrightarrow> \<not> (cd_revision (wr_plan w) = cd_revision p \<and> \<not> ar_reset_paused q) \<Longrightarrow> wr_generation w < wr_generation r"
    using 3 5 by auto
qed

lemma no_SomeE:
  assumes "(case m of Some t \<Rightarrow> Inl (f t) | None \<Rightarrow> r) = Inr b"
  obtains "m = None" "r = Inr b"
  using assms by (cases m) auto

text \<open>A watch that cannot be read is not there.\<close>

lemma Watch_absent:
  assumes "store_ok d" "Watch d i = Inl e"
  shows "map_of (db_watches d) i = None"
proof (rule ccontr)
  assume "map_of (db_watches d) i \<noteq> None"
  then obtain w where w: "map_of (db_watches d) i = Some w" by auto
  then have "revision_known d i (wt_revision w)" using assms(1) map_of_SomeD [OF w] by (force simp: store_ok_def rows_refer_def)
  then show False using assms(2) w known_key [of "db_revisions d" "(i, wt_revision w)"] by (auto simp: Watch_def revision_known_def)
qed

context runtime_invariant
begin

lemma destinations_kept: "I d \<Longrightarrow> le_compile env = cenv \<Longrightarrow> digests cenv \<Longrightarrow> apply_destinations env dry cs d = Inr (d', chs) \<Longrightarrow> I d'"
proof (induction cs arbitrary: d chs)
  case (Cons c cs)
  from Cons.prems(4) obtain d1 chs' where 1: "(if dry then Inr d else bindE (SaveDestination (le_compile env) c (db_outbox d)) (\<lambda>ot. Inr (d\<lparr>db_outbox := ot\<rparr>))) = Inr d1"
    and 2: "apply_destinations env dry cs d1 = Inr (d', chs')"
    by (auto elim!: bindE_InrE bindE_pairE)
  have "I d1"
  proof (cases dry)
    case False
    with 1 obtain ot where "SaveDestination cenv c (db_outbox d) = Inr ot" "d1 = d\<lparr>db_outbox := ot\<rparr>"
      using Cons.prems(2) by (auto elim!: bindE_InrE)
    then show ?thesis using queue [OF Cons.prems(1,3) qstep.save] by simp
  qed (use 1 Cons.prems(1) in simp)
  then show ?case using Cons.IH Cons.prems(2,3) 2 by blast
qed simp

lemma stored_kept:
  assumes "I d" "newer d r" "le_compile env = cenv" "store_change env r state rst existed now d = Inr d'"
  shows "I d'"
  using assms(4) unfolding store_change_def Let_def
proof (elim bindE_InrE)
  let ?i = "watch_id_of r"
  fix d1 d2 d3
  assume 1: "SaveWatch (le_compile env) r (le_lifetime env ?i) now d = Inr d1"
    and 2: "(if rst then lifecycleEvent env r ''state_reset'' ''source, condition, grouping, policy, or limits changed'' now (ResetState ?i d1)
      else Inr d1) = Inr d2"
    and 3: "(if existed \<and> \<not> rst then Inr (RevisionState ?i (cd_revision (wr_plan r)) (wr_generation r) d2) else armInitial env r now d2) = Inr d3"
    and 4: "lifecycleEvent env r ''applied'' state now d3 = Inr d'"
  have s: "store_ok d" using sound [OF assms(1)] by (simp add: database_ok_def)
  have d1: "I d1" using 1 save [OF assms(1,2)] assms(3) by blast
  have d2: "I d2" using 2 lifecycle_event [OF reset [OF d1]] d1 by (cases rst) auto
  have "I d3"
  proof (cases "existed \<and> \<not> rst")
    case True
    then have "revision_known d2 ?i (cd_revision (wr_plan r))" using 2 store_ok_SaveWatch(2) [OF s 1] by simp
    then show ?thesis using 3 True revised [OF d2] by auto
  next
    case False
    then show ?thesis using 3 initial [OF d2] by (simp only: if_False)
  qed
  then show "I d'" using 4 lifecycle_event by blast
qed

lemma apply_watch_kept:
  assumes "I d" "le_compile env = cenv" "apply_watch env q b now p count d = Inr (d', ch, n)"
  shows "I d'"
proof -
  let ?i = "md_id (d_metadata (cd_definition p))"
  let ?old = "case Watch d ?i of Inr r \<Rightarrow> Some r | Inl _ \<Rightarrow> None"
  let ?previous = "case ?old of Some r \<Rightarrow> cd_revision (wr_plan r) | None \<Rightarrow> ''''"
  let ?ch = "\<lambda>state. \<lparr>ch_kind = ''Watch'', ch_id = ?i, ch_revision = cd_revision p, ch_previous = ?previous, ch_state = state,
    ch_permissions = cd_permissions p\<rparr>"
  obtain a where a: "plan_change env q p now count ?old = Inr a"
    and c: "(case a of (r, state, reset, n) \<Rightarrow>
      if ar_dry_run q \<or> (?previous = cd_revision p \<and> \<not> ar_reset_paused q) then Inr (d, ?ch state, n)
      else bindE (store_change env r state reset (?old \<noteq> None) now d) (\<lambda>d1. Inr (d1, ?ch state, n))) = Inr (d', ch, n)"
    using assms(3) unfolding apply_watch_def Let_def by (elim no_SomeE guardE bindE_InrE)
  obtain r state rst n' where 1: "plan_change env q p now count ?old = Inr (r, state, rst, n')"
    and 2: "(if ar_dry_run q \<or> (?previous = cd_revision p \<and> \<not> ar_reset_paused q) then Inr (d, ?ch state, n')
            else bindE (store_change env r state rst (?old \<noteq> None) now d) (\<lambda>d1. Inr (d1, ?ch state, n'))) = Inr (d', ch, n)"
    using a c by (cases a) (simp only: prod.case)
  show ?thesis
  proof (cases "ar_dry_run q \<or> (?previous = cd_revision p \<and> \<not> ar_reset_paused q)")
    case True
    then show ?thesis using 2 assms(1) by (simp only: if_True) simp
  next
    case False
    then have st: "store_change env r state rst (?old \<noteq> None) now d = Inr d'" using 2 by (simp only: if_False) (auto elim!: bindE_InrE)
    have s: "store_ok d" using sound [OF assms(1)] by (simp add: database_ok_def)
    have p: "watch_id_of r = ?i" using plan_change_generation(1) [OF 1] by simp
    have "newer d r"
    proof (cases "Watch d ?i")
      case (Inl e)
      then show ?thesis using Watch_absent [OF s Inl] p by (simp add: newer_def)
    next
      case (Inr w)
      then have g: "wr_generation w < wr_generation r" using plan_change_generation(2) [OF 1, of w] False by simp
      have "watch_id_of w = ?i" using Inr s by (auto elim: Watch_elim)
      then show ?thesis using next_newer [OF assms(1) Inr _ g] p by simp
    qed
    then show ?thesis by (rule stored_kept [OF assms(1) _ assms(2) st])
  qed
qed

lemma apply_watches_kept: "I d \<Longrightarrow> le_compile env = cenv \<Longrightarrow> apply_watches env q b now ps count d = Inr (d', chs) \<Longrightarrow> I d'"
proof (induction ps arbitrary: d count chs)
  case (Cons p ps)
  from Cons.prems(3) obtain d1 ch n chs' where "apply_watch env q b now p count d = Inr (d1, ch, n)" "apply_watches env q b now ps n d1 = Inr (d', chs')"
    by (auto elim!: bindE_InrE)
  then show ?case using Cons.IH [OF apply_watch_kept [OF Cons.prems(1,2)] Cons.prems(2)] by blast
qed simp

lemma manifest_kept:
  assumes "I d" "le_compile env = cenv" "digests cenv" "apply_manifest env y mx validate fits q now d = Inr (d', chs)"
  shows "I d'"
proof -
  from assms(4) obtain b where "apply_tx env fits q b now d = Inr (d', chs)"
    unfolding apply_manifest_def by (elim guardE bindE_InrE)
  then obtain d1 dchs d2 wchs where "apply_destinations env (ar_dry_run q) (b_destinations b) d = Inr (d1, dchs)"
    "apply_watches env q b now (b_watches b) (live_watches d) d1 = Inr (d2, wchs)" "d2 = d'"
    unfolding apply_tx_def by (elim guardE bindE_InrE bindE_pairE) auto
  then show ?thesis using apply_watches_kept [OF destinations_kept [OF assms(1-3)] assms(2)] by blast
qed

end

section \<open>Integrity\<close>

interpretation intact: runtime_invariant database_ok cenv for cenv
proof unfold_locales
  show "database_ok d \<Longrightarrow> SaveTimer v tm d = Inr d' \<Longrightarrow> database_ok d'" for d v tm d' by (rule whole.timer)
  show "database_ok d \<Longrightarrow> saveEntityData i k rv st now d = Inr d' \<Longrightarrow> database_ok d'" for d i k rv st now d' by (rule whole_entity)
  show "database_ok d \<Longrightarrow> AppendObservation i rv g ob d = Inr (d', s) \<Longrightarrow> database_ok d'" for d i rv g ob d' s by (rule whole_observation)
  show "database_ok d \<Longrightarrow> AppendEvent e d = Inr (d', n) \<Longrightarrow> database_ok d'" for d e d' n by (rule whole.event)
  show "database_ok d \<Longrightarrow> append_all env r es now c d = Inr d' \<Longrightarrow> database_ok d'" for d env r es now c d' by (rule whole_append)
  show "database_ok d \<Longrightarrow> SaveWatch cenv r lt now d = Inr d' \<Longrightarrow> database_ok d'" for d r lt now d' by (rule whole_SaveWatch)
  show "database_ok d \<Longrightarrow> database_ok (DeleteTimers i d)" for d i by (rule whole_DeleteTimers)
  show "database_ok d \<Longrightarrow> database_ok (ResetState i d)" for d i by (rule whole_ResetState)
  show "database_ok d \<Longrightarrow> revision_known d i rv \<Longrightarrow> database_ok (RevisionState i rv g d)" for d i rv g by (rule whole_RevisionState)
  show "database_ok d \<Longrightarrow> PurgeWatch env i d = Inr d' \<Longrightarrow> database_ok d'" for d env i d' by (rule whole_purge)
  show "database_ok d \<Longrightarrow> digests cenv \<Longrightarrow> qstep cenv (db_outbox d) e t \<Longrightarrow> \<forall>n. e \<noteq> Enqueued n \<Longrightarrow> database_ok (d\<lparr>db_outbox := t\<rparr>)" for d e t
    by (rule whole_qstep)
  show "database_ok d \<Longrightarrow> database_ok (fst (acceptPush env r b input push now later' d))" for d env r b input push now later' by (rule acceptance_ok)
qed

section \<open>Since an earlier database\<close>

text \<open>What identifies an incarnation of a watch: within a generation it does not change.\<close>

definition incarnation :: "watch_row \<Rightarrow> string \<times> string \<times> string" where
  "incarnation w = (wt_revision w, wt_status w, wt_lifetime w)"

definition advanced :: "watch_row \<Rightarrow> watch_row \<Rightarrow> bool" where
  "advanced w w' \<longleftrightarrow> wt_generation w < wt_generation w' \<or> wt_generation w' = wt_generation w \<and> incarnation w' = incarnation w"

definition since :: "db \<Rightarrow> db \<Rightarrow> bool" where
  "since d0 d \<longleftrightarrow> set (db_purged d0) \<subseteq> set (db_purged d) \<and>
     (\<forall>i w. map_of (db_watches d0) i = Some w \<longrightarrow> i \<in> set (db_purged d) \<or> (\<exists>w'. map_of (db_watches d) i = Some w' \<and> advanced w w'))"

text \<open>Nothing is left of a purged watch.\<close>

definition purged_gone :: "db \<Rightarrow> bool" where
  "purged_gone d \<longleftrightarrow> (\<forall>i \<in> set (db_purged d). i \<notin> fst ` set (db_watches d) \<and> (\<forall>rv. \<not> revision_known d i rv))"

lemma advanced_trans: "advanced w w' \<Longrightarrow> advanced w' w'' \<Longrightarrow> advanced w w''"
  by (auto simp: advanced_def)

lemma since_refl: "since d d"
  by (auto simp: since_def advanced_def)

text \<open>An acceptance changes neither generation nor incarnation of a watch.\<close>

definition same_rows :: "db \<Rightarrow> db \<Rightarrow> bool" where
  "same_rows d d' \<longleftrightarrow> db_purged d' = db_purged d \<and> db_revisions d' = db_revisions d \<and>
     (\<forall>i. map_option (\<lambda>w. (wt_generation w, incarnation w)) (map_of (db_watches d') i) =
       map_option (\<lambda>w. (wt_generation w, incarnation w)) (map_of (db_watches d) i))"

lemma same_rows_trans: "same_rows d d1 \<Longrightarrow> same_rows d1 d2 \<Longrightarrow> same_rows d d2"
  by (simp add: same_rows_def)

lemma same_rows_equal: "db_purged d' = db_purged d \<Longrightarrow> db_revisions d' = db_revisions d \<Longrightarrow> db_watches d' = db_watches d \<Longrightarrow> same_rows d d'"
  by (simp add: same_rows_def)

lemma same_rows_kept:
  assumes "same_rows d d'" "since d0 d" "purged_gone d"
  shows "since d0 d'" "purged_gone d'"
proof -
  have row: "\<exists>w'. map_of (db_watches d') i = Some w' \<and> advanced w w'" if "map_of (db_watches d) i = Some w" for i w
    using assms(1) that by (auto simp: same_rows_def advanced_def map_option_eq_Some dest!: spec [of _ i])
  have "map_of (db_watches d') i = None \<longleftrightarrow> map_of (db_watches d) i = None" for i
    using assms(1) by (auto simp: same_rows_def dest!: spec [of _ i])
  then have "fst ` set (db_watches d') = fst ` set (db_watches d)" unfolding map_of_eq_None_iff by blast
  then show "purged_gone d'" using assms(1,3) by (simp add: same_rows_def purged_gone_def revision_known_def)
  show "since d0 d'" unfolding since_def
  proof (intro conjI allI impI)
    show "set (db_purged d0) \<subseteq> set (db_purged d')" using assms(1,2) by (simp add: same_rows_def since_def)
    fix i w
    assume "map_of (db_watches d0) i = Some w"
    then have "i \<in> set (db_purged d) \<or> (\<exists>w'. map_of (db_watches d) i = Some w' \<and> advanced w w')" using assms(2) by (simp add: since_def)
    then show "i \<in> set (db_purged d') \<or> (\<exists>w'. map_of (db_watches d') i = Some w' \<and> advanced w w')"
      using assms(1) row advanced_trans unfolding same_rows_def by metis
  qed
qed

interpretation purged: acceptance_invariant "\<lambda>d. db_purged d = ps" x for ps x
  by unfold_locales
    (auto simp: DeleteEntity_def elim!: AppendEvent_elim db_enqueue_elim SaveTimer_elim SaveReplay_elim saveEntityData_elim)

lemma same_rows_loop: "accept_cached x obs d = Inr d' \<Longrightarrow> same_rows d d'"
  using frame.accepted [of d d] purged.accepted [of d "db_purged d"] by (intro same_rows_equal) (auto simp: loop_frame_def)

lemma same_rows_watch:
  assumes "map_of (db_watches d) i = Some w" "wt_generation w' = wt_generation w" "incarnation w' = incarnation w" "tbl_ok (db_watches d)"
  shows "same_rows d (d\<lparr>db_watches := tbl_put i w' (db_watches d)\<rparr>)"
  using assms by (simp add: same_rows_def tbl_put_map_of)

lemma same_rows_Checkpoint: "Checkpoint i g na la cu d = Inr d' \<Longrightarrow> tbl_ok (db_watches d) \<Longrightarrow> same_rows d d'"
  by (auto simp: Checkpoint_def incarnation_def split: option.splits if_splits intro!: same_rows_watch)

lemma same_rows_LastError: "tbl_ok (db_watches d) \<Longrightarrow> same_rows d (LastError i g detail nx d)"
  by (auto simp: LastError_def incarnation_def same_rows_equal split: option.split intro!: same_rows_watch)

lemma same_rows_seal: "seal env current i input push n now later' f l d = Inr (d', sv) \<Longrightarrow> same_rows d d'"
  by (cases push) (auto simp: seal_def Let_def same_rows_def split: if_splits elim!: SaveReceipt_elim)

lemma same_rows_new:
  assumes "accept_new env current ev b input push now later' d = Inr (d', r, sv)" "tbl_ok (db_watches d)"
  shows "same_rows d d'"
  using assms(1)
proof (rule accept_new_elim)
  let ?i = "watch_id_of current"
  fix d1 obs d2 ss d3
  assume 1: "(if \<not> is_zero (ba_deadline b) then Inr d
      else Checkpoint ?i (wr_generation current) (next_at_of env current ?i b now) now (ba_cursor b) d) = Inr d1"
    and 2: "AppendObservations ?i (cd_revision (wr_plan current)) (wr_generation current) obs d1 = Inr (d2, ss)"
    and 3: "accept_cached (context_of env current ev now) (map2 (\<lambda>ob s. ob\<lparr>o_sequence := s\<rparr>) obs ss) d2 = Inr d3"
    and 4: "seal env current ?i input push (int (length (given_observations current b))) now later' (hd ss) (last ss) d3 = Inr (d', sv)"
  have "same_rows d d1" using 1 same_rows_Checkpoint [OF _ assms(2)] by (cases "is_zero (ba_deadline b)") (auto intro: same_rows_equal)
  moreover have "same_rows d1 d2" using AppendObservations_rows [OF 2] by (auto intro: same_rows_equal)
  ultimately show ?thesis using same_rows_loop [OF 3] same_rows_seal [OF 4] same_rows_trans by blast
qed

lemma same_rows_admission: "push_admission p rd current now d = Inr (d', sv) \<Longrightarrow> same_rows d d' \<and> db_watches d' = db_watches d"
  by (auto simp: push_admission_def same_rows_equal split: if_splits sum.splits prod.splits)

lemma same_rows_case:
  assumes "accept_case env rd ev b input push now later' d current d' r sv" "tbl_ok (db_watches d)"
  shows "same_rows d d'"
  using assms
proof cases
  case (pushed p s)
  then show ?thesis using same_rows_admission by blast
next
  case (received d1 first last')
  have "same_rows d d1" using received(3) same_rows_admission by (cases push) (auto intro: same_rows_equal)
  moreover have "same_rows d1 d'" using received(5) by (auto elim!: take_timer_elim intro: same_rows_equal)
  ultimately show ?thesis by (rule same_rows_trans)
next
  case (new d1 d2)
  have 1: "same_rows d d1 \<and> db_watches d1 = db_watches d" using new(1) same_rows_admission by (cases push) (auto intro: same_rows_equal)
  moreover have "same_rows d1 d2" "db_watches d2 = db_watches d1" using new(3) by (auto elim!: take_timer_elim intro: same_rows_equal)
  moreover have "same_rows d2 d'" using same_rows_new [OF new(5)] assms(2) calculation by simp
  ultimately show ?thesis using same_rows_trans by blast
qed

lemma acceptance_same_rows:
  assumes "tbl_ok (db_watches d)"
  shows "same_rows d (fst (acceptPush env rd b input push now later' d))"
proof -
  have "same_rows d d'" if "accept_tx env rd ev b input push now later' d = Inr (d', r)" for ev d' r
    using that assms by (cases r) (auto elim!: accept_tx_case dest: same_rows_case)
  then show ?thesis using same_rows_LastError [OF assms] by (auto simp: acceptPush_def same_rows_equal split: sum.split)
qed

lemma since_saved:
  assumes "since d0 d" "purged_gone d" "newer d r" "SaveWatch cenv r lt now d = Inr d'" "tbl_ok (db_watches d)"
  shows "since d0 d'" "purged_gone d'"
proof -
  obtain c revs row where c: "Compile cenv (cd_definition (wr_plan r)) = Inr c" "cd_revision c = cd_revision (wr_plan r)"
    "d' = d\<lparr>db_revisions := revs, db_watches := tbl_put (md_id (d_metadata (cd_definition c)))
       (watch_upsert row (map_of (db_watches d) (md_id (d_metadata (cd_definition c))))) (db_watches d)\<rparr>"
    and revs: "revs = (if map_of (db_revisions d) (md_id (d_metadata (cd_definition c)), cd_revision c) = None
       then tbl_put (md_id (d_metadata (cd_definition c)), cd_revision c)
         \<lparr>rr_fingerprint = cd_fingerprint c, rr_definition = cd_definition c, rr_created_at = timestamp now\<rparr> (db_revisions d) else db_revisions d)"
    and row: "wt_generation row = wr_generation r" and p: "watch_id_of r \<notin> set (db_purged d)"
    using assms(4) by (rule SaveWatch_elim)
  have i: "md_id (d_metadata (cd_definition c)) = watch_id_of r" using Compile_id [OF c(1)] by simp
  have m: "map_of (db_watches d') = (map_of (db_watches d))(watch_id_of r \<mapsto> watch_upsert row (map_of (db_watches d) (watch_id_of r)))"
    by (simp add: c(3) i tbl_put_map_of [OF assms(5)])
  have "fst ` set revs \<subseteq> insert (watch_id_of r, cd_revision c) (fst ` set (db_revisions d))" by (auto simp: revs i tbl_put_keys)
  then show "purged_gone d'"
    using assms(2) p unfolding purged_gone_def revision_known_def by (simp add: c(3) i tbl_put_keys) blast
  have adv: "advanced w (watch_upsert row (map_of (db_watches d) (watch_id_of r)))" if "map_of (db_watches d) (watch_id_of r) = Some w" for w
    using assms(3) row that by (simp add: advanced_def newer_def)
  show "since d0 d'" unfolding since_def
  proof (intro conjI allI impI)
    show "set (db_purged d0) \<subseteq> set (db_purged d')" using assms(1) by (simp add: since_def c(3))
    fix j w
    assume "map_of (db_watches d0) j = Some w"
    then consider "j \<in> set (db_purged d)" | w' where "map_of (db_watches d) j = Some w'" "advanced w w'" using assms(1) unfolding since_def by blast
    then show "j \<in> set (db_purged d') \<or> (\<exists>w'. map_of (db_watches d') j = Some w' \<and> advanced w w')"
    proof cases
      case 1
      then show ?thesis by (simp add: c(3))
    next
      case 2
      then show ?thesis using adv advanced_trans by (cases "j = watch_id_of r") (auto simp: m)
    qed
  qed
qed

lemma since_purged:
  assumes "since d0 d" "purged_gone d" "PurgeWatch env i d = Inr d'"
  shows "since d0 d'" "purged_gone d'"
proof -
  have d': "d' = purged_rows i d" using assms(3) by (auto simp: PurgeWatch_def split: if_splits)
  have w: "map_of (db_watches d') j = map_of (db_watches d) j" if "j \<noteq> i" for j
    using that map_of_filter_key [of "\<lambda>k. k \<noteq> i" "db_watches d"] by (simp add: d' purged_parts)
  show "since d0 d'" using assms(1) w unfolding since_def by (auto simp: d' purged_parts) metis
  show "purged_gone d'" using assms(2) by (auto simp: purged_gone_def revision_known_def d' purged_parts)
qed

lemma append_same_rows: "append_all env r es now c d = Inr d' \<Longrightarrow> same_rows d d'"
  using frame.append [of d d "context_of env r undefined now"] purged.append [of d "db_purged d" "context_of env r undefined now"]
  by (intro same_rows_equal) (simp_all add: loop_frame_def)

lemma same_rows_timer: "SaveTimer v tm d = Inr d' \<Longrightarrow> same_rows d d'"
  and same_rows_entity: "saveEntityData i k rv st now d = Inr d' \<Longrightarrow> same_rows d d'"
  and same_rows_observation: "AppendObservation i rv g ob d = Inr (d', s) \<Longrightarrow> same_rows d d'"
  and same_rows_event: "AppendEvent e d = Inr (d', n) \<Longrightarrow> same_rows d d'"
  by (auto elim!: SaveTimer_elim saveEntityData_elim AppendObservation_elim AppendEvent_elim intro: same_rows_equal)

lemma same_rows_deleted: "same_rows d (DeleteTimers i d)" "same_rows d (ResetState i d)" "same_rows d (RevisionState i rv g d)"
  "same_rows d (d\<lparr>db_outbox := t\<rparr>)"
  by (simp_all add: same_rows_def DeleteTimers_def ResetState_def RevisionState_def)

definition later_than :: "db \<Rightarrow> db \<Rightarrow> bool" where
  "later_than d0 d \<longleftrightarrow> database_ok d \<and> since d0 d \<and> purged_gone d"

lemma later_rows: "later_than d0 d \<Longrightarrow> same_rows d d' \<Longrightarrow> database_ok d' \<Longrightarrow> later_than d0 d'"
  unfolding later_than_def by (blast intro: same_rows_kept)

lemma later_sound: "later_than d0 d \<Longrightarrow> database_ok d"
  by (simp add: later_than_def)

lemma later_table: "later_than d0 d \<Longrightarrow> tbl_ok (db_watches d)"
  by (simp add: later_than_def database_ok_def store_ok_def keys_ok_def)

interpretation later: runtime_invariant "later_than d0" cenv for d0 cenv
proof unfold_locales
  show "later_than d0 d \<Longrightarrow> database_ok d" for d by (rule later_sound)
  show "later_than d0 d \<Longrightarrow> SaveTimer v tm d = Inr d' \<Longrightarrow> later_than d0 d'" for d v tm d'
    by (rule later_rows [OF _ same_rows_timer whole.timer [OF later_sound]])
  show "later_than d0 d \<Longrightarrow> saveEntityData i k rv st now d = Inr d' \<Longrightarrow> later_than d0 d'" for d i k rv st now d'
    by (rule later_rows [OF _ same_rows_entity whole_entity [OF later_sound]])
  show "later_than d0 d \<Longrightarrow> AppendObservation i rv g ob d = Inr (d', s) \<Longrightarrow> later_than d0 d'" for d i rv g ob d' s
    by (rule later_rows [OF _ same_rows_observation whole_observation [OF later_sound]])
  show "later_than d0 d \<Longrightarrow> AppendEvent e d = Inr (d', n) \<Longrightarrow> later_than d0 d'" for d e d' n
    by (rule later_rows [OF _ same_rows_event whole.event [OF later_sound]])
  show "later_than d0 d \<Longrightarrow> append_all env r es now c d = Inr d' \<Longrightarrow> later_than d0 d'" for d env r es now c d'
    by (rule later_rows [OF _ append_same_rows whole_append [OF later_sound]])
  show "later_than d0 d \<Longrightarrow> newer d r \<Longrightarrow> SaveWatch cenv r lt now d = Inr d' \<Longrightarrow> later_than d0 d'" for d r lt now d'
    using since_saved [of d0 d r cenv lt now d'] later_table [of d0 d] whole_SaveWatch by (auto simp: later_than_def)
  show "later_than d0 d \<Longrightarrow> later_than d0 (DeleteTimers i d)" for d i
    by (rule later_rows [OF _ same_rows_deleted(1) whole_DeleteTimers [OF later_sound]])
  show "later_than d0 d \<Longrightarrow> later_than d0 (ResetState i d)" for d i
    by (rule later_rows [OF _ same_rows_deleted(2) whole_ResetState [OF later_sound]])
  show "later_than d0 d \<Longrightarrow> revision_known d i rv \<Longrightarrow> later_than d0 (RevisionState i rv g d)" for d i rv g
    by (rule later_rows [OF _ same_rows_deleted(3) whole_RevisionState [OF later_sound]])
  show "later_than d0 d \<Longrightarrow> PurgeWatch env i d = Inr d' \<Longrightarrow> later_than d0 d'" for d env i d'
    using since_purged [of d0 d env i d'] whole_purge by (auto simp: later_than_def)
  show "later_than d0 d \<Longrightarrow> digests cenv \<Longrightarrow> qstep cenv (db_outbox d) e t \<Longrightarrow> \<forall>n. e \<noteq> Enqueued n \<Longrightarrow> later_than d0 (d\<lparr>db_outbox := t\<rparr>)" for d e t
    by (rule later_rows [OF _ same_rows_deleted(4) whole_qstep [OF later_sound]])
  show "later_than d0 d \<Longrightarrow> later_than d0 (fst (acceptPush env r b input push now later' d))" for d env r b input push now later'
    by (rule later_rows [OF _ acceptance_same_rows [OF later_table] acceptance_ok [OF later_sound]])
qed

section \<open>The runtime\<close>

text \<open>What happens to the database of a runtime: manifests are applied, watches are paused, resumed,
  deleted and purged, inputs are accepted, timers run, the clock jumps, and deliveries are claimed,
  settled and retried. Every operation has an environment of its own; the compiler is that of the
  program.\<close>

inductive runtime_step :: "compile_env \<Rightarrow> db \<Rightarrow> db \<Rightarrow> bool" for cenv where
  applied: "apply_manifest env y mx validate fits q now d = Inr (d', chs) \<Longrightarrow> le_compile env = cenv \<Longrightarrow> runtime_step cenv d d'"
| changed: "lifecycle env i q now d = Inr (d', r) \<Longrightarrow> le_compile env = cenv \<Longrightarrow> runtime_step cenv d d'"
| accepted: "acceptPush env rd b input push now later' d = (d', res) \<Longrightarrow> runtime_step cenv d d'"
| timers: "RunTimers env now d = (d', res) \<Longrightarrow> runtime_step cenv d d'"
| clock: "clockShift env now d = Inr d' \<Longrightarrow> le_compile env = cenv \<Longrightarrow> runtime_step cenv d d'"
| claimed: "Claim cenv now lease token (db_outbox d) = Inr (t, Some i) \<Longrightarrow> token \<noteq> '''' \<Longrightarrow> runtime_step cenv d (d\<lparr>db_outbox := t\<rparr>)"
| finished: "Finish i res next_at now (db_outbox d) = Inr t \<Longrightarrow> runtime_step cenv d (d\<lparr>db_outbox := t\<rparr>)"
| retried: "Retry cenv ident now (db_outbox d) = Inr t \<Longrightarrow> runtime_step cenv d (d\<lparr>db_outbox := t\<rparr>)"

context runtime_invariant
begin

lemma step_kept:
  assumes "runtime_step cenv d d'" "digests cenv" "I d"
  shows "I d'"
  using assms(1)
proof cases
  case (applied env y mx validate fits q now chs)
  then show ?thesis using manifest_kept [OF assms(3) _ assms(2)] by blast
next
  case (changed env i q now r)
  then show ?thesis using lifecycle_kept [OF assms(3) _ _ assms(2)] by blast
next
  case (accepted env rd b input push now later' res)
  then show ?thesis using accept [OF assms(3), of env rd b input push now later'] by simp
next
  case (timers env now res)
  then show ?thesis using RunTimers_kept [OF assms(3), of env now] by simp
next
  case (clock env now)
  then show ?thesis using clock_kept [OF assms(3)] by blast
next
  case (claimed now lease token t i)
  then show ?thesis using queue [OF assms(3,2) qstep.claim] by simp
next
  case (finished i res next_at now t)
  then show ?thesis using queue [OF assms(3,2) qstep.finish] by simp
next
  case (retried ident now t)
  then show ?thesis using queue [OF assms(3,2) qstep.retry] by simp
qed

lemma steps_kept: "(runtime_step cenv)\<^sup>*\<^sup>* d d' \<Longrightarrow> digests cenv \<Longrightarrow> I d \<Longrightarrow> I d'"
  by (induction rule: rtranclp_induct) (auto dest: step_kept)

end

lemma empty_intact: "database_ok empty_db"
proof -
  have "keys_ok empty_db" "sequences_ok empty_db" "rows_refer empty_db" "events_refer empty_db" by code_simp+
  moreover have "pins_ok empty_db" by (simp add: pins_ok_def empty_db_def)
  ultimately show ?thesis by (simp add: database_ok_def store_ok_def empty_push_ok empty_db_def)
qed

lemma reachable_intact: "(runtime_step cenv)\<^sup>*\<^sup>* empty_db d \<Longrightarrow> digests cenv \<Longrightarrow> database_ok d"
  using intact.steps_kept empty_intact by blast

lemma reachable_later:
  assumes "(runtime_step cenv)\<^sup>*\<^sup>* empty_db d0" "(runtime_step cenv)\<^sup>*\<^sup>* d0 d" "digests cenv"
  shows "later_than d0 d"
proof -
  have "later_than empty_db empty_db"
    using empty_intact since_refl by (simp add: later_than_def purged_gone_def) (simp add: empty_db_def)
  then have "later_than empty_db d0" using later.steps_kept [OF assms(1,3)] by blast
  then have "later_than d0 d0" using since_refl by (simp add: later_than_def)
  then show ?thesis using later.steps_kept [OF assms(2,3)] by blast
qed

text \<open>C1: every database the runtime reaches from an empty one, by any sequence of applied manifests,
  lifecycle changes, purges, accepted inputs, timers, clock jumps and deliveries, has its integrity:
  rows in key order, growing sequences, no dangling reference, exact evidence pins, streams of the
  queue that are active exactly when they have work, and exact receipt statistics. Revisions of
  destinations are nonempty digests.\<close>

theorem reachable_database_ok:
  assumes "(runtime_step cenv)\<^sup>*\<^sup>* empty_db d" "digests cenv"
  shows "database_ok d"
  using assms by (rule reachable_intact)

section \<open>Generations fence inputs\<close>

lemma fenced_input:
  assumes "case map_of (db_watches d) (watch_id_of r) of None \<Rightarrow> True | Some w \<Rightarrow> wt_generation w \<noteq> wr_generation r"
  shows "fst (acceptPush env r b input push now later' d) = d \<and>
    (push = None \<longrightarrow> (\<exists>e. snd (acceptPush env r b input push now later' d) = Inl e))"
proof -
  have stale: "\<not> same_watch r current" if "Watch d (watch_id_of r) = Inr current" for current
    using that assms by (auto simp: Watch_def same_watch_def scanWatch_def split: option.splits)
  have "d' = d \<and> push \<noteq> None" if "accept_tx env r ev b input push now later' d = Inr (d', rc, sv)" for ev d' rc sv
    using that
  proof (rule accept_tx_case)
    fix current
    assume "Watch d (watch_id_of r) = Inr current" "accept_case env r ev b input push now later' d current d' rc sv"
    then show ?thesis
      using stale by (auto elim!: accept_case.cases) (auto simp: push_admission_def split: if_splits sum.splits prod.splits)
  qed
  moreover have "LastError (watch_id_of r) (wr_generation r) detail nx d = d" for detail nx
    using assms by (auto simp: LastError_def split: option.splits)
  ultimately show ?thesis by (cases push) (auto simp: acceptPush_def split: sum.split prod.split)
qed

section \<open>A purge is final\<close>

lemma purged_nothing:
  assumes "later_than d0 d" "i \<in> set (db_purged d)"
  shows "Watch d i = Inl ErrNotFound" "\<forall>rv. \<not> revision_known d i rv" "\<forall>x \<in> set (db_entities d). fst (fst x) \<noteq> i"
    "\<forall>x \<in> set (db_observations d). oo_watch_id (snd x) \<noteq> i" "\<forall>x \<in> set (db_events d). e_watch_id (snd x) \<noteq> i"
    "\<forall>x \<in> set (db_timers d). fst (fst x) \<noteq> i" "\<forall>x \<in> set (db_receipts d). fst (fst x) \<noteq> i"
proof -
  have g: "i \<notin> fst ` set (db_watches d)" "\<forall>rv. \<not> revision_known d i rv" using assms by (auto simp: later_than_def purged_gone_def)
  have r: "rows_refer d" using assms(1) by (simp add: later_than_def database_ok_def store_ok_def)
  show "Watch d i = Inl ErrNotFound" using g(1) by (simp add: Watch_def map_of_eq_None_iff [THEN iffD2])
  show "\<forall>rv. \<not> revision_known d i rv" by (rule g(2))
  show "\<forall>x \<in> set (db_entities d). fst (fst x) \<noteq> i" "\<forall>x \<in> set (db_observations d). oo_watch_id (snd x) \<noteq> i"
    "\<forall>x \<in> set (db_events d). e_watch_id (snd x) \<noteq> i" "\<forall>x \<in> set (db_timers d). fst (fst x) \<noteq> i" "\<forall>x \<in> set (db_receipts d). fst (fst x) \<noteq> i"
    using r g unfolding rows_refer_def by blast+
qed

lemma lifecycle_purge: "lifecycle env i q now d = Inr (d', r) \<Longrightarrow> lq_action q = ''purge'' \<Longrightarrow> i \<in> set (db_purged d')"
  unfolding lifecycle_def by (elim guardE bindE_InrE) (auto simp: PurgeWatch_def purged_parts elim!: bindE_InrE split: if_splits)

section \<open>A concrete run\<close>

text \<open>A manifest with a watch and its destination is applied, then the watch is paused, deleted and purged.\<close>

definition ex_digest_env :: compile_env where
  "ex_digest_env = ex_compile_env\<lparr>ce_destination_revision := (\<lambda>d. ''d:'' @ md_id (dest_metadata d))\<rparr>"

definition ex_life :: life_env where
  "ex_life = \<lparr>le_accept = ex_accept_env\<lparr>av_compile := ex_digest_env\<rparr>, le_principal = None, le_approved = [], le_held = (\<lambda>_. ''''),
     le_event_id = (\<lambda>ident rv kind g now. ident @ '':'' @ kind @ '':'' @ show_int g), le_lifetime = (\<lambda>ident. ''life''), le_order = (\<lambda>s. s),
     le_instance = ''ding'', le_manifest_hash = (\<lambda>s. s), le_closing = False\<rparr>"

definition ex_apply :: apply_request where
  "ex_apply = \<lparr>ar_start_paused = False, ar_reset_paused = False, ar_review = None, ar_manifest = ''wd'', ar_dry_run = False, ar_expected = []\<rparr>"

definition ex_request :: "string \<Rightarrow> lifecycle_request" where
  "ex_request action = \<lparr>lq_expected_generation = None, lq_action = action, lq_expected = '''', lq_cancel_pending = False\<rparr>"

definition ex_manifest :: yaml_env where
  "ex_manifest = ex_yaml\<lparr>ye_watch := (\<lambda>_. Inr (ex_declared\<lparr>d_spec := (d_spec ex_declared)\<lparr>s_destinations := [\<lparr>t_ref = ''ops'', t_events = []\<rparr>]\<rparr>\<rparr>))\<rparr>"

definition ex_apply_run :: "(db \<times> change list \<times> change list) result" where
  "ex_apply_run = apply_manifest ex_life ex_manifest 1000 (\<lambda>_. Inr ()) (\<lambda>_ _. True) ex_apply (30 * second) empty_db"

definition ex_change :: "string \<Rightarrow> db \<Rightarrow> (db \<times> watch_record) result" where
  "ex_change action d = lifecycle ex_life ''cpu'' (ex_request action) (60 * second) d"

lemma ex_run:
  "case ex_apply_run of Inl _ \<Rightarrow> False
   | Inr (d, _) \<Rightarrow> (case Watch d ''cpu'' of Inl _ \<Rightarrow> False | Inr r \<Rightarrow> wr_generation r = 1 \<and> wr_status r = ''running'') \<and>
       (case ex_change ''delete'' d of Inl _ \<Rightarrow> False
        | Inr (d1, _) \<Rightarrow> (case Watch d1 ''cpu'' of Inl _ \<Rightarrow> False | Inr c \<Rightarrow> wr_generation c = 2) \<and>
            (case ex_change ''purge'' d1 of Inl _ \<Rightarrow> False | Inr (d2, _) \<Rightarrow> db_purged d2 = [''cpu'']))"
  by code_simp

lemma ex_run_steps:
  obtains d0 r d1 c d2 r2 where "(runtime_step ex_digest_env)\<^sup>*\<^sup>* empty_db d0" "Watch d0 ''cpu'' = Inr r" "wr_generation r = 1"
    "(runtime_step ex_digest_env)\<^sup>*\<^sup>* d0 d1" "Watch d1 ''cpu'' = Inr c" "wr_generation c = 2"
    "ex_change ''purge'' d1 = Inr (d2, r2)" "digests ex_digest_env"
proof -
  obtain d0 chs r d1 r1 c d2 r2 where 1: "ex_apply_run = Inr (d0, chs)" "Watch d0 ''cpu'' = Inr r" "wr_generation r = 1"
    "ex_change ''delete'' d0 = Inr (d1, r1)" "Watch d1 ''cpu'' = Inr c" "wr_generation c = 2" "ex_change ''purge'' d1 = Inr (d2, r2)"
    using ex_run by (auto split: sum.splits prod.splits)
  have env: "le_compile ex_life = ex_digest_env" by (simp add: ex_life_def)
  have "runtime_step ex_digest_env empty_db d0" using 1(1) env unfolding ex_apply_run_def by (rule runtime_step.applied)
  moreover have "runtime_step ex_digest_env d0 d1" using 1(4) env unfolding ex_change_def by (rule runtime_step.changed)
  moreover have "digests ex_digest_env" by (simp add: digests_def ex_digest_env_def)
  ultimately show thesis using that 1 by blast
qed

theorem reachable_database_ok_witness:
  "\<exists>d r. (runtime_step ex_digest_env)\<^sup>*\<^sup>* empty_db d \<and> Watch d ''cpu'' = Inr r \<and> wr_generation r = 2 \<and> database_ok d"
proof -
  obtain d0 d1 c where r: "(runtime_step ex_digest_env)\<^sup>*\<^sup>* empty_db d0" "(runtime_step ex_digest_env)\<^sup>*\<^sup>* d0 d1" "Watch d1 ''cpu'' = Inr c"
    "wr_generation c = 2" "digests ex_digest_env" using ex_run_steps by metis
  have "(runtime_step ex_digest_env)\<^sup>*\<^sup>* empty_db d1" using r(1,2) by (rule rtranclp_trans)
  then show ?thesis using r reachable_database_ok [OF _ r(5)] by blast
qed

end
