(* ===== verification/Maintenance_Laws.thy ===== *)
theory Maintenance_Laws
  imports Retention_Safety Runtime_Laws
begin

text \<open>
  Maintenance as a whole: its loops over entities, over history and over log summaries end, it keeps
  the integrity of the database and everything that is needed, and it leaves nothing behind that has
  expired. A transfer that is left behind stops it.
\<close>

section \<open>Entities\<close>

lemma policy_record: "newMaintenancePolicy r = Inr p \<Longrightarrow> mp_record p = r"
  by (auto simp: newMaintenancePolicy_def Let_def split: if_splits elim!: bindE_InrE)

lemma whole_delete: "database_ok d \<Longrightarrow> database_ok (DeleteEntity i k d)"
  using store_ok_delete by (simp add: database_ok_def) (simp add: DeleteEntity_def)

text \<open>Maintenance may remove rows of watches and revisions, and nothing else happens to them.\<close>

definition thinned :: "db \<Rightarrow> db \<Rightarrow> bool" where
  "thinned d d' \<longleftrightarrow> db_purged d' = db_purged d \<and> subseq (db_watches d') (db_watches d) \<and> subseq (db_revisions d') (db_revisions d)"

lemma thinned_refl [simp]: "thinned d d"
  by (simp add: thinned_def)

lemma thinned_trans: "thinned d e \<Longrightarrow> thinned e f \<Longrightarrow> thinned d f"
  by (auto simp: thinned_def intro: subseq_order.order_trans)

lemma thinned_shrinks: "shrinks s s' \<Longrightarrow> thinned (rs_db s) (rs_db s')"
  by (simp add: shrinks_def thinned_def)

definition sound_since :: "db \<Rightarrow> db \<Rightarrow> bool" where
  "sound_since d0 d \<longleftrightarrow> database_ok d \<and> thinned d0 d"

lemma sound_next: "sound_since d0 d \<Longrightarrow> database_ok d' \<Longrightarrow> thinned d d' \<Longrightarrow> sound_since d0 d'"
  by (auto simp: sound_since_def intro: thinned_trans)

lemma sound_ok: "sound_since d0 d \<Longrightarrow> database_ok d"
  by (simp add: sound_since_def)

lemma maintainEntity_ok:
  assumes ok: "database_ok d" and w: "Watch d i = Inr r" and p: "newMaintenancePolicy r = Inr p"
    and m: "maintainEntity ex p key st now d = Inr d'"
  shows "database_ok d'" "fst ` set (db_entities d') \<subseteq> insert (i, key) (fst ` set (db_entities d))" "thinned d d'"
proof -
  have i: "watch_id_of r = i" using ok w by (auto simp: database_ok_def elim: Watch_elim)
  note m' = m [unfolded maintainEntity_def Let_def policy_record [OF p] i]
  show "database_ok d'"
    using m' whole.event [OF whole_delete [OF ok]] whole_entity [OF ok] by (auto split: if_splits elim!: bindE_pairE)
  show "thinned d d'"
    using m' by (auto simp: thinned_def DeleteEntity_def split: if_splits elim!: bindE_pairE AppendEvent_elim saveEntityData_elim)
  show "fst ` set (db_entities d') \<subseteq> insert (i, key) (fst ` set (db_entities d))"
  proof (cases "expires p (case Timer d i key ''missing'' of Inr _ \<Rightarrow> True | Inl _ \<Rightarrow> False) (live_seen now st) now")
    case True
    with m' obtain e n where "AppendEvent e (DeleteEntity i key d) = Inr (d', n)" by (auto elim!: bindE_pairE)
    then have "db_entities d' = tbl_del (i, key) (db_entities d)" by (auto simp: DeleteEntity_def elim!: AppendEvent_elim)
    then show ?thesis by (auto simp: tbl_del_def)
  next
    case False
    with m' obtain v where "db_entities d' = tbl_put (i, key) v (db_entities d)" by (auto elim!: saveEntityData_elim)
    then show ?thesis by (simp add: tbl_put_keys)
  qed
qed

lemma maintain_page_ok:
  assumes "database_ok d" "maintain_page ex now page d = Inr d'"
  shows "database_ok d' \<and> thinned d d' \<and> fst ` set (db_entities d') \<subseteq> fst ` set (db_entities d) \<union> fst ` set page"
  using assms
proof (induction page arbitrary: d)
  case (Cons q page)
  obtain i key st where q: "q = ((i, key), st)" by (metis prod.collapse)
  from Cons.prems(2) obtain r p d1 where w: "Watch d i = Inr r" "newMaintenancePolicy r = Inr p" "maintainEntity ex p key st now d = Inr d1"
    "maintain_page ex now page d1 = Inr d'"
    by (auto simp: q elim!: bindE_InrE)
  note m = maintainEntity_ok [OF Cons.prems(1) w(1-3)]
  have "database_ok d' \<and> thinned d1 d' \<and> fst ` set (db_entities d') \<subseteq> fst ` set (db_entities d1) \<union> fst ` set page" by (rule Cons.IH [OF m(1) w(4)])
  moreover have "fst ` set (q # page) = insert (i, key) (fst ` set page)" by (simp add: q)
  ultimately show ?case using m(2) thinned_trans [OF m(3)] by blast
qed simp

text \<open>The keys of entities that are still ahead of the cursor.\<close>

definition ahead :: "ret_state \<Rightarrow> entity_key set" where
  "ahead s = {k \<in> fst ` set (db_entities (rs_db s)). rs_entity s < k}"

lemma maintain_batch_progress:
  assumes ok: "sound_since d0 (rs_db s)" and b: "maintain_batch ex now limit s = Inr (s', fin)"
  shows "sound_since d0 (rs_db s')" "fin \<or> card (ahead s') < card (ahead s)"
proof -
  let ?page = "take (nat limit) (map (\<lambda>(k, r). (k, er_state r)) (filter (\<lambda>(k, _). rs_entity s < k) (db_entities (rs_db s))))"
  let ?s = "s\<lparr>rs_entity := (if ?page = [] then ('''', '''') else fst (last ?page))\<rparr>"
  from b obtain d where d: "maintain_page ex now ?page (rs_db s) = Inr d" "s' = ?s\<lparr>rs_db := d\<rparr>" "fin \<longleftrightarrow> ?page = []"
    unfolding maintain_batch_def NextMaintenanceEntities_def Let_def by (auto elim!: bindE_InrE split: if_splits)
  note page = maintain_page_ok [OF sound_ok [OF ok] d(1)]
  show "sound_since d0 (rs_db s')" using sound_next [OF ok] page by (simp add: d(2))
  have sub: "fst ` set ?page \<subseteq> ahead s"
  proof
    fix k assume "k \<in> fst ` set ?page"
    then have "k \<in> fst ` set (map (\<lambda>(k, r). (k, er_state r)) (filter (\<lambda>(k, _). rs_entity s < k) (db_entities (rs_db s))))"
      using set_take_subset by fastforce
    then show "k \<in> ahead s" by (force simp: ahead_def)
  qed
  show "fin \<or> card (ahead s') < card (ahead s)"
  proof (cases "?page = []")
    case False
    let ?l = "fst (last ?page)"
    have l: "?l \<in> ahead s" using sub last_in_set [OF False] by blast
    have "ahead s' = {k \<in> fst ` set (db_entities d). ?l < k}" using False by (simp add: ahead_def d(2))
    also have "\<dots> \<subseteq> ahead s - {?l}"
    proof
      fix k assume k: "k \<in> {k \<in> fst ` set (db_entities d). ?l < k}"
      have "k \<in> fst ` set (db_entities (rs_db s))" using k page sub unfolding ahead_def by blast
      moreover have "rs_entity s < ?l" using l unfolding ahead_def by blast
      ultimately show "k \<in> ahead s - {?l}" using k unfolding ahead_def by (auto simp del: less_prod_simp dest: less_trans)
    qed
    finally have "ahead s' \<subset> ahead s" using l by blast
    moreover have "finite (ahead s)" by (simp add: ahead_def)
    ultimately show ?thesis using psubset_card_mono by blast
  qed (simp add: d(3))
qed

lemma maintain_entities_ends:
  assumes "sound_since d0 (rs_db s)"
  shows "\<exists>s' r. maintain_entities ex now limit s = Some (s', r) \<and> sound_since d0 (rs_db s')"
  using assms
proof (induction "card (ahead s)" arbitrary: s rule: less_induct)
  case less
  show ?case
  proof (cases "maintain_batch ex now limit s")
    case (Inl e)
    then show ?thesis using less.prems by (simp add: maintain_entities.simps)
  next
    case (Inr p)
    obtain s1 fin where p: "p = (s1, fin)" by (cases p)
    note b = maintain_batch_progress [OF less.prems Inr [unfolded p]]
    show ?thesis
    proof (cases fin)
      case True
      then show ?thesis using b Inr p by (simp add: maintain_entities.simps)
    next
      case False
      then obtain s' r where "maintain_entities ex now limit s1 = Some (s', r)" "sound_since d0 (rs_db s')"
        using less.hyps [of s1] b by blast
      then show ?thesis using Inr p False by (subst maintain_entities.simps) simp
    qed
  qed
qed

section \<open>History\<close>

lemma retain_ends:
  assumes "sound_since d0 (rs_db s)"
  shows "\<exists>s' r. retain_loop (RetainBatch cutoff now limit pass) s = Some (s', r) \<and> sound_since d0 (rs_db s')"
proof (rule retain_loop_ends [where I = "\<lambda>s. sound_since d0 (rs_db s)" and m = "work pass (timestamp cutoff)"])
  show "sound_since d0 (rs_db s') \<and> 0 \<le> n \<and> int (work pass (timestamp cutoff) s') + n \<le> int (work pass (timestamp cutoff) s)"
    if "sound_since d0 (rs_db s)" "RetainBatch cutoff now limit pass s = Inr (s', n)" for s s' n
    using RetainBatch_safe [OF sound_ok [OF that(1)] that(2)] batch_progress [OF that(2)] sound_next [OF that(1)] thinned_shrinks [of s s']
    by (simp add: safe_def)
qed (rule assms)

lemma retain_log_ends:
  assumes "sound_since d0 (rs_db s)"
  shows "\<exists>s' r. retain_loop (RetainLogSummariesBatch i cutoff limit pass) s = Some (s', r) \<and> sound_since d0 (rs_db s')"
proof (rule retain_loop_ends [where I = "\<lambda>s. sound_since d0 (rs_db s)"
      and m = "\<lambda>s. remaining 0 pass (timestamp cutoff) (rs_logs s i) (log_rows i s)"])
  fix s s' n
  assume ok: "sound_since d0 (rs_db s)" and "RetainLogSummariesBatch i cutoff limit pass s = Inr (s', n)"
  then have f: "family_logs i pass (timestamp cutoff) (nat limit) s = Inr (s', n)" by (auto simp: RetainLogSummariesBatch_def split: if_splits)
  show "sound_since d0 (rs_db s') \<and> 0 \<le> n \<and> int (remaining 0 pass (timestamp cutoff) (rs_logs s' i) (log_rows i s')) + n \<le>
      int (remaining 0 pass (timestamp cutoff) (rs_logs s i) (log_rows i s))"
    using sound_next [OF ok safe_ok [OF safe_families(6) [OF sound_ok [OF ok] f]] thinned_shrinks] fam_logs.progress [OF f] by simp
qed (rule assms)

lemma retain_logs_ends:
  "sound_since d0 (rs_db s) \<Longrightarrow> \<exists>s' r. retain_logs pass now limit rs s = Some (s', r) \<and> sound_since d0 (rs_db s')"
proof (induction rs arbitrary: s)
  case (Cons w rs)
  show ?case
  proof (cases "src_logs (s_source (d_spec (cd_definition (wr_plan w))))")
    case None
    then show ?thesis using Cons by simp
  next
    case (Some l)
    let ?k = "duration_or_zero (ls_retention l)"
    obtain s1 r where "retain_loop (RetainLogSummariesBatch (md_id (d_metadata (cd_definition (wr_plan w)))) (now - (if ?k = 0 then hour else ?k)) limit pass) s =
        Some (s1, r)" "sound_since d0 (rs_db s1)" using retain_log_ends [OF Cons.prems] by blast
    then show ?thesis using Some Cons.IH [of s1] by (cases r) (simp_all add: Let_def)
  qed
qed simp

lemma maintenance_returns:
  assumes "database_ok (rs_db s)"
  shows "\<exists>s' r. Maintain expired_id pass retention now s = Some (s', r) \<and> database_ok (rs_db s') \<and> thinned (rs_db s) (rs_db s')"
proof -
  have s: "sound_since (rs_db s) (rs_db s)" using assms by (simp add: sound_since_def)
  obtain s1 r1 where 1: "maintain_entities expired_id now 64 s = Some (s1, r1)" "sound_since (rs_db s) (rs_db s1)"
    using maintain_entities_ends [OF s] by blast
  obtain s2 r2 where 2: "retain_loop (RetainBatch (now - retention) now 64 pass) s1 = Some (s2, r2)" "sound_since (rs_db s) (rs_db s2)"
    using retain_ends [OF 1(2)] by blast
  have "\<exists>s' r. Maintain expired_id pass retention now s = Some (s', r) \<and> sound_since (rs_db s) (rs_db s')"
    using 1 2 retain_logs_ends [OF 2(2)] by (cases r1; cases r2) (simp_all add: Maintain_def)
  then show ?thesis by (simp add: sound_since_def)
qed

text \<open>C7: Maintenance always returns. Whatever the clock, the retention period and the saved cursors are,
  its loops over entity pages, history batches and log summaries end, successfully or with the first error,
  and the database it leaves has its integrity.\<close>

theorem maintenance_ends:
  assumes "database_ok (rs_db s)"
  shows "\<exists>s' r. Maintain expired_id pass retention now s = Some (s', r) \<and> database_ok (rs_db s')"
  using maintenance_returns [OF assms] by blast

text \<open>A service: the steps of the runtime and runs of maintenance, in any order. A purge removes the transfers of its
  watch too, and every event it deletes raises the floors of the cursors (\<open>event_cursor_expiry\<close>).\<close>

definition after_step :: "db \<Rightarrow> ret_state \<Rightarrow> ret_state" where
  "after_step d s = s\<lparr>rs_db := d, rs_handoffs := filter (\<lambda>(_, w). w \<notin> set (db_purged d)) (rs_handoffs s),
     rs_floor := fold raise_floor (filter (\<lambda>q. q \<notin> set (db_events d)) (db_events (rs_db s))) (rs_floor s)\<rparr>"

lemma after_step_db [simp]: "rs_db (after_step d s) = d"
  by (simp add: after_step_def)

inductive service_step :: "compile_env \<Rightarrow> ret_state \<Rightarrow> ret_state \<Rightarrow> bool" for cenv where
  ran: "runtime_step cenv (rs_db s) d \<Longrightarrow> service_step cenv s (after_step d s)"
| maintained: "Maintain expired_id pass retention now s = Some (s', r) \<Longrightarrow> service_step cenv s s'"

text \<open>C5: Maintenance may run between any steps of the runtime, with any clock, and may fail half way: every database
  a service reaches keeps its keys, sequences, references and pins and the invariants of the queue and of the
  receipts.\<close>

theorem service_database_ok:
  assumes "(service_step cenv)\<^sup>*\<^sup>* s s'" "rs_db s = empty_db" "digests cenv"
  shows "database_ok (rs_db s')"
  using assms(1)
proof (induction rule: rtranclp_induct)
  case base
  then show ?case using empty_intact by (simp add: assms(2))
next
  case (step t u)
  from step(2) show ?case
  proof cases
    case (ran d)
    then show ?thesis using intact.step_kept [OF _ assms(3) step(3)] by simp
  next
    case (maintained expired_id pass retention now r)
    then show ?thesis using maintenance_returns [OF step(3), of expired_id pass retention now] by auto
  qed
qed

text \<open>C6: Retention removes nothing that is needed. A batch keeps entities, pins and timers; unfinished
  or recent deliveries; events that are recent, referred to by an entity or the subject of an unfinished
  delivery, with their evidence; observations that are recent or referred to by an entity; watches that are
  not deleted; and receipts that have not expired. Every reference of the database still holds.\<close>

theorem retention_keeps_needed:
  assumes "database_ok (rs_db s)" "RetainBatch cutoff now limit pass s = Inr (s', n)"
  shows "database_ok (rs_db s') \<and> keeps (timestamp cutoff) (timestamp now) (rs_db s) (rs_db s')"
  using RetainBatch_safe [OF assms] by (simp add: safe_def)

section \<open>What retention leaves\<close>

lemma subset_of_subseq: "subseq xs ys \<Longrightarrow> set xs \<subseteq> set ys"
  by (auto simp: subseq_conv_nths dest: in_set_nthsD)

lemma shrinks_sets:
  assumes "shrinks s s'"
  shows "set (db_receipts (rs_db s')) \<subseteq> set (db_receipts (rs_db s))" "set (pt_receipts (db_push (rs_db s'))) \<subseteq> set (pt_receipts (db_push (rs_db s)))"
    "set (ot_backoff (db_outbox (rs_db s'))) \<subseteq> set (ot_backoff (db_outbox (rs_db s)))"
    "set (ot_rows (db_outbox (rs_db s'))) \<subseteq> set (ot_rows (db_outbox (rs_db s)))"
    "set (db_events (rs_db s')) \<subseteq> set (db_events (rs_db s))" "set (db_observations (rs_db s')) \<subseteq> set (db_observations (rs_db s))"
  using assms by (auto simp: shrinks_def dest!: subset_of_subseq)

lemma empty_page: "min (length (filter Q xs)) l = 0 \<Longrightarrow> 1 \<le> l \<Longrightarrow> x \<in> set xs \<Longrightarrow> \<not> Q x"
  by (auto simp: min_def filter_empty_conv split: if_splits)

text \<open>Nothing that has expired, no finished delivery older than the cutoff, no stream without a delivery.\<close>

definition swept :: "int \<Rightarrow> int \<Rightarrow> db \<Rightarrow> bool" where
  "swept cutoff now d \<longleftrightarrow>
     (\<forall>q \<in> set (db_receipts d). now < rc_expires_at (snd q)) \<and> (\<forall>r \<in> set (pt_receipts (db_push d)). now < pw_expires_at r) \<and>
     (\<forall>q \<in> set (ot_backoff (db_outbox d)). now < snd q) \<and> (\<forall>r \<in> set (ot_rows (db_outbox d)). live r \<or> cutoff \<le> ob_created_at r) \<and>
     (\<forall>x \<in> set (ot_streams (db_outbox d)). \<exists>r \<in> set (ot_rows (db_outbox d)). stream_key r = row_key x)"

lemma idle_batch:
  assumes "RetainBatch cutoff now limit pass s = Inr (s', 0)"
  shows "swept (timestamp cutoff) (timestamp now) (rs_db s')"
  using assms
proof (rule RetainBatch_elim)
  fix s1 n1 s2 n2 s3 n3 s4 n4 s5 n5 n6
  let ?c = "timestamp cutoff" and ?n = "timestamp now" and ?l = "nat limit"
  assume lim: "1 \<le> limit" and s: "direct (batch_input_receipts ?n ?l) s = (s1, n1)" "direct (batch_push_receipts ?n ?l) s1 = (s2, n2)"
    "direct (batch_backoff ?n ?l) s2 = (s3, n3)" "direct (batch_outbox ?c ?l) s3 = (s4, n4)"
    "families pass ?c ?l s4 = Inr (s5, n5)" "direct (batch_streams ?l) s5 = (s', n6)" and n: "0 = n1 + n2 + n3 + n4 + n5 + n6"
  have l: "1 \<le> ?l" using lim by simp
  have "0 \<le> n1" "0 \<le> n2" "0 \<le> n3" "0 \<le> n4" "0 \<le> n6"
    using direct_counts(1) [of ?n ?l s] direct_counts(2) [of ?n ?l s1] direct_counts(3) [of ?n ?l s2]
      direct_counts(4) [of ?c ?l s3] direct_counts(5) [of ?l s5] by (simp_all add: s)
  then have z: "n1 = 0" "n2 = 0" "n3 = 0" "n4 = 0" "n6 = 0" using n families_progress(2) [OF s(5)] by linarith+
  have sh: "shrinks s s1" "shrinks s1 s2" "shrinks s2 s3" "shrinks s3 s4" "shrinks s4 s5" "shrinks s5 s'"
    using shrinks_direct(1) [of s ?n ?l] shrinks_direct(2) [of s1 ?n ?l] shrinks_direct(3) [of s2 ?n ?l] shrinks_direct(4) [of s3 ?c ?l]
      families_progress(1) [OF s(5)] shrinks_direct(5) [of s5 ?l] by (simp_all add: s)
  have to: "shrinks s s'" "shrinks s1 s'" "shrinks s2 s'" "shrinks s3 s'" using sh shrinks_trans by blast+
  have 1: "?n < rc_expires_at (snd q)" if q: "q \<in> set (db_receipts (rs_db s))" for q
  proof -
    have "min (length (filter (\<lambda>q. rc_expires_at (snd q) \<le> ?n) (db_receipts (rs_db s)))) ?l = 0"
      using s(1) by (simp add: z direct_def batch_input_receipts_def Let_def)
    from empty_page [OF this l q] show ?thesis by simp
  qed
  have 2: "?n < pw_expires_at r" if r: "r \<in> set (pt_receipts (db_push (rs_db s1)))" for r
  proof -
    have "min (length (filter (\<lambda>r. pw_expires_at r \<le> ?n) (pt_receipts (db_push (rs_db s1))))) ?l = 0"
      using s(2) by (simp add: z direct_def batch_push_receipts_def Let_def)
    from empty_page [OF this l r] show ?thesis by simp
  qed
  have 3: "?n < snd q" if q: "q \<in> set (ot_backoff (db_outbox (rs_db s2)))" for q
  proof -
    have "min (length (filter (\<lambda>q. snd q \<le> ?n) (ot_backoff (db_outbox (rs_db s2))))) ?l = 0"
      using s(3) by (simp add: z direct_def batch_backoff_def Let_def)
    from empty_page [OF this l q] show ?thesis by simp
  qed
  have 4: "live r \<or> ?c \<le> ob_created_at r" if r: "r \<in> set (ot_rows (db_outbox (rs_db s3)))" for r
  proof -
    have "min (length (filter (\<lambda>r. ob_created_at r < ?c \<and> \<not> live r) (ot_rows (db_outbox (rs_db s3))))) ?l = 0"
      using s(4) by (simp add: z direct_def batch_outbox_def Let_def)
    from empty_page [OF this l r] show ?thesis by auto
  qed
  have 5: "\<exists>r \<in> set (ot_rows (db_outbox (rs_db s'))). stream_key r = row_key x" if x: "x \<in> set (ot_streams (db_outbox (rs_db s')))" for x
  proof -
    let ?t = "db_outbox (rs_db s5)"
    have rows: "ot_rows (db_outbox (rs_db s')) = ot_rows ?t" "set (ot_streams (db_outbox (rs_db s'))) \<subseteq> set (ot_streams ?t)"
      using s(6) by (auto simp: direct_def batch_streams_def Let_def)
    have m: "min (length (filter (\<lambda>s. \<not> list_ex (\<lambda>r. stream_key r = row_key s) (ot_rows ?t)) (ot_streams ?t))) ?l = 0"
      using s(6) by (simp add: z direct_def batch_streams_def Let_def)
    have "x \<in> set (ot_streams ?t)" using rows(2) x by blast
    from empty_page [OF m l this] show ?thesis by (auto simp: rows(1) list_ex_iff)
  qed
  show ?thesis unfolding swept_def
    using 1 2 3 4 5 shrinks_sets(1) [OF to(1)] shrinks_sets(2) [OF to(2)] shrinks_sets(3) [OF to(3)] shrinks_sets(4) [OF to(4)] by blast
qed

lemma retain_loop_last:
  assumes "retain_loop batch s = Some y" "snd y = Inr u"
  shows "\<exists>s0. batch s0 = Inr (fst y, 0)"
proof -
  have "snd y = Inr u \<longrightarrow> (\<exists>s0. batch s0 = Inr (fst y, 0))"
    by (rule retain_loop.raw_induct [OF _ assms(1), where P = "\<lambda>batch s y. snd y = Inr u \<longrightarrow> (\<exists>s0. batch s0 = Inr (fst y, 0))"])
      (fastforce split: sum.splits prod.splits if_splits)
  then show ?thesis using assms(2) by blast
qed

text \<open>C21: When the retention loop succeeds, no expired receipt or back-off is left, every finished
  delivery is younger than the cutoff, and every stream has a delivery.\<close>

theorem retention_leaves_nothing_expired:
  assumes "retain_loop (RetainBatch cutoff now limit pass) s = Some (s', Inr u)"
  shows "swept (timestamp cutoff) (timestamp now) (rs_db s')"
  using retain_loop_last [OF assms] idle_batch [of cutoff now limit pass] by auto

section \<open>Incidents survive\<close>


section \<open>Transfers that are left behind\<close>

lemma scan_total:
  assumes "\<And>ks s. \<exists>s'. sweep ks s = Inr s'"
  obtains s' c n where "scanRetentionFamily z rows sweep pass cutoff limit saved s = Inr (s', c, n)"
proof -
  have "\<exists>r. scanRetentionFamily z rows sweep pass cutoff limit saved s = Inr r"
    using assms by (fastforce simp: scanRetentionFamily_def Let_def)
  then show thesis using that by (metis prod_cases3)
qed

text \<open>The families before the watches always succeed and leave the watches and their cursor alone.\<close>

lemma family_events_runs:
  obtains s' n where "family_events pass cutoff limit s = Inr (s', n)" "shrinks s s'" "db_watches (rs_db s') = db_watches (rs_db s)"
    "rs_watches s' = rs_watches s"
proof -
  have "\<exists>s'. sweep_events ks s = Inr s'" for ks s by (simp add: sweep_events_def)
  from scan_total [OF this] obtain s1 c n where "scanRetentionFamily 0 (map (\<lambda>(n, e). (timestamp (e_at e), n)) (db_events (rs_db s)))
      sweep_events pass cutoff limit (rs_events s) s = Inr (s1, c, n)" .
  then have f: "family_events pass cutoff limit s = Inr (s1\<lparr>rs_events := c\<rparr>, n)" by (simp add: family_events_def)
  show thesis
  proof (rule that [OF f])
    show "shrinks s (s1\<lparr>rs_events := c\<rparr>)" by (rule fam_events.progress(1) [OF f])
    show "db_watches (rs_db (s1\<lparr>rs_events := c\<rparr>)) = db_watches (rs_db s)"
      by (rule fam_events.step_invariant [OF f, of "\<lambda>t. db_watches (rs_db t) = db_watches (rs_db s)"])
        (auto simp: sweep_events_def delete_events_def Let_def)
    show "rs_watches (s1\<lparr>rs_events := c\<rparr>) = rs_watches s" using family_cursors(1) [OF f] by simp
  qed
qed

lemma family_observations_runs:
  obtains s' n where "family_observations pass cutoff limit s = Inr (s', n)" "shrinks s s'" "db_watches (rs_db s') = db_watches (rs_db s)"
    "rs_watches s' = rs_watches s"
proof -
  have "\<exists>s'. sweep_observations ks s = Inr s'" for ks s by (simp add: sweep_observations_def Let_def)
  from scan_total [OF this] obtain s1 c n where "scanRetentionFamily 0 (map (\<lambda>(n, r). (oo_accepted_at r, n)) (db_observations (rs_db s)))
      sweep_observations pass cutoff limit (rs_observations s) s = Inr (s1, c, n)" .
  then have f: "family_observations pass cutoff limit s = Inr (s1\<lparr>rs_observations := c\<rparr>, n)" by (simp add: family_observations_def)
  show thesis
  proof (rule that [OF f])
    show "shrinks s (s1\<lparr>rs_observations := c\<rparr>)" by (rule fam_observations.progress(1) [OF f])
    show "db_watches (rs_db (s1\<lparr>rs_observations := c\<rparr>)) = db_watches (rs_db s)"
      by (rule fam_observations.step_invariant [OF f, of "\<lambda>t. db_watches (rs_db t) = db_watches (rs_db s)"])
        (auto simp: sweep_observations_def Let_def)
    show "rs_watches (s1\<lparr>rs_observations := c\<rparr>) = rs_watches s" using family_cursors(2) [OF f] by simp
  qed
qed

lemma fewer_ex: "\<not> list_ex P ys \<Longrightarrow> set xs \<subseteq> set ys \<Longrightarrow> \<not> list_ex P xs"
  by (auto simp: list_ex_iff)

lemma watch_free_shrinks:
  assumes "shrinks s s'" "watch_free (rs_db s) i"
  shows "watch_free (rs_db s') i"
proof -
  have "db_entities (rs_db s') = db_entities (rs_db s)" "db_timers (rs_db s') = db_timers (rs_db s)" using assms(1) by (simp_all add: shrinks_def)
  then show ?thesis using assms(2) shrinks_sets(1,4,5,6) [OF assms(1)] unfolding watch_free_def by (auto intro: fewer_ex [THEN notE])
qed

lemma direct_watches:
  "db_watches (rs_db (fst (direct (batch_input_receipts now l) s))) = db_watches (rs_db s) \<and> rs_watches (fst (direct (batch_input_receipts now l) s)) = rs_watches s \<and>
   db_watches (rs_db (fst (direct (batch_push_receipts now l) s))) = db_watches (rs_db s) \<and> rs_watches (fst (direct (batch_push_receipts now l) s)) = rs_watches s \<and>
   db_watches (rs_db (fst (direct (batch_backoff now l) s))) = db_watches (rs_db s) \<and> rs_watches (fst (direct (batch_backoff now l) s)) = rs_watches s \<and>
   db_watches (rs_db (fst (direct (batch_outbox now l) s))) = db_watches (rs_db s) \<and> rs_watches (fst (direct (batch_outbox now l) s)) = rs_watches s"
  by (simp add: direct_def batch_input_receipts_def batch_push_receipts_def batch_backoff_def batch_outbox_def Let_def)

lemma sweep_fails:
  assumes "(i, w) \<in> set (db_watches (rs_db s))" "removable_watch (rs_db s) ks (i, w)" "i \<in> snd ` set (rs_handoffs s)"
  shows "sweep_watches ks s = Inl foreign_key_error"
proof -
  have "i \<in> set (map fst (filter (removable_watch (rs_db s) ks) (db_watches (rs_db s))))" using assms(1,2) by force
  then have "list_ex (\<lambda>(_, w). w \<in> set (map fst (filter (removable_watch (rs_db s) ks) (db_watches (rs_db s))))) (rs_handoffs s)"
    using assms(3) unfolding list_ex_iff by (force simp del: set_map)
  then show ?thesis unfolding sweep_watches_def Let_def by (rule if_P)
qed

lemma scan_fails:
  assumes "sweep (map snd (take limit (sort_key (\<lambda>p. p) (filter (beyond (resumed_cursor z pass saved) cutoff) rows)))) s = Inl e"
    "take limit (sort_key (\<lambda>p. p) (filter (beyond (resumed_cursor z pass saved) cutoff) rows)) \<noteq> []"
    "\<And>c. saved = Some c \<Longrightarrow> cu_done c \<and> cu_pass c \<noteq> pass"
  shows "scanRetentionFamily z rows sweep pass cutoff limit saved s = Inl e"
proof -
  have "\<not> (case saved of None \<Rightarrow> False | Some c \<Rightarrow> cu_pass c = pass \<and> cu_done c)" using assms(3) by (cases saved) auto
  then show ?thesis unfolding scanRetentionFamily_def Let_def assms(1) by (simp only: assms(2) if_False bindE.simps)
qed

lemma family_watches_fails:
  assumes q: "(i, w) \<in> set (db_watches (rs_db s))" "wt_status w = ''deleted''" "min_int64 < wt_next_at w" "wt_next_at w < cutoff"
    and free: "watch_free (rs_db s) i" and h: "i \<in> snd ` set (rs_handoffs s)"
    and c: "\<And>c. rs_watches s = Some c \<Longrightarrow> cu_done c \<and> cu_pass c \<noteq> pass" and len: "length (watch_rows s) \<le> limit"
  shows "family_watches pass cutoff limit s = Inl foreign_key_error"
proof -
  let ?c = "resumed_cursor '''' pass (rs_watches s)"
  let ?cs = "take limit (sort_key (\<lambda>p. p) (filter (beyond ?c cutoff) (watch_rows s)))"
  have "length (filter (beyond ?c cutoff) (watch_rows s)) \<le> limit" by (rule order_trans [OF length_filter_le len])
  then have cs: "set ?cs = set (filter (beyond ?c cutoff) (watch_rows s))" by simp
  have "cu_at ?c = min_int64" using c by (auto simp: resumed_cursor_def fresh_cursor_def Let_def split: option.split)
  moreover have "(wt_next_at w, i) \<in> set (watch_rows s)" using q(1,2) by (force simp: watch_rows_def)
  ultimately have m: "(wt_next_at w, i) \<in> set ?cs" unfolding cs using q(3,4) by (simp add: beyond_def)
  then have i: "i \<in> set (map snd ?cs)" unfolding set_map by (rule image_eqI [rotated]) simp
  have ne: "?cs \<noteq> []" using m by (auto simp del: take_eq_Nil)
  have "removable_watch (rs_db s) (map snd ?cs) (i, w)" using q(2) free i unfolding removable_watch_def by simp
  from sweep_fails [OF q(1) this h] ne c
  have "scanRetentionFamily '''' (watch_rows s) sweep_watches pass cutoff limit (rs_watches s) s = Inl foreign_key_error"
    by (rule scan_fails)
  then show ?thesis by (simp add: family_watches_def watch_rows_def)
qed

text \<open>C22: A watch that was transferred to another server stops retention once it is deleted. When nothing of it is
  left but the record of the transfer, which the sweep does not look at and which still refers to the watch, a
  pass that starts on the watches and has all deleted ones on its first page fails: the batch violates the foreign
  key and is rolled back as a whole, and the retention loop ends with that error and the state it started from.\<close>

theorem handoff_stops_retention:
  assumes "(i, w) \<in> set (db_watches (rs_db s))" "wt_status w = ''deleted''" "min_int64 < wt_next_at w" "wt_next_at w < timestamp cutoff"
    and "watch_free (rs_db s) i" "i \<in> snd ` set (rs_handoffs s)"
    and "\<And>c. rs_watches s = Some c \<Longrightarrow> cu_done c \<and> cu_pass c \<noteq> pass" "int (length (watch_rows s)) \<le> limit"
    and "1 \<le> limit" "limit \<le> 256" "pass \<noteq> ''''" "length pass \<le> 128"
  shows "RetainBatch cutoff now limit pass s = Inl foreign_key_error \<and>
    retain_loop (RetainBatch cutoff now limit pass) s = Some (s, Inl foreign_key_error)"
proof -
  let ?c = "timestamp cutoff" and ?n = "timestamp now" and ?l = "nat limit"
  obtain s1 n1 where 1: "direct (batch_input_receipts ?n ?l) s = (s1, n1)" by fastforce
  obtain s2 n2 where 2: "direct (batch_push_receipts ?n ?l) s1 = (s2, n2)" by fastforce
  obtain s3 n3 where 3: "direct (batch_backoff ?n ?l) s2 = (s3, n3)" by fastforce
  obtain s4 n4 where 4: "direct (batch_outbox ?c ?l) s3 = (s4, n4)" by fastforce
  obtain s5 n5 where 5: "family_events pass ?c ?l s4 = Inr (s5, n5)" "shrinks s4 s5" "db_watches (rs_db s5) = db_watches (rs_db s4)"
    "rs_watches s5 = rs_watches s4" by (rule family_events_runs)
  obtain s6 n6 where 6: "family_observations pass ?c ?l s5 = Inr (s6, n6)" "shrinks s5 s6" "db_watches (rs_db s6) = db_watches (rs_db s5)"
    "rs_watches s6 = rs_watches s5" by (rule family_observations_runs)
  have "shrinks s s1" "shrinks s1 s2" "shrinks s2 s3" "shrinks s3 s4"
    using shrinks_direct(1) [of s ?n ?l] shrinks_direct(2) [of s1 ?n ?l] shrinks_direct(3) [of s2 ?n ?l] shrinks_direct(4) [of s3 ?c ?l]
    by (simp_all add: 1 2 3 4)
  then have sh: "shrinks s s6" using 5(2) 6(2) shrinks_trans by blast
  have w4: "db_watches (rs_db s4) = db_watches (rs_db s) \<and> rs_watches s4 = rs_watches s"
    using direct_watches [of ?n ?l s] direct_watches [of ?n ?l s1] direct_watches [of ?n ?l s2] direct_watches [of ?c ?l s3] by (simp add: 1 2 3 4)
  have w: "db_watches (rs_db s6) = db_watches (rs_db s)" "rs_watches s6 = rs_watches s" "rs_handoffs s6 = rs_handoffs s"
    using w4 5(3,4) 6(3,4) sh by (simp_all add: shrinks_def)
  have "family_watches pass ?c ?l s6 = Inl foreign_key_error"
    using assms w watch_free_shrinks [OF sh] by (intro family_watches_fails [of i w]) (auto simp: watch_rows_def)
  then have "families pass ?c ?l s4 = Inl foreign_key_error" by (simp add: families_def 5(1) 6(1))
  then have "RetainBatch cutoff now limit pass s = Inl foreign_key_error" using assms(9-12) by (simp add: RetainBatch_def Let_def 1 2 3 4)
  then show ?thesis by (simp add: retain_loop.simps)
qed

section \<open>A concrete sweep\<close>

definition ex_ret :: "(string \<times> string) list \<Rightarrow> db \<Rightarrow> ret_state" where
  "ex_ret hs d = \<lparr>rs_db = d, rs_handoffs = hs, rs_created = (\<lambda>_. 1), rs_floor = (\<lambda>_. 0), rs_events = None, rs_observations = None,
     rs_watches = None, rs_revisions = None, rs_destinations = None, rs_logs = (\<lambda>_. None), rs_entity = ('''', '''')\<rparr>"

text \<open>Two hosts were observed, one of them fired and its delivery is still pending.\<close>

definition ex_history :: db where
  "ex_history = fst (ex_submit None (30 * second) ex_db)"

definition ex_sweep :: "ret_state \<Rightarrow> (ret_state \<times> int) result" where
  "ex_sweep = RetainBatch (200 * hour) (400 * hour) 64 ''p''"

lemma ex_history_ok: "database_ok (rs_db (ex_ret hs ex_history))"
  by (simp add: ex_ret_def ex_history_def ex_submit_def acceptance_ok [OF ex_db_ok])

lemma ex_sweep_runs:
  "case ex_sweep (ex_ret [] ex_history) of Inl _ \<Rightarrow> False
   | Inr (s, n) \<Rightarrow> length (db_receipts ex_history) = 1 \<and> db_receipts (rs_db s) = [] \<and> length (db_events (rs_db s)) = 1 \<and> 0 < n \<and>
       (case ex_sweep s of Inl _ \<Rightarrow> False | Inr (s2, m) \<Rightarrow> m = 0)"
  by code_simp

lemma ex_run_two_steps:
  obtains d0 d1 c where "runtime_step ex_digest_env empty_db d0" "runtime_step ex_digest_env d0 d1" "Watch d1 ''cpu'' = Inr c" "wr_generation c = 2"
    "digests ex_digest_env"
proof -
  obtain d0 chs d1 r1 c where 1: "ex_apply_run = Inr (d0, chs)" "ex_change ''delete'' d0 = Inr (d1, r1)" "Watch d1 ''cpu'' = Inr c" "wr_generation c = 2"
    using ex_run by (auto split: sum.splits prod.splits)
  have env: "le_compile ex_life = ex_digest_env" by (simp add: ex_life_def)
  have "runtime_step ex_digest_env empty_db d0" using 1(1) env unfolding ex_apply_run_def by (rule runtime_step.applied)
  moreover have "runtime_step ex_digest_env d0 d1" using 1(2) env unfolding ex_change_def by (rule runtime_step.changed)
  moreover have "digests ex_digest_env" by (simp add: digests_def ex_digest_env_def)
  ultimately show thesis using that 1 by blast
qed

theorem maintenance_ends_witness:
  "\<exists>s' r. Maintain (\<lambda>_ _ _ _. ''expired'') ''p'' hour (400 * hour) (ex_ret [] ex_history) = Some (s', r) \<and> database_ok (rs_db s')"
  by (rule maintenance_ends [OF ex_history_ok])

theorem retention_keeps_needed_witness:
  "\<exists>s' n. ex_sweep (ex_ret [] ex_history) = Inr (s', n) \<and> database_ok (rs_db s') \<and>
     keeps (timestamp (200 * hour)) (timestamp (400 * hour)) ex_history (rs_db s') \<and> length (db_events (rs_db s')) = 1 \<and> db_receipts (rs_db s') = []"
proof -
  obtain s' n where s: "ex_sweep (ex_ret [] ex_history) = Inr (s', n)" "length (db_events (rs_db s')) = 1" "db_receipts (rs_db s') = []"
    using ex_sweep_runs by (auto split: sum.splits prod.splits)
  have "database_ok (rs_db s') \<and> keeps (timestamp (200 * hour)) (timestamp (400 * hour)) (rs_db (ex_ret [] ex_history)) (rs_db s')"
    by (rule retention_keeps_needed [OF ex_history_ok s(1) [unfolded ex_sweep_def]])
  then show ?thesis using s by (simp add: ex_ret_def)
qed

theorem retention_leaves_nothing_expired_witness:
  "\<exists>s'. retain_loop ex_sweep (ex_ret [] ex_history) = Some (s', Inr ()) \<and> swept (timestamp (200 * hour)) (timestamp (400 * hour)) (rs_db s')"
proof -
  obtain s1 n s2 where s: "ex_sweep (ex_ret [] ex_history) = Inr (s1, n)" "0 < n" "ex_sweep s1 = Inr (s2, 0)"
    using ex_sweep_runs by (auto split: sum.splits prod.splits)
  then have l: "retain_loop ex_sweep (ex_ret [] ex_history) = Some (s2, Inr ())" by (simp add: retain_loop.simps [of ex_sweep])
  then show ?thesis using retention_leaves_nothing_expired [OF l [unfolded ex_sweep_def]] by blast
qed




definition ex_moved :: db where
  "ex_moved = ex_db\<lparr>db_watches := map (\<lambda>(i, w). (i, w\<lparr>wt_status := ''deleted''\<rparr>)) (db_watches ex_db)\<rparr>"

theorem handoff_stops_retention_witness:
  "retain_loop ex_sweep (ex_ret [(''handoff-1'', ''api-health'')] ex_moved) = Some (ex_ret [(''handoff-1'', ''api-health'')] ex_moved, Inl foreign_key_error)"
proof -
  let ?s = "ex_ret [(''handoff-1'', ''api-health'')] ex_moved"
  obtain w where w: "(''api-health'', w) \<in> set (db_watches (rs_db ?s))" "wt_status w = ''deleted''" "wt_next_at w = 30 * second"
    by (auto simp: ex_ret_def ex_moved_def ex_db_def)
  have "watch_free (rs_db ?s) ''api-health''" "''api-health'' \<in> snd ` set (rs_handoffs ?s)" "length (watch_rows ?s) = 1" "rs_watches ?s = None" by code_simp+
  moreover have "wt_next_at w < timestamp (200 * hour)" "min_int64 < wt_next_at w" unfolding w(3) by code_simp+
  ultimately show ?thesis unfolding ex_sweep_def using handoff_stops_retention [OF w(1,2), of "200 * hour" "''p''" 64 "400 * hour"] by simp
qed

theorem service_database_ok_witness:
  "\<exists>s r s'. (service_step ex_digest_env)\<^sup>*\<^sup>* (ex_ret [] empty_db) s \<and> Watch (rs_db s) ''cpu'' = Inr r \<and> wr_generation r = 2 \<and>
     service_step ex_digest_env s s' \<and> database_ok (rs_db s')"
proof -
  obtain d0 d1 c where r: "runtime_step ex_digest_env empty_db d0" "runtime_step ex_digest_env d0 d1" "Watch d1 ''cpu'' = Inr c" "wr_generation c = 2"
    "digests ex_digest_env" by (rule ex_run_two_steps)
  let ?s = "after_step d1 (after_step d0 (ex_ret [] empty_db))"
  have "service_step ex_digest_env (ex_ret [] empty_db) (after_step d0 (ex_ret [] empty_db))" by (rule service_step.ran) (simp add: ex_ret_def r(1))
  moreover have "service_step ex_digest_env (after_step d0 (ex_ret [] empty_db)) ?s" by (rule service_step.ran) (simp add: r(2))
  ultimately have reach: "(service_step ex_digest_env)\<^sup>*\<^sup>* (ex_ret [] empty_db) ?s" by (meson converse_rtranclp_into_rtranclp r_into_rtranclp)
  have "database_ok (rs_db ?s)" by (rule service_database_ok [OF reach]) (simp_all add: ex_ret_def r(5))
  then obtain s' x where m: "Maintain (\<lambda>_ _ _ _. ''expired'') ''p'' hour (400 * hour) ?s = Some (s', x)" using maintenance_returns by blast
  then have step: "service_step ex_digest_env ?s s'" by (rule service_step.maintained)
  have "database_ok (rs_db s')"
    by (rule service_database_ok [OF rtranclp.rtrancl_into_rtrancl [OF reach step]]) (simp_all add: ex_ret_def r(5))
  moreover have "Watch (rs_db ?s) ''cpu'' = Inr c" using r(3) by simp
  ultimately show ?thesis using reach step r(4) by blast
qed

end
