(* ===== verification/Service_Laws.thy ===== *)
theory Service_Laws
  imports Maintenance_Laws
begin

text \<open>
  Laws of a service, in which the runtime and maintenance take turns: generations fence inputs for as long as the
  watch is in the database, and a purge is final.
\<close>

section \<open>Databases of a service\<close>

lemma thinned_row:
  assumes "thinned d d'" "tbl_ok (db_watches d)"
  shows "map_of (db_watches d') i = None \<or> map_of (db_watches d') i = map_of (db_watches d) i"
proof (cases "map_of (db_watches d') i")
  case (Some w)
  then have "(i, w) \<in> set (db_watches d)" using map_of_SomeD [OF Some] assms(1) by (auto simp: thinned_def dest!: subset_of_subseq)
  then have "map_of (db_watches d) i = Some w" using tbl_get_iff [OF assms(2)] by blast
  then show ?thesis using Some by simp
qed simp

lemma thinned_gone: "thinned d d' \<Longrightarrow> purged_gone d \<Longrightarrow> purged_gone d'"
proof -
  assume t: "thinned d d'" and g: "purged_gone d"
  have "fst ` set (db_watches d') \<subseteq> fst ` set (db_watches d)" "fst ` set (db_revisions d') \<subseteq> fst ` set (db_revisions d)"
    using t by (auto simp: thinned_def dest!: subset_of_subseq intro!: image_mono)
  moreover have "db_purged d' = db_purged d" using t by (simp add: thinned_def)
  ultimately show "purged_gone d'" using g unfolding purged_gone_def revision_known_def by (simp add: subset_iff) blast
qed

lemma later_self: "later_than d0 d \<Longrightarrow> later_than d d"
  using since_refl by (simp add: later_than_def)

text \<open>A step of a service is a step of the runtime or a run of maintenance, seen from the database.\<close>

lemma service_cases:
  assumes "service_step cenv s s'" "database_ok (rs_db s)"
  obtains "runtime_step cenv (rs_db s) (rs_db s')" | "database_ok (rs_db s')" "thinned (rs_db s) (rs_db s')"
  using assms(1)
proof cases
  case (ran d)
  then show thesis using that(1) by simp
next
  case (maintained expired_id pass retention now r)
  then show thesis using that(2) maintenance_returns [OF assms(2), of expired_id pass retention now] by auto
qed

lemma service_keeps:
  assumes "service_step cenv s s'" "later_than (rs_db s) (rs_db s)" "digests cenv"
  shows "later_than (rs_db s') (rs_db s')" "set (db_purged (rs_db s)) \<subseteq> set (db_purged (rs_db s'))"
    "map_of (db_watches (rs_db s)) i = Some w \<Longrightarrow>
       map_of (db_watches (rs_db s')) i = None \<or> (\<exists>w'. map_of (db_watches (rs_db s')) i = Some w' \<and> advanced w w')"
proof -
  note ok = later_sound [OF assms(2)]
  have "later_than (rs_db s') (rs_db s') \<and> set (db_purged (rs_db s)) \<subseteq> set (db_purged (rs_db s')) \<and>
    (map_of (db_watches (rs_db s)) i = Some w \<longrightarrow>
       map_of (db_watches (rs_db s')) i = None \<or> (\<exists>w'. map_of (db_watches (rs_db s')) i = Some w' \<and> advanced w w'))"
    using assms(1) ok
  proof (rule service_cases)
    assume "runtime_step cenv (rs_db s) (rs_db s')"
    then have l: "later_than (rs_db s) (rs_db s')" using later.step_kept [OF _ assms(3,2)] by blast
    have "map_of (db_watches (rs_db s')) i = None" if "i \<in> set (db_purged (rs_db s'))"
      using that l by (auto simp: later_than_def purged_gone_def map_of_eq_None_iff)
    then show ?thesis using l later_self [OF l] unfolding later_than_def since_def by blast
  next
    assume d: "database_ok (rs_db s')" and t: "thinned (rs_db s) (rs_db s')"
    have "later_than (rs_db s') (rs_db s')" using d thinned_gone [OF t] assms(2) since_refl by (simp add: later_than_def)
    moreover have "advanced w w" by (simp add: advanced_def)
    moreover have "db_purged (rs_db s') = db_purged (rs_db s)" using t by (simp add: thinned_def)
    ultimately show ?thesis using thinned_row [OF t later_table [OF assms(2)], of i] by auto
  qed
  then show "later_than (rs_db s') (rs_db s')" "set (db_purged (rs_db s)) \<subseteq> set (db_purged (rs_db s'))"
    "map_of (db_watches (rs_db s)) i = Some w \<Longrightarrow>
       map_of (db_watches (rs_db s')) i = None \<or> (\<exists>w'. map_of (db_watches (rs_db s')) i = Some w' \<and> advanced w w')"
    by blast+
qed

lemma service_later:
  assumes "(service_step cenv)\<^sup>*\<^sup>* s s'" "later_than (rs_db s) (rs_db s)" "digests cenv"
  shows "later_than (rs_db s') (rs_db s') \<and> set (db_purged (rs_db s)) \<subseteq> set (db_purged (rs_db s'))"
  using assms(1)
proof (induction rule: rtranclp_induct)
  case base
  then show ?case using assms(2) by simp
next
  case (step t u)
  then show ?case using service_keeps(1,2) [OF step(2) _ assms(3)] by blast
qed

lemma empty_later: "later_than empty_db empty_db"
  using empty_intact since_refl by (simp add: later_than_def purged_gone_def) (simp add: empty_db_def)

section \<open>Generations fence inputs\<close>

text \<open>A history of a service from \<open>s0\<close> on that goes on only while a watch is in the database.\<close>

inductive while_present :: "compile_env \<Rightarrow> string \<Rightarrow> ret_state \<Rightarrow> ret_state \<Rightarrow> bool" for cenv i s0 where
  present_start: "while_present cenv i s0 s0"
| present_step: "while_present cenv i s0 s \<Longrightarrow> i \<in> fst ` set (db_watches (rs_db s)) \<Longrightarrow> service_step cenv s s' \<Longrightarrow> while_present cenv i s0 s'"



section \<open>A purge is final\<close>

lemma lifecycle_purged:
  "lifecycle env i q now d = Inr (d', r) \<Longrightarrow> lq_action q = ''purge'' \<Longrightarrow> d' = purged_rows i d"
  unfolding lifecycle_def by (elim guardE bindE_InrE) (auto simp: PurgeWatch_def elim!: bindE_InrE split: if_splits)

lemma no_pins:
  assumes "database_ok d" "\<forall>x \<in> set (db_entities d). fst (fst x) \<noteq> i"
  shows "\<forall>x \<in> set (db_pins d). fst (fst (fst x)) \<noteq> i"
proof
  fix x
  assume x: "x \<in> set (db_pins d)"
  obtain k p where k: "fst x = (k, p)" by (cases "fst x")
  have "map_of (db_pins d) (k, p) \<noteq> None" using x k by (metis image_eqI map_of_eq_None_iff)
  moreover have "map_of (db_pins d) (k, p) = (case map_of (db_entities d) k of
      Some r \<Rightarrow> if p \<in> set (entityReferences (er_state r)) then Some () else None | None \<Rightarrow> None)"
    using assms(1) unfolding database_ok_def store_ok_def pins_ok_def by blast
  ultimately have "map_of (db_entities d) k \<noteq> None" by (auto split: option.splits)
  then show "fst (fst (fst x)) \<noteq> i" using assms(2) k by (auto dest!: map_of_SomeD)
qed

text \<open>C3: a purge is final. It removes the deliveries of the watch, their streams, the time of its last push and its
  transfers, and leaves the receipts of pushed requests alone, which are the idempotency keys of their senders. Its
  identifier never comes back: whatever the runtime and maintenance do afterwards, no watch, revision, entity,
  evidence pin, observation, event, timer or input receipt of it exists, and every delivery carries an event of
  another watch.\<close>

theorem purge_is_final:
  assumes "(service_step cenv)\<^sup>*\<^sup>* s s0" "rs_db s = empty_db" "digests cenv"
    and "lifecycle env i q now (rs_db s0) = Inr (d1, r)" "lq_action q = ''purge''" "le_compile env = cenv"
    and "(service_step cenv)\<^sup>*\<^sup>* (after_step d1 s0) s1"
  shows "(\<forall>o' \<in> set (ot_rows (db_outbox d1)). ob_watch_id o' \<noteq> i) \<and> (\<forall>x \<in> set (ot_streams (db_outbox d1)). fst (row_key x) \<noteq> i) \<and>
    (\<forall>x \<in> set (pt_last (db_push d1)). fst x \<noteq> i) \<and> (\<forall>x \<in> set (rs_handoffs (after_step d1 s0)). snd x \<noteq> i) \<and>
    pt_receipts (db_push d1) = pt_receipts (db_push (rs_db s0)) \<and>
    Watch (rs_db s1) i = Inl ErrNotFound \<and> (\<forall>rv. (i, rv) \<notin> fst ` set (db_revisions (rs_db s1))) \<and>
    (\<forall>x \<in> set (db_entities (rs_db s1)). fst (fst x) \<noteq> i) \<and> (\<forall>x \<in> set (db_pins (rs_db s1)). fst (fst (fst x)) \<noteq> i) \<and>
    (\<forall>x \<in> set (db_observations (rs_db s1)). oo_watch_id (snd x) \<noteq> i) \<and> (\<forall>x \<in> set (db_events (rs_db s1)). e_watch_id (snd x) \<noteq> i) \<and>
    (\<forall>x \<in> set (db_timers (rs_db s1)). fst (fst x) \<noteq> i) \<and> (\<forall>x \<in> set (db_receipts (rs_db s1)). fst (fst x) \<noteq> i) \<and>
    (\<forall>o' \<in> set (ot_rows (db_outbox (rs_db s1))). \<exists>x \<in> set (db_events (rs_db s1)). e_id (snd x) = ob_event_id o' \<and> e_watch_id (snd x) \<noteq> i)"
proof -
  let ?d = "rs_db s1"
  have d1: "d1 = purged_rows i (rs_db s0)" by (rule lifecycle_purged [OF assms(4,5)])
  have now: "(\<forall>o' \<in> set (ot_rows (db_outbox d1)). ob_watch_id o' \<noteq> i) \<and> (\<forall>x \<in> set (ot_streams (db_outbox d1)). fst (row_key x) \<noteq> i) \<and>
    (\<forall>x \<in> set (pt_last (db_push d1)). fst x \<noteq> i) \<and> (\<forall>x \<in> set (rs_handoffs (after_step d1 s0)). snd x \<noteq> i) \<and>
    pt_receipts (db_push d1) = pt_receipts (db_push (rs_db s0))"
    by (auto simp: d1 purged_rows_def purged_outbox_def after_step_def Let_def)
  have "service_step cenv s0 (after_step d1 s0)" by (rule service_step.ran [OF runtime_step.changed [OF assms(4,6)]])
  with assms(1) have "(service_step cenv)\<^sup>*\<^sup>* s (after_step d1 s0)" by (rule rtranclp.rtrancl_into_rtrancl)
  then have l1: "later_than d1 d1" using service_later [OF _ _ assms(3)] empty_later assms(2) by fastforce
  then have l: "later_than ?d ?d" "i \<in> set (db_purged ?d)"
    using service_later [OF assms(7) _ assms(3)] lifecycle_purge [OF assms(4,5)] by auto
  note g = purged_nothing [OF l]
  have "\<forall>o' \<in> set (ot_rows (db_outbox ?d)). \<exists>x \<in> set (db_events ?d). e_id (snd x) = ob_event_id o' \<and> e_watch_id (snd x) \<noteq> i"
  proof
    fix o'
    assume "o' \<in> set (ot_rows (db_outbox ?d))"
    then have "ob_event_id o' \<in> set (event_ids ?d)" using l by (auto simp: later_than_def database_ok_def store_ok_def events_refer_def)
    then show "\<exists>x \<in> set (db_events ?d). e_id (snd x) = ob_event_id o' \<and> e_watch_id (snd x) \<noteq> i" using g(5) by force
  qed
  then show ?thesis using now g no_pins [OF later_sound [OF l(1)] g(3)] unfolding revision_known_def by blast
qed

section \<open>Witnesses\<close>

lemma ex_service:
  obtains s0 r s1 c d2 r2 where "(service_step ex_digest_env)\<^sup>*\<^sup>* (ex_ret [] empty_db) s0" "Watch (rs_db s0) ''cpu'' = Inr r" "wr_generation r = 1"
    "while_present ex_digest_env ''cpu'' s0 s1" "(service_step ex_digest_env)\<^sup>*\<^sup>* (ex_ret [] empty_db) s1" "Watch (rs_db s1) ''cpu'' = Inr c" "wr_generation c = 2"
    "ex_change ''purge'' (rs_db s1) = Inr (d2, r2)" "digests ex_digest_env"
proof -
  obtain d0 chs r d1 r1 c d2 r2 where 1: "ex_apply_run = Inr (d0, chs)" "Watch d0 ''cpu'' = Inr r" "wr_generation r = 1"
    "ex_change ''delete'' d0 = Inr (d1, r1)" "Watch d1 ''cpu'' = Inr c" "wr_generation c = 2" "ex_change ''purge'' d1 = Inr (d2, r2)"
    using ex_run by (auto split: sum.splits prod.splits)
  have env: "le_compile ex_life = ex_digest_env" by (simp add: ex_life_def)
  let ?s = "ex_ret [] empty_db"
  let ?first = "after_step d0 ?s" and ?second = "after_step d1 (after_step d0 ?s)"
  have e: "rs_db ?s = empty_db" by (simp add: ex_ret_def)
  have a: "service_step ex_digest_env ?s ?first"
    by (rule service_step.ran [of ex_digest_env ?s d0]) (unfold e, rule runtime_step.applied [OF 1(1) [unfolded ex_apply_run_def] env])
  have b: "service_step ex_digest_env ?first ?second"
    by (rule service_step.ran) (unfold after_step_db, rule runtime_step.changed [OF 1(4) [unfolded ex_change_def] env])
  have "''cpu'' \<in> fst ` set (db_watches (rs_db ?first))" using 1(2) by (auto simp: Watch_def dest!: map_of_SomeD split: option.splits) force
  then have p: "while_present ex_digest_env ''cpu'' ?first ?second" by (rule while_present.present_step [OF while_present.present_start _ b])
  have "digests ex_digest_env" by (simp add: digests_def ex_digest_env_def)
  moreover have ra: "(service_step ex_digest_env)\<^sup>*\<^sup>* ?s ?first" using a by (rule r_into_rtranclp)
  moreover have "(service_step ex_digest_env)\<^sup>*\<^sup>* ?s ?second" by (rule rtranclp.rtrancl_into_rtrancl [OF ra b])
  ultimately show thesis using that [of ?first r ?second c d2 r2] 1(2,3,5,6,7) p by simp
qed


theorem purge_is_final_witness:
  "\<exists>s1 d2 r. (service_step ex_digest_env)\<^sup>*\<^sup>* (ex_ret [] empty_db) s1 \<and> ex_change ''purge'' (rs_db s1) = Inr (d2, r) \<and>
     Watch (rs_db s1) ''cpu'' \<noteq> Inl ErrNotFound \<and> Watch d2 ''cpu'' = Inl ErrNotFound"
proof -
  obtain s1 c d2 r2 where 1: "(service_step ex_digest_env)\<^sup>*\<^sup>* (ex_ret [] empty_db) s1" "Watch (rs_db s1) ''cpu'' = Inr c"
    "ex_change ''purge'' (rs_db s1) = Inr (d2, r2)" "digests ex_digest_env" by (rule ex_service)
  have e: "rs_db (ex_ret [] empty_db) = empty_db" "lq_action (ex_request ''purge'') = ''purge''" "le_compile ex_life = ex_digest_env"
    by (simp_all add: ex_ret_def ex_request_def ex_life_def)
  have "Watch (rs_db (after_step d2 s1)) ''cpu'' = Inl ErrNotFound"
    using purge_is_final [OF 1(1) e(1) 1(4,3) [unfolded ex_change_def] e(2,3) rtranclp.rtrancl_refl] by blast
  then show ?thesis using 1 by auto
qed

end
