(* ===== verification/Maintenance_View.thy ===== *)
theory Maintenance_View
  imports Retention_Laws Transition_Laws Example_Store
begin

text \<open>
  What maintenance trims from the state of an entity has no effect any more: from then on the
  evaluator raises the same events for every sequence of observations, with or without it. A
  discontinuity of the clock is excepted, since it judges identifiers by the time of the last
  observation and not of the maintenance.
\<close>

section \<open>The meaning of a state at a time\<close>

definition budget_at :: "time \<Rightarrow> time \<Rightarrow> time" where
  "budget_at t ov = (if t < ov then ov else zero_time)"

text \<open>Two states differ only in what is void at a time: samples outside of every window, expired
  identifiers, and the end of an exhausted sample budget.\<close>

definition agree :: "duration \<Rightarrow> time \<Rightarrow> cstate \<Rightarrow> cstate \<Rightarrow> bool" where
  "agree w t st st' \<longleftrightarrow>
     st' = st\<lparr>samples := samples st', seen := seen st', overflow_until := overflow_until st'\<rparr> \<and>
     filter (\<lambda>s. t - w < sm_at s) (samples st') = filter (\<lambda>s. t - w < sm_at s) (samples st) \<and>
     live_ids t (seen st') = live_ids t (seen st) \<and> budget_at t (overflow_until st') = budget_at t (overflow_until st)"

text \<open>The parts of a state that void history does not touch.\<close>

definition patch :: "sample list \<Rightarrow> (string \<times> time) list \<Rightarrow> time \<Rightarrow> cstate \<Rightarrow> cstate" where
  "patch ss sn ov st = st\<lparr>samples := ss, seen := sn, overflow_until := ov\<rparr>"

definition patched :: "(cstate \<Rightarrow> cstate) \<Rightarrow> transition result \<Rightarrow> transition result" where
  "patched f r = map_sum id (\<lambda>t. t\<lparr>tr_state := f (tr_state t)\<rparr>) r"

lemma patched_simps [simp]:
  "patched f (Inl e) = Inl e" "patched f (Inr t) = Inr (t\<lparr>tr_state := f (tr_state t)\<rparr>)"
  by (simp_all add: patched_def)

lemma patched_bind: "patched f (bindE r g) = bindE r (\<lambda>a. patched f (g a))"
  by (cases r) simp_all

lemma agree_patch:
  "agree w t st (patch ss sn ov st) \<longleftrightarrow> filter (\<lambda>s. t - w < sm_at s) ss = filter (\<lambda>s. t - w < sm_at s) (samples st) \<and>
     live_ids t sn = live_ids t (seen st) \<and> budget_at t ov = budget_at t (overflow_until st)"
  by (simp add: agree_def patch_def)

lemma agree_elim:
  assumes "agree w t st st'"
  obtains ss sn ov where "st' = patch ss sn ov st" "filter (\<lambda>s. t - w < sm_at s) ss = filter (\<lambda>s. t - w < sm_at s) (samples st)"
    "live_ids t sn = live_ids t (seen st)" "budget_at t ov = budget_at t (overflow_until st)"
  using assms by (auto simp: agree_def patch_def)

lemma filter_later: "filter P xs = filter P ys \<Longrightarrow> (\<And>x. Q x \<Longrightarrow> P x) \<Longrightarrow> filter Q xs = filter Q ys"
proof -
  assume a: "filter P xs = filter P ys" "\<And>x. Q x \<Longrightarrow> P x"
  have "filter Q zs = filter Q (filter P zs)" for zs using a(2) by (induction zs) auto
  then show "filter Q xs = filter Q ys" using a(1) by metis
qed

lemma live_later: "live_ids t a = live_ids t b \<Longrightarrow> t \<le> u \<Longrightarrow> live_ids u a = live_ids u b"
  unfolding live_ids_def by (erule filter_later) auto

lemma budget_later: "budget_at t a = budget_at t b \<Longrightarrow> zero_time \<le> t \<Longrightarrow> t \<le> u \<Longrightarrow> budget_at u a = budget_at u b"
  by (auto simp: budget_at_def split: if_splits)

lemma agree_later: "agree w t st st' \<Longrightarrow> zero_time \<le> t \<Longrightarrow> t \<le> u \<Longrightarrow> agree w u st st'"
  unfolding agree_def
  by (elim conjE, intro conjI, assumption, erule filter_later, simp, erule live_later, assumption, erule budget_later, assumption+)

lemma live_live: "t \<le> u \<Longrightarrow> live_ids u (live_ids t s) = live_ids u s"
  by (induction s) (auto simp: live_ids_def)

text \<open>Trimming leaves the meaning.\<close>

lemma trimmed_agrees:
  "agree (mp_window p) now st (trimmed p (live_seen now st) now)"
  by (simp add: agree_def trimmed_def live_seen_def live_ids_def budget_at_def Let_def)

section \<open>Branches that do not look at it\<close>

lemma emit_evidence:
  "event_evidence (x_ev x) (x_ob x) st' kind = event_evidence (x_ev x) (x_ob x) st kind \<Longrightarrow> emit x st' kind reason = emit x st kind reason"
  by (cases "render_message x kind reason"; cases "json_norm_fields (o_fields (x_ob x))") (simp_all add: emit_def)

lemma emit_patch: "kind \<noteq> ''firing'' \<Longrightarrow> kind \<noteq> ''recovered'' \<Longrightarrow> emit x (patch ss sn ov st) kind reason = emit x st kind reason"
  by (rule emit_evidence) (simp add: event_evidence_def patch_def)

lemma emit_same_samples: "samples st = ss \<Longrightarrow> emit x (patch ss sn ov st) kind reason = emit x st kind reason"
  by (rule emit_evidence) (simp add: event_evidence_def patch_def)

lemma patch_fields [simp]:
  "last_at (patch ss sn ov st) = last_at st" "last_fired (patch ss sn ov st) = last_fired st" "is_open (patch ss sn ov st) = is_open st"
  "source_unhealthy (patch ss sn ov st) = source_unhealthy st" "matches (patch ss sn ov st) = matches st"
  "recoveries (patch ss sn ov st) = recoveries st" "evidence (patch ss sn ov st) = evidence st" "last_sequence (patch ss sn ov st) = last_sequence st"
  "entity (patch ss sn ov st) = entity st" "baseline (patch ss sn ov st) = baseline st" "baseline_sequence (patch ss sn ov st) = baseline_sequence st"
  "missing_at (patch ss sn ov st) = missing_at st" "clock_window_until (patch ss sn ov st) = clock_window_until st"
  "fresh_sequence (patch ss sn ov st) = fresh_sequence st"
  "samples (patch ss sn ov st) = ss" "seen (patch ss sn ov st) = sn" "overflow_until (patch ss sn ov st) = ov"
  by (simp_all add: patch_def)

lemma patch_updates:
  "(patch ss sn ov st)\<lparr>matches := a\<rparr> = patch ss sn ov (st\<lparr>matches := a\<rparr>)"
  "(patch ss sn ov st)\<lparr>recoveries := a\<rparr> = patch ss sn ov (st\<lparr>recoveries := a\<rparr>)"
  "(patch ss sn ov st)\<lparr>evidence := e\<rparr> = patch ss sn ov (st\<lparr>evidence := e\<rparr>)"
  "(patch ss sn ov st)\<lparr>last_sequence := n\<rparr> = patch ss sn ov (st\<lparr>last_sequence := n\<rparr>)"
  "(patch ss sn ov st)\<lparr>last_at := t\<rparr> = patch ss sn ov (st\<lparr>last_at := t\<rparr>)"
  "(patch ss sn ov st)\<lparr>last_fired := t\<rparr> = patch ss sn ov (st\<lparr>last_fired := t\<rparr>)"
  "(patch ss sn ov st)\<lparr>is_open := b\<rparr> = patch ss sn ov (st\<lparr>is_open := b\<rparr>)"
  "(patch ss sn ov st)\<lparr>incident_event := s\<rparr> = patch ss sn ov (st\<lparr>incident_event := s\<rparr>)"
  "(patch ss sn ov st)\<lparr>health_event := s\<rparr> = patch ss sn ov (st\<lparr>health_event := s\<rparr>)"
  "(patch ss sn ov st)\<lparr>source_unhealthy := b\<rparr> = patch ss sn ov (st\<lparr>source_unhealthy := b\<rparr>)"
  "(patch ss sn ov st)\<lparr>waiting_reason := s\<rparr> = patch ss sn ov (st\<lparr>waiting_reason := s\<rparr>)"
  "(patch ss sn ov st)\<lparr>entity := s\<rparr> = patch ss sn ov (st\<lparr>entity := s\<rparr>)"
  "(patch ss sn ov st)\<lparr>missing_at := t\<rparr> = patch ss sn ov (st\<lparr>missing_at := t\<rparr>)"
  "(patch ss sn ov st)\<lparr>fresh_sequence := n\<rparr> = patch ss sn ov (st\<lparr>fresh_sequence := n\<rparr>)"
  "(patch ss sn ov st)\<lparr>baseline := s\<rparr> = patch ss sn ov (st\<lparr>baseline := s\<rparr>)"
  "(patch ss sn ov st)\<lparr>baseline_sequence := n\<rparr> = patch ss sn ov (st\<lparr>baseline_sequence := n\<rparr>)"
  by (simp_all add: patch_def)

lemma unknown_patch: "unknown x (patch ss sn ov st) evs reason = patched (patch ss sn ov) (unknown x st evs reason)"
proof -
  have "emit x ((patch ss sn ov st)\<lparr>matches := 0, recoveries := 0, evidence := []\<rparr>) ''source_error'' reason =
      emit x (st\<lparr>matches := 0, recoveries := 0, evidence := []\<rparr>) ''source_error'' reason"
    unfolding patch_updates by (rule emit_patch) simp_all
  then show ?thesis
    by (cases "emit x (st\<lparr>matches := 0, recoveries := 0, evidence := []\<rparr>) ''source_error'' reason")
      (simp_all add: unknown_def Let_def patch_updates)
qed

lemma recover_patch:
  "recover_source x (patch ss sn ov st) evs = map_sum id (\<lambda>(s, es). (patch ss sn ov s, es)) (recover_source x st evs)"
  by (cases "emit x st ''source_recovered'' ''source_recovered''") (simp_all add: recover_source_def emit_patch patch_updates)

lemma signal_patch:
  assumes "c_operator (ev_condition (x_ev x)) = ''changed'' \<or> c_operator (ev_condition (x_ev x)) = ''new-event''"
  shows "apply_signal x (patch ss sn ov st) evs m = patched (patch ss sn ov) (apply_signal x st evs m)"
proof -
  let ?op = "c_operator (ev_condition (x_ev x))"
  have e: "emit x (patch ss sn ov st) ?op r = emit x st ?op r" for r using assms by (intro emit_patch) auto
  show ?thesis
    by (cases "emit x st ?op (''condition_'' @ ?op)") (simp_all add: apply_signal_def Let_def e result_of_def advance_def patch_updates)
qed

lemma match_patch: "samples st = ss \<Longrightarrow> apply_match x (patch ss sn ov st) evs = patched (patch ss sn ov) (apply_match x st evs)"
  by (simp add: apply_match_def Let_def patch_updates emit_same_samples eligible_def result_of_def advance_def patched_bind)

lemma mismatch_patch: "samples st = ss \<Longrightarrow> apply_mismatch x (patch ss sn ov st) evs = patched (patch ss sn ov) (apply_mismatch x st evs)"
  by (simp add: apply_mismatch_def Let_def patch_updates emit_same_samples result_of_def advance_def patched_bind)

lemma policy_patch:
  assumes "samples st = ss \<or> c_operator (ev_condition (x_ev x)) = ''changed'' \<or> c_operator (ev_condition (x_ev x)) = ''new-event''"
  shows "apply_policy x (patch ss sn ov st) evs m = patched (patch ss sn ov) (apply_policy x st evs m)"
  using assms by (auto simp: apply_policy_def Let_def signal_patch match_patch mismatch_patch)

text \<open>These branches leave history as it was.\<close>

definition history :: "cstate \<Rightarrow> sample list \<times> (string \<times> time) list \<times> time" where
  "history st = (samples st, seen st, overflow_until st)"

lemma history_updates [simp]:
  "history (st\<lparr>matches := a\<rparr>) = history st" "history (st\<lparr>recoveries := a\<rparr>) = history st" "history (st\<lparr>evidence := e\<rparr>) = history st"
  "history (st\<lparr>last_sequence := n\<rparr>) = history st" "history (st\<lparr>last_at := t\<rparr>) = history st" "history (st\<lparr>last_fired := t\<rparr>) = history st"
  "history (st\<lparr>is_open := b\<rparr>) = history st" "history (st\<lparr>incident_event := s\<rparr>) = history st" "history (st\<lparr>health_event := s\<rparr>) = history st"
  "history (st\<lparr>source_unhealthy := b\<rparr>) = history st" "history (st\<lparr>waiting_reason := s\<rparr>) = history st" "history (st\<lparr>entity := s\<rparr>) = history st"
  "history (st\<lparr>missing_at := t\<rparr>) = history st" "history (st\<lparr>fresh_sequence := n\<rparr>) = history st" "history (st\<lparr>baseline := s\<rparr>) = history st"
  "history (st\<lparr>baseline_sequence := n\<rparr>) = history st"
  by (simp_all add: history_def)

lemma unknown_history: "unknown x st evs reason = Inr t \<Longrightarrow> history (tr_state t) = history st"
  by (auto simp: unknown_def Let_def split: if_splits)

lemma recover_history: "recover_source x st evs = Inr (s, es) \<Longrightarrow> history s = history st"
  by (auto simp: recover_source_def)

lemma policy_history: "apply_policy x st evs m = Inr t \<Longrightarrow> history (tr_state t) = history st"
  by (auto simp: apply_policy_def apply_signal_def apply_match_def apply_mismatch_def Let_def result_of_def advance_def split: if_splits)

section \<open>Evaluations are alike\<close>

lemma agree_history:
  assumes "agree w t st (patch ss sn ov st)" "history s = history st"
  shows "agree w t s (patch ss sn ov s)"
  using assms by (simp add: agree_patch history_def)

text \<open>Without windows nothing is sampled.\<close>

definition unsampled :: "evaluator \<Rightarrow> bool" where
  "unsampled ev \<longleftrightarrow> ev_expression ev = None \<or> c_missing_for (ev_condition ev) \<noteq> ''''"

definition signals :: "evaluator \<Rightarrow> bool" where
  "signals ev \<longleftrightarrow> c_operator (ev_condition ev) = ''changed'' \<or> c_operator (ev_condition ev) = ''new-event''"

lemma missing_patch:
  "missing_predicate ev (patch ss sn ov st) ob now = (case missing_predicate ev st ob now of (s, d) \<Rightarrow> (patch ss sn ov s, d))"
  by (simp add: missing_predicate_def Let_def patch_updates split: option.split)

lemma missing_history: "history (fst (missing_predicate ev st ob now)) = history st"
  by (simp add: missing_predicate_def Let_def split: option.split)

lemma changed_patch:
  "signal_changed ev (patch ss sn ov st) v n = (case signal_changed ev st v n of (s, d) \<Rightarrow> (patch ss sn ov s, d))"
  by (simp add: signal_changed_def Let_def patch_updates split: option.split)

lemma changed_history: "history (fst (signal_changed ev st v n)) = history st"
  by (simp add: signal_changed_def Let_def split: option.split)

lemma patch_seen: "(patch ss sn ov st)\<lparr>seen := a\<rparr> = patch ss a ov (st\<lparr>seen := a\<rparr>)"
  by (simp add: patch_def)

text \<open>A new identifier: both states remember the same afterwards.\<close>

lemma new_event_patch:
  assumes "agree w t st (patch ss sn ov st)" "t \<le> now" "signal_new_event ev st v now = (s, d)"
  obtains sn' where "signal_new_event ev (patch ss sn ov st) v now = (patch ss sn' ov s, d)" "live_ids now sn' = live_ids now (seen s)"
    "samples s = samples st" "overflow_until s = overflow_until st"
proof -
  have l: "live_ids now sn = live_ids now (seen st)" by (rule live_later [OF _ assms(2)]) (use assms(1) in \<open>simp add: agree_patch\<close>)
  show thesis
  proof (cases "event_identifier v")
    case None
    then show thesis using assms(3) that [of sn] l by (simp add: signal_new_event_def)
  next
    case (Some i)
    then have "signal_new_event ev (patch ss sn ov st) v now = (patch ss (seen s) ov s, d) \<and> samples s = samples st \<and> overflow_until s = overflow_until st"
      using assms(3) l by (auto simp: signal_new_event_def Let_def patch_seen split: if_splits option.splits)
    then show thesis using that [of "seen s"] by blast
  qed
qed

lemma numeric_patch:
  assumes a: "agree w t st (patch ss sn ov st)" and w: "w = ev_max_window ev" and t: "t \<le> now" "zero_time \<le> t"
    and s: "numeric_predicate ev expr st number n now = (s, d)"
  obtains ov' where "numeric_predicate ev expr (patch ss sn ov st) number n now = (patch (samples s) sn ov' s, d)"
    "seen s = seen st" "budget_at now ov' = budget_at now (overflow_until s)"
proof -
  let ?c = "\<lambda>x. now - w < sm_at x \<and> \<not> now < sm_at x"
  have f: "filter ?c ss = filter ?c (samples st)" by (rule filter_later [of "\<lambda>x. t - w < sm_at x"]) (use a t in \<open>auto simp: agree_patch\<close>)
  have b: "budget_at now ov = budget_at now (overflow_until st)" by (rule budget_later [OF _ t(2,1)]) (use a in \<open>simp add: agree_patch\<close>)
  have "zero_time \<le> now" using t by linarith
  with b have q: "now < ov \<longleftrightarrow> now < overflow_until st" "now < ov \<Longrightarrow> ov = overflow_until st"
    by (auto simp: budget_at_def split: if_splits)
  have u: "(ov < now + w \<longleftrightarrow> overflow_until st < now + w) \<and> (\<not> overflow_until st < now + w \<longrightarrow> ov = overflow_until st)" if "0 < w"
  proof (cases "now < ov")
    case True
    then show ?thesis using q(2) [OF True] by simp
  next
    case False
    then have "ov < now + w" "overflow_until st < now + w" using q(1) that by linarith+
    then show ?thesis by simp
  qed
  have "(patch ss sn ov st)\<lparr>samples := xs\<rparr> = patch xs sn ov (st\<lparr>samples := xs\<rparr>)"
    "(patch ss sn ov st)\<lparr>overflow_until := z\<rparr> = patch ss sn z (st\<lparr>overflow_until := z\<rparr>)"
    "(patch ss sn ov st)\<lparr>clock_window_until := z\<rparr> = patch ss sn ov (st\<lparr>clock_window_until := z\<rparr>)" for ss sn ov st xs z
    by (simp_all add: patch_def)
  note upd = this
  let ?full = "0 < w \<and> l_max_samples (ev_limits ev) \<le> int (length (filter ?c (samples st)))"
  let ?xs = "filter ?c (samples st) @ (if 0 < w then [\<lparr>sm_at = now, sm_value = number, sm_sequence = n\<rparr>] else [])"
  consider (full) ?full | (clock) "\<not> ?full" "now < clock_window_until st" | (budget) "\<not> ?full" "\<not> now < clock_window_until st" "now < overflow_until st"
    | (decided) "\<not> ?full" "\<not> now < clock_window_until st" "\<not> now < overflow_until st" by blast
  then show thesis
  proof cases
    case full
    then have p: "0 < w" by simp
    show thesis
      using that [of "overflow_until s"] s full u [OF p]
      by (cases "overflow_until st < now + w") (auto simp: numeric_predicate_def Let_def f upd w [symmetric])
  next
    case clock
    then show thesis using that [of ov] s b by (cases "0 < w") (auto simp: numeric_predicate_def Let_def f upd w [symmetric])
  next
    case budget
    then show thesis using that [of ov] s b q(1) by (cases "0 < w") (auto simp: numeric_predicate_def Let_def f upd w [symmetric])
  next
    case decided
    then show thesis using that [of zero_time] s q(1) by (cases "0 < w") (auto simp: numeric_predicate_def Let_def f upd w [symmetric] split: sum.splits)
  qed
qed

lemma predicate_patch:
  assumes a: "agree w t st (patch ss sn ov st)" and w: "w = ev_max_window ev" and t: "t \<le> now" "zero_time \<le> t"
    and void: "unsampled ev \<Longrightarrow> samples st = [] \<and> ss = []" and s: "predicate ev st ob now = (s, k, d)"
  obtains ss' sn' ov' where "predicate ev (patch ss sn ov st) ob now = (patch ss' sn' ov' s, k, d)" "agree w now s (patch ss' sn' ov' s)"
    "k \<Longrightarrow> samples s = ss' \<or> signals ev" "unsampled ev \<Longrightarrow> samples s = [] \<and> ss' = []"
proof -
  have a': "agree w now st (patch ss sn ov st)" by (rule agree_later [OF a t(2,1)])
  have same: "agree w now s (patch ss sn ov s)" if "history s = history st" for s by (rule agree_history [OF a' that])
  have smp: "samples s = samples st" if "history s = history st" for s using that by (simp add: history_def)
  let ?c = "ev_condition ev"
  consider (missing) "c_missing_for ?c \<noteq> ''''" | (absent) "c_missing_for ?c = ''''" "map_of (o_fields ob) (c_field ?c) = None"
    | (signal) v where "c_missing_for ?c = ''''" "map_of (o_fields ob) (c_field ?c) = Some v" "signals ev"
    | (compare) v where "c_missing_for ?c = ''''" "map_of (o_fields ob) (c_field ?c) = Some v" "\<not> signals ev" "ev_expression ev = None"
    | (typed) v expr where "c_missing_for ?c = ''''" "map_of (o_fields ob) (c_field ?c) = Some v" "\<not> signals ev" "ev_expression ev = Some expr" "Number v = None"
    | (numeric) v expr x where "c_missing_for ?c = ''''" "map_of (o_fields ob) (c_field ?c) = Some v" "\<not> signals ev" "ev_expression ev = Some expr" "Number v = Some x"
    by (metis option.exhaust)
  then show thesis
  proof cases
    case missing
    then have m: "missing_predicate ev st ob now = (s, k, d)" using s by (simp add: predicate_def)
    have h: "history s = history st" using missing_history [of ev st ob now] by (simp add: m)
    show thesis
    proof (rule that [of ss sn ov])
      show "predicate ev (patch ss sn ov st) ob now = (patch ss sn ov s, k, d)" using missing by (simp add: predicate_def missing_patch m)
    qed (use same [OF h] void smp [OF h] missing in \<open>auto simp: unsampled_def\<close>)
  next
    case absent
    then have "s = st" "\<not> k" using s by (simp_all add: predicate_def)
    then show thesis using that [of ss sn ov] absent s same void by (simp add: predicate_def)
  next
    case signal
    then have g: "signal ev st v (o_sequence ob) now = (s, k, d)" using s by (simp add: predicate_def signals_def)
    have pr: "predicate ev (patch ss sn ov st) ob now = signal ev (patch ss sn ov st) v (o_sequence ob) now" using signal by (simp add: predicate_def signals_def)
    show thesis
    proof (cases "c_operator ?c = ''changed''")
      case True
      then have m: "signal_changed ev st v (o_sequence ob) = (s, k, d)" using g by (simp add: signal_def)
      have h: "history s = history st" using changed_history [of ev st v "o_sequence ob"] by (simp add: m)
      show thesis
        by (rule that [of ss sn ov]) (use True pr same [OF h] void smp [OF h] signal(3) in \<open>simp_all add: signal_def changed_patch m\<close>)
    next
      case False
      then have m: "signal_new_event ev st v now = (s, k, d)" using g by (simp add: signal_def)
      obtain sn' where n: "signal_new_event ev (patch ss sn ov st) v now = (patch ss sn' ov s, k, d)" "live_ids now sn' = live_ids now (seen s)"
        "samples s = samples st" "overflow_until s = overflow_until st" by (rule new_event_patch [OF a t(1) m])
      show thesis
        by (rule that [of ss sn' ov]) (use False pr a' n void signal(3) in \<open>simp_all add: signal_def agree_patch\<close>)
    qed
  next
    case compare
    then have e: "s = st" using s by (auto simp: predicate_def signals_def Let_def split: prod.splits)
    have p: "predicate ev (patch ss sn ov st) ob now = (patch ss sn ov st, k, d)"
      using compare s by (auto simp: predicate_def signals_def Let_def split: prod.splits)
    have u: "unsampled ev" using compare by (simp add: unsampled_def)
    show thesis by (rule that [of ss sn ov]) (use p e same void [OF u] in simp_all)
  next
    case typed
    then show thesis using that [of ss sn ov] s same void by (auto simp: predicate_def signals_def)
  next
    case numeric
    then have m: "numeric_predicate ev expr st x (o_sequence ob) now = (s, k, d)" using s by (simp add: predicate_def signals_def)
    have u: "\<not> unsampled ev" using numeric by (simp add: unsampled_def)
    obtain ov' where n: "numeric_predicate ev expr (patch ss sn ov st) x (o_sequence ob) now = (patch (samples s) sn ov' s, k, d)"
      "seen s = seen st" "budget_at now ov' = budget_at now (overflow_until s)" by (rule numeric_patch [OF a w t m])
    show thesis
    proof (rule that [of "samples s" sn ov'])
      show "predicate ev (patch ss sn ov st) ob now = (patch (samples s) sn ov' s, k, d)" using numeric n(1) by (simp add: predicate_def signals_def)
      show "agree w now s (patch (samples s) sn ov' s)" using n(2,3) a' by (simp add: agree_patch)
    qed (use u in auto)
  qed
qed

text \<open>States that agree and outcomes with the same error, or with the same events, decision and reason and
  states that agree.\<close>

definition sim :: "evaluator \<Rightarrow> time \<Rightarrow> cstate \<Rightarrow> cstate \<Rightarrow> bool" where
  "sim ev t st st' \<longleftrightarrow> agree (ev_max_window ev) t st st' \<and> (unsampled ev \<longrightarrow> samples st = [] \<and> samples st' = [])"

fun alike :: "evaluator \<Rightarrow> time \<Rightarrow> transition result \<Rightarrow> transition result \<Rightarrow> bool" where
  "alike ev t (Inl e) (Inl e') \<longleftrightarrow> e = e'"
| "alike ev t (Inr a) (Inr b) \<longleftrightarrow> b = a\<lparr>tr_state := tr_state b\<rparr> \<and> sim ev t (tr_state a) (tr_state b)"
| "alike ev t _ _ \<longleftrightarrow> False"

lemma sim_history: "sim ev t st (patch ss sn ov st) \<Longrightarrow> history s = history st \<Longrightarrow> sim ev t s (patch ss sn ov s)"
  by (simp add: sim_def agree_patch history_def)

lemma sim_later: "sim ev t st st' \<Longrightarrow> zero_time \<le> t \<Longrightarrow> t \<le> u \<Longrightarrow> sim ev u st st'"
  unfolding sim_def using agree_later by blast

lemma sim_elim:
  assumes "sim ev t st st'"
  obtains ss sn ov where "st' = patch ss sn ov st"
  using assms unfolding sim_def by (auto elim: agree_elim)

lemma alike_patched:
  assumes "sim ev t st (patch ss sn ov st)" "\<And>a. r = Inr a \<Longrightarrow> history (tr_state a) = history st"
  shows "alike ev t r (patched (patch ss sn ov) r)"
  using assms sim_history by (cases r) auto

lemma known_alike:
  assumes s: "sim (x_ev x) t st (patch ss sn ov st)" and t: "t \<le> x_now x" "zero_time \<le> t"
  shows "alike (x_ev x) (x_now x) (evaluate_known x st evs) (evaluate_known x (patch ss sn ov st) evs)"
proof -
  obtain s1 k m r where p: "predicate (x_ev x) st (x_ob x) (x_now x) = (s1, k, m, r)" by (metis prod_cases4)
  have a: "agree (ev_max_window (x_ev x)) t st (patch ss sn ov st)" and v: "unsampled (x_ev x) \<Longrightarrow> samples st = [] \<and> ss = []"
    using s by (auto simp: sim_def)
  obtain ss1 sn1 ov1 where q: "predicate (x_ev x) (patch ss sn ov st) (x_ob x) (x_now x) = (patch ss1 sn1 ov1 s1, k, m, r)"
    and a1: "agree (ev_max_window (x_ev x)) (x_now x) s1 (patch ss1 sn1 ov1 s1)" and smp: "k \<Longrightarrow> samples s1 = ss1 \<or> signals (x_ev x)"
    and v1: "unsampled (x_ev x) \<Longrightarrow> samples s1 = [] \<and> ss1 = []" using predicate_patch [OF a refl t v p] by blast
  have s1: "sim (x_ev x) (x_now x) s1 (patch ss1 sn1 ov1 s1)" using a1 v1 by (simp add: sim_def)
  show ?thesis
  proof (cases k)
    case False
    then show ?thesis unfolding evaluate_known_def p q using alike_patched [OF s1 unknown_history] by (simp add: unknown_patch)
  next
    case True
    have pol: "alike (x_ev x) (x_now x) (apply_policy x s2 es m) (apply_policy x (patch ss1 sn1 ov1 s2) es m)" if "history s2 = history s1" for s2 es
    proof -
      have "apply_policy x (patch ss1 sn1 ov1 s2) es m = patched (patch ss1 sn1 ov1) (apply_policy x s2 es m)"
        by (rule policy_patch) (use smp [OF True] that in \<open>auto simp: signals_def history_def\<close>)
      then show ?thesis using alike_patched [OF sim_history [OF s1 that] policy_history] by simp
    qed
    show ?thesis
    proof (cases "source_unhealthy s1 \<and> o_health (x_ob x) \<noteq> ''timer''")
      case False
      then show ?thesis unfolding evaluate_known_def p q using True pol [OF refl] by auto
    next
      case unhealthy: True
      show ?thesis
      proof (cases "recover_source x s1 evs")
        case (Inl e)
        then show ?thesis unfolding evaluate_known_def p q using True unhealthy by (simp add: recover_patch)
      next
        case (Inr b)
        then show ?thesis unfolding evaluate_known_def p q using True unhealthy pol recover_history
          by (cases b) (simp add: recover_patch)
      qed
    qed
  qed
qed

lemma reset_patch: "reset_counts (patch ss sn ov st) = patch ss sn ov (reset_counts st)"
  by (simp add: reset_counts_def patch_updates)

lemma advance_patch: "advance x (patch ss sn ov st) = patch ss sn ov (advance x st)"
  by (simp add: advance_def patch_updates)

lemma waiting_patch: "evaluate_waiting x (patch ss sn ov st) evs = patched (patch ss sn ov) (evaluate_waiting x st evs)"
proof -
  let ?s = "advance x ((reset_counts st)\<lparr>waiting_reason := DetailOrDefault (x_ob x)\<rparr>)"
  show ?thesis
    by (cases "recover_source x ?s evs") (auto simp: evaluate_waiting_def Let_def reset_patch patch_updates advance_patch recover_patch result_of_def)
qed

lemma waiting_history: "evaluate_waiting x st evs = Inr t \<Longrightarrow> history (tr_state t) = history st"
  by (auto simp: evaluate_waiting_def Let_def result_of_def advance_def reset_counts_def split: if_splits dest!: recover_history)

lemma observed_alike:
  assumes s: "sim (x_ev x) t st (patch ss sn ov st)" and t: "t \<le> x_now x" "zero_time \<le> t"
  shows "alike (x_ev x) (x_now x) (evaluate_observed x st evs) (evaluate_observed x (patch ss sn ov st) evs)"
proof -
  note s' = sim_later [OF s t(2,1)]
  have stay: "alike (x_ev x) (x_now x) (Inr (result_of (advance x st) evs False False r)) (Inr (result_of (advance x (patch ss sn ov st)) evs False False r))" for r
    using sim_history [OF s', of "advance x st"] by (simp add: result_of_def advance_patch) (simp add: advance_def)
  show ?thesis
    unfolding evaluate_observed_def Let_def
    using stay known_alike [OF s t] alike_patched [OF s' unknown_history] alike_patched [OF s' waiting_history]
    by (simp add: unknown_patch waiting_patch)
qed

lemma keyed_alike:
  assumes s: "sim (x_ev x) t st (patch ss sn ov st)" and t: "t \<le> x_now x" "zero_time \<le> t" and h: "o_health (x_ob x) \<noteq> ''clock''"
  shows "alike (x_ev x) (x_now x) (evaluate_keyed x st) (evaluate_keyed x (patch ss sn ov st))"
proof -
  note s' = sim_later [OF s t(2,1)]
  let ?reversed = "\<not> is_zero (last_at st) \<and> x_now x < last_at st"
  let ?gap = "c_missing_for (ev_condition (x_ev x)) = '''' \<and> \<not> is_zero (last_at st) \<and> ev_max_gap (x_ev x) > 0 \<and>
    time_sub (x_now x) (last_at st) > ev_max_gap (x_ev x)"
  have e: "emit x (patch ss sn ov s) ''gap'' r = emit x s ''gap'' r" for s r by (rule emit_patch) simp_all
  consider (backwards) ?reversed | (gap) "\<not> ?reversed" "o_health (x_ob x) = ''gap''" | (late) "\<not> ?reversed" "o_health (x_ob x) \<noteq> ''gap''" ?gap
    | (usual) "\<not> ?reversed" "o_health (x_ob x) \<noteq> ''gap''" "\<not> ?gap" by blast
  then show ?thesis
  proof cases
    case backwards
    then show ?thesis using h alike_patched [OF s' unknown_history] by (simp add: evaluate_keyed_def unknown_patch)
  next
    case gap
    have "sim (x_ev x) (x_now x) (advance x (reset_counts st)) (patch ss sn ov (advance x (reset_counts st)))"
      by (rule sim_history [OF s']) (simp add: advance_def reset_counts_def)
    then show ?thesis using gap h
      by (cases "emit x (advance x (reset_counts st)) ''gap'' ''sampling_gap''")
        (auto simp: evaluate_keyed_def Let_def reset_patch advance_patch e result_of_def)
  next
    case late
    have "sim (x_ev x) t (reset_counts st) (patch ss sn ov (reset_counts st))" by (rule sim_history [OF s]) (simp add: reset_counts_def)
    from observed_alike [OF this t] show ?thesis using late h
      by (cases "emit x (reset_counts st) ''gap'' ''sampling_gap''") (auto simp: evaluate_keyed_def Let_def reset_patch e)
  next
    case usual
    then show ?thesis using h observed_alike [OF s t] by (auto simp: evaluate_keyed_def Let_def)
  qed
qed

lemma Evaluate_alike:
  assumes s: "sim ev t st st'" and t: "t \<le> now" "zero_time \<le> t" and h: "o_health ob \<noteq> ''clock''"
  shows "alike ev now (Evaluate env ev st ob now) (Evaluate env ev st' ob now)"
proof -
  obtain ss sn ov where p: "st' = patch ss sn ov st" using s by (rule sim_elim)
  have k: "evaluation_key ev (patch ss sn ov a) ob = evaluation_key ev a ob" for a unfolding evaluation_key_def patch_fields by (rule refl)
  have u: "sim ev t (st\<lparr>waiting_reason := '''', entity := key\<rparr>) (patch ss sn ov (st\<lparr>waiting_reason := '''', entity := key\<rparr>))" for key
    by (rule sim_history [OF s [unfolded p]]) simp
  show ?thesis
    using keyed_alike [OF _ _ t(2), of "\<lparr>x_env = env, x_ev = ev, x_ob = ob, x_key = key, x_now = now\<rparr>" for key] u t(1) h
    by (cases "evaluation_key ev (st\<lparr>waiting_reason := ''''\<rparr>) ob") (auto simp: Evaluate_def Let_def p patch_updates k)
qed

section \<open>Sequences of observations\<close>

text \<open>A relation between states at a time that steps preserve, with equal outputs, makes runs over inputs in
  time order equal.\<close>

locale timed_bisimulation =
  fixes step :: "'s \<Rightarrow> 'i \<Rightarrow> 's \<times> 'o list" and rel :: "time \<Rightarrow> 's \<Rightarrow> 's \<Rightarrow> bool" and moment :: "'i \<Rightarrow> time" and ok :: "'i \<Rightarrow> bool"
  assumes step_rel: "rel t s s' \<Longrightarrow> zero_time \<le> t \<Longrightarrow> t \<le> moment i \<Longrightarrow> ok i \<Longrightarrow>
    snd (step s' i) = snd (step s i) \<and> rel (moment i) (fst (step s i)) (fst (step s' i))"
begin

lemma run_rel:
  "rel t s s' \<Longrightarrow> zero_time \<le> t \<Longrightarrow> sorted (t # map moment is) \<Longrightarrow> list_all ok is \<Longrightarrow>
   snd (run step s' is) = snd (run step s is) \<and> (\<exists>u. t \<le> u \<and> rel u (fst (run step s is)) (fst (run step s' is)))"
proof (induction "is" arbitrary: t s s')
  case (Cons i rest)
  have i: "t \<le> moment i" "ok i" using Cons.prems by auto
  note st = step_rel [OF Cons.prems(1,2) i]
  have "sorted (moment i # map moment rest)" "list_all ok rest" "zero_time \<le> moment i" using Cons.prems i by auto
  with Cons.IH [of "moment i"] st obtain u where "snd (run step (fst (step s' i)) rest) = snd (run step (fst (step s i)) rest)" "moment i \<le> u"
    "rel u (fst (run step (fst (step s i)) rest)) (fst (run step (fst (step s' i)) rest))" by blast
  then show ?case using st i by (auto simp: run_Cons intro: order_trans)
qed auto

end

interpretation void: timed_bisimulation "evaluate_step env ev" "sim ev" o_accepted_at "\<lambda>ob. o_health ob \<noteq> ''clock''" for env ev
proof unfold_locales
  fix t s s' and ob :: observation
  assume a: "sim ev t s s'" "zero_time \<le> t" "t \<le> o_accepted_at ob" "o_health ob \<noteq> ''clock''"
  have "alike ev (o_accepted_at ob) (Evaluate env ev s ob (o_accepted_at ob)) (Evaluate env ev s' ob (o_accepted_at ob))"
    by (rule Evaluate_alike [OF a(1,3,2,4)])
  then show "snd (evaluate_step env ev s' ob) = snd (evaluate_step env ev s ob) \<and>
      sim ev (o_accepted_at ob) (fst (evaluate_step env ev s ob)) (fst (evaluate_step env ev s' ob))"
    using sim_later [OF a(1,2,3)]
    by (cases "Evaluate env ev s ob (o_accepted_at ob)"; cases "Evaluate env ev s' ob (o_accepted_at ob)") (auto simp: evaluate_step_def dest: arg_cong [where f = tr_events])
qed

lemma max_window_foldl: "max_window_of w ls = foldl (\<lambda>m leaf. max m (w_window leaf)) w ls"
  by (induction ls arbitrary: w) (simp_all add: max_def)

lemma policy_window:
  assumes "New env (cd_definition (wr_plan r)) rv = Inr ev" "newMaintenancePolicy r = Inr p"
  shows "ev_max_window ev = mp_window p"
  using assms by (auto simp: New_def newMaintenancePolicy_def Let_def max_window_foldl split: option.splits if_splits)

text \<open>What maintenance leaves of an entity that it does not expire.\<close>

lemma kept_state:
  assumes "database_ok d" "newMaintenancePolicy r = Inr p" "maintainEntity expired_id p key st now d = Inr d'"
    "Entity d' (watch_id_of r) key = Some st'"
  shows "st' = trimmed p (live_seen now st) now"
proof -
  have p: "mp_record p = r" using assms(2) by (auto simp: newMaintenancePolicy_def Let_def split: if_splits elim!: bindE_InrE)
  have t: "tbl_ok (db_entities d)" using assms(1) by (simp add: database_ok_def store_ok_def keys_ok_def)
  note m = assms(3) [unfolded maintainEntity_def Let_def p]
  show ?thesis
  proof (cases "expires p (case Timer d (watch_id_of r) key ''missing'' of Inr _ \<Rightarrow> True | Inl _ \<Rightarrow> False) (live_seen now st) now")
    case True
    with m obtain e n where "AppendEvent e (DeleteEntity (watch_id_of r) key d) = Inr (d', n)" by (auto elim!: bindE_pairE)
    then have "db_entities d' = tbl_del (watch_id_of r, key) (db_entities d)" by (auto simp: DeleteEntity_def elim!: AppendEvent_elim)
    then show ?thesis using assms(4) by (simp add: Entity_def tbl_del_map_of)
  next
    case False
    with m have "saveEntityData (watch_id_of r) key (cd_revision (wr_plan r)) (trimmed p (live_seen now st) now) (last_at (live_seen now st)) d = Inr d'"
      by simp
    then show ?thesis using assms(4) t by (auto simp: Entity_def tbl_put_map_of elim!: saveEntityData_elim)
  qed
qed

text \<open>C9: Maintenance of an entity that stays is invisible to the evaluator. When maintenance does not expire an entity,
  every later sequence of observations, in the order of their times and without a clock discontinuity, raises
  exactly the events it would have raised without maintenance: the identifiers, samples and budgets that were dropped
  had no effect any more. Before maintenance the state has samples only if the condition has windows, as the evaluator
  leaves it.\<close>

theorem maintenance_is_invisible:
  assumes "New env (cd_definition (wr_plan r)) rv = Inr ev" "newMaintenancePolicy r = Inr p"
    and "database_ok d" "maintainEntity expired_id p key st now d = Inr d'" "Entity d' (watch_id_of r) key = Some st'"
    and "unsampled ev \<longrightarrow> samples st = []" "zero_time \<le> now"
    and "sorted (now # map o_accepted_at obs)" "list_all (\<lambda>ob. o_health ob \<noteq> ''clock'') obs"
  shows "snd (run (evaluate_step env ev) st' obs) = snd (run (evaluate_step env ev) st obs)"
proof -
  have "sim ev now st st'" unfolding kept_state [OF assms(3,2,4,5)]
    using trimmed_agrees [of p now st] assms(6) by (auto simp: sim_def policy_window [OF assms(1,2)] trimmed_def live_seen_def Let_def)
  from void.run_rel [OF this assms(7-9)] show ?thesis by blast
qed

text \<open>A state with an expired identifier, an old sample and an exhausted budget, and a reading that fires.\<close>

definition ex_aged :: cstate where
  "ex_aged = zero_state\<lparr>last_at := 399 * hour, last_sequence := 3, seen := [(''a'', second)], overflow_until := 2 * second\<rparr>"

definition ex_reading :: observation where
  "ex_reading = (ex_host ''a'' 503)\<lparr>o_sequence := 9, o_accepted_at := 500 * hour\<rparr>"

definition ex_events_of :: "evaluator \<Rightarrow> cstate \<Rightarrow> event list" where
  "ex_events_of ev st = snd (run (evaluate_step ex_env ev) st [ex_reading])"

lemma ex_aged_runs:
  "case (New ex_env (cd_definition (wr_plan ex_record)) ''r1'', newMaintenancePolicy ex_record) of
     (Inr ev, Inr p) \<Rightarrow> (case maintainEntity (\<lambda>_ _ _ _. ''x'') p ''k'' ex_aged (400 * hour) ex_db of
         Inr d \<Rightarrow> Entity d (watch_id_of ex_record) ''k'' = Some (ex_aged\<lparr>seen := [], overflow_until := zero_time\<rparr>)
       | Inl _ \<Rightarrow> False) \<and>
       ''firing'' \<in> set (map e_type (ex_events_of ev (ex_aged\<lparr>seen := [], overflow_until := zero_time\<rparr>)))
   | _ \<Rightarrow> False"
  by code_simp

theorem maintenance_is_invisible_witness:
  "\<exists>ev p d st. New ex_env (cd_definition (wr_plan ex_record)) ''r1'' = Inr ev \<and> newMaintenancePolicy ex_record = Inr p \<and>
     maintainEntity (\<lambda>_ _ _ _. ''x'') p ''k'' ex_aged (400 * hour) ex_db = Inr d \<and> Entity d (watch_id_of ex_record) ''k'' = Some st \<and>
     st \<noteq> ex_aged \<and> ''firing'' \<in> set (map e_type (ex_events_of ev st)) \<and> ex_events_of ev st = ex_events_of ev ex_aged"
proof -
  let ?st = "ex_aged\<lparr>seen := [], overflow_until := zero_time\<rparr>"
  obtain ev p d where e: "New ex_env (cd_definition (wr_plan ex_record)) ''r1'' = Inr ev" "newMaintenancePolicy ex_record = Inr p"
    "maintainEntity (\<lambda>_ _ _ _. ''x'') p ''k'' ex_aged (400 * hour) ex_db = Inr d" "Entity d (watch_id_of ex_record) ''k'' = Some ?st"
    "''firing'' \<in> set (map e_type (ex_events_of ev ?st))"
    using ex_aged_runs by (auto split: sum.splits simp del: set_map)
  have h: "samples ex_aged = []" "zero_time \<le> 400 * hour" "sorted (400 * hour # map o_accepted_at [ex_reading])"
    "list_all (\<lambda>ob. o_health ob \<noteq> ''clock'') [ex_reading]" by code_simp+
  have "seen ?st \<noteq> seen ex_aged" by (simp add: ex_aged_def)
  then have "?st \<noteq> ex_aged" by metis
  moreover have "ex_events_of ev ?st = ex_events_of ev ex_aged"
    unfolding ex_events_of_def using maintenance_is_invisible [OF e(1,2) ex_db_ok e(3,4) _ h(2-4)] h(1) by blast
  ultimately show ?thesis using e by blast
qed

end
