(* ===== verification/Event_Feed.thy ===== *)
theory Event_Feed
  imports Retention_Laws Example_Store
begin

text \<open>
  Pages of events for a reader that keeps a cursor (\<open>EventPage\<close> of \<open>store/inspection.go\<close>), together with the
  sequence below which cursors are expired, which a trigger raises whenever events are deleted. A reader never
  misses an event without being told.
\<close>

section \<open>Pages\<close>

record event_cursor =
  ec_version :: int
  ec_store :: string
  ec_watch :: string
  ec_after :: int

text \<open>The text of a cursor: none, one that is too long or cannot be decoded, or the values it holds over
  those of a fresh cursor.\<close>

datatype cursor_text = NoCursor | Undecodable | Decoded event_cursor

record event_page =
  ep_events :: "event list"
  ep_cursor :: event_cursor
  ep_more :: bool

abbreviation ErrCursor :: err where "ErrCursor \<equiv> Err ''invalid event cursor''"
abbreviation ErrCursorExpired :: err where "ErrCursorExpired \<equiv> Err ''event cursor expired''"

text \<open>Events whose encodings fit a response together; \<open>json_len\<close> is the length of the JSON of an event.\<close>

fun fitting :: "(event \<Rightarrow> int option) \<Rightarrow> int \<Rightarrow> event list \<Rightarrow> event list result" where
  "fitting json_len used [] = Inr []"
| "fitting json_len used (e # es) =
     (case json_len e of
        None \<Rightarrow> Inl (Err ''json: unsupported value'')
      | Some b \<Rightarrow> if used + b > 8388608 then Inr [] else bindE (fitting json_len (used + b) es) (\<lambda>r. Inr (e # r)))"

definition fresh_event_cursor :: "string \<Rightarrow> string \<Rightarrow> event_cursor" where
  "fresh_event_cursor store ident = \<lparr>ec_version = 1, ec_store = store, ec_watch = ident, ec_after = 0\<rparr>"

definition checked_cursor :: "string \<Rightarrow> string \<Rightarrow> cursor_text \<Rightarrow> ret_state \<Rightarrow> event_cursor result" where
  "checked_cursor store ident cursor s =
     (case cursor of
        NoCursor \<Rightarrow> Inr (fresh_event_cursor store ident)
      | Undecodable \<Rightarrow> Inl ErrCursor
      | Decoded c \<Rightarrow>
          if ec_version c \<noteq> 1 \<or> ec_store c \<noteq> store \<or> ec_watch c \<noteq> ident \<or> ec_after c < 0 \<or> ec_after c > db_event_sequence (rs_db s) then Inl ErrCursor
          else if ec_after c < rs_floor s ident then Inl ErrCursorExpired
          else Inr c)"

definition EventPage :: "(event \<Rightarrow> int option) \<Rightarrow> string \<Rightarrow> string \<Rightarrow> cursor_text \<Rightarrow> int \<Rightarrow> ret_state \<Rightarrow> event_page result" where
  "EventPage json_len store ident cursor limit s =
     (if limit < 1 \<or> limit > 1000 then Inl ErrCursor
      else bindE (checked_cursor store ident cursor s) (\<lambda>c.
           bindE (Events (rs_db s) ident (ec_after c) limit) (\<lambda>events.
           bindE (fitting json_len 0 events) (\<lambda>listed.
           let more = (int (length events) = limit \<or> length listed < length events);
               after = (if \<not> more then db_event_sequence (rs_db s) else if listed = [] then ec_after c else e_sequence (last listed)) in
           Inr \<lparr>ep_events = listed, ep_cursor = c\<lparr>ec_after := after\<rparr>, ep_more = more\<rparr>))))"

section \<open>The history of events\<close>

text \<open>All events that were ever stored, and the state after storing them, deleting any of them and other
  changes.\<close>

inductive feed :: "(int \<times> event) list \<Rightarrow> ret_state \<Rightarrow> bool" where
  start: "db_events (rs_db s) = [] \<Longrightarrow> db_event_sequence (rs_db s) = 0 \<Longrightarrow> rs_floor s = (\<lambda>_. 0) \<Longrightarrow> feed [] s"
| appended: "feed past s \<Longrightarrow> AppendEvent e (rs_db s) = Inr (d, n) \<Longrightarrow> feed (past @ [(n, e)]) (s\<lparr>rs_db := d\<rparr>)"
| deleted: "feed past s \<Longrightarrow> feed past (delete_events gone s)"
| other: "feed past s \<Longrightarrow> db_events (rs_db s') = db_events (rs_db s) \<Longrightarrow> db_event_sequence (rs_db s') = db_event_sequence (rs_db s) \<Longrightarrow>
    rs_floor s' = rs_floor s \<Longrightarrow> feed past s'"

definition of_watch :: "string \<Rightarrow> event \<Rightarrow> bool" where
  "of_watch ident e \<longleftrightarrow> ident = '''' \<or> e_watch_id e = ident"

text \<open>The floor of a watch is the highest deleted sequence of it.\<close>

definition floors_ok :: "(int \<times> event) list \<Rightarrow> ret_state \<Rightarrow> bool" where
  "floors_ok past s \<longleftrightarrow>
     sorted_wrt (<) (map fst past) \<and> (\<forall>q \<in> set past. 0 < fst q \<and> fst q \<le> db_event_sequence (rs_db s)) \<and> 0 \<le> db_event_sequence (rs_db s) \<and>
     db_events (rs_db s) = filter (\<lambda>q. q \<in> set (db_events (rs_db s))) past \<and>
     (\<forall>q \<in> set past. \<forall>i. q \<notin> set (db_events (rs_db s)) \<longrightarrow> of_watch i (snd q) \<longrightarrow> fst q \<le> rs_floor s i) \<and>
     (\<forall>i. rs_floor s i \<noteq> 0 \<longrightarrow> (\<exists>q \<in> set past. q \<notin> set (db_events (rs_db s)) \<and> of_watch i (snd q) \<and> fst q = rs_floor s i))"

section \<open>Floors\<close>

lemma raise_floor_at: "raise_floor q f i = (if of_watch i (snd q) then max (f i) (fst q) else f i)"
  by (auto simp: of_watch_def)

lemma floors_raised:
  "f i \<le> fold raise_floor xs f i \<and> (\<forall>q \<in> set xs. of_watch i (snd q) \<longrightarrow> fst q \<le> fold raise_floor xs f i) \<and>
   (fold raise_floor xs f i = f i \<or> (\<exists>q \<in> set xs. of_watch i (snd q) \<and> fst q = fold raise_floor xs f i))"
proof (induction xs arbitrary: f)
  case (Cons q xs)
  let ?f = "raise_floor q f"
  have f: "?f i = (if of_watch i (snd q) then max (f i) (fst q) else f i)" by (rule raise_floor_at)
  define g where "g = fold raise_floor xs ?f i"
  have IH: "?f i \<le> g" "\<And>r. r \<in> set xs \<Longrightarrow> of_watch i (snd r) \<Longrightarrow> fst r \<le> g" "g = ?f i \<or> (\<exists>r \<in> set xs. of_watch i (snd r) \<and> fst r = g)"
    using Cons.IH [of ?f] unfolding g_def by blast+
  have g: "fold raise_floor (q # xs) f i = g" unfolding g_def by simp
  have "f i \<le> ?f i" "of_watch i (snd q) \<Longrightarrow> fst q \<le> ?f i" "?f i = f i \<or> of_watch i (snd q) \<and> fst q = ?f i"
    unfolding f by (auto simp: max_def)
  then have "f i \<le> g" "of_watch i (snd q) \<Longrightarrow> fst q \<le> g" "g = f i \<or> of_watch i (snd q) \<and> fst q = g \<or> (\<exists>r \<in> set xs. of_watch i (snd r) \<and> fst r = g)"
    using IH(1,3) by (linarith, linarith, metis)
  then show ?case unfolding g using IH(2) by (metis set_ConsD list.set_intros)
qed simp

lemma floors_appended:
  assumes ok: "floors_ok past s" and a: "AppendEvent e (rs_db s) = Inr (d, n)"
  shows "floors_ok (past @ [(n, e)]) (s\<lparr>rs_db := d\<rparr>)"
proof -
  have n: "n = db_event_sequence (rs_db s) + 1" and d: "db_events d = db_events (rs_db s) @ [(n, e)]" "db_event_sequence d = n"
    using a by (auto elim!: AppendEvent_elim)
  note o = ok [unfolded floors_ok_def]
  have new: "(n, e) \<notin> set past" using o n by force
  have "filter (\<lambda>q. q \<in> set (db_events d)) (past @ [(n, e)]) = filter (\<lambda>q. q \<in> set (db_events (rs_db s))) past @ [(n, e)]"
    using new d(1) by (auto intro: filter_cong)
  then have "db_events d = filter (\<lambda>q. q \<in> set (db_events d)) (past @ [(n, e)])" using o d(1) by simp
  moreover have "sorted_wrt (<) (map fst (past @ [(n, e)]))" using o n by (force simp: sorted_wrt_append)
  moreover have "\<forall>q \<in> set (past @ [(n, e)]). 0 < fst q \<and> fst q \<le> n" using o n by force
  moreover have "\<forall>q \<in> set (past @ [(n, e)]). \<forall>i. q \<notin> set (db_events d) \<longrightarrow> of_watch i (snd q) \<longrightarrow> fst q \<le> rs_floor s i"
    using o d(1) by auto
  moreover have "\<exists>q \<in> set (past @ [(n, e)]). q \<notin> set (db_events d) \<and> of_watch i (snd q) \<and> fst q = rs_floor s i" if "rs_floor s i \<noteq> 0" for i
  proof -
    obtain q where q: "q \<in> set past" "q \<notin> set (db_events (rs_db s))" "of_watch i (snd q)" "fst q = rs_floor s i" using o \<open>rs_floor s i \<noteq> 0\<close> by blast
    then have "q \<noteq> (n, e)" using new by blast
    then show ?thesis using q d(1) by auto
  qed
  ultimately show ?thesis using o n by (simp add: floors_ok_def d(2))
qed

lemma floors_deleted:
  assumes ok: "floors_ok past s"
  shows "floors_ok past (delete_events gone s)"
proof -
  let ?es = "db_events (rs_db s)"
  let ?s = "delete_events gone s"
  have e: "db_events (rs_db ?s) = filter (\<lambda>q. \<not> gone q) ?es" "db_event_sequence (rs_db ?s) = db_event_sequence (rs_db s)"
    "rs_floor ?s = fold raise_floor (filter gone ?es) (rs_floor s)"
    by (simp_all add: delete_events_def Let_def)
  note o = ok [unfolded floors_ok_def]
  have sub: "set ?es \<subseteq> set past" using o by (metis filter_is_subset)
  have "filter (\<lambda>q. q \<in> set (filter (\<lambda>q. \<not> gone q) ?es)) past = filter (\<lambda>q. \<not> gone q) (filter (\<lambda>q. q \<in> set ?es) past)"
    by (auto intro: filter_cong)
  then have "filter (\<lambda>q. \<not> gone q) ?es = filter (\<lambda>q. q \<in> set (filter (\<lambda>q. \<not> gone q) ?es)) past" using o by simp
  moreover have "fst q \<le> rs_floor ?s i" if q: "q \<in> set past" "q \<notin> set (filter (\<lambda>q. \<not> gone q) ?es)" "of_watch i (snd q)" for q i
  proof (cases "q \<in> set ?es")
    case True
    then have "q \<in> set (filter gone ?es)" using q(2) by simp
    then show ?thesis using q(3) floors_raised [of "rs_floor s" i "filter gone ?es"] unfolding e(3) by blast
  next
    case False
    then have "fst q \<le> rs_floor s i" using o q by blast
    then show ?thesis using floors_raised [of "rs_floor s" i "filter gone ?es"] unfolding e(3) by linarith
  qed
  moreover have "\<exists>q \<in> set past. q \<notin> set (filter (\<lambda>q. \<not> gone q) ?es) \<and> of_watch i (snd q) \<and> fst q = rs_floor ?s i" if nz: "rs_floor ?s i \<noteq> 0" for i
  proof (cases "rs_floor ?s i = rs_floor s i")
    case True
    then have "rs_floor s i \<noteq> 0" using nz by simp
    then obtain q where "q \<in> set past" "q \<notin> set ?es" "of_watch i (snd q)" "fst q = rs_floor s i" using o by blast
    then show ?thesis using True by auto
  next
    case False
    then obtain q where "q \<in> set (filter gone ?es)" "of_watch i (snd q)" "fst q = rs_floor ?s i"
      using floors_raised [of "rs_floor s" i "filter gone ?es"] unfolding e(3) by blast
    then show ?thesis using sub by auto
  qed
  ultimately show ?thesis using o unfolding floors_ok_def e(1,2) by blast
qed

lemma feed_floors: "feed past s \<Longrightarrow> floors_ok past s"
proof (induction rule: feed.induct)
  case (start s)
  then show ?case by (simp add: floors_ok_def)
next
  case (appended past s e d n)
  then show ?case by (simp add: floors_appended)
next
  case (deleted past s gone)
  then show ?case by (simp add: floors_deleted)
next
  case (other past s s')
  then show ?case by (simp add: floors_ok_def)
qed

section \<open>A page is a stretch of the history\<close>

lemma fitting_prefix: "fitting json_len used es = Inr r \<Longrightarrow> \<exists>k. r = take k es"
proof (induction json_len used es arbitrary: r rule: fitting.induct)
  case (2 json_len used e es)
  show ?case
  proof (cases "json_len e")
    case None
    then show ?thesis using 2 by simp
  next
    case (Some b)
    show ?thesis
    proof (cases "used + b > 8388608")
      case True
      then have "r = take 0 (e # es)" using 2(2) Some by simp
      then show ?thesis by blast
    next
      case False
      then obtain r' where r': "fitting json_len (used + b) es = Inr r'" "r = e # r'" using 2(2) Some by auto
      obtain k where "r' = take k es" using 2(1) [OF Some False r'(1)] by blast
      then have "r = take (Suc k) (e # es)" by (simp add: r'(2))
      then show ?thesis by blast
    qed
  qed
qed simp

text \<open>In a list in key order, what is not beyond the last of a prefix is the prefix.\<close>

lemma prefix_upto:
  fixes xs :: "(int \<times> 'a) list"
  assumes "sorted_wrt (<) (map fst xs)" "take k xs \<noteq> []"
  shows "filter (\<lambda>q. fst q \<le> fst (last (take k xs))) xs = take k xs"
proof -
  let ?l = "last (take k xs)"
  have s: "sorted_wrt (<) (map fst (take k xs @ drop k xs))" using assms(1) by simp
  have "fst q \<le> fst ?l" if "q \<in> set (take k xs)" for q
  proof -
    have "sorted_wrt (<) (map fst (take k xs))" using s by (simp only: map_append sorted_wrt_append)
    then have "sorted_wrt (<) (map fst (butlast (take k xs) @ [?l]))" using assms(2) by (simp only: append_butlast_last_id not_False_eq_True)
    moreover have "q \<in> set (butlast (take k xs)) \<or> q = ?l" using that assms(2) by (metis append_butlast_last_id in_set_conv_decomp_last rotate1.simps(2) set_ConsD set_rotate1)
    ultimately show ?thesis by (force simp: sorted_wrt_append)
  qed
  then have "filter (\<lambda>q. fst q \<le> fst ?l) (take k xs) = take k xs" by (simp add: filter_id_conv)
  moreover have "fst ?l < fst q" if "q \<in> set (drop k xs)" for q
  proof -
    have "\<forall>a \<in> set (map fst (take k xs)). \<forall>b \<in> set (map fst (drop k xs)). a < b" using s unfolding map_append sorted_wrt_append by blast
    then show ?thesis using last_in_set [OF assms(2)] that by simp
  qed
  then have "filter (\<lambda>q. fst q \<le> fst ?l) (drop k xs) = []" by (simp add: filter_empty_conv not_le)
  ultimately show ?thesis by (metis append.right_neutral append_take_drop_id filter_append)
qed

definition stamp :: "int \<times> event \<Rightarrow> event" where
  "stamp q = (snd q)\<lparr>e_sequence := fst q\<rparr>"

text \<open>The events of a watch after one sequence and up to another.\<close>

definition stretch :: "string \<Rightarrow> int \<Rightarrow> int \<Rightarrow> (int \<times> event) list \<Rightarrow> (int \<times> event) list" where
  "stretch ident a b past = filter (\<lambda>q. a < fst q \<and> fst q \<le> b \<and> of_watch ident (snd q)) past"

lemma stored_stretch:
  assumes ok: "floors_ok past s" and a: "rs_floor s ident \<le> a"
  shows "filter (\<lambda>q. a < fst q \<and> of_watch ident (snd q)) (db_events (rs_db s)) = filter (\<lambda>q. a < fst q \<and> of_watch ident (snd q)) past"
proof -
  let ?P = "\<lambda>q. a < fst q \<and> of_watch ident (snd q)" and ?es = "db_events (rs_db s)"
  have "filter ?P ?es = filter ?P (filter (\<lambda>q. q \<in> set ?es) past)" using ok by (simp add: floors_ok_def)
  also have "\<dots> = filter (\<lambda>q. ?P q \<and> q \<in> set ?es) past" by (simp add: conj_commute)
  also have "\<dots> = filter ?P past"
  proof (rule filter_cong [OF refl])
    fix q assume "q \<in> set past"
    then show "?P q \<and> q \<in> set ?es \<longleftrightarrow> ?P q" using ok a unfolding floors_ok_def by (metis leD order_trans)
  qed
  finally show ?thesis .
qed

lemma EventPage_elim:
  assumes "EventPage json_len store ident (Decoded c) limit s = Inr page"
  obtains events listed where "1 \<le> limit" "rs_floor s ident \<le> ec_after c" "Events (rs_db s) ident (ec_after c) limit = Inr events"
    "fitting json_len 0 events = Inr listed" "ep_events page = listed" "ep_more page \<longleftrightarrow> int (length events) = limit \<or> length listed < length events"
    "ec_after (ep_cursor page) =
      (if \<not> ep_more page then db_event_sequence (rs_db s) else if listed = [] then ec_after c else e_sequence (last listed))"
proof -
  have g: "\<not> (limit < 1 \<or> limit > 1000)" using assms by (auto simp: EventPage_def split: if_splits)
  note e = assms [unfolded EventPage_def if_not_P [OF g]]
  from e obtain c' where c': "checked_cursor store ident (Decoded c) s = Inr c'" by (cases "checked_cursor store ident (Decoded c) s") auto
  then have c: "c' = c" "rs_floor s ident \<le> ec_after c" by (auto simp: checked_cursor_def split: if_splits)
  from e obtain events where ev: "Events (rs_db s) ident (ec_after c) limit = Inr events" unfolding c' c(1) bindE.simps by auto
  from e obtain listed where l: "fitting json_len 0 events = Inr listed" unfolding c' c(1) bindE.simps ev by auto
  show thesis by (rule that [OF _ c(2) ev l]) (use e g in \<open>auto simp: c' c(1) ev l Let_def\<close>)
qed

lemma page_lists:
  assumes ok: "floors_ok past s" and p: "EventPage json_len store ident (Decoded c) limit s = Inr page"
  shows "ep_events page = map stamp (stretch ident (ec_after c) (ec_after (ep_cursor page)) past)"
  using p
proof (rule EventPage_elim)
  fix events listed
  assume lim: "1 \<le> limit" and fl: "rs_floor s ident \<le> ec_after c" and ev: "Events (rs_db s) ident (ec_after c) limit = Inr events"
    and l: "fitting json_len 0 events = Inr listed" and pg: "ep_events page = listed" and more: "ep_more page \<longleftrightarrow> int (length events) = limit \<or> length listed < length events"
    and after: "ec_after (ep_cursor page) =
      (if \<not> ep_more page then db_event_sequence (rs_db s) else if listed = [] then ec_after c else e_sequence (last listed))"
  let ?xs = "filter (\<lambda>q. ec_after c < fst q \<and> of_watch ident (snd q)) past"
  have es: "events = map stamp (take (nat limit) ?xs)"
    using ev stored_stretch [OF ok fl] by (auto simp: Events_def stamp_def of_watch_def case_prod_beta' split: if_splits)
  obtain k where "listed = take k events" using fitting_prefix [OF l] by blast
  then have k: "listed = map stamp (take (min k (nat limit)) ?xs)" by (simp add: es take_map)
  let ?ys = "take (min k (nat limit)) ?xs"
  have st: "stretch ident (ec_after c) b past = filter (\<lambda>q. fst q \<le> b) ?xs" for b by (auto simp: stretch_def intro: filter_cong)
  consider (all) "\<not> ep_more page" | (none) "ep_more page" "?ys = []" | (some) "ep_more page" "?ys \<noteq> []" by blast
  then have "filter (\<lambda>q. fst q \<le> ec_after (ep_cursor page)) ?xs = ?ys"
  proof cases
    case all
    have "\<forall>q \<in> set ?xs. fst q \<le> db_event_sequence (rs_db s)" using ok by (auto simp: floors_ok_def)
    then have "filter (\<lambda>q. fst q \<le> ec_after (ep_cursor page)) ?xs = ?xs" unfolding filter_id_conv using all by (simp add: after)
    moreover have "length ?ys = length (take (nat limit) ?xs)" "length (take (nat limit) ?xs) < nat limit"
      using all more lim by (auto simp: k es)
    then have "?ys = ?xs" by (auto simp: min_def split: if_splits)
    ultimately show ?thesis by simp
  next
    case none
    then show ?thesis by (auto simp: after k filter_empty_conv)
  next
    case some
    have "sorted_wrt (<) (map fst ?xs)" using ok by (simp add: floors_ok_def sorted_wrt_map sorted_wrt_filter)
    from prefix_upto [OF this some(2)] have "filter (\<lambda>q. fst q \<le> fst (last ?ys)) ?xs = ?ys" .
    moreover have "e_sequence (last listed) = fst (last ?ys)" unfolding k last_map [OF some(2)] by (simp add: stamp_def)
    then have "ec_after (ep_cursor page) = fst (last ?ys)" using some unfolding after k by (simp del: take_eq_Nil take_eq_Nil2)
    ultimately show ?thesis by simp
  qed
  then show ?thesis unfolding st pg k by simp
qed

lemma expired_iff:
  assumes ok: "floors_ok past s" and "0 \<le> a"
  shows "a < rs_floor s ident \<longleftrightarrow> (\<exists>q \<in> set past. q \<notin> set (db_events (rs_db s)) \<and> of_watch ident (snd q) \<and> a < fst q)"
proof
  assume a: "a < rs_floor s ident"
  then have "rs_floor s ident \<noteq> 0" using assms(2) by simp
  then show "\<exists>q \<in> set past. q \<notin> set (db_events (rs_db s)) \<and> of_watch ident (snd q) \<and> a < fst q" using ok a unfolding floors_ok_def by metis
next
  assume "\<exists>q \<in> set past. q \<notin> set (db_events (rs_db s)) \<and> of_watch ident (snd q) \<and> a < fst q"
  then show "a < rs_floor s ident" using ok unfolding floors_ok_def by (meson less_le_trans)
qed

text \<open>C8: A reader of the event feed never misses an event without being told. Whatever was stored and deleted
  meanwhile, a page that is returned for a cursor lists exactly the events of the watch that were ever stored
  between the cursor and the next cursor, in order; the next cursor is the newest sequence unless there is
  more. The cursor is refused as expired exactly when one of the events after it has been deleted.\<close>

theorem feed_never_skips:
  assumes "feed past s"
  shows "(case EventPage json_len store ident (Decoded c) limit s of
       Inr page \<Rightarrow> ep_events page = map stamp (stretch ident (ec_after c) (ec_after (ep_cursor page)) past) \<and>
         (\<not> ep_more page \<longrightarrow> ec_after (ep_cursor page) = db_event_sequence (rs_db s))
     | Inl _ \<Rightarrow> True) \<and>
    (checked_cursor store ident (Decoded c) s = Inl ErrCursorExpired \<longleftrightarrow>
       ec_version c = 1 \<and> ec_store c = store \<and> ec_watch c = ident \<and> 0 \<le> ec_after c \<and> ec_after c \<le> db_event_sequence (rs_db s) \<and>
       (\<exists>q \<in> set past. q \<notin> set (db_events (rs_db s)) \<and> of_watch ident (snd q) \<and> ec_after c < fst q))"
proof -
  have ok: "floors_ok past s" using assms by (rule feed_floors)
  have "ep_events page = map stamp (stretch ident (ec_after c) (ec_after (ep_cursor page)) past) \<and>
      (\<not> ep_more page \<longrightarrow> ec_after (ep_cursor page) = db_event_sequence (rs_db s))"
    if p: "EventPage json_len store ident (Decoded c) limit s = Inr page" for page
    using page_lists [OF ok p] p by (elim EventPage_elim) simp
  then show ?thesis using expired_iff [OF ok, of "ec_after c" ident] by (auto simp: checked_cursor_def split: sum.split)
qed

section \<open>Retention and the feed\<close>

text \<open>A retention batch changes events only by deleting them.\<close>

lemma feed_direct: "feed past s \<Longrightarrow> db_events (fst (f (rs_db s))) = db_events (rs_db s) \<Longrightarrow>
    db_event_sequence (fst (f (rs_db s))) = db_event_sequence (rs_db s) \<Longrightarrow> feed past (fst (direct f s))"
  by (erule feed.other; cases "f (rs_db s)") (simp_all add: direct_def)

lemma feed_cursor [simp]:
  "feed past (s\<lparr>rs_events := a\<rparr>) = feed past s" "feed past (s\<lparr>rs_observations := a\<rparr>) = feed past s" "feed past (s\<lparr>rs_watches := b\<rparr>) = feed past s"
  "feed past (s\<lparr>rs_revisions := c\<rparr>) = feed past s" "feed past (s\<lparr>rs_destinations := c\<rparr>) = feed past s"
  by (auto intro: feed.other)

lemma feed_sweeps:
  assumes "feed past s"
  shows "sweep_events ks s = Inr s' \<Longrightarrow> feed past s'" "sweep_observations ks s = Inr s' \<Longrightarrow> feed past s'" "sweep_watches ws s = Inr s' \<Longrightarrow> feed past s'"
    "sweep_revisions rs s = Inr s' \<Longrightarrow> feed past s'" "sweep_destinations rs s = Inr s' \<Longrightarrow> feed past s'"
proof -
  show "sweep_events ks s = Inr s' \<Longrightarrow> feed past s'" using feed.deleted [OF assms] by (auto simp: sweep_events_def)
  show "sweep_observations ks s = Inr s' \<Longrightarrow> feed past s'" by (rule feed.other [OF assms]) (auto simp: sweep_observations_def Let_def)
  show "sweep_watches ws s = Inr s' \<Longrightarrow> feed past s'" by (rule feed.other [OF assms]) (auto simp: sweep_watches_def Let_def split: if_splits)
  show "sweep_revisions rs s = Inr s' \<Longrightarrow> feed past s'" by (rule feed.other [OF assms]) (auto simp: sweep_revisions_def Let_def)
  show "sweep_destinations rs s = Inr s' \<Longrightarrow> feed past s'" by (rule feed.other [OF assms]) (auto simp: sweep_destinations_def Let_def)
qed

lemma feed_families:
  assumes "feed past s" "families pass cutoff limit s = Inr (s', n)"
  shows "feed past s'"
  using assms(2)
proof (rule families_elim)
  fix s1 n1 s2 n2 s3 n3 s4 n4 n5
  assume f: "family_events pass cutoff limit s = Inr (s1, n1)" "family_observations pass cutoff limit s1 = Inr (s2, n2)"
    "family_watches pass cutoff limit s2 = Inr (s3, n3)" "family_revisions pass cutoff limit s3 = Inr (s4, n4)"
    "family_destinations pass cutoff limit s4 = Inr (s', n5)"
  have 1: "feed past s1" by (rule fam_events.step_invariant [where I = "feed past", OF f(1) assms(1)]) (auto intro: feed_sweeps [OF assms(1)])
  have 2: "feed past s2" by (rule fam_observations.step_invariant [where I = "feed past", OF f(2) 1]) (auto intro: feed_sweeps [OF 1])
  have 3: "feed past s3" by (rule fam_watches.step_invariant [where I = "feed past", OF f(3) 2]) (auto intro: feed_sweeps [OF 2])
  have 4: "feed past s4" by (rule fam_revisions.step_invariant [where I = "feed past", OF f(4) 3]) (auto intro: feed_sweeps [OF 3])
  show "feed past s'" by (rule fam_destinations.step_invariant [where I = "feed past", OF f(5) 4]) (auto intro: feed_sweeps [OF 4])
qed

lemma feed_retained:
  assumes "feed past s" "RetainBatch cutoff now limit pass s = Inr (s', n)"
  shows "feed past s'"
  using assms(2)
proof (rule RetainBatch_elim)
  fix s1 n1 s2 n2 s3 n3 s4 n4 s5 n5 n6
  let ?c = "timestamp cutoff" and ?n = "timestamp now" and ?l = "nat limit"
  assume s: "direct (batch_input_receipts ?n ?l) s = (s1, n1)" "direct (batch_push_receipts ?n ?l) s1 = (s2, n2)"
    "direct (batch_backoff ?n ?l) s2 = (s3, n3)" "direct (batch_outbox ?c ?l) s3 = (s4, n4)"
    "families pass ?c ?l s4 = Inr (s5, n5)" "direct (batch_streams ?l) s5 = (s', n6)"
  have "feed past s1" using feed_direct [OF assms(1), of "batch_input_receipts ?n ?l"] by (simp add: s(1) batch_input_receipts_def Let_def)
  from feed_direct [OF this, of "batch_push_receipts ?n ?l"] have "feed past s2" by (simp add: s(2) batch_push_receipts_def Let_def)
  from feed_direct [OF this, of "batch_backoff ?n ?l"] have "feed past s3" by (simp add: s(3) batch_backoff_def Let_def)
  from feed_direct [OF this, of "batch_outbox ?c ?l"] have "feed past s4" by (simp add: s(4) batch_outbox_def Let_def)
  from feed_families [OF this s(5)] have "feed past s5" .
  from feed_direct [OF this, of "batch_streams ?l"] show "feed past s'" by (simp add: s(6) batch_streams_def Let_def)
qed

section \<open>A concrete feed\<close>

definition ex_feed_state :: ret_state where
  "ex_feed_state = \<lparr>rs_db = ex_db, rs_handoffs = [], rs_created = (\<lambda>_. 1),
     rs_floor = (\<lambda>_. 0), rs_events = None, rs_observations = None, rs_watches = None, rs_revisions = None, rs_destinations = None,
     rs_logs = (\<lambda>_. None), rs_entity = ([], [])\<rparr>"

definition ex_feed_event :: "string \<Rightarrow> event" where
  "ex_feed_event i = \<lparr>e_id = i, e_sequence = 0, e_watch_id = ''api-health'', e_revision = ''r1'', e_entity = [], e_type = ''firing'', e_at = 0,
     e_message = [], e_fields = [], e_evidence = []\<rparr>"

definition ex_add :: "event \<Rightarrow> ret_state \<Rightarrow> ret_state" where
  "ex_add e s = (case AppendEvent e (rs_db s) of Inr (d, _) \<Rightarrow> s\<lparr>rs_db := d\<rparr> | Inl _ \<Rightarrow> s)"

text \<open>Three events, the first of which is deleted again.\<close>

definition ex_stored :: ret_state where
  "ex_stored = ex_add (ex_feed_event ''c'') (ex_add (ex_feed_event ''b'') (ex_add (ex_feed_event ''a'') ex_feed_state))"

definition ex_feed :: ret_state where
  "ex_feed = delete_events (\<lambda>q. fst q = 1) ex_stored"

definition ex_feed_cursor :: "int \<Rightarrow> event_cursor" where
  "ex_feed_cursor n = (fresh_event_cursor ''s'' ''api-health'')\<lparr>ec_after := n\<rparr>"

lemma feed_add: "feed past s \<Longrightarrow> \<exists>past'. feed past' (ex_add e s) \<and> set past \<subseteq> set past'"
  by (cases "AppendEvent e (rs_db s)") (auto simp: ex_add_def split: prod.split intro!: feed.appended exI)

lemma ex_feed_fed: "\<exists>past. feed past ex_feed"
proof -
  have "feed [] ex_feed_state" by (rule feed.start) (simp_all add: ex_feed_state_def ex_db_def empty_db_def)
  then show ?thesis unfolding ex_feed_def ex_stored_def using feed_add feed.deleted by metis
qed

lemma ex_feed_pages:
  "case EventPage (\<lambda>_. Some 100) ''s'' ''api-health'' (Decoded (ex_feed_cursor 1)) 1 ex_feed of
     Inr page \<Rightarrow> map e_id (ep_events page) = [''b''] \<and> ep_more page \<and> ec_after (ep_cursor page) = 2 | Inl _ \<Rightarrow> False"
  "checked_cursor ''s'' ''api-health'' (Decoded (ex_feed_cursor 0)) ex_feed = Inl ErrCursorExpired"
  by code_simp+

theorem feed_never_skips_witness:
  "\<exists>past page. feed past ex_feed \<and> EventPage (\<lambda>_. Some 100) ''s'' ''api-health'' (Decoded (ex_feed_cursor 1)) 1 ex_feed = Inr page \<and>
     map e_id (ep_events page) = [''b''] \<and> ep_events page = map stamp (stretch ''api-health'' 1 2 past) \<and>
     checked_cursor ''s'' ''api-health'' (Decoded (ex_feed_cursor 0)) ex_feed = Inl ErrCursorExpired \<and>
     (\<exists>q. q \<in> set past \<and> q \<notin> set (db_events (rs_db ex_feed)) \<and> 0 < fst q)"
proof -
  obtain past where f: "feed past ex_feed" using ex_feed_fed by blast
  obtain page where p: "EventPage (\<lambda>_. Some 100) ''s'' ''api-health'' (Decoded (ex_feed_cursor 1)) 1 ex_feed = Inr page"
    "map e_id (ep_events page) = [''b'']" "ec_after (ep_cursor page) = 2" using ex_feed_pages(1) by (auto split: sum.splits)
  have c: "ec_after (ex_feed_cursor n) = n" for n by (simp add: ex_feed_cursor_def)
  have "ep_events page = map stamp (stretch ''api-health'' 1 2 past)"
    using feed_never_skips [OF f, where json_len = "\<lambda>_. Some 100" and store = "''s''" and ident = "''api-health''" and c = "ex_feed_cursor 1" and limit = 1] by (simp add: p(1,3) c)
  moreover have "\<exists>q. q \<in> set past \<and> q \<notin> set (db_events (rs_db ex_feed)) \<and> 0 < fst q"
    using feed_never_skips [OF f, where json_len = "\<lambda>_. Some 100" and store = "''s''" and ident = "''api-health''" and c = "ex_feed_cursor 0" and limit = 1] ex_feed_pages(2) unfolding c by blast
  ultimately show ?thesis using f p(1,2) ex_feed_pages(2) by (intro exI [of _ past] exI [of _ page] conjI) assumption+
qed

end
