(* ===== verification/Spec2Isabelle.thy ===== *)
theory Spec2Isabelle
  imports Transition_Progress Log_Collector Plan_Manifest Delivery_Laws Acceptance_Results Replay_Evidence Service_Laws Maintenance_View Event_Feed
begin

text \<open>
  Verification of the core of \<open>ding\<close>, a daemon that polls or receives observations, evaluates the conditions of
  user-defined watches on them, and delivers the resulting events to destinations. The sources are in Go, under
  \<open>src/internal\<close>; everything the daemon must not forget is in an SQL database.

  \<^bold>\<open>The program and how its parts interact.\<close> A manifest is parsed and compiled (\<open>plan\<close>) to watches and destinations
  in canonical form. Applying it stores revisions and arms timers (\<open>watchrun/app.go\<close>). A batch of observations,
  polled, pushed, from a log or from a timer, is accepted in one transaction (\<open>App.acceptPush\<close>): the watch read
  before must still be the stored one, the push receipt or input receipt answers a repetition, observations get
  sequences, each is routed to the entities of the watch (\<open>condition/routing.go\<close>), whose states the evaluator
  advances (\<open>condition/transition.go\<close>), and each event is stored with a checkpoint for replay and queued for its
  destinations (\<open>store/outbox.go\<close>). Workers claim a delivery under a lease, attempt it and acknowledge the outcome
  (\<open>watchrun/workers.go\<close>, \<open>delivery/http.go\<close>). Users pause, resume, delete and purge watches
  (\<open>watchrun/lifecycle.go\<close>); jumps of the clock re-arm everything (\<open>watchrun/clock.go\<close>); maintenance trims entities
  and removes history (\<open>watchrun/maintenance.go\<close>, \<open>store/retention_sweep.go\<close>); readers follow the events by pages
  with a cursor (\<open>store/inspection.go\<close>).

  \<^bold>\<open>Theories and sources.\<close>
  \<^item> \<open>Ding_Prelude\<close>, \<open>Float64\<close>, \<open>Go_Duration\<close>, \<open>Go_Regexp\<close>, \<open>Json_Value\<close>, \<open>Json_Parse\<close>: what the program uses of Go:
    results with errors, time, strings, binary64 arithmetic, durations, the program's own regular expressions, JSON.
  \<^item> \<open>Step_Machine\<close>, \<open>Keyed_Table\<close>: the shared interfaces. Locales for step functions whose runs keep an invariant,
    alternate, or keep a distance, and for tables with a primary key.
  \<^item> \<open>Watch_Types\<close> (\<open>watch/types.go\<close>, \<open>watch/logs.go\<close>), \<open>Numeric_Condition\<close> (\<open>condition/numeric.go\<close>), \<open>Transition\<close>
    (\<open>condition/transition.go\<close>, \<open>signals.go\<close>, \<open>routing.go\<close>): the evaluator, \<open>Evaluate\<close> with all its branches over the
    record \<open>cstate\<close>. Laws in \<open>Transition_Laws\<close>, \<open>Transition_Runs\<close>, \<open>Transition_Progress\<close>.
  \<^item> \<open>Log_Framing\<close> (\<open>logs/frame.go\<close>, \<open>multiline.go\<close>), \<open>Log_Window\<close> (\<open>window.go\<close>, \<open>summary.go\<close>), \<open>Log_Classify\<close>
    (\<open>classify.go\<close>), \<open>Log_Collector\<close> (\<open>collector.go\<close>, \<open>stats.go\<close>): the log pipeline, each with its laws.
  \<^item> \<open>Plan_Compile\<close> (\<open>plan/compile.go\<close>, \<open>plan/logs.go\<close>); laws in \<open>Plan_Laws\<close>, \<open>Plan_Manifest\<close>.
  \<^item> \<open>Outbox\<close> (\<open>store/outbox.go\<close>, manual retry and cancellation of \<open>store/lifecycle.go\<close>, with the triggers of the
    schema); laws in \<open>Outbox_Laws\<close>, \<open>Delivery_Order\<close>. \<open>Delivery\<close> (\<open>delivery/http.go\<close>, \<open>App.DeliverOne\<close>); laws in
    \<open>Delivery_Laws\<close>.
  \<^item> \<open>Push_Receipts\<close> (\<open>store/push.go\<close> with the triggers of \<open>schema8.sql\<close>) and its laws.
  \<^item> \<open>Store_State\<close> (\<open>store/records.go\<close>, \<open>runtime.go\<close>, \<open>lifecycle.go\<close>, \<open>inspection.go\<close>, \<open>entity_*.go\<close>,
    \<open>observation_batch.go\<close>): the record \<open>db\<close>, a list of rows in key order per table, and the operations of a
    transaction on it.
  \<^item> \<open>Acceptance\<close> (\<open>App.acceptPush\<close>, \<open>watchrun/acceptance_entities.go\<close>, \<open>jitter.go\<close>, \<open>push.go\<close>); laws in
    \<open>Acceptance_Cache\<close>, \<open>Acceptance_Laws\<close>, \<open>Acceptance_Results\<close>. \<open>Replay_Evidence\<close> (package \<open>replay\<close>,
    \<open>App.Evidence\<close>) and its laws.
  \<^item> \<open>Watch_Lifecycle\<close> (\<open>App.apply\<close>, \<open>watchrun/lifecycle.go\<close>, \<open>clock.go\<close>, \<open>review.go\<close>, \<open>access.go\<close>,
    \<open>store/purge.go\<close>); laws in \<open>Lifecycle_Laws\<close> and \<open>Runtime_Laws\<close>, which defines \<open>runtime_step\<close>, one step of the
    runtime on the database.
  \<^item> \<open>Retention\<close> (\<open>store/retention_*.go\<close>, \<open>statements_retention_*.go\<close>, \<open>maintenance_page.go\<close>,
    \<open>watchrun/maintenance.go\<close>); laws in \<open>Retention_Laws\<close>, \<open>Retention_Safety\<close>, \<open>Maintenance_Laws\<close>, which defines
    \<open>service_step\<close>, a step of the runtime or a run of maintenance, \<open>Maintenance_View\<close> and \<open>Service_Laws\<close>.
    \<open>Event_Feed\<close> (\<open>EventPage\<close>) and its laws.
  \<^item> \<open>Example_Watch\<close>, \<open>Example_Store\<close>: the concrete watches and databases on which properties are evaluated.

  \<^bold>\<open>What is shown.\<close>
  \<^item> The evaluator: incidents and source health alternate over every sequence of observations; incidents open and close
    exactly after the configured number of decided observations; undecided ones change nothing of an incident; level
    and signal events keep their distance; identifiers are deduplicated; states stay bounded; event identities are
    digests of distinct documents.
  \<^item> The store and the runtime: every database that the runtime, or the runtime and maintenance together, reach from
    the empty one keeps keys, references, pins and the invariants of queue and receipts. A generation fences stale inputs
    for as long as the watch is in the database. (Retention removes a deleted watch after a while; one that is created
    anew under its name starts with generation 1 again, as the lifecycle contract documents.) A purge is final, except
    for the receipts of pushed requests, which it keeps.
  \<^item> Acceptance: it is idempotent, keeps the limits, and the entity cache is invisible. The checkpoints of events whose
    inputs are JSON values reproduce their events.
  \<^item> The queue: claims in order and fair, a lease is acknowledged at most once and only while it stands, attempts and
    retry times bounded, shutdown included.
  \<^item> Maintenance: it always returns, removes nothing that is needed, leaves nothing that has expired, does not disturb
    the entities it keeps, and a reader of the events notices every deletion.
  \<^item> Logs: lines are framed independently of the write boundaries, complete summaries count exactly the records of
    their window, no record is lost without being counted, overlapping patterns resolve to the highest severity.
  \<^item> Plans: compilation is idempotent and its results are accepted by the evaluator.

  \<^bold>\<open>Termination.\<close> No definition has fuel. Recursion is structural or has a measure; the loops of maintenance, which
  repeat until nothing is left, are partial functions into \<open>option\<close> and shown to return for every database with
  integrity and every clock.

  \<^bold>\<open>Parameters.\<close> Code outside the repository is an argument of the definitions: SHA-256 and the identities made with it,
  text templates, user-written regular expressions, YAML, URL and jq parsing, the JSON encoding of whole documents and its
  length, HTTP responses and notifiers, random numbers, the grants of accounts, and the number of bytes of the database.
  What is assumed of them is stated with each theorem: a digest is not the empty string (\<open>digests\<close>), random numbers are not
  negative, claims draw distinct tokens, and an event with JSON fields can be encoded. The witnesses use the environment
  \<open>ex_digest_env\<close> and others like it, in which this holds.

  \<^bold>\<open>Where the model departs from the code.\<close>
  \<^item> A \<open>time.Time\<close> is one integer of nanoseconds. Go keeps a monotonic and a wall reading (\<open>Window.AddFrom\<close>
    compares the first and numbers seconds with the second), and \<open>UnixNano\<close>, which the store writes, is exact from 1678 to
    2262 only.
  \<^item> Definitions are copied through JSON by the compiler and the evaluator; the copy is the identity on valid UTF-8, and
    the model does not replace invalid bytes. A stored checkpoint comes back with the fields of its input normalised
    (\<open>decoded\<close>); its state and the stored event consist of strings, integers and times and come back as they were.
  \<^item> A transaction is a function on the database that fails as a whole; two transactions do not overlap, as SQLite
    has one writer. The worker of a log collector takes a record out of the queue and counts it in one step.
  \<^item> The query on destinations of a workspace also counts those of pending deliveries; since destinations are never
    deleted, \<open>destinations_within\<close> counts the current ones.
  \<^item> Deadlines of contexts, and failures of the database other than violated constraints, do not occur.

  \<^bold>\<open>Not modelled.\<close> The PostgreSQL dialect, queries that only read for the console, audit records, integrations and their
  grants, transfers between servers (except that retention meets their rows), the threads around the modelled operations,
  reading of files, processes and the network, rendering of payloads, jq programs, the control API, the command line, the
  MCP server, the hosted service, installation and update: glue, I/O, or code of third parties.
\<close>

end
